(* ===== verification/Prelude.thy ===== *)
theory Prelude
  imports Main "HOL-Library.Word"
begin

text \<open>
  Shared vocabulary of the development: the model's types for Go's bytes, strings, times and
  fallible results, 64-bit signed wrap-around, and the generic lemmas on lists and options that
  the component theories use. Go's \<^verbatim>\<open>string\<close> is a sequence of bytes, so it is Isabelle's
  \<^typ>\<open>string\<close> (a character is a byte); \<^verbatim>\<open>[]byte\<close> is a list of 8-bit words; an instant
  (\<^verbatim>\<open>time.Time\<close>) and a duration (\<^verbatim>\<open>time.Duration\<close>) are integers that count nanoseconds; a
  function that returns \<^verbatim>\<open>(T, error)\<close> returns a sum whose left side is the error.
\<close>

section \<open>Types of the model\<close>

type_synonym byte = "8 word"
type_synonym bytes = "8 word list"
type_synonym u32 = "32 word"
type_synonym u64 = "64 word"
type_synonym instant = int
type_synonym duration = int

named_theorems aegis_defs
  \<open>definitions of small helpers that proofs unfold freely\<close>

named_theorems frame_simps
  \<open>what an operation leaves unchanged in its component's state\<close>

section \<open>Durations\<close>

definition Second :: duration where
  [aegis_defs]: "Second = 1000000000"

definition Millisecond :: duration where
  [aegis_defs]: "Millisecond = 1000000"

definition Minute :: duration where
  [aegis_defs]: "Minute = 60 * Second"

definition Hour :: duration where
  [aegis_defs]: "Hour = 60 * Minute"

text \<open>\<^verbatim>\<open>t.Unix()\<close> and \<^verbatim>\<open>int64(d.Seconds())\<close> on the values the code uses them for: whole
  seconds, rounded down (no instant or duration here is negative).\<close>

definition unix_seconds :: "instant \<Rightarrow> int" where
  [aegis_defs]: "unix_seconds t = t div Second"

section \<open>Signed 64-bit integers\<close>

text \<open>\<^verbatim>\<open>int64\<close> values are integers in two's complement range; \<open>wrap64\<close> is what an
  \<^verbatim>\<open>int64\<close> operation does to its mathematical result.\<close>

definition wrap64 :: "int \<Rightarrow> int" where
  "wrap64 x = (x + 2 ^ 63) mod 2 ^ 64 - 2 ^ 63"

definition is_int64 :: "int \<Rightarrow> bool" where
  "is_int64 x \<longleftrightarrow> - (2 ^ 63) \<le> x \<and> x < 2 ^ 63"

lemma wrap64_id [simp]: "is_int64 x \<Longrightarrow> wrap64 x = x"
  by (simp add: wrap64_def is_int64_def)

lemma is_int64_wrap64 [simp]: "is_int64 (wrap64 x)"
proof -
  have "0 \<le> (x + 2 ^ 63) mod 2 ^ 64" and "(x + 2 ^ 63) mod 2 ^ 64 < 2 ^ 64"
    by simp_all
  then show ?thesis
    by (simp add: wrap64_def is_int64_def)
qed

lemma wrap64_overflow:
  assumes "2 ^ 63 \<le> x" and "x < 2 ^ 64"
  shows "wrap64 x = x - 2 ^ 64"
proof -
  have "(x + 2 ^ 63) mod 2 ^ 64 = (x + 2 ^ 63 - 2 ^ 64) mod 2 ^ 64"
    by (rule mod_diff_right_eq [of _ "2 ^ 64" "2 ^ 64", simplified mod_self diff_0_right])
  also have "\<dots> = x + 2 ^ 63 - 2 ^ 64"
    using assms by (intro mod_pos_pos_trivial) auto
  finally show ?thesis
    by (simp add: wrap64_def)
qed

section \<open>Fallible computations\<close>

text \<open>\<open>bindE m f\<close> is Go's \<^verbatim>\<open>x, err := m; if err != nil { return err }; f(x)\<close>.\<close>

definition bindE :: "'e + 'a \<Rightarrow> ('a \<Rightarrow> 'e + 'b) \<Rightarrow> 'e + 'b" where
  "bindE m f = (case m of Inl e \<Rightarrow> Inl e | Inr a \<Rightarrow> f a)"

lemma bindE_simps [simp]: "bindE (Inl e) f = Inl e" "bindE (Inr a) f = f a"
  by (simp_all add: bindE_def)

lemma bindE_Inr: "bindE m f = Inr b \<longleftrightarrow> (\<exists>a. m = Inr a \<and> f a = Inr b)"
  by (cases m) auto

section \<open>Lists\<close>

lemma take_drop_split: "n \<le> length xs \<Longrightarrow> take n xs @ drop n xs = xs"
  by simp

lemma drop_eq_Nil_length: "length xs \<le> n \<Longrightarrow> drop n xs = []"
  by simp

text \<open>Splitting at the first occurrence of a separator is unambiguous when neither prefix
  contains it.\<close>

lemma append_sep_inject:
  assumes "xs @ s # ys = xs' @ s # ys'" and "s \<notin> set xs" and "s \<notin> set xs'"
  shows "xs = xs' \<and> ys = ys'"
  using assms
proof (induction xs arbitrary: xs')
  case Nil
  then show ?case
    by (cases xs') auto
next
  case (Cons x xs)
  then show ?case
    by (cases xs') auto
qed

end
