(* ===== verification/Hex.thy ===== *)
theory Hex
  imports Prelude
begin

text \<open>
  Hexadecimal encoding. \<open>EncodeToString\<close> and \<open>DecodeString\<close> are the functions of Go's
  \<^verbatim>\<open>encoding/hex\<close> that every component calls; \<open>decodeHex\<close> is the hand-written decoder of
  \<^verbatim>\<open>internal/cas/gc.go\<close>; \<open>isLowerHex\<close> and \<open>isEndpointSafe\<close> are the character-class loops of
  \<^verbatim>\<open>internal/auth/hmac.go\<close>. Block hashes travel through the system as lowercase hex of 32
  bytes, so the round trips and the class of the encoder's output below are what lets one
  component's key be another's.
\<close>

section \<open>Characters as bytes\<close>

abbreviation code :: "char \<Rightarrow> nat" where
  "code c \<equiv> of_char c"

definition in_range :: "char \<Rightarrow> char \<Rightarrow> char \<Rightarrow> bool" where
  [aegis_defs]: "in_range lo hi c \<longleftrightarrow> code lo \<le> code c \<and> code c \<le> code hi"

text \<open>The bytes of a string, Go's conversion \<^verbatim>\<open>[]byte(s)\<close>.\<close>

definition string_bytes :: "string \<Rightarrow> bytes" where
  "string_bytes s = map of_char s"

lemma string_bytes_inject: "string_bytes s = string_bytes s' \<longleftrightarrow> s = s'"
proof -
  have "inj (of_char :: char \<Rightarrow> byte)"
  proof (rule injI)
    fix c d :: char
    assume "(of_char c :: byte) = of_char d"
    then have "unat (of_nat (code c) :: byte) = unat (of_nat (code d) :: byte)"
      by (simp add: of_nat_of_char)
    then have "code c = code d"
      using nat_of_char_less_256 [of c] nat_of_char_less_256 [of d] by (simp add: unat_of_nat)
    then show "c = d"
      by (metis char_of_char)
  qed
  then show ?thesis
    by (simp add: string_bytes_def inj_map_eq_map)
qed

section \<open>encoding/hex\<close>

definition hextable :: string where
  "hextable = ''0123456789abcdef''"

fun EncodeToString :: "bytes \<Rightarrow> string" where
  "EncodeToString [] = []"
| "EncodeToString (b # bs) =
     hextable ! unat (drop_bit 4 b) # hextable ! unat (take_bit 4 b) # EncodeToString bs"

definition fromHexChar :: "char \<Rightarrow> byte option" where
  "fromHexChar c =
     (if in_range CHR ''0'' CHR ''9'' c then Some (of_nat (code c - code CHR ''0''))
      else if in_range CHR ''a'' CHR ''f'' c then Some (of_nat (code c - code CHR ''a'' + 10))
      else if in_range CHR ''A'' CHR ''F'' c then Some (of_nat (code c - code CHR ''A'' + 10))
      else None)"

text \<open>\<^verbatim>\<open>hex.DecodeString\<close>: an error (here \<open>None\<close>) for a character outside the three ranges
  and for an odd length.\<close>

fun DecodeString :: "string \<Rightarrow> bytes option" where
  "DecodeString [] = Some []"
| "DecodeString [c] = None"
| "DecodeString (c # d # s) =
     (case (fromHexChar c, fromHexChar d) of
        (Some hi, Some lo) \<Rightarrow> map_option (\<lambda>bs. (push_bit 4 hi + lo) # bs) (DecodeString s)
      | _ \<Rightarrow> None)"

section \<open>The decoder of the CAS garbage collector\<close>

text \<open>The digit switch of \<open>decodeHex\<close>, once for the high and once for the low digit.\<close>

definition hexDigit :: "char \<Rightarrow> byte option" where
  "hexDigit c =
     (if in_range CHR ''0'' CHR ''9'' c then Some (of_nat (code c) - of_nat (code CHR ''0''))
      else if in_range CHR ''a'' CHR ''f'' c then Some (of_nat (code c) - of_nat (code CHR ''a'') + 10)
      else if in_range CHR ''A'' CHR ''F'' c then Some (of_nat (code c) - of_nat (code CHR ''A'') + 10)
      else None)"

fun decodeHex_loop :: "string \<Rightarrow> bytes option" where
  "decodeHex_loop (c # d # s) =
     (case hexDigit c of
        None \<Rightarrow> None
      | Some hi \<Rightarrow>
          (case hexDigit d of
             None \<Rightarrow> None
           | Some lo \<Rightarrow> map_option ((#) (or (push_bit 4 hi) lo)) (decodeHex_loop s)))"
| "decodeHex_loop s = Some []"

definition decodeHex :: "string \<Rightarrow> bytes option" where
  "decodeHex s = (if length s mod 2 \<noteq> 0 then None else decodeHex_loop s)"

section \<open>Character classes of the token format\<close>

definition lower_hex_char :: "char \<Rightarrow> bool" where
  [aegis_defs]: "lower_hex_char c \<longleftrightarrow>
     \<not> ((code c < code CHR ''0'' \<or> code c > code CHR ''9'') \<and>
        (code c < code CHR ''a'' \<or> code c > code CHR ''f''))"

fun isLowerHex :: "string \<Rightarrow> bool" where
  "isLowerHex [] = True"
| "isLowerHex (c # s) = (if \<not> lower_hex_char c then False else isLowerHex s)"

definition endpoint_char :: "char \<Rightarrow> bool" where
  [aegis_defs]: "endpoint_char c \<longleftrightarrow>
     in_range CHR ''0'' CHR ''9'' c \<or> in_range CHR ''A'' CHR ''Z'' c \<or>
     in_range CHR ''a'' CHR ''z'' c \<or> c = CHR ''_'' \<or> c = CHR ''-''"

fun isEndpointSafe :: "string \<Rightarrow> bool" where
  "isEndpointSafe [] = True"
| "isEndpointSafe (c # s) = (if \<not> endpoint_char c then False else isEndpointSafe s)"

section \<open>Digits\<close>

lemma hextable_digit: "n < 16 \<Longrightarrow> fromHexChar (hextable ! n) = Some (of_nat n)"
proof -
  have "\<forall>n \<in> set [0..<16]. fromHexChar (hextable ! n) = Some (of_nat n)"
    by code_simp
  then show "n < 16 \<Longrightarrow> ?thesis" by simp
qed

lemma hextable_lower: "n < 16 \<Longrightarrow> lower_hex_char (hextable ! n)"
proof -
  have "\<forall>n \<in> set [0..<16]. lower_hex_char (hextable ! n)"
    by code_simp
  then show "n < 16 \<Longrightarrow> ?thesis" by simp
qed

lemma nibble_bounds [simp]:
  fixes b :: byte
  shows "unat (drop_bit 4 b) < 16" and "unat (take_bit 4 b) < 16"
proof -
  have "unat b div 16 < 16"
    using unsigned_less [of b] by (simp add: div_less_iff_less_mult)
  then show "unat (drop_bit 4 b) < 16"
    by (simp add: drop_bit_eq_div unat_div)
  show "unat (take_bit 4 b) < 16"
    by (simp add: take_bit_eq_mod unat_mod)
qed

lemma hexDigit_eq: "hexDigit c = fromHexChar c"
  by (auto simp: hexDigit_def fromHexChar_def in_range_def of_nat_diff)

lemma fromHexChar_bound: "fromHexChar c = Some x \<Longrightarrow> unat x < 16"
  by (auto simp: fromHexChar_def in_range_def unat_of_nat simp del: of_nat_diff split: if_splits)

lemma nibbles_or: "unat (lo :: byte) < 16 \<Longrightarrow> or (push_bit 4 hi) lo = push_bit 4 hi + lo"
proof -
  assume "unat lo < 16"
  then have "take_bit 4 lo = lo"
    by (simp add: word_unat_eq_iff take_bit_eq_mod unat_mod)
  then have "\<not> bit lo n" if "4 \<le> n" for n
    using that by (metis bit_take_bit_iff leD)
  then have "and (push_bit 4 hi) lo = 0"
    by (intro bit_eqI) (auto simp: bit_and_iff bit_push_bit_iff)
  then show ?thesis
    by (simp add: disjunctive_add_eq_or)
qed

section \<open>Round trips and equivalence of the two decoders\<close>

lemma length_EncodeToString [simp]: "length (EncodeToString bs) = 2 * length bs"
  by (induction bs) simp_all

lemma nibbles_join: "push_bit 4 (drop_bit 4 (b :: byte)) + take_bit 4 b = b"
  by (rule bits_ident)

lemma DecodeString_EncodeToString [simp]: "DecodeString (EncodeToString bs) = Some bs"
  by (induction bs) (simp_all add: hextable_digit nibbles_join)

lemma EncodeToString_inject [simp]: "EncodeToString xs = EncodeToString ys \<longleftrightarrow> xs = ys"
  by (metis DecodeString_EncodeToString option.inject)

lemma DecodeString_length: "DecodeString s = Some bs \<Longrightarrow> length s = 2 * length bs"
  by (induction s arbitrary: bs rule: DecodeString.induct) (auto split: option.splits)

lemma decodeHex_loop_eq: "even (length s) \<Longrightarrow> decodeHex_loop s = DecodeString s"
proof (induction s rule: DecodeString.induct)
  case (3 c d s)
  then show ?case
    by (auto simp: hexDigit_eq nibbles_or fromHexChar_bound split: option.splits)
qed simp_all

lemma DecodeString_odd: "odd (length s) \<Longrightarrow> DecodeString s = None"
  using DecodeString_length by (cases "DecodeString s") auto

section \<open>Character classes\<close>

lemma isLowerHex_iff: "isLowerHex s \<longleftrightarrow> (\<forall>c \<in> set s. lower_hex_char c)"
  by (induction s) simp_all

lemma isEndpointSafe_iff: "isEndpointSafe s \<longleftrightarrow> (\<forall>c \<in> set s. endpoint_char c)"
  by (induction s) simp_all

lemma isLowerHex_EncodeToString [simp]: "isLowerHex (EncodeToString bs)"
  by (induction bs) (simp_all add: hextable_lower)

lemma isLowerHex_no_colon: "isLowerHex s \<Longrightarrow> CHR '':'' \<notin> set s"
  by (auto simp: isLowerHex_iff lower_hex_char_def)

lemma isEndpointSafe_no_colon: "isEndpointSafe s \<Longrightarrow> CHR '':'' \<notin> set s"
  by (auto simp: isEndpointSafe_iff endpoint_char_def in_range_def)

lemma lower_hex_char_in_table: "lower_hex_char c \<Longrightarrow> \<exists>n < 16. c = hextable ! n"
proof -
  assume "lower_hex_char c"
  then have range: "code c \<in> set ([48..<58] @ [97..<103])"
    unfolding set_append set_upt by (auto simp: lower_hex_char_def)
  have "\<forall>m \<in> set ([48..<58] @ [97..<103]). char_of (m :: nat) \<in> set hextable"
    by code_simp
  with range have "char_of (code c) \<in> set hextable" by blast
  then have "c \<in> set hextable" by simp
  moreover have "length hextable = 16" by (simp add: hextable_def)
  ultimately show ?thesis
    by (metis in_set_conv_nth)
qed

lemma lower_hex_char_digit:
  assumes "lower_hex_char c" and "fromHexChar c = Some x"
  shows "hextable ! unat x = c"
proof -
  from assms(1) obtain n where n: "n < 16" "c = hextable ! n"
    using lower_hex_char_in_table by blast
  with assms(2) have "x = of_nat n"
    by (simp add: hextable_digit)
  with n show ?thesis
    by (simp add: unat_of_nat)
qed

lemma push_bit_nibbles:
  assumes "unat (hi :: byte) < 16" and "unat (lo :: byte) < 16"
  shows "drop_bit 4 (push_bit 4 hi + lo) = hi" and "take_bit 4 (push_bit 4 hi + lo) = lo"
proof -
  have sum: "unat (push_bit 4 hi + lo) = 16 * unat hi + unat lo"
    using assms by (simp add: push_bit_eq_mult unat_word_ariths)
  show "drop_bit 4 (push_bit 4 hi + lo) = hi"
    using assms sum by (simp add: word_unat_eq_iff drop_bit_eq_div unat_div)
  show "take_bit 4 (push_bit 4 hi + lo) = lo"
    using assms sum by (simp add: word_unat_eq_iff take_bit_eq_mod unat_mod)
qed

text \<open>The other round trip holds for lowercase input only: decoding forgets the case.\<close>

lemma EncodeToString_DecodeString:
  "isLowerHex s \<Longrightarrow> DecodeString s = Some bs \<Longrightarrow> EncodeToString bs = s"
proof (induction s arbitrary: bs rule: DecodeString.induct)
  case (3 c d s)
  from "3.prems"(1) have lower: "lower_hex_char c" "lower_hex_char d" "isLowerHex s"
    by (simp_all split: if_splits)
  from "3.prems"(2) obtain hi lo bs' where
    digits: "fromHexChar c = Some hi" "fromHexChar d = Some lo"
    and rest: "DecodeString s = Some bs'" and bs: "bs = (push_bit 4 hi + lo) # bs'"
    by (auto split: option.splits)
  have "EncodeToString bs' = s"
    using "3.IH" digits lower rest by blast
  then show ?case
    using digits lower by (simp add: bs push_bit_nibbles fromHexChar_bound lower_hex_char_digit)
qed simp_all

lemma isLowerHex_DecodeString:
  assumes "isLowerHex s" and "even (length s)"
  shows "\<exists>bs. DecodeString s = Some bs"
  using assms
proof (induction s rule: DecodeString.induct)
  case (3 c d s)
  then obtain n m where "n < 16" "c = hextable ! n" "m < 16" "d = hextable ! m"
    using lower_hex_char_in_table by (metis isLowerHex.simps(2))
  with "3" show ?case
    by (auto simp: hextable_digit split: if_splits)
qed simp_all

lemma decodeHex_agrees: "decodeHex s = DecodeString s"
  by (cases "even (length s)")
    (simp_all add: decodeHex_def decodeHex_loop_eq DecodeString_odd odd_iff_mod_2_eq_one)

section \<open>Properties\<close>

text \<open>The hand-written decoder of the CAS garbage collector agrees with the standard library's
  on every string: the same bytes for well-formed input of either case, an error for an odd length
  or a foreign character.\<close>

theorem decodeHex_is_DecodeString: "decodeHex s = DecodeString s"
  by (rule decodeHex_agrees)

end
