(* ===== verification/Sha256.thy ===== *)
theory Sha256
  imports Prelude
begin

unbundle bit_operations_syntax

text \<open>
  SHA-256 and HMAC-SHA-256, the two functions of Go's standard library that the code calls as
  \<^verbatim>\<open>sha256.Sum256\<close>, \<^verbatim>\<open>sha256.New\<close> and \<^verbatim>\<open>hmac.New(sha256.New, key)\<close>: block identities, content
  hashes, nonce keys and token signatures are computed with them. The definitions follow FIPS
  180-4 and FIPS 198-1 and are executable; what the other theories use of them is that a digest has 32
  bytes (and that they are functions), so no cryptographic assumption is made anywhere.
\<close>

section \<open>SHA-256\<close>

definition K256 :: "u32 list" where
  "K256 =
    [1116352408, 1899447441, 3049323471, 3921009573, 961987163, 1508970993, 2453635748,
     2870763221, 3624381080, 310598401, 607225278, 1426881987, 1925078388, 2162078206,
     2614888103, 3248222580, 3835390401, 4022224774, 264347078, 604807628, 770255983,
     1249150122, 1555081692, 1996064986, 2554220882, 2821834349, 2952996808, 3210313671,
     3336571891, 3584528711, 113926993, 338241895, 666307205, 773529912, 1294757372,
     1396182291, 1695183700, 1986661051, 2177026350, 2456956037, 2730485921, 2820302411,
     3259730800, 3345764771, 3516065817, 3600352804, 4094571909, 275423344, 430227734,
     506948616, 659060556, 883997877, 958139571, 1322822218, 1537002063, 1747873779,
     1955562222, 2024104815, 2227730452, 2361852424, 2428436474, 2756734187, 3204031479,
     3329325298]"

record sha_state =
  sha_a :: u32
  sha_b :: u32
  sha_c :: u32
  sha_d :: u32
  sha_e :: u32
  sha_f :: u32
  sha_g :: u32
  sha_h :: u32

definition H256 :: sha_state where
  "H256 = \<lparr>sha_a = 1779033703, sha_b = 3144134277, sha_c = 1013904242, sha_d = 2773480762,
           sha_e = 1359893119, sha_f = 2600822924, sha_g = 528734635, sha_h = 1541459225\<rparr>"

definition sha_round :: "sha_state \<Rightarrow> u32 \<times> u32 \<Rightarrow> sha_state" where
  "sha_round s kw =
     (let e = sha_e s; a = sha_a s;
          S1 = word_rotr 6 e XOR word_rotr 11 e XOR word_rotr 25 e;
          ch = (e AND sha_f s) XOR (NOT e AND sha_g s);
          t1 = sha_h s + S1 + ch + fst kw + snd kw;
          S0 = word_rotr 2 a XOR word_rotr 13 a XOR word_rotr 22 a;
          maj = (a AND sha_b s) XOR (a AND sha_c s) XOR (sha_b s AND sha_c s);
          t2 = S0 + maj
      in \<lparr>sha_a = t1 + t2, sha_b = a, sha_c = sha_b s, sha_d = sha_c s,
          sha_e = sha_d s + t1, sha_f = e, sha_g = sha_f s, sha_h = sha_g s\<rparr>)"

text \<open>The message schedule is grown from its last sixteen words, kept newest first.\<close>

fun sha_schedule :: "nat \<Rightarrow> u32 list \<Rightarrow> u32 list" where
  "sha_schedule 0 w = rev w"
| "sha_schedule (Suc n) w =
     (let w15 = w ! 14; w2 = w ! 1;
          s0 = word_rotr 7 w15 XOR word_rotr 18 w15 XOR drop_bit 3 w15;
          s1 = word_rotr 17 w2 XOR word_rotr 19 w2 XOR drop_bit 10 w2
      in sha_schedule n ((w ! 15 + s0 + w ! 6 + s1) # w))"

definition sha_block :: "sha_state \<Rightarrow> u32 list \<Rightarrow> sha_state" where
  "sha_block s m =
     (let r = foldl sha_round s (zip K256 (sha_schedule 48 (rev m)))
      in \<lparr>sha_a = sha_a s + sha_a r, sha_b = sha_b s + sha_b r, sha_c = sha_c s + sha_c r,
          sha_d = sha_d s + sha_d r, sha_e = sha_e s + sha_e r, sha_f = sha_f s + sha_f r,
          sha_g = sha_g s + sha_g r, sha_h = sha_h s + sha_h r\<rparr>)"

fun be_words :: "bytes \<Rightarrow> u32 list" where
  "be_words (a # b # c # d # r) =
     (push_bit 24 (ucast a) OR push_bit 16 (ucast b) OR push_bit 8 (ucast c) OR ucast d) # be_words r"
| "be_words _ = []"

definition be_bytes :: "u32 \<Rightarrow> bytes" where
  "be_bytes w = [ucast (drop_bit 24 w), ucast (drop_bit 16 w), ucast (drop_bit 8 w), ucast w]"

definition be_bytes64 :: "u64 \<Rightarrow> bytes" where
  "be_bytes64 w = be_bytes (ucast (drop_bit 32 w)) @ be_bytes (ucast w)"

definition sha_pad :: "bytes \<Rightarrow> bytes" where
  "sha_pad m =
     (let z = (119 - length m mod 64) mod 64
      in m @ [0x80] @ replicate z 0 @ be_bytes64 (of_nat (8 * length m)))"

fun sha_blocks :: "sha_state \<Rightarrow> u32 list \<Rightarrow> sha_state" where
  "sha_blocks s ws =
     (if length ws < 16 then s else sha_blocks (sha_block s (take 16 ws)) (drop 16 ws))"

declare sha_blocks.simps [simp del]

definition sha_digest :: "sha_state \<Rightarrow> bytes" where
  "sha_digest s =
     be_bytes (sha_a s) @ be_bytes (sha_b s) @ be_bytes (sha_c s) @ be_bytes (sha_d s) @
     be_bytes (sha_e s) @ be_bytes (sha_f s) @ be_bytes (sha_g s) @ be_bytes (sha_h s)"

definition Sum256 :: "bytes \<Rightarrow> bytes" where
  "Sum256 m = sha_digest (sha_blocks H256 (be_words (sha_pad m)))"

section \<open>HMAC\<close>

definition hmac_key :: "bytes \<Rightarrow> bytes" where
  "hmac_key key =
     (let k = (if length key > 64 then Sum256 key else key)
      in k @ replicate (64 - length k) 0)"

definition hmac_sha256 :: "bytes \<Rightarrow> bytes \<Rightarrow> bytes" where
  "hmac_sha256 key msg =
     (let k = hmac_key key
      in Sum256 (map (\<lambda>b. b XOR 0x5c) k @ Sum256 (map (\<lambda>b. b XOR 0x36) k @ msg)))"

section \<open>Digest length and padding\<close>

lemma length_Sum256 [simp]: "length (Sum256 m) = 32"
  by (simp add: Sum256_def sha_digest_def be_bytes_def)

lemma length_hmac_sha256 [simp]: "length (hmac_sha256 key msg) = 32"
  by (simp add: hmac_sha256_def Let_def)

lemma length_sha_pad: "length (sha_pad m) mod 64 = 0"
proof -
  have len: "length (sha_pad m) = length m + 9 + (119 - length m mod 64) mod 64"
    by (simp add: sha_pad_def Let_def be_bytes64_def be_bytes_def)
  have "(length m + 9 + (119 - length m mod 64) mod 64) mod 64 = (length m + 9 + (119 - length m mod 64)) mod 64"
    by (rule mod_add_right_eq)
  also have "length m + 9 + (119 - length m mod 64) = 64 * (length m div 64 + 2)"
    using mod_less_divisor [of 64 "length m", OF zero_less_numeral] mult_div_mod_eq [of 64 "length m"]
    by arith
  also have "\<dots> mod 64 = 0"
    by simp
  finally show ?thesis
    by (simp only: len)
qed

end
