(* ===== verification/FastCDC.thy ===== *)
theory FastCDC
  imports Hex Sha256
begin

text \<open>
  Content-defined chunking, \<^verbatim>\<open>internal/fastcdc/fastcdc.go\<close>: the Gear table, the two-phase
  boundary search \<open>findCut\<close>, the buffered reading loop \<open>readUntilCut\<close>, \<open>NextChunk\<close> and
  \<open>ChunkAll\<close>, and the byte-slice reader behind \<open>ChunkFromBytes\<close>.

  An \<^verbatim>\<open>io.Reader\<close> is a state with a read function; \<open>ReadFull\<close> is \<^verbatim>\<open>io.ReadFull\<close>. A reader
  that returns no bytes and no error for ever makes \<^verbatim>\<open>io.ReadFull\<close> loop, so the functions that
  read are in the option type and \<open>None\<close> means that they do not return. The field \<open>buf\<close> holds
  the \<open>bufLen\<close> valid bytes of the Go buffer, which has \<open>2 * MaxChunk\<close> bytes: the slice
  expression that hands the free part to the reader panics when it exceeds that capacity.
  The \<^verbatim>\<open>hasher\<close> of a chunker is the argument \<open>sha256\<close>, so that the theorems hold for every
  hash; \<open>ChunkFromBytes\<close> and the file helpers use SHA-256 itself.
\<close>

section \<open>Constants and the Gear table\<close>

definition MinChunk :: int where "MinChunk = 64 * 1024"
definition AvgChunk :: int where "AvgChunk = 1 * 1024 * 1024"
definition MaxChunk :: int where "MaxChunk = 4 * 1024 * 1024"
definition maskS :: u32 where "maskS = 0x0003FFFF"
definition maskL :: u32 where "maskL = 0x0007FFFF"
definition GearSeed :: u64 where "GearSeed = 0x6DCA495895636829"

fun gear_loop :: "nat \<Rightarrow> u64 \<Rightarrow> u32 list" where
  "gear_loop 0 s = []"
| "gear_loop (Suc n) s =
     (let s' = xor (drop_bit 1 s) (and 0xA0CC36C9 (- (and s 1)))
      in ucast s' # gear_loop n s')"

definition generateGearTable :: "u64 \<Rightarrow> u32 list" where
  "generateGearTable seed = gear_loop 256 seed"

definition gearTable :: "u32 list" where
  "gearTable = generateGearTable GearSeed"

section \<open>Configuration, chunks and the chunker's state\<close>

record Config =
  cfg_MinChunk :: int
  cfg_AvgChunk :: int
  cfg_MaxChunk :: int
  cfg_MaskS :: u32
  cfg_MaskL :: u32

definition DefaultConfig :: Config where
  "DefaultConfig = \<lparr>cfg_MinChunk = MinChunk, cfg_AvgChunk = AvgChunk, cfg_MaxChunk = MaxChunk,
     cfg_MaskS = maskS, cfg_MaskL = maskL\<rparr>"

record Chunk =
  HashHex :: string
  Offset :: int
  Size :: nat

record 'r Chunker =
  reader :: 'r
  cfg :: Config
  buf :: bytes
  offset :: int
  fingerprint :: u32
  cutPhase :: bool
  pending :: "Chunk list"

abbreviation bufLen :: "'r Chunker \<Rightarrow> nat" where
  "bufLen c \<equiv> length (buf c)"

definition NewWithConfig :: "'r \<Rightarrow> Config \<Rightarrow> 'r Chunker" where
  "NewWithConfig r cf =
     (let c1 = (if cfg_MinChunk cf \<le> 0 then cf\<lparr>cfg_MinChunk := MinChunk\<rparr> else cf);
          c2 = (if cfg_AvgChunk c1 \<le> 0 then c1\<lparr>cfg_AvgChunk := AvgChunk\<rparr> else c1);
          c3 = (if cfg_MaxChunk c2 \<le> 0 then c2\<lparr>cfg_MaxChunk := MaxChunk\<rparr> else c2);
          c4 = (if cfg_MaskS c3 = 0 then c3\<lparr>cfg_MaskS := maskS\<rparr> else c3);
          c5 = (if cfg_MaskL c4 = 0 then c4\<lparr>cfg_MaskL := maskL\<rparr> else c4)
      in \<lparr>reader = r, cfg = c5, buf = [], offset = 0, fingerprint = 0, cutPhase = False,
          pending = []\<rparr>)"

definition New :: "'r \<Rightarrow> 'r Chunker" where
  "New r = NewWithConfig r DefaultConfig"

section \<open>io.ReadFull\<close>

datatype io_err = EOF | ErrUnexpectedEOF | ReaderErr string

type_synonym 'r read_fn = "'r \<Rightarrow> nat \<Rightarrow> bytes \<times> io_err option \<times> 'r"

text \<open>The loop of \<^verbatim>\<open>io.ReadAtLeast\<close>: \<open>want\<close> is the length of the slice and the minimum.\<close>

partial_function (option) readAtLeast_loop ::
  "'r read_fn \<Rightarrow> nat \<Rightarrow> bytes \<Rightarrow> 'r \<Rightarrow> (bytes \<times> io_err option \<times> 'r) option" where
  "readAtLeast_loop rd want acc r =
     (if length acc < want then
        (case rd r (want - length acc) of
           (bs, None, r') \<Rightarrow> readAtLeast_loop rd want (acc @ bs) r'
         | (bs, Some e, r') \<Rightarrow> Some (acc @ bs, Some e, r'))
      else Some (acc, None, r))"

declare readAtLeast_loop.simps [code]

definition ReadFull :: "'r read_fn \<Rightarrow> 'r \<Rightarrow> nat \<Rightarrow> (bytes \<times> io_err option \<times> 'r) option" where
  "ReadFull rd r want =
     (case readAtLeast_loop rd want [] r of
        None \<Rightarrow> None
      | Some (bs, err, r') \<Rightarrow>
          Some (bs,
            (if want \<le> length bs then None
             else if 0 < length bs \<and> err = Some EOF then Some ErrUnexpectedEOF
             else err), r'))"

section \<open>Boundary search\<close>

text \<open>One step of the rolling fingerprint.\<close>

definition gear_step :: "u32 \<Rightarrow> byte \<Rightarrow> u32" where
  "gear_step fp b = push_bit 1 fp + gearTable ! unat b"

datatype scan = Cut nat | Switch | NoCut

text \<open>The first loop of \<open>findCut\<close>. The index \<open>i\<close> is the number of bytes already scanned.\<close>

fun findCut_phase1 :: "Config \<Rightarrow> nat \<Rightarrow> u32 \<Rightarrow> bytes \<Rightarrow> u32 \<times> scan" where
  "findCut_phase1 cf i fp [] = (fp, NoCut)"
| "findCut_phase1 cf i fp (b # bs) =
     (let fp' = gear_step fp b; currentSize = i + 1
      in if int currentSize \<ge> cfg_AvgChunk cf then (fp', Switch)
         else if int currentSize \<ge> cfg_MinChunk cf \<and> and fp' (cfg_MaskS cf) = 0
              then (fp', Cut currentSize)
         else findCut_phase1 cf (i + 1) fp' bs)"

text \<open>The second loop of \<open>findCut\<close>: it starts again at the first byte of the data.\<close>

fun findCut_phase2 :: "Config \<Rightarrow> nat \<Rightarrow> u32 \<Rightarrow> bytes \<Rightarrow> u32 \<times> nat" where
  "findCut_phase2 cf i fp [] = (fp, 0)"
| "findCut_phase2 cf i fp (b # bs) =
     (let fp' = gear_step fp b; currentSize = i + 1
      in if int currentSize \<ge> cfg_MaxChunk cf then (fp', currentSize)
         else if and fp' (cfg_MaskL cf) = 0 then (fp', currentSize)
         else findCut_phase2 cf (i + 1) fp' bs)"

definition findCut :: "'r Chunker \<Rightarrow> bytes \<Rightarrow> nat \<times> 'r Chunker" where
  "findCut c data =
     (if data = [] then (0, c)
      else case findCut_phase1 (cfg c) 0 (fingerprint c) data of
        (fp, Cut n) \<Rightarrow> (n, c\<lparr>fingerprint := fp\<rparr>)
      | (fp, r) \<Rightarrow>
          (let phase = (cutPhase c \<or> r = Switch)
           in if \<not> phase then (0, c\<lparr>fingerprint := fp, cutPhase := phase\<rparr>)
              else case findCut_phase2 (cfg c) 0 fp data of
                (fp', n) \<Rightarrow> (n, c\<lparr>fingerprint := fp', cutPhase := phase\<rparr>)))"

lemma findCut_frame [frame_simps]:
  assumes "findCut c data = (n, c')"
  shows "reader c' = reader c" "cfg c' = cfg c" "buf c' = buf c" "offset c' = offset c"
    "pending c' = pending c"
  using assms by (auto simp: findCut_def Let_def split: prod.splits scan.splits if_splits)

section \<open>Reading and cutting\<close>

text \<open>The cutting loop of \<open>readUntilCut\<close>; \<open>readErr\<close> is the reader's error of this round.\<close>

function cut_loop ::
  "(bytes \<Rightarrow> bytes) \<Rightarrow> io_err option \<Rightarrow> int \<Rightarrow> nat \<Rightarrow> Chunk list \<Rightarrow> 'r Chunker
     \<Rightarrow> nat \<times> Chunk list \<times> 'r Chunker" where
  "cut_loop sha256 readErr startOffset cutPos chunks c =
     (if cutPos < bufLen c then
        (let remaining = bufLen c - cutPos
         in if int remaining < cfg_MinChunk (cfg c) \<and> readErr = None then (cutPos, chunks, c)
            else case findCut c (drop cutPos (buf c)) of
              (n, c1) \<Rightarrow>
                (let cutLen = (if n = 0 then remaining else n);
                     chunk = \<lparr>HashHex = EncodeToString (sha256 (take cutLen (drop cutPos (buf c1)))),
                              Offset = startOffset + int cutPos, Size = cutLen\<rparr>
                 in cut_loop sha256 readErr startOffset (cutPos + cutLen) (chunks @ [chunk])
                      (c1\<lparr>offset := offset c1 + int cutLen, fingerprint := 0, cutPhase := False\<rparr>)))
      else (cutPos, chunks, c))"
  by pat_completeness auto
termination
  by (relation "measure (\<lambda>(_, _, _, cutPos, _, c). bufLen c - cutPos)")
    (auto dest!: findCut_frame(3) [OF sym] split: if_splits)

declare cut_loop.simps [simp del]

datatype go_panic = SliceBounds

text \<open>\<open>readUntilCut\<close>: the chunks found, the error and the new state.\<close>

definition readUntilCut ::
  "(bytes \<Rightarrow> bytes) \<Rightarrow> 'r read_fn \<Rightarrow> 'r Chunker
     \<Rightarrow> (go_panic + Chunk list \<times> io_err option \<times> 'r Chunker) option" where
  "readUntilCut sha256 rd c =
     (if int (bufLen c) + cfg_MaxChunk (cfg c) > cfg_MaxChunk (cfg c) * 2 then Some (Inl SliceBounds)
      else case ReadFull rd (reader c) (nat (cfg_MaxChunk (cfg c))) of
        None \<Rightarrow> None
      | Some (bs, readErr, r') \<Rightarrow>
          (let startOffset = offset c;
               c0 = c\<lparr>reader := r', buf := buf c @ bs\<rparr>
           in if bufLen c0 = 0 then Some (Inr ([], readErr, c0))
              else case cut_loop sha256 readErr startOffset 0 [] c0 of
                (cutPos, chunks, c1) \<Rightarrow>
                  (let c2 = c1\<lparr>buf := drop cutPos (buf c1)\<rparr>
                   in if readErr \<noteq> None \<and> 0 < bufLen c2 then
                        (let chunk = \<lparr>HashHex = EncodeToString (sha256 (buf c2)),
                                      Offset = startOffset + int cutPos, Size = bufLen c2\<rparr>
                         in Some (Inr (chunks @ [chunk], None,
                              c2\<lparr>offset := offset c2 + int (bufLen c2), buf := []\<rparr>)))
                      else Some (Inr (chunks, readErr, c2)))))"

definition NextChunk ::
  "(bytes \<Rightarrow> bytes) \<Rightarrow> 'r read_fn \<Rightarrow> 'r Chunker
     \<Rightarrow> (go_panic + (io_err + Chunk) \<times> 'r Chunker) option" where
  "NextChunk sha256 rd c =
     (case pending c of
        chunk # rest \<Rightarrow> Some (Inr (Inr chunk, c\<lparr>pending := rest\<rparr>))
      | [] \<Rightarrow>
          (case readUntilCut sha256 rd c of
             None \<Rightarrow> None
           | Some (Inl p) \<Rightarrow> Some (Inl p)
           | Some (Inr ([], Some err, c')) \<Rightarrow> Some (Inr (Inl err, c'))
           | Some (Inr ([], None, c')) \<Rightarrow> Some (Inr (Inl EOF, c'))
           | Some (Inr (chunk # rest, _, c')) \<Rightarrow>
               Some (Inr (Inr chunk, (if rest \<noteq> [] then c'\<lparr>pending := rest\<rparr> else c')))))"

partial_function (option) chunkAll_loop ::
  "(bytes \<Rightarrow> bytes) \<Rightarrow> 'r read_fn \<Rightarrow> Chunk list \<Rightarrow> 'r Chunker
     \<Rightarrow> (go_panic + Chunk list \<times> io_err option) option" where
  "chunkAll_loop sha256 rd all c =
     (case NextChunk sha256 rd c of
        None \<Rightarrow> None
      | Some (Inl p) \<Rightarrow> Some (Inl p)
      | Some (Inr (Inl err, c')) \<Rightarrow> Some (Inr (all, if err = EOF then None else Some err))
      | Some (Inr (Inr chunk, c')) \<Rightarrow> chunkAll_loop sha256 rd (all @ [chunk]) c')"

declare chunkAll_loop.simps [code]

definition ChunkAll ::
  "(bytes \<Rightarrow> bytes) \<Rightarrow> 'r read_fn \<Rightarrow> 'r Chunker
     \<Rightarrow> (go_panic + Chunk list \<times> io_err option) option" where
  "ChunkAll sha256 rd c = chunkAll_loop sha256 rd [] c"

section \<open>The byte-slice reader\<close>

record byteReader =
  br_data :: bytes
  br_pos :: nat

definition byteReader_Read :: "byteReader read_fn" where
  "byteReader_Read r n =
     (if br_pos r \<ge> length (br_data r) then ([], Some EOF, r)
      else let p = take n (drop (br_pos r) (br_data r))
           in (p, None, r\<lparr>br_pos := br_pos r + length p\<rparr>))"

definition ChunkFromBytes :: "bytes \<Rightarrow> (go_panic + Chunk list \<times> io_err option) option" where
  "ChunkFromBytes data =
     ChunkAll Sum256 byteReader_Read
       (NewWithConfig \<lparr>br_data = data, br_pos = 0\<rparr> DefaultConfig)"

section \<open>Helpers\<close>

definition ComputeFileSHA256 :: "bytes \<Rightarrow> string" where
  "ComputeFileSHA256 data = EncodeToString (Sum256 data)"

definition EncodeHashBytes :: "bytes \<Rightarrow> string" where
  "EncodeHashBytes b = EncodeToString b"

definition DecodeHashHex :: "string \<Rightarrow> bytes option" where
  "DecodeHashHex s = DecodeString s"

definition ComputeSHA256Hex :: "bytes \<Rightarrow> string" where
  "ComputeSHA256Hex data = EncodeToString (Sum256 data)"

section \<open>What a boundary search returns\<close>

text \<open>A usable configuration: positive bounds, and neither the minimum nor the average above the
  maximum. The default configuration is one.\<close>

definition wf_config :: "Config \<Rightarrow> bool" where
  "wf_config cf \<longleftrightarrow> 0 < cfg_MinChunk cf \<and> cfg_MinChunk cf \<le> cfg_MaxChunk cf
     \<and> 0 < cfg_AvgChunk cf \<and> cfg_AvgChunk cf \<le> cfg_MaxChunk cf"

lemma wf_config_Default [simp]: "wf_config DefaultConfig"
  by (simp add: wf_config_def DefaultConfig_def MinChunk_def AvgChunk_def MaxChunk_def)

lemma findCut_phase1_Cut:
  "findCut_phase1 cf i fp bs = (fp', Cut n) \<Longrightarrow>
     i < n \<and> n \<le> i + length bs \<and> int n < cfg_AvgChunk cf \<and> cfg_MinChunk cf \<le> int n"
  by (induction cf i fp bs rule: findCut_phase1.induct)
    (fastforce simp: Let_def split: if_splits)+

lemma findCut_phase1_NoCut:
  "findCut_phase1 cf i fp bs = (fp', NoCut) \<Longrightarrow> bs \<noteq> [] \<Longrightarrow>
     int (i + length bs) < cfg_AvgChunk cf"
proof (induction cf i fp bs rule: findCut_phase1.induct)
  case (2 cf i fp b bs)
  then show ?case
    by (cases bs) (auto simp: Let_def split: if_splits)
qed simp

lemma findCut_phase2_bounds:
  "findCut_phase2 cf i fp bs = (fp', n) \<Longrightarrow> int i < cfg_MaxChunk cf \<Longrightarrow>
     n \<le> i + length bs \<and> int n \<le> cfg_MaxChunk cf \<and> (n = 0 \<longrightarrow> int (i + length bs) < cfg_MaxChunk cf)"
proof (induction cf i fp bs rule: findCut_phase2.induct)
  case (2 cf i fp b bs)
  show ?case
  proof (cases "int (i + 1) \<ge> cfg_MaxChunk cf \<or> and (gear_step fp b) (cfg_MaskL cf) = 0")
    case True
    with "2.prems" show ?thesis
      by (auto simp: Let_def split: if_splits)
  next
    case False
    with "2.IH" [OF refl refl] "2.prems"(1) show ?thesis
      by (simp add: Let_def)
  qed
qed simp

text \<open>The length that the caller cuts: \<open>0\<close> from \<open>findCut\<close> stands for all the data.\<close>

lemma findCut_length:
  assumes "findCut c data = (n, c')" and "data \<noteq> []" and "wf_config (cfg c)"
  defines "cutLen \<equiv> if n = 0 then length data else n"
  shows "0 < cutLen \<and> cutLen \<le> length data \<and> int cutLen \<le> cfg_MaxChunk (cfg c)"
proof -
  have max: "0 < cfg_MaxChunk (cfg c)" "cfg_AvgChunk (cfg c) \<le> cfg_MaxChunk (cfg c)"
    using assms(3) by (auto simp: wf_config_def)
  obtain fp r where p1: "findCut_phase1 (cfg c) 0 (fingerprint c) data = (fp, r)"
    by fastforce
  show ?thesis
  proof (cases r)
    case (Cut m)
    with p1 assms(1,2) have "n = m"
      by (simp add: findCut_def)
    then show ?thesis
      using findCut_phase1_Cut [OF p1 [unfolded Cut]] max by (simp add: cutLen_def)
  next
    case Switch
    obtain fp' m where p2: "findCut_phase2 (cfg c) 0 fp data = (fp', m)"
      by fastforce
    with p1 assms(1,2) Switch have "n = m"
      by (simp add: findCut_def)
    then show ?thesis
      using findCut_phase2_bounds [OF p2] max assms(2) by (auto simp: cutLen_def)
  next
    case NoCut
    have small: "int (length data) < cfg_AvgChunk (cfg c)"
      using findCut_phase1_NoCut [OF p1 [unfolded NoCut] assms(2)] by simp
    obtain fp' m where p2: "findCut_phase2 (cfg c) 0 fp data = (fp', m)"
      by fastforce
    with p1 assms(1,2) NoCut have "n = (if cutPhase c then m else 0)"
      by (auto simp: findCut_def Let_def)
    then show ?thesis
      using findCut_phase2_bounds [OF p2] max small assms(2) by (auto simp: cutLen_def)
  qed
qed

section \<open>Tilings\<close>

text \<open>\<open>tiles sha256 mx off data chunks rest\<close>: the chunks, from stream position \<open>off\<close> on, cut
  \<open>data\<close> without gap or overlap and leave \<open>rest\<close>; each has between one and \<open>mx\<close> bytes, the
  offset where it starts and the lowercase hex SHA-256 of exactly its bytes.\<close>

fun tiles :: "(bytes \<Rightarrow> bytes) \<Rightarrow> int \<Rightarrow> int \<Rightarrow> bytes \<Rightarrow> Chunk list \<Rightarrow> bytes \<Rightarrow> bool" where
  "tiles sha256 mx off data [] rest \<longleftrightarrow> data = rest"
| "tiles sha256 mx off data (ch # chs) rest \<longleftrightarrow>
     0 < Size ch \<and> int (Size ch) \<le> mx \<and> Size ch \<le> length data \<and> Offset ch = off \<and>
     HashHex ch = EncodeToString (sha256 (take (Size ch) data)) \<and>
     tiles sha256 mx (off + int (Size ch)) (drop (Size ch) data) chs rest"

abbreviation total_size :: "Chunk list \<Rightarrow> nat" where
  "total_size chs \<equiv> sum_list (map Size chs)"

lemma tiles_append:
  "tiles sha256 mx off data xs mid \<Longrightarrow>
   tiles sha256 mx (off + int (total_size xs)) mid ys rest \<Longrightarrow>
   tiles sha256 mx off data (xs @ ys) rest"
  by (induction xs arbitrary: off data) (auto simp: add.assoc)

lemma tiles_rest:
  "tiles sha256 mx off data chs rest \<Longrightarrow>
     rest = drop (total_size chs) data \<and> total_size chs \<le> length data"
proof (induction chs arbitrary: off data)
  case (Cons ch chs)
  then have "rest = drop (total_size chs) (drop (Size ch) data)"
    and "total_size chs \<le> length (drop (Size ch) data)"
    by fastforce+
  with Cons.prems show ?case
    by (auto simp: add.commute)
qed simp

lemma tiles_extend:
  "tiles sha256 mx off data chs rest \<Longrightarrow> tiles sha256 mx off (data @ zs) chs (rest @ zs)"
  by (induction chs arbitrary: off data) auto

text \<open>The chunk contents, in order, are the data: nothing is lost, added or reordered.\<close>

fun chunk_contents :: "bytes \<Rightarrow> Chunk list \<Rightarrow> bytes list" where
  "chunk_contents data [] = []"
| "chunk_contents data (ch # chs) = take (Size ch) data # chunk_contents (drop (Size ch) data) chs"

lemma tiles_concat:
  "tiles sha256 mx off data chs [] \<Longrightarrow> concat (chunk_contents data chs) = data"
  by (induction chs arbitrary: off data) auto

section \<open>The cutting loop\<close>

definition keeps_cutting :: "io_err option \<Rightarrow> nat \<Rightarrow> 'r Chunker \<Rightarrow> bool" where
  "keeps_cutting readErr cutPos c \<longleftrightarrow> cutPos < bufLen c \<and>
     \<not> (int (bufLen c - cutPos) < cfg_MinChunk (cfg c) \<and> readErr = None)"

lemma cut_loop_stop:
  "\<not> keeps_cutting readErr cutPos c \<Longrightarrow>
     cut_loop sha256 readErr so cutPos chunks c = (cutPos, chunks, c)"
  by (auto simp: cut_loop.simps [of sha256 readErr so cutPos chunks c] keeps_cutting_def Let_def)

text \<open>One round of the loop, with the state it continues from.\<close>

lemma cut_loop_step:
  assumes "keeps_cutting readErr cutPos c" and "wf_config (cfg c)"
  obtains len c1 where
    "0 < len" "cutPos + len \<le> bufLen c" "int len \<le> cfg_MaxChunk (cfg c)"
    "reader c1 = reader c" "cfg c1 = cfg c" "buf c1 = buf c" "pending c1 = pending c"
    "offset c1 = offset c + int len"
    "cut_loop sha256 readErr so cutPos chunks c =
       cut_loop sha256 readErr so (cutPos + len)
         (chunks @ [\<lparr>HashHex = EncodeToString (sha256 (take len (drop cutPos (buf c)))),
                     Offset = so + int cutPos, Size = len\<rparr>]) c1"
proof -
  obtain n c' where cut: "findCut c (drop cutPos (buf c)) = (n, c')"
    by fastforce
  define len where "len = (if n = 0 then length (drop cutPos (buf c)) else n)"
  let ?c1 = "c'\<lparr>offset := offset c' + int len, fingerprint := 0, cutPhase := False\<rparr>"
  have ne: "drop cutPos (buf c) \<noteq> []"
    using assms(1) by (simp add: keeps_cutting_def)
  have len: "0 < len \<and> len \<le> length (drop cutPos (buf c)) \<and> int len \<le> cfg_MaxChunk (cfg c)"
    unfolding len_def by (rule findCut_length [OF cut ne assms(2)])
  have "cut_loop sha256 readErr so cutPos chunks c =
       cut_loop sha256 readErr so (cutPos + len)
         (chunks @ [\<lparr>HashHex = EncodeToString (sha256 (take len (drop cutPos (buf c)))),
                     Offset = so + int cutPos, Size = len\<rparr>]) ?c1"
    using assms(1) cut
    by (auto simp: cut_loop.simps [of sha256 readErr so cutPos chunks c] keeps_cutting_def
        findCut_frame [OF cut] len_def Let_def)
  with len show ?thesis
    by (intro that [of len ?c1]) (auto simp: findCut_frame [OF cut])
qed

lemma cut_loop_tiles:
  assumes "wf_config (cfg c)" and "cutPos \<le> bufLen c" and "offset c = so + int cutPos"
    and "tiles sha256 (cfg_MaxChunk (cfg c)) so (buf c) chunks (drop cutPos (buf c))"
    and "total_size chunks = cutPos"
    and "cut_loop sha256 readErr so cutPos chunks c = (p', chs', c')"
  shows "p' \<le> bufLen c \<and> offset c' = so + int p' \<and> total_size chs' = p'
     \<and> tiles sha256 (cfg_MaxChunk (cfg c)) so (buf c) chs' (drop p' (buf c))
     \<and> \<not> keeps_cutting readErr p' c
     \<and> (keeps_cutting readErr cutPos c \<or> chunks \<noteq> [] \<longrightarrow> chs' \<noteq> [])
     \<and> reader c' = reader c \<and> cfg c' = cfg c \<and> buf c' = buf c \<and> pending c' = pending c"
  using assms
proof (induction "bufLen c - cutPos" arbitrary: cutPos chunks c rule: less_induct)
  case less
  show ?case
  proof (cases "keeps_cutting readErr cutPos c")
    case False
    with less.prems show ?thesis
      by (auto simp: cut_loop_stop)
  next
    case True
    obtain len c1 where len: "0 < len" "cutPos + len \<le> bufLen c" "int len \<le> cfg_MaxChunk (cfg c)"
      and c1: "reader c1 = reader c" "cfg c1 = cfg c" "buf c1 = buf c" "pending c1 = pending c"
        "offset c1 = offset c + int len"
      and step: "cut_loop sha256 readErr so cutPos chunks c =
       cut_loop sha256 readErr so (cutPos + len)
         (chunks @ [\<lparr>HashHex = EncodeToString (sha256 (take len (drop cutPos (buf c)))),
                     Offset = so + int cutPos, Size = len\<rparr>]) c1"
      using cut_loop_step [OF True less.prems(1)] by blast
    let ?chunk = "\<lparr>HashHex = EncodeToString (sha256 (take len (drop cutPos (buf c)))),
                     Offset = so + int cutPos, Size = len\<rparr> :: Chunk"
    have "tiles sha256 (cfg_MaxChunk (cfg c)) so (buf c) (chunks @ [?chunk])
            (drop (cutPos + len) (buf c))"
      using less.prems(4,5) len by (intro tiles_append) (auto simp: add.commute)
    then have "tiles sha256 (cfg_MaxChunk (cfg c1)) so (buf c1) (chunks @ [?chunk])
            (drop (cutPos + len) (buf c1))"
      by (simp add: c1)
    then show ?thesis
      using less.hyps [of c1 "cutPos + len" "chunks @ [?chunk]"] less.prems len c1 step
      by (auto simp: keeps_cutting_def)
  qed
qed

section \<open>Chunking a conforming reader\<close>

text \<open>
  The contract of \<^verbatim>\<open>io.Reader\<close> that the chunker relies on. \<open>rest r\<close> is the content the reader
  still has to deliver: a read delivers a prefix of it that fits the slice; without an error it
  delivers at least one byte when asked for some; the only error is \<open>EOF\<close>, at the end.
\<close>

locale io_reader =
  fixes rd :: "'r read_fn" and rest :: "'r \<Rightarrow> bytes"
  assumes read_prefix: "rd r n = (bs, e, r') \<Longrightarrow> rest r = bs @ rest r'"
    and read_fits: "rd r n = (bs, e, r') \<Longrightarrow> length bs \<le> n"
    and read_progress: "rd r n = (bs, None, r') \<Longrightarrow> 0 < n \<Longrightarrow> bs \<noteq> []"
    and read_error: "rd r n = (bs, Some x, r') \<Longrightarrow> x = EOF \<and> rest r' = []"
begin

lemma readAtLeast_loop_total:
  "length acc \<le> want \<Longrightarrow>
   \<exists>bs e r'. readAtLeast_loop rd want acc r = Some (bs, e, r')
     \<and> acc @ rest r = bs @ rest r' \<and> length bs \<le> want
     \<and> (length bs < want \<longrightarrow> e = Some EOF \<and> rest r' = [])"
proof (induction "want - length acc" arbitrary: acc r rule: less_induct)
  case less
  show ?case
  proof (cases "length acc < want")
    case False
    with less.prems show ?thesis
      by (simp add: readAtLeast_loop.simps [of rd want acc r])
  next
    case True
    obtain bs e r1 where r1: "rd r (want - length acc) = (bs, e, r1)"
      by (cases "rd r (want - length acc)") auto
    note laws = read_prefix [OF r1] read_fits [OF r1]
    show ?thesis
    proof (cases e)
      case (Some x)
      with True r1 laws read_error [of r "want - length acc" bs x r1] show ?thesis
        by (auto simp: readAtLeast_loop.simps [of rd want acc r])
    next
      case None
      with True r1 have "bs \<noteq> []"
        using read_progress by fastforce
      with True laws(2) have "length (acc @ bs) \<le> want" "want - length (acc @ bs) < want - length acc"
        by (auto simp: diff_less_mono2)
      from less.hyps [OF this(2,1), of r1] None True r1 laws(1) show ?thesis
        by (auto simp: readAtLeast_loop.simps [of rd want acc r])
    qed
  qed
qed

text \<open>\<^verbatim>\<open>io.ReadFull\<close> always returns, with the next \<open>want\<close> bytes or, with an error, all that is left.\<close>

lemma ReadFull_total:
  "\<exists>e r'. ReadFull rd r want = Some (take want (rest r), e, r') \<and> rest r' = drop want (rest r)
     \<and> (e = None \<longleftrightarrow> want \<le> length (rest r)) \<and> (rest r = [] \<and> 0 < want \<longrightarrow> e = Some EOF)"
proof -
  obtain bs e r' where loop: "readAtLeast_loop rd want [] r = Some (bs, e, r')"
    and split: "rest r = bs @ rest r'" and len: "length bs \<le> want"
    and short: "length bs < want \<longrightarrow> e = Some EOF \<and> rest r' = []"
    using readAtLeast_loop_total [of "[]" want r] by auto
  have bs: "bs = take want (rest r)" "rest r' = drop want (rest r)"
    using split len short by (cases "length bs < want"; simp)+
  show ?thesis
    using loop split short len unfolding bs(2) [symmetric] ReadFull_def
    by (cases "length bs < want") (auto simp: bs(1) [symmetric])
qed

text \<open>What is still to be cut: the buffered bytes and what the reader holds.\<close>

definition unread :: "'r Chunker \<Rightarrow> bytes" where
  "unread c = buf c @ rest (reader c)"

definition ready :: "'r Chunker \<Rightarrow> bool" where
  "ready c \<longleftrightarrow> wf_config (cfg c) \<and> int (bufLen c) < cfg_MinChunk (cfg c)"

lemma readUntilCut_end:
  assumes "ready c" and "unread c = []"
  shows "\<exists>c'. readUntilCut sha256 rd c = Some (Inr ([], Some EOF, c'))"
proof -
  obtain e r' where "ReadFull rd (reader c) (nat (cfg_MaxChunk (cfg c))) = Some ([], e, r')"
    and "e = Some EOF"
    using ReadFull_total [of "reader c" "nat (cfg_MaxChunk (cfg c))"] assms
    by (auto simp: unread_def ready_def wf_config_def)
  then show ?thesis
    using assms by (simp add: readUntilCut_def unread_def ready_def wf_config_def Let_def)
qed

lemma readUntilCut_cuts:
  assumes "ready c" and "unread c \<noteq> []"
  shows "\<exists>chs e c'. readUntilCut sha256 rd c = Some (Inr (chs, e, c')) \<and> chs \<noteq> [] \<and> ready c'
     \<and> tiles sha256 (cfg_MaxChunk (cfg c)) (offset c) (unread c) chs (unread c')
     \<and> offset c' = offset c + int (total_size chs) \<and> cfg c' = cfg c \<and> pending c' = pending c"
proof -
  let ?max = "cfg_MaxChunk (cfg c)"
  obtain e r' where rf: "ReadFull rd (reader c) (nat ?max) = Some (take (nat ?max) (rest (reader c)), e, r')"
    and r': "rest r' = drop (nat ?max) (rest (reader c))"
    and full: "e = None \<longleftrightarrow> nat ?max \<le> length (rest (reader c))"
    using ReadFull_total by blast
  define c0 where "c0 = c\<lparr>reader := r', buf := buf c @ take (nat ?max) (rest (reader c))\<rparr>"
  have c0: "unread c = buf c0 @ rest (reader c0)" "cfg c0 = cfg c" "offset c0 = offset c"
      "pending c0 = pending c"
    by (simp_all add: c0_def r' unread_def)
  have cfgs: "0 < cfg_MinChunk (cfg c)" "cfg_MinChunk (cfg c) \<le> ?max" "0 < ?max"
      "int (bufLen c) < cfg_MinChunk (cfg c)" "wf_config (cfg c)"
    using assms(1) by (auto simp: ready_def wf_config_def)
  have enough: "e = None \<Longrightarrow> ?max \<le> int (bufLen c0)"
    using full by (simp add: c0_def)
  have ends: "e \<noteq> None \<Longrightarrow> rest (reader c0) = []"
    using full by (simp add: c0_def r')
  have ne: "buf c0 \<noteq> []"
    using enough ends assms(2) c0(1) cfgs by (cases e) auto
  obtain p chs c1 where loop: "cut_loop sha256 e (offset c) 0 [] c0 = (p, chs, c1)"
    by (cases "cut_loop sha256 e (offset c) 0 [] c0")
  have keep: "keeps_cutting e 0 c0"
    using enough ne cfgs by (cases e) (auto simp: keeps_cutting_def c0(2))
  have L: "p \<le> bufLen c0" "offset c1 = offset c + int p" "total_size chs = p"
      "tiles sha256 ?max (offset c) (buf c0) chs (drop p (buf c0))" "\<not> keeps_cutting e p c0"
      "chs \<noteq> []" "reader c1 = r'" "cfg c1 = cfg c" "buf c1 = buf c0" "pending c1 = pending c"
    using cut_loop_tiles [OF _ _ _ _ _ loop] keep cfgs c0 by (auto simp: c0_def)
  have left: "int (bufLen c0 - p) < cfg_MinChunk (cfg c)" "e \<noteq> None \<Longrightarrow> p = bufLen c0"
    using L(1,5) cfgs by (auto simp: keeps_cutting_def c0(2))
  have res: "readUntilCut sha256 rd c = Some (Inr (chs, e, c1\<lparr>buf := drop p (buf c1)\<rparr>))"
    using rf assms(2) [unfolded unread_def] loop left(2) L(9) cfgs
    by (cases e) (auto simp: readUntilCut_def Let_def c0_def [symmetric])
  have "tiles sha256 ?max (offset c) (unread c) chs (drop p (buf c0) @ rest r')"
    unfolding c0(1) using tiles_extend [OF L(4)] by (simp add: c0_def)
  with res L left(1) cfgs show ?thesis
    by (auto simp: ready_def unread_def)
qed

text \<open>The chunks that are pending when \<open>NextChunk\<close> is called tile the data up to what is unread,
  so each call delivers the next chunk of the tiling, and \<open>ChunkAll\<close> all of them.\<close>

lemma NextChunk_pending:
  assumes "ready c" and "pending c = []" and "unread c \<noteq> []"
  shows "\<exists>ch chs c'. NextChunk sha256 rd c = Some (Inr (Inr ch, c')) \<and> pending c' = chs \<and> ready c'
     \<and> tiles sha256 (cfg_MaxChunk (cfg c)) (offset c) (unread c) (ch # chs) (unread c')
     \<and> offset c' = offset c + int (total_size (ch # chs)) \<and> cfg c' = cfg c"
proof -
  obtain chs e c1 where cut: "readUntilCut sha256 rd c = Some (Inr (chs, e, c1))" "chs \<noteq> []"
    and c1: "ready c1" "tiles sha256 (cfg_MaxChunk (cfg c)) (offset c) (unread c) chs (unread c1)"
      "offset c1 = offset c + int (total_size chs)" "cfg c1 = cfg c" "pending c1 = []"
    using readUntilCut_cuts [OF assms(1,3)] assms(2) by fastforce
  then obtain ch rs where chs: "chs = ch # rs"
    by (cases chs) auto
  let ?c' = "c1\<lparr>pending := rs\<rparr>"
  have same: "(if rs \<noteq> [] then c1\<lparr>pending := rs\<rparr> else c1) = ?c'"
    using c1(5) by simp
  have "NextChunk sha256 rd c = Some (Inr (Inr ch, ?c'))"
    using cut(1) assms(2) by (simp add: NextChunk_def chs same del: if_not_P)
  then show ?thesis
    using c1 by (intro exI [of _ ch] exI [of _ rs] exI [of _ ?c'])
      (auto simp: chs ready_def unread_def)
qed

lemma chunkAll_loop_tiles:
  assumes "ready c" and "tiles sha256 (cfg_MaxChunk (cfg c)) off data (pending c) (unread c)"
    and "offset c = off + int (total_size (pending c))"
  shows "\<exists>chs. chunkAll_loop sha256 rd all c = Some (Inr (all @ chs, None))
     \<and> tiles sha256 (cfg_MaxChunk (cfg c)) off data chs []"
  using assms
proof (induction "length data" arbitrary: c off data all rule: less_induct)
  case less
  have continue: "\<exists>chs. chunkAll_loop sha256 rd all c = Some (Inr (all @ chs, None))
     \<and> tiles sha256 (cfg_MaxChunk (cfg c)) off data chs []"
    if next_chunk: "NextChunk sha256 rd c = Some (Inr (Inr ch, c'))"
      and c': "ready c'" "cfg c' = cfg c"
      and tl: "tiles sha256 (cfg_MaxChunk (cfg c)) off data (ch # pending c') (unread c')"
      and off: "offset c' = off + int (total_size (ch # pending c'))" for ch c'
  proof -
    have "length (drop (Size ch) data) < length data"
      using tl by auto
    then obtain chs where "chunkAll_loop sha256 rd (all @ [ch]) c' = Some (Inr ((all @ [ch]) @ chs, None))"
      and "tiles sha256 (cfg_MaxChunk (cfg c')) (off + int (Size ch)) (drop (Size ch) data) chs []"
      using less.hyps [of "drop (Size ch) data" c' "off + int (Size ch)" "all @ [ch]"] c' tl off
      by auto
    then show ?thesis
      using next_chunk tl c'(2)
      by (intro exI [of _ "ch # chs"]) (simp add: chunkAll_loop.simps [of sha256 rd all c])
  qed
  show ?case
  proof (cases "pending c")
    case (Cons ch chs)
    then have "NextChunk sha256 rd c = Some (Inr (Inr ch, c\<lparr>pending := chs\<rparr>))"
      by (simp add: NextChunk_def)
    with Cons less.prems show ?thesis
      by (intro continue [of ch "c\<lparr>pending := chs\<rparr>"]) (auto simp: ready_def unread_def)
  next
    case Nil
    show ?thesis
    proof (cases "unread c = []")
      case True
      with readUntilCut_end [OF less.prems(1), of sha256] Nil less.prems(2) show ?thesis
        by (auto simp: chunkAll_loop.simps [of sha256 rd all c] NextChunk_def)
    next
      case False
      then show ?thesis
        using NextChunk_pending [OF less.prems(1) Nil] less.prems(2,3) Nil continue by fastforce
    qed
  qed
qed

theorem ChunkAll_tiles:
  assumes "wf_config cf"
  shows "\<exists>chs. ChunkAll sha256 rd (NewWithConfig r cf) = Some (Inr (chs, None))
     \<and> tiles sha256 (cfg_MaxChunk cf) 0 (rest r) chs []"
proof -
  have new: "ready (NewWithConfig r cf)" "unread (NewWithConfig r cf) = rest r"
      "cfg_MaxChunk (cfg (NewWithConfig r cf)) = cfg_MaxChunk cf" "pending (NewWithConfig r cf) = []"
      "offset (NewWithConfig r cf) = 0"
    using assms by (auto simp: NewWithConfig_def ready_def unread_def wf_config_def Let_def)
  show ?thesis
    unfolding ChunkAll_def using chunkAll_loop_tiles [OF new(1), of sha256 0 "rest r" "[]"] new
    by simp
qed

end

text \<open>The byte-slice reader of \<open>ChunkFromBytes\<close> keeps the contract.\<close>

interpretation bytes_reader: io_reader byteReader_Read "\<lambda>r. drop (br_pos r) (br_data r)"
proof unfold_locales
  fix r n bs e r'
  assume rd: "byteReader_Read r n = (bs, e, r')"
  show "drop (br_pos r) (br_data r) = bs @ drop (br_pos r') (br_data r')"
  proof (cases "br_pos r \<ge> length (br_data r)")
    case True
    with rd show ?thesis by (simp add: byteReader_Read_def)
  next
    case False
    let ?xs = "drop (br_pos r) (br_data r)"
    have skip: "drop (br_pos r + length (take n ?xs)) (br_data r) = drop n ?xs"
      by (cases "n \<le> length ?xs") (auto simp: add.commute)
    from False rd have "bs = take n ?xs" "r' = r\<lparr>br_pos := br_pos r + length (take n ?xs)\<rparr>"
      by (auto simp: byteReader_Read_def Let_def)
    then have "bs @ drop (br_pos r') (br_data r') = take n ?xs @ drop n ?xs"
      using skip by simp
    then show ?thesis
      by (simp only: append_take_drop_id)
  qed
  show "length bs \<le> n"
    using rd by (auto simp: byteReader_Read_def Let_def split: if_splits)
qed (auto simp: byteReader_Read_def Let_def split: if_splits)

section \<open>Properties of the chunker\<close>

text \<open>C1. Chunking a byte slice under any configuration with positive bounds whose minimum and
  average do not exceed its maximum always returns, without an error and without a slice panic.
  The chunks tile the input: consecutive offsets from 0, sizes between 1 and the configured
  maximum, the hex SHA-256 of exactly the chunk's bytes, and nothing left over; put together, the
  chunk contents are the input.\<close>

theorem chunking_tiles_input:
  assumes "wf_config cf"
  shows "\<exists>chs. ChunkAll sha256 byteReader_Read (NewWithConfig \<lparr>br_data = data, br_pos = 0\<rparr> cf)
        = Some (Inr (chs, None))
     \<and> tiles sha256 (cfg_MaxChunk cf) 0 data chs []
     \<and> concat (chunk_contents data chs) = data"
proof -
  obtain chs where "ChunkAll sha256 byteReader_Read (NewWithConfig \<lparr>br_data = data, br_pos = 0\<rparr> cf)
        = Some (Inr (chs, None))" and "tiles sha256 (cfg_MaxChunk cf) 0 data chs []"
    using bytes_reader.ChunkAll_tiles [OF assms, of sha256 "\<lparr>br_data = data, br_pos = 0\<rparr>"] by auto
  then show ?thesis
    using tiles_concat by blast
qed

definition small_config :: Config where
  "small_config = \<lparr>cfg_MinChunk = 3, cfg_AvgChunk = 4, cfg_MaxChunk = 6, cfg_MaskS = 1, cfg_MaskL = 3\<rparr>"

theorem chunking_tiles_input_witness:
  "\<exists>chs. ChunkAll rev byteReader_Read (NewWithConfig \<lparr>br_data = [1, 2, 3, 4, 5], br_pos = 0\<rparr> small_config)
        = Some (Inr (chs, None))
     \<and> tiles rev 6 0 [1, 2, 3, 4, 5] chs [] \<and> concat (chunk_contents [1, 2, 3, 4, 5] chs) = [1, 2, 3, 4, 5]"
proof -
  have "wf_config small_config"
    by (simp add: wf_config_def small_config_def)
  from chunking_tiles_input [OF this, of rev "[1, 2, 3, 4, 5]"] show ?thesis
    by (simp add: small_config_def)
qed

lemma gearTable_2: "gearTable ! 2 = 3392490778"
proof -
  have steps: "(256 :: nat) = Suc (Suc (Suc 253))" "(2 :: nat) = Suc (Suc 0)"
    by simp_all
  show ?thesis
    unfolding gearTable_def generateGearTable_def steps gear_loop.simps Let_def nth_Cons_Suc nth_Cons_0
    by (simp add: GearSeed_def mask_eq_exp_minus_1)
qed

lemma gear_step_2: "gear_step fp 2 = push_bit 1 fp + 3392490778"
  by (simp add: gear_step_def gearTable_2)

lemmas chunker_eval = ChunkAll_def chunkAll_loop.simps NextChunk_def readUntilCut_def ReadFull_def
  readAtLeast_loop.simps byteReader_Read_def NewWithConfig_def cut_loop.simps findCut_def
  gear_step_2 hextable_def Let_def

definition min_config :: Config where
  "min_config = \<lparr>cfg_MinChunk = 3, cfg_AvgChunk = 4, cfg_MaxChunk = 6,
     cfg_MaskS = 0xFFFFFFFF, cfg_MaskL = 1\<rparr>"

text \<open>The minimum chunk size is not a lower bound: the second scan of \<open>findCut\<close> starts again
  at the first byte of the chunk and has no minimum check, so under a configuration with
  minimum 3, average 4 and maximum 6 the chunker emits a 1-byte chunk that is not the last one.\<close>

theorem chunk_below_minimum:
  "\<exists>cf data ch chs. wf_config cf \<and> cfg_MinChunk cf \<le> cfg_AvgChunk cf
     \<and> ChunkAll id byteReader_Read (NewWithConfig \<lparr>br_data = data, br_pos = 0\<rparr> cf)
         = Some (Inr (ch # chs, None))
     \<and> chs \<noteq> [] \<and> int (Size ch) < cfg_MinChunk cf"
proof (intro exI conjI)
  show "wf_config min_config" "cfg_MinChunk min_config \<le> cfg_AvgChunk min_config"
    by (simp_all add: wf_config_def min_config_def)
  show "ChunkAll id byteReader_Read (NewWithConfig \<lparr>br_data = [2, 2, 2, 2], br_pos = 0\<rparr> min_config)
      = Some (Inr (\<lparr>HashHex = ''02'', Offset = 0, Size = 1\<rparr> #
          [\<lparr>HashHex = ''020202'', Offset = 1, Size = 3\<rparr>], None))"
    by (simp add: chunker_eval min_config_def)
qed (simp_all add: min_config_def)

end
