(* ===== verification/Strconv.thy ===== *)
theory Strconv
  imports Hex
begin

text \<open>
  Decimal conversion as Go's \<^verbatim>\<open>strconv\<close> does it: \<open>FormatInt\<close> (and \<open>Itoa\<close>) prints an
  \<^verbatim>\<open>int64\<close> in base ten, \<open>ParseInt\<close> (and \<open>Atoi\<close>) reads one back and rejects an empty string, a
  lone sign, a character that is no digit and a value outside the 64-bit range. The token format
  and the client's and server's wire formats rest on the round trip proved here.
\<close>

section \<open>Printing and reading decimal numbers\<close>

definition digit_char :: "nat \<Rightarrow> char" where
  "digit_char d = char_of (48 + d)"

definition is_digit :: "char \<Rightarrow> bool" where
  [aegis_defs]: "is_digit c \<longleftrightarrow> in_range CHR ''0'' CHR ''9'' c"

definition digit_val :: "char \<Rightarrow> nat" where
  "digit_val c = code c - 48"

fun format_nat :: "nat \<Rightarrow> string" where
  "format_nat n =
     (if n < 10 then [digit_char n] else format_nat (n div 10) @ [digit_char (n mod 10)])"

declare format_nat.simps [simp del]

definition FormatInt :: "int \<Rightarrow> string" where
  "FormatInt z = (if z < 0 then CHR ''-'' # format_nat (nat (- z)) else format_nat (nat z))"

abbreviation Itoa :: "int \<Rightarrow> string" where
  "Itoa \<equiv> FormatInt"

definition parse_nat :: "string \<Rightarrow> nat option" where
  "parse_nat s =
     (if s = [] \<or> list_ex (\<lambda>c. \<not> is_digit c) s then None
      else Some (foldl (\<lambda>n c. 10 * n + digit_val c) 0 s))"

definition in_int64 :: "int \<Rightarrow> int option" where
  "in_int64 z = (if is_int64 z then Some z else None)"

definition ParseInt :: "string \<Rightarrow> int option" where
  "ParseInt s =
     (case s of
        [] \<Rightarrow> None
      | c # r \<Rightarrow>
          if c = CHR ''-'' then Option.bind (parse_nat r) (\<lambda>n. in_int64 (- int n))
          else if c = CHR ''+'' then Option.bind (parse_nat r) (\<lambda>n. in_int64 (int n))
          else Option.bind (parse_nat s) (\<lambda>n. in_int64 (int n)))"

abbreviation Atoi :: "string \<Rightarrow> int option" where
  "Atoi \<equiv> ParseInt"

section \<open>The characters of a printed number\<close>

lemma code_digit_char [simp]: "d < 10 \<Longrightarrow> code (digit_char d) = 48 + d"
  by (simp add: digit_char_def)

lemma digit_val_digit_char [simp]: "d < 10 \<Longrightarrow> digit_val (digit_char d) = d"
  by (simp add: digit_val_def)

lemma is_digit_digit_char [simp]: "d < 10 \<Longrightarrow> is_digit (digit_char d)"
  by (simp add: is_digit_def in_range_def)

lemma format_nat_digits: "c \<in> set (format_nat n) \<Longrightarrow> is_digit c"
proof (induction n rule: less_induct)
  case (less n)
  show ?case
  proof (cases "n < 10")
    case True
    with less.prems show ?thesis
      by (simp add: format_nat.simps [of n])
  next
    case False
    with less.prems have "c \<in> set (format_nat (n div 10)) \<or> c = digit_char (n mod 10)"
      by (auto simp: format_nat.simps [of n])
    with False less.IH [of "n div 10"] show ?thesis
      by auto
  qed
qed

lemma format_nat_not_Nil [simp]: "format_nat n \<noteq> []"
  by (subst format_nat.simps) simp

lemma is_digit_not_sign:
  "is_digit c \<Longrightarrow> c \<noteq> CHR ''-''" "is_digit c \<Longrightarrow> c \<noteq> CHR ''+''" "is_digit c \<Longrightarrow> c \<noteq> CHR '':''"
  by (auto simp: is_digit_def in_range_def)

lemma FormatInt_no_colon: "CHR '':'' \<notin> set (FormatInt z)"
  using format_nat_digits is_digit_not_sign(3) by (auto simp: FormatInt_def)

section \<open>Round trip\<close>

lemma format_nat_value: "foldl (\<lambda>n c. 10 * n + digit_val c) 0 (format_nat n) = n"
proof (induction n rule: less_induct)
  case (less n)
  then show ?case
    by (subst format_nat.simps) simp
qed

lemma parse_nat_format_nat [simp]: "parse_nat (format_nat n) = Some n"
  using format_nat_digits [of _ n]
  by (auto simp: parse_nat_def list_ex_iff format_nat_value)

lemma ParseInt_FormatInt [simp]: "is_int64 z \<Longrightarrow> ParseInt (FormatInt z) = Some z"
proof (cases "z < 0")
  case True
  then show "is_int64 z \<Longrightarrow> ?thesis"
    by (simp add: ParseInt_def FormatInt_def in_int64_def)
next
  case False
  obtain c r where cr: "format_nat (nat z) = c # r"
    using format_nat_not_Nil by (cases "format_nat (nat z)") auto
  then have "is_digit c"
    using format_nat_digits [of c "nat z"] by simp
  then have "c \<noteq> CHR ''-''" "c \<noteq> CHR ''+''"
    by (auto dest: is_digit_not_sign)
  with False cr show "is_int64 z \<Longrightarrow> ?thesis"
    using parse_nat_format_nat [of "nat z"] by (simp add: ParseInt_def FormatInt_def in_int64_def)
qed

lemma format_nat_inject: "format_nat m = format_nat n \<longleftrightarrow> m = n"
  by (metis option.inject parse_nat_format_nat)

lemma FormatInt_inject [simp]: "FormatInt a = FormatInt b \<longleftrightarrow> a = b"
proof
  assume eq: "FormatInt a = FormatInt b"
  have not_sign: "format_nat n \<noteq> CHR ''-'' # r" for n r
    using format_nat_digits [of "CHR ''-''" n] is_digit_not_sign(1) [of "CHR ''-''"]
    by (metis list.set_intros(1))
  then have not_sign': "CHR ''-'' # r \<noteq> format_nat n" for n r
    by metis
  from eq show "a = b"
    by (auto simp: FormatInt_def format_nat_inject not_sign not_sign' split: if_splits)
qed simp

end
