(* ===== verification/Keys.thy ===== *)
theory Keys
  imports Sha256 Strconv
begin

text \<open>
  Per-tenant signing keys (\<^verbatim>\<open>internal/auth/keys.go\<close>). A tenant has a current key version that
  signs; \<open>Rotate\<close> demotes it into a seven-day overlap window in which it still verifies. The
  in-process implementation \<^verbatim>\<open>StaticKMS\<close> is modelled with every branch of its five
  operations; the locale \<open>kms_client\<close> states what \<^verbatim>\<open>KMSClient\<close> promises its callers and is
  interpreted on \<^verbatim>\<open>StaticKMS\<close>. A clock reading is the argument \<open>now\<close>; the outcome of
  \<^verbatim>\<open>rand.Read\<close> is an argument of type \<^typ>\<open>bytes option\<close>, \<^term>\<open>None\<close> for a failed read.
\<close>

section \<open>State\<close>

text \<open>\<^verbatim>\<open>uuid.UUID\<close> is an array of sixteen bytes.\<close>

type_synonym uuid = bytes

datatype auth_error =
    ErrMalformed
  | ErrExpired
  | ErrTooFarInFuture
  | ErrUnknownKeyVer
  | ErrBadSignature
  | ErrReplay
  | ErrNotTenantBlock
  | ErrNonceUnavailable
  | ErrNoKeys
  | ErrEntropy
  | ErrSigningKey
  | ErrWeakKey nat
  | ErrVerificationKey
  | ErrOwnershipProbe

definition KeyRotationPeriod :: duration where
  "KeyRotationPeriod = 90 * 24 * Hour"

definition OverlapWindow :: duration where
  "OverlapWindow = 7 * 24 * Hour"

text \<open>The zero \<^verbatim>\<open>time.Time\<close> is \<^term>\<open>None\<close>.\<close>

record KeyRecord =
  Key :: bytes
  ActivatedAt :: instant
  SupersededAt :: "instant option"

definition Active :: "KeyRecord \<Rightarrow> instant \<Rightarrow> bool" where
  "Active r now =
     (case SupersededAt r of
        None \<Rightarrow> True
      | Some t \<Rightarrow> now < t + OverlapWindow)"

record tenantKeys =
  current :: int
  versions :: "int \<Rightarrow> KeyRecord option"

record StaticKMS =
  tenants :: "uuid \<Rightarrow> tenantKeys option"
  autoProvision :: bool

section \<open>Operations\<close>

definition NewStaticKMS :: StaticKMS where
  "NewStaticKMS = \<lparr>tenants = Map.empty, autoProvision = False\<rparr>"

definition EnableAutoProvision :: "StaticKMS \<Rightarrow> StaticKMS" where
  "EnableAutoProvision s = s\<lparr>autoProvision := True\<rparr>"

definition fresh_record :: "bytes \<Rightarrow> instant \<Rightarrow> KeyRecord" where
  "fresh_record key now = \<lparr>Key = key, ActivatedAt = now, SupersededAt = None\<rparr>"

definition Provision :: "StaticKMS \<Rightarrow> instant \<Rightarrow> uuid \<Rightarrow> int \<Rightarrow> bytes \<Rightarrow> StaticKMS" where
  "Provision s now tenantID version key =
     (let tk = (case tenants s tenantID of
                  None \<Rightarrow> \<lparr>current = 0, versions = Map.empty\<rparr>
                | Some tk \<Rightarrow> tk);
          tk' = tk\<lparr>current := version, versions := (versions tk)(version \<mapsto> fresh_record key now)\<rparr>
      in s\<lparr>tenants := (tenants s)(tenantID \<mapsto> tk')\<rparr>)"

text \<open>A map lookup without \<^verbatim>\<open>ok\<close> gives the zero record when the key is absent.\<close>

definition zero_record :: KeyRecord where
  "zero_record = \<lparr>Key = [], ActivatedAt = 0, SupersededAt = None\<rparr>"

definition version_record :: "tenantKeys \<Rightarrow> int \<Rightarrow> KeyRecord" where
  "version_record tk v = (case versions tk v of None \<Rightarrow> zero_record | Some r \<Rightarrow> r)"

definition auto_keys :: "bytes \<Rightarrow> instant \<Rightarrow> tenantKeys" where
  "auto_keys raw now = \<lparr>current = 1, versions = [1 \<mapsto> fresh_record raw now]\<rparr>"

definition SigningKey ::
  "StaticKMS \<Rightarrow> instant \<Rightarrow> bytes option \<Rightarrow> uuid \<Rightarrow> (auth_error + int \<times> bytes) \<times> StaticKMS" where
  "SigningKey s now rnd tenantID =
     (case tenants s tenantID of
        Some tk \<Rightarrow> (Inr (current tk, Key (version_record tk (current tk))), s)
      | None \<Rightarrow>
          if \<not> autoProvision s then (Inl ErrNoKeys, s)
          else
            (case rnd of
               None \<Rightarrow> (Inl ErrEntropy, s)
             | Some raw \<Rightarrow>
                 let tk = auto_keys raw now
                 in (Inr (current tk, Key (version_record tk (current tk))),
                     s\<lparr>tenants := (tenants s)(tenantID \<mapsto> tk)\<rparr>)))"

definition VerificationKey ::
  "StaticKMS \<Rightarrow> instant \<Rightarrow> bytes option \<Rightarrow> uuid \<Rightarrow> int \<Rightarrow> (auth_error + bytes \<times> bool) \<times> StaticKMS" where
  "VerificationKey s now rnd tenantID version =
     (let resolve = (\<lambda>tk. case versions tk version of
                             None \<Rightarrow> ([], False)
                           | Some rec \<Rightarrow> if \<not> Active rec now then ([], False) else (Key rec, True))
      in case tenants s tenantID of
           Some tk \<Rightarrow> (Inr (resolve tk), s)
         | None \<Rightarrow>
             if \<not> autoProvision s then (Inl ErrNoKeys, s)
             else
               (case rnd of
                  None \<Rightarrow> (Inl ErrEntropy, s)
                | Some raw \<Rightarrow>
                    let tk = auto_keys raw now
                    in (Inr (resolve tk), s\<lparr>tenants := (tenants s)(tenantID \<mapsto> tk)\<rparr>)))"

definition Rotate ::
  "StaticKMS \<Rightarrow> instant \<Rightarrow> bytes option \<Rightarrow> uuid \<Rightarrow> (auth_error + int) \<times> StaticKMS" where
  "Rotate s now rnd tenantID =
     (case tenants s tenantID of
        None \<Rightarrow> (Inl ErrNoKeys, s)
      | Some tk \<Rightarrow>
          (case rnd of
             None \<Rightarrow> (Inl ErrEntropy, s)
           | Some raw \<Rightarrow>
               let old = (version_record tk (current tk))\<lparr>SupersededAt := Some now\<rparr>;
                   vs = (versions tk)(current tk \<mapsto> old);
                   tk' = tk\<lparr>current := current tk + 1, versions := vs(current tk + 1 \<mapsto> fresh_record raw now)\<rparr>
               in (Inr (current tk'), s\<lparr>tenants := (tenants s)(tenantID \<mapsto> tk')\<rparr>)))"

section \<open>Invariant: a tenant's current version is present and not superseded\<close>

definition keys_ok :: "tenantKeys \<Rightarrow> bool" where
  "keys_ok tk \<longleftrightarrow> (\<exists>r. versions tk (current tk) = Some r \<and> SupersededAt r = None)"

definition kms_ok :: "StaticKMS \<Rightarrow> bool" where
  "kms_ok s \<longleftrightarrow> (\<forall>t tk. tenants s t = Some tk \<longrightarrow> keys_ok tk)"

lemma kms_okD: "kms_ok s \<Longrightarrow> tenants s t = Some tk \<Longrightarrow> keys_ok tk"
  by (simp add: kms_ok_def)

lemma kms_ok_upd: "kms_ok s \<Longrightarrow> keys_ok tk \<Longrightarrow> kms_ok (s\<lparr>tenants := (tenants s)(t \<mapsto> tk)\<rparr>)"
  by (simp add: kms_ok_def)

lemma keys_ok_auto [simp]: "keys_ok (auto_keys raw now)"
  by (simp add: keys_ok_def auto_keys_def fresh_record_def)

lemma kms_ok_New [simp]: "kms_ok NewStaticKMS"
  by (simp add: kms_ok_def NewStaticKMS_def)

lemma kms_ok_EnableAutoProvision: "kms_ok s \<Longrightarrow> kms_ok (EnableAutoProvision s)"
  by (simp add: kms_ok_def EnableAutoProvision_def)

lemma kms_ok_Provision: "kms_ok s \<Longrightarrow> kms_ok (Provision s now t v key)"
  unfolding Provision_def Let_def
  by (rule kms_ok_upd) (auto simp: keys_ok_def fresh_record_def split: option.splits)

lemma kms_ok_SigningKey: "kms_ok s \<Longrightarrow> kms_ok (snd (SigningKey s now rnd t))"
  by (auto simp: SigningKey_def Let_def kms_ok_upd split: option.splits)

lemma kms_ok_VerificationKey: "kms_ok s \<Longrightarrow> kms_ok (snd (VerificationKey s now rnd t v))"
  by (auto simp: VerificationKey_def Let_def kms_ok_upd split: option.splits)

lemma kms_ok_Rotate: "kms_ok s \<Longrightarrow> kms_ok (snd (Rotate s now rnd t))"
  by (auto simp: Rotate_def Let_def keys_ok_def fresh_record_def intro!: kms_ok_upd split: option.splits)

lemmas kms_ok_ops = kms_ok_EnableAutoProvision kms_ok_Provision kms_ok_SigningKey
  kms_ok_VerificationKey kms_ok_Rotate

lemma SigningKey_frame [frame_simps]:
  "tenants s t = Some tk \<Longrightarrow> tenants (snd (SigningKey s now rnd t')) t = Some tk"
  by (auto simp: SigningKey_def Let_def split: option.splits)

lemma VerificationKey_frame [frame_simps]:
  "tenants s t = Some tk \<Longrightarrow> tenants (snd (VerificationKey s now rnd t' v)) t = Some tk"
  by (auto simp: VerificationKey_def Let_def split: option.splits)

section \<open>The interface KMSClient\<close>

text \<open>What the token generator relies on: the key handed out for signing verifies at once under
  the version it came with. The operations take a clock reading and the outcome of a read from
  the entropy source.\<close>

locale kms_client =
  fixes inv :: "'k \<Rightarrow> bool"
    and signing :: "'k \<Rightarrow> instant \<Rightarrow> bytes option \<Rightarrow> uuid \<Rightarrow> (auth_error + int \<times> bytes) \<times> 'k"
    and verification :: "'k \<Rightarrow> instant \<Rightarrow> bytes option \<Rightarrow> uuid \<Rightarrow> int \<Rightarrow> (auth_error + bytes \<times> bool) \<times> 'k"
  assumes inv_signing: "inv k \<Longrightarrow> inv (snd (signing k now rnd t))"
    and inv_verification: "inv k \<Longrightarrow> inv (snd (verification k now rnd t v))"
    and verifies_own: "\<lbrakk>inv k; signing k now rnd t = (Inr (v, key), k')\<rbrakk> \<Longrightarrow>
      verification k' now' rnd' t v = (Inr (key, True), k')"
    and signing_stable: "\<lbrakk>inv k; signing k now rnd t = (Inr (v, key), k')\<rbrakk> \<Longrightarrow>
      signing k' now' rnd' t = (Inr (v, key), k')"

lemma SigningKey_verifies:
  assumes "kms_ok s" and "SigningKey s now rnd t = (Inr (v, key), s')"
  shows "VerificationKey s' now' rnd' t v = (Inr (key, True), s')"
proof (cases "tenants s t")
  case None
  with assms(2) show ?thesis
    by (auto simp: SigningKey_def VerificationKey_def Let_def auto_keys_def version_record_def
        fresh_record_def Active_def split: option.splits if_splits)
next
  case (Some tk)
  with assms(1) obtain r where "versions tk (current tk) = Some r" "SupersededAt r = None"
    using kms_okD keys_ok_def by blast
  with Some assms(2) show ?thesis
    by (auto simp: SigningKey_def VerificationKey_def version_record_def Active_def)
qed

lemma SigningKey_stable:
  assumes "SigningKey s now rnd t = (Inr (v, key), s')"
  shows "SigningKey s' now' rnd' t = (Inr (v, key), s')"
  using assms by (auto simp: SigningKey_def Let_def split: option.splits if_splits)

interpretation static: kms_client kms_ok SigningKey VerificationKey
  by unfold_locales
    (fact kms_ok_SigningKey kms_ok_VerificationKey SigningKey_verifies | rule SigningKey_stable, assumption)+

section \<open>Rotation\<close>

text \<open>A schedule of successful rotations of one tenant: instants and fresh key bytes.\<close>

fun rotate_all :: "StaticKMS \<Rightarrow> uuid \<Rightarrow> (instant \<times> bytes) list \<Rightarrow> StaticKMS" where
  "rotate_all s t [] = s"
| "rotate_all s t ((now, raw) # rs) = rotate_all (snd (Rotate s now (Some raw) t)) t rs"

definition overlap_open :: "(instant \<times> bytes) list \<Rightarrow> instant \<Rightarrow> bool" where
  "overlap_open rs now = (case rs of [] \<Rightarrow> True | (r, _) # _ \<Rightarrow> now < r + OverlapWindow)"

text \<open>Once a version is no longer current, later rotations leave its record alone.\<close>

lemma rotate_all_old_version:
  assumes "tenants s t = Some tk" and "v < current tk"
  shows "\<exists>tk'. tenants (rotate_all s t rs) t = Some tk' \<and> versions tk' v = versions tk v"
  using assms
proof (induction rs arbitrary: s tk)
  case (Cons r rs)
  obtain now raw where r: "r = (now, raw)" by (cases r)
  let ?s = "snd (Rotate s now (Some raw) t)"
  from Cons.prems obtain tk1 where
    "tenants ?s t = Some tk1" "v < current tk1" "versions tk1 v = versions tk v"
    by (auto simp: Rotate_def Let_def)
  then show ?case
    using Cons.IH [of ?s tk1] by (simp add: r)
qed simp

lemma rotate_all_current_version:
  assumes "tenants s t = Some tk" and "versions tk (current tk) = Some rec" and "SupersededAt rec = None"
  shows "\<exists>tk' rec'. tenants (rotate_all s t rs) t = Some tk' \<and> versions tk' (current tk) = Some rec' \<and>
           Key rec' = Key rec \<and> (Active rec' now \<longleftrightarrow> overlap_open rs now)"
proof (cases rs)
  case Nil
  with assms show ?thesis
    by (simp add: Active_def overlap_open_def)
next
  case (Cons r rs')
  obtain at raw where r: "r = (at, raw)" by (cases r)
  let ?s = "snd (Rotate s at (Some raw) t)"
  from assms obtain tk1 where
    "tenants ?s t = Some tk1" "current tk < current tk1"
    "versions tk1 (current tk) = Some (rec\<lparr>SupersededAt := Some at\<rparr>)"
    by (auto simp: Rotate_def Let_def version_record_def)
  then show ?thesis
    using rotate_all_old_version [of ?s t tk1 "current tk" rs']
    by (auto simp: Cons r Active_def overlap_open_def)
qed

text \<open>A version that signed still verifies through any later rotations while the overlap window
  of the first of them is open.\<close>

lemma rotation_verifies_if:
  assumes "kms_ok s" and "SigningKey s now0 rnd0 t = (Inr (v, key), s')"
  shows "VerificationKey (rotate_all s' t rs) now rnd t v =
    (Inr (if overlap_open rs now then (key, True) else ([], False)), rotate_all s' t rs)"
proof -
  have "kms_ok s'"
    using kms_ok_SigningKey [OF assms(1), of now0 rnd0 t] assms(2) by simp
  moreover obtain tk where tk: "tenants s' t = Some tk" and "current tk = v"
    and "Key (version_record tk v) = key"
    using assms(2) by (auto simp: SigningKey_def Let_def split: option.splits if_splits)
  ultimately obtain rec where "versions tk v = Some rec" "SupersededAt rec = None" "Key rec = key"
    using kms_okD [of s' t tk] by (auto simp: keys_ok_def version_record_def)
  with rotate_all_current_version [of s' t tk rec rs now] tk \<open>current tk = v\<close> show ?thesis
    by (auto simp: VerificationKey_def)
qed

lemma rotation_verifies:
  assumes "kms_ok s" and "SigningKey s now0 rnd0 t = (Inr (v, key), s')" and "overlap_open rs now"
  shows "VerificationKey (rotate_all s' t rs) now rnd t v = (Inr (key, True), rotate_all s' t rs)"
  using rotation_verifies_if [OF assms(1,2)] assms(3) by simp

section \<open>Properties\<close>

text \<open>A key version that signed tokens keeps verifying them, with the same key bytes, until
  seven days after the first rotation that superseded it, however many rotations follow; from
  then on it is reported inactive.\<close>

theorem key_overlap_window:
  assumes "kms_ok s" and "SigningKey s now0 rnd0 t = (Inr (v, key), s')"
  shows "VerificationKey (rotate_all s' t rs) now rnd t v =
    (Inr (if overlap_open rs now then (key, True) else ([], False)), rotate_all s' t rs)"
  using assms by (rule rotation_verifies_if)

theorem key_overlap_window_witness:
  "let s = Provision NewStaticKMS 0 [1] 1 (replicate 32 7);
       s' = rotate_all s [1] [(5, [1]), (9, [2])]
   in VerificationKey s' (5 + OverlapWindow - 1) None [1] 1 = (Inr (replicate 32 7, True), s') \<and>
      VerificationKey s' (5 + OverlapWindow) None [1] 1 = (Inr ([], False), s')"
proof -
  let ?s = "Provision NewStaticKMS 0 [1] 1 (replicate 32 7)"
  have "SigningKey ?s 0 None [1] = (Inr (1, replicate 32 7), ?s)"
    by (simp add: SigningKey_def Provision_def NewStaticKMS_def version_record_def fresh_record_def Let_def)
  moreover have "kms_ok ?s"
    by (simp add: kms_ok_Provision)
  ultimately show ?thesis
    unfolding Let_def
    using key_overlap_window [of ?s 0 None "[1]" 1 "replicate 32 7" ?s "[(5, [1]), (9, [2])]"]
    by (simp add: overlap_open_def)
qed

end
