(* ===== verification/Replay.thy ===== *)
theory Replay
  imports Keys
begin

text \<open>
  The anti-replay nonce store (\<^verbatim>\<open>internal/auth/replay.go\<close>). The locale \<open>nonce_store\<close> is the
  contract of the Go interface \<^verbatim>\<open>NonceStore\<close>: a nonce is live for the given time after the call
  that consumed it, and a call succeeds exactly when the nonce is not live. It is interpreted on
  \<^verbatim>\<open>InMemoryNonceStore\<close>; the at-most-once consequences are proved once inside the locale.
  \<^verbatim>\<open>RedisNonceStore\<close> is one \<^verbatim>\<open>SETNX\<close> call, whose reply is an argument of the model.
\<close>

section \<open>The in-memory store\<close>

record InMemoryNonceStore =
  seen :: "string \<Rightarrow> instant option"
  maxSize :: nat

definition NewInMemoryNonceStore :: "int \<Rightarrow> InMemoryNonceStore" where
  "NewInMemoryNonceStore maxEntries =
     \<lparr>seen = Map.empty, maxSize = (if maxEntries \<le> 0 then 2 ^ 20 else nat maxEntries)\<rparr>"

definition sweep_expired :: "instant \<Rightarrow> (string \<Rightarrow> instant option) \<Rightarrow> string \<Rightarrow> instant option" where
  "sweep_expired now m =
     (\<lambda>k. case m k of None \<Rightarrow> None | Some exp \<Rightarrow> if \<not> exp > now then None else Some exp)"

definition Consume ::
  "InMemoryNonceStore \<Rightarrow> instant \<Rightarrow> string \<Rightarrow> duration \<Rightarrow> (auth_error + bool) \<times> InMemoryNonceStore" where
  "Consume s now nonce ttl =
     (let m = (if card (dom (seen s)) \<ge> maxSize s then sweep_expired now (seen s) else seen s);
          s1 = s\<lparr>seen := m\<rparr>
      in case m nonce of
           Some exp \<Rightarrow>
             if exp > now then (Inr False, s1)
             else (Inr True, s1\<lparr>seen := m(nonce \<mapsto> now + ttl)\<rparr>)
         | None \<Rightarrow> (Inr True, s1\<lparr>seen := m(nonce \<mapsto> now + ttl)\<rparr>))"

section \<open>The Redis store\<close>

definition nonceKeyPrefix :: string where
  "nonceKeyPrefix = ''aegis:nonce:''"

definition nonceKey :: "string \<Rightarrow> string" where
  "nonceKey nonce = nonceKeyPrefix @ EncodeToString (Sum256 (string_bytes (nonceKeyPrefix @ nonce)))"

text \<open>\<open>setnx\<close> is the Redis client: key, value, time to live, and a result with the store it
  leaves behind.\<close>

definition RedisConsume ::
  "('s \<Rightarrow> string \<Rightarrow> int \<Rightarrow> duration \<Rightarrow> (auth_error + bool) \<times> 's) \<Rightarrow>
   's \<Rightarrow> string \<Rightarrow> duration \<Rightarrow> (auth_error + bool) \<times> 's" where
  "RedisConsume setnx s nonce ttl =
     (case setnx s (nonceKey nonce) 1 ttl of
        (Inl e, s') \<Rightarrow> (Inl e, s')
      | (Inr ok, s') \<Rightarrow> (Inr ok, s'))"

section \<open>The interface NonceStore\<close>

text \<open>A sequence of calls, each a clock reading, a nonce and a time to live.\<close>

fun consume_all ::
  "('s \<Rightarrow> instant \<Rightarrow> string \<Rightarrow> duration \<Rightarrow> (auth_error + bool) \<times> 's) \<Rightarrow>
   's \<Rightarrow> (instant \<times> string \<times> duration) list \<Rightarrow> (auth_error + bool) list" where
  "consume_all consume s [] = []"
| "consume_all consume s ((now, n, ttl) # calls) =
     (case consume s now n ttl of (r, s') \<Rightarrow> r # consume_all consume s' calls)"

locale nonce_store =
  fixes consume :: "'s \<Rightarrow> instant \<Rightarrow> string \<Rightarrow> duration \<Rightarrow> (auth_error + bool) \<times> 's"
    and live :: "'s \<Rightarrow> instant \<Rightarrow> string \<Rightarrow> bool"
  assumes consume_iff: "consume s now n ttl = (Inr b, s') \<Longrightarrow> b \<longleftrightarrow> \<not> live s now n"
    and live_consumed: "\<lbrakk>consume s now n ttl = (Inr True, s'); now \<le> t\<rbrakk> \<Longrightarrow> live s' t n \<longleftrightarrow> t < now + ttl"
    and live_other: "\<lbrakk>consume s now n ttl = (r, s'); now \<le> t; m \<noteq> n\<rbrakk> \<Longrightarrow> live s' t m \<longleftrightarrow> live s t m"
    and live_refused: "\<lbrakk>consume s now n ttl = (r, s'); r \<noteq> Inr True; now \<le> t\<rbrakk> \<Longrightarrow> live s' t n \<longleftrightarrow> live s t n"
begin

lemma consume_live_refused: "live s now n \<Longrightarrow> fst (consume s now n ttl) \<noteq> Inr True"
  using consume_iff [of s now n ttl True "snd (consume s now n ttl)"] by (metis prod.collapse)

lemma live_kept:
  assumes "live s t n" and "now \<le> t"
  shows "live (snd (consume s now m ttl)) t n \<or> (m = n \<and> fst (consume s now m ttl) = Inr True)"
proof (cases "m = n \<and> fst (consume s now m ttl) = Inr True")
  case False
  obtain r s' where rs: "consume s now m ttl = (r, s')" by fastforce
  with False assms show ?thesis
    using live_other [OF rs] live_refused [OF rs] by (cases "m = n") auto
qed blast

text \<open>As long as a nonce is live, no call in a run of calls that ends before its expiry succeeds
  for it, whatever other nonces are consumed in between.\<close>

lemma consume_all_live_refused:
  assumes "\<And>t. t < expiry \<Longrightarrow> t0 \<le> t \<Longrightarrow> live s t n"
    and "sorted (map fst calls)"
    and "\<And>c. c \<in> set calls \<Longrightarrow> t0 \<le> fst c \<and> fst c < expiry"
    and "i < length calls" and "fst (snd (calls ! i)) = n"
  shows "consume_all consume s calls ! i \<noteq> Inr True"
  using assms
proof (induction calls arbitrary: s t0 i)
  case (Cons c calls)
  obtain now m ttl where c: "c = (now, m, ttl)" by (cases c)
  obtain r s1 where rs: "consume s now m ttl = (r, s1)" by fastforce
  have now: "t0 \<le> now" "now < expiry"
    using Cons.prems(3) [of c] by (auto simp: c)
  then have live_now: "live s now n"
    using Cons.prems(1) by blast
  show ?case
  proof (cases i)
    case 0
    with Cons.prems(5) have "m = n" by (simp add: c)
    with live_now rs show ?thesis
      using consume_live_refused [of s now n ttl] by (simp add: 0 c rs)
  next
    case (Suc j)
    have "live s1 t n" if "t < expiry" "now \<le> t" for t
    proof -
      have "live s t n"
        using Cons.prems(1) that now by simp
      with live_kept [of s t n now m ttl] that rs live_now show ?thesis
        using consume_live_refused [of s now n ttl] by auto
    qed
    moreover have "sorted (map fst calls)" and "\<And>d. d \<in> set calls \<Longrightarrow> now \<le> fst d \<and> fst d < expiry"
      using Cons.prems(2,3) by (auto simp: c)
    ultimately have "consume_all consume s1 calls ! j \<noteq> Inr True"
      using Cons.IH [of now s1 j] Cons.prems(4,5) Suc by auto
    then show ?thesis
      by (simp add: Suc c rs)
  qed
qed simp

lemma consume_all_once:
  assumes "fst (consume s now n ttl) = Inr True"
    and "sorted (now # map fst calls)"
    and "\<And>c. c \<in> set calls \<Longrightarrow> fst c < now + ttl"
    and "i < length calls" and "fst (snd (calls ! i)) = n"
  shows "consume_all consume (snd (consume s now n ttl)) calls ! i \<noteq> Inr True"
proof -
  obtain s' where s': "consume s now n ttl = (Inr True, s')"
    using assms(1) by (metis prod.collapse)
  show ?thesis
    using consume_all_live_refused [of "now + ttl" now s' n calls i] live_consumed [OF s'] assms(2-) s'
    by auto
qed

end

section \<open>Interpretation on the in-memory store\<close>

definition nonce_live :: "InMemoryNonceStore \<Rightarrow> instant \<Rightarrow> string \<Rightarrow> bool" where
  "nonce_live s t n = (case seen s n of None \<Rightarrow> False | Some exp \<Rightarrow> exp > t)"

text \<open>The lazy sweep removes nothing that is still live, now or later.\<close>

lemma sweep_expired_live:
  "now \<le> t \<Longrightarrow> (case sweep_expired now m k of None \<Rightarrow> False | Some e \<Rightarrow> e > t) =
                (case m k of None \<Rightarrow> False | Some e \<Rightarrow> e > t)"
  by (auto simp: sweep_expired_def split: option.splits)

lemma Consume_cases:
  assumes "Consume s now n ttl = (r, s')"
  obtains m where "\<And>t k. now \<le> t \<Longrightarrow> nonce_live (s\<lparr>seen := m\<rparr>) t k = nonce_live s t k"
    and "r = Inr (\<not> nonce_live s now n)"
    and "s' = s\<lparr>seen := if nonce_live s now n then m else m(n \<mapsto> now + ttl)\<rparr>"
proof -
  define m where "m = (if card (dom (seen s)) \<ge> maxSize s then sweep_expired now (seen s) else seen s)"
  have live: "nonce_live (s\<lparr>seen := m\<rparr>) t k = nonce_live s t k" if "now \<le> t" for t k
    using that by (simp add: nonce_live_def m_def sweep_expired_live)
  have now: "nonce_live s now n = (case m n of None \<Rightarrow> False | Some e \<Rightarrow> e > now)"
    using live [of now n] by (simp add: nonce_live_def)
  have "r = Inr (\<not> nonce_live s now n)"
    and "s' = s\<lparr>seen := if nonce_live s now n then m else m(n \<mapsto> now + ttl)\<rparr>"
    using assms unfolding Consume_def Let_def m_def [symmetric] now
    by (auto split: option.splits if_splits)
  with live show thesis
    by (rule that)
qed

interpretation mem: nonce_store Consume nonce_live
proof unfold_locales
  fix s s' :: InMemoryNonceStore and now t ttl n b
  show "b \<longleftrightarrow> \<not> nonce_live s now n" if "Consume s now n ttl = (Inr b, s')"
    using that by (rule Consume_cases) simp
  show "nonce_live s' t n \<longleftrightarrow> t < now + ttl" if "Consume s now n ttl = (Inr True, s')" "now \<le> t"
    using that(1) by (rule Consume_cases) (auto simp: nonce_live_def)
next
  fix s s' :: InMemoryNonceStore and now t ttl n m r
  assume c: "Consume s now n ttl = (r, s')" and t: "now \<le> t"
  show "nonce_live s' t m \<longleftrightarrow> nonce_live s t m" if "m \<noteq> n"
    using c by (rule Consume_cases) (use that t in \<open>auto simp: nonce_live_def\<close>)
  show "nonce_live s' t n \<longleftrightarrow> nonce_live s t n" if "r \<noteq> Inr True"
    using c by (rule Consume_cases) (use that t in \<open>auto simp: nonce_live_def\<close>)
qed

section \<open>Properties\<close>

text \<open>Once a call consumes a nonce for a time \<open>ttl\<close>, no later call for that nonce succeeds
  before that time has passed, whatever other nonces are consumed and whatever the lazy sweep
  drops in between.\<close>

theorem nonce_consumed_once:
  assumes "fst (Consume s now n ttl) = Inr True"
    and "sorted (now # map fst calls)"
    and "\<And>c. c \<in> set calls \<Longrightarrow> fst c < now + ttl"
    and "i < length calls" and "fst (snd (calls ! i)) = n"
  shows "consume_all Consume (snd (Consume s now n ttl)) calls ! i = Inr False"
proof -
  have "consume_all Consume s' cs ! j \<in> range Inr" if "j < length cs" for s' cs j
    using that
  proof (induction cs arbitrary: s' j)
    case (Cons c cs)
    obtain at m d where c: "c = (at, m, d)" by (cases c)
    obtain r s1 where rs: "Consume s' at m d = (r, s1)" by fastforce
    then have "r \<in> range Inr"
      by (metis Consume_cases rangeI)
    with Cons rs show ?case
      by (cases j) (simp_all add: c)
  qed simp
  then obtain b where b: "consume_all Consume (snd (Consume s now n ttl)) calls ! i = Inr b"
    using assms(4) by blast
  moreover have "consume_all Consume (snd (Consume s now n ttl)) calls ! i \<noteq> Inr True"
    using assms by (rule mem.consume_all_once)
  ultimately show ?thesis
    by auto
qed

theorem nonce_consumed_once_witness:
  "consume_all Consume (snd (Consume (NewInMemoryNonceStore 1) 0 ''a'' 10)) [(1, ''b'', 10), (9, ''a'', 10)] ! 1
     = Inr False"
  by (rule nonce_consumed_once) (auto simp: Consume_def NewInMemoryNonceStore_def)

end
