(* ===== verification/Tokens.thy ===== *)
theory Tokens
  imports Replay
begin

text \<open>
  HMAC pre-signed upload tokens (\<^verbatim>\<open>internal/auth/hmac.go\<close>): the claims and their canonical
  message, signing, the wire format and the full validation sequence. The KMS and the nonce store
  are the interface values the Go struct holds: functions over their states, so every change a
  validation makes to them is in its result. \<^verbatim>\<open>uuid.UUID.String\<close> and \<^verbatim>\<open>uuid.Parse\<close> are code
  of a third-party package and arguments of the definitions (\<open>str\<close>, \<open>parse\<close>); the parsed form of
  a URL is the argument of \<open>ParsePreSignedURL\<close>.
\<close>

section \<open>Claims\<close>

definition DefaultTokenTTL :: duration where
  "DefaultTokenTTL = 15 * Minute"

definition DefaultClockSkew :: duration where
  "DefaultClockSkew = Minute"

definition NonceSize :: nat where
  "NonceSize = 16"

definition msgDomain :: string where
  "msgDomain = ''aegis1''"

definition defaultBaseURL :: string where
  "defaultBaseURL = ''https://blob-storage''"

record Claims =
  TenantID :: uuid
  BlockHash :: string
  ExpiryUnix :: int
  KeyVersion :: int
  EndpointID :: string
  NonceHex :: string

definition message :: "(uuid \<Rightarrow> string) \<Rightarrow> Claims \<Rightarrow> bytes" where
  "message str c = string_bytes
     (msgDomain @ '':'' @
      Itoa (KeyVersion c) @ '':'' @
      str (TenantID c) @ '':'' @
      BlockHash c @ '':'' @
      FormatInt (ExpiryUnix c) @ '':'' @
      EndpointID c @ '':'' @
      NonceHex c)"

definition valid :: "Claims \<Rightarrow> auth_error option" where
  "valid c =
     (if BlockHash c = '''' then Some ErrMalformed
      else if length (BlockHash c) \<noteq> 64 \<or> \<not> isLowerHex (BlockHash c) then Some ErrMalformed
      else if EndpointID c = '''' \<or> length (EndpointID c) > 64 \<or> \<not> isEndpointSafe (EndpointID c)
        then Some ErrMalformed
      else if KeyVersion c < 1 \<or> KeyVersion c > 1000000 then Some ErrMalformed
      else if length (NonceHex c) \<noteq> NonceSize * 2 \<or> \<not> isLowerHex (NonceHex c) then Some ErrMalformed
      else None)"

section \<open>The token generator\<close>

text \<open>The interface values \<^verbatim>\<open>kms\<close> and \<^verbatim>\<open>nonces\<close> and the clock are arguments of the operations;
  the ownership checker is \<^term>\<open>None\<close> where the Go field is nil.\<close>

record TokenGenerator =
  ttl :: duration
  skew :: duration
  baseURL :: string
  ownership :: "(uuid \<Rightarrow> string \<Rightarrow> auth_error + bool) option"

definition NewTokenGenerator :: "(TokenGenerator \<Rightarrow> TokenGenerator) list \<Rightarrow> TokenGenerator" where
  "NewTokenGenerator opts =
     foldl (\<lambda>t opt. opt t)
       \<lparr>ttl = DefaultTokenTTL, skew = DefaultClockSkew, baseURL = defaultBaseURL, ownership = None\<rparr> opts"

definition WithTTL :: "duration \<Rightarrow> TokenGenerator \<Rightarrow> TokenGenerator" where
  "WithTTL d t = t\<lparr>ttl := d\<rparr>"

definition WithSkew :: "duration \<Rightarrow> TokenGenerator \<Rightarrow> TokenGenerator" where
  "WithSkew d t = t\<lparr>skew := d\<rparr>"

definition WithBaseURL :: "string \<Rightarrow> TokenGenerator \<Rightarrow> TokenGenerator" where
  "WithBaseURL u t = t\<lparr>baseURL := u\<rparr>"

definition WithOwnershipChecker ::
  "(uuid \<Rightarrow> string \<Rightarrow> auth_error + bool) \<Rightarrow> TokenGenerator \<Rightarrow> TokenGenerator" where
  "WithOwnershipChecker f t = t\<lparr>ownership := Some f\<rparr>"

record SignedToken =
  STClaims :: Claims
  SignatureHex :: string

definition computeMAC :: "bytes \<Rightarrow> bytes \<Rightarrow> bytes" where
  "computeMAC key msg = hmac_sha256 key msg"

type_synonym 'k signing_fn = "'k \<Rightarrow> uuid \<Rightarrow> (auth_error + int \<times> bytes) \<times> 'k"
type_synonym 'k verify_fn = "'k \<Rightarrow> uuid \<Rightarrow> int \<Rightarrow> (auth_error + bytes \<times> bool) \<times> 'k"
type_synonym 's consume_fn = "'s \<Rightarrow> string \<Rightarrow> duration \<Rightarrow> (auth_error + bool) \<times> 's"

definition SignClaims ::
  "(uuid \<Rightarrow> string) \<Rightarrow> TokenGenerator \<Rightarrow> 'k signing_fn \<Rightarrow> 'k \<Rightarrow> instant \<Rightarrow> bytes option \<Rightarrow>
   uuid \<Rightarrow> string \<Rightarrow> string \<Rightarrow> (auth_error + SignedToken) \<times> 'k" where
  "SignClaims str t signing k now rnd tenantID blockHash endpointID =
     (case signing k tenantID of
        (Inl e, k') \<Rightarrow> (Inl ErrSigningKey, k')
      | (Inr (version, key), k') \<Rightarrow>
          if length key < 32 then (Inl (ErrWeakKey (length key)), k')
          else
            (case rnd of
               None \<Rightarrow> (Inl ErrEntropy, k')
             | Some nonce \<Rightarrow>
                 let claims = \<lparr>TenantID = tenantID, BlockHash = blockHash,
                               ExpiryUnix = unix_seconds (now + ttl t), KeyVersion = version,
                               EndpointID = endpointID, NonceHex = EncodeToString nonce\<rparr>
                 in case valid claims of
                      Some e \<Rightarrow> (Inl e, k')
                    | None \<Rightarrow>
                        (Inr \<lparr>STClaims = claims,
                              SignatureHex = EncodeToString (computeMAC key (message str claims))\<rparr>, k')))"

section \<open>Wire format\<close>

text \<open>\<^verbatim>\<open>url.Values\<close> restricted to one value per key; \<^verbatim>\<open>Get\<close> of an absent key is the empty
  string.\<close>

type_synonym url_values = "string \<Rightarrow> string option"

definition values_Get :: "url_values \<Rightarrow> string \<Rightarrow> string" where
  "values_Get q k = (case q k of None \<Rightarrow> '''' | Some v \<Rightarrow> v)"

definition Query :: "(uuid \<Rightarrow> string) \<Rightarrow> SignedToken \<Rightarrow> url_values" where
  "Query str s =
     [''tenant'' \<mapsto> str (TenantID (STClaims s)),
      ''ts'' \<mapsto> FormatInt (ExpiryUnix (STClaims s)),
      ''kv'' \<mapsto> Itoa (KeyVersion (STClaims s)),
      ''ep'' \<mapsto> EndpointID (STClaims s),
      ''nonce'' \<mapsto> NonceHex (STClaims s),
      ''sig'' \<mapsto> SignatureHex s]"

text \<open>The URL as its parts: base, path and the query that \<^verbatim>\<open>Encode\<close> prints.\<close>

definition URL :: "(uuid \<Rightarrow> string) \<Rightarrow> SignedToken \<Rightarrow> string \<Rightarrow> string \<times> string \<times> url_values" where
  "URL str s base = (base, ''/chunks/'' @ BlockHash (STClaims s), Query str s)"

definition GeneratePreSignedURL ::
  "(uuid \<Rightarrow> string) \<Rightarrow> TokenGenerator \<Rightarrow> 'k signing_fn \<Rightarrow> 'k \<Rightarrow> instant \<Rightarrow> bytes option \<Rightarrow>
   uuid \<Rightarrow> string \<Rightarrow> string \<Rightarrow> (auth_error + string \<times> string \<times> url_values) \<times> 'k" where
  "GeneratePreSignedURL str t signing k now rnd tenantID blockHash endpointID =
     (case SignClaims str t signing k now rnd tenantID blockHash endpointID of
        (Inl e, k') \<Rightarrow> (Inl e, k')
      | (Inr st, k') \<Rightarrow> (Inr (URL str st (baseURL t)), k'))"

text \<open>The argument is the result of \<^verbatim>\<open>url.Parse\<close>: the path and the query values, or an error.\<close>

definition ParsePreSignedURL ::
  "(string \<Rightarrow> uuid option) \<Rightarrow> (string \<times> url_values) option \<Rightarrow> auth_error + SignedToken" where
  "ParsePreSignedURL parse u =
     (case u of
        None \<Rightarrow> Inl ErrMalformed
      | Some (path, q) \<Rightarrow>
          let blockHash = (if length path > length ''/chunks/'' then drop (length ''/chunks/'') path else '''')
          in case parse (values_Get q ''tenant'') of
               None \<Rightarrow> Inl ErrMalformed
             | Some tenant \<Rightarrow>
                 (case ParseInt (values_Get q ''ts'') of
                    None \<Rightarrow> Inl ErrMalformed
                  | Some ts \<Rightarrow>
                      (case Atoi (values_Get q ''kv'') of
                         None \<Rightarrow> Inl ErrMalformed
                       | Some kv \<Rightarrow>
                           let sig = values_Get q ''sig'';
                               claims = \<lparr>TenantID = tenant, BlockHash = blockHash, ExpiryUnix = ts,
                                         KeyVersion = kv, EndpointID = values_Get q ''ep'',
                                         NonceHex = values_Get q ''nonce''\<rparr>
                           in if length sig \<noteq> 32 * 2 \<or> \<not> isLowerHex sig then Inl ErrMalformed
                              else (case valid claims of
                                      Some e \<Rightarrow> Inl e
                                    | None \<Rightarrow> Inr \<lparr>STClaims = claims, SignatureHex = sig\<rparr>))))"

section \<open>Validation\<close>

text \<open>\<open>Inr ()\<close> is \<^verbatim>\<open>(true, nil)\<close>, \<open>Inl e\<close> is \<^verbatim>\<open>(false, e)\<close>. The states of the KMS and of the
  nonce store are threaded through.\<close>

definition check_ownership :: "TokenGenerator \<Rightarrow> Claims \<Rightarrow> auth_error + unit" where
  "check_ownership t c =
     (case ownership t of
        None \<Rightarrow> Inr ()
      | Some f \<Rightarrow>
          (case f (TenantID c) (BlockHash c) of
             Inl e \<Rightarrow> Inl ErrOwnershipProbe
           | Inr owns \<Rightarrow> if \<not> owns then Inl ErrNotTenantBlock else Inr ()))"

definition Validate ::
  "(uuid \<Rightarrow> string) \<Rightarrow> TokenGenerator \<Rightarrow> 'k verify_fn \<Rightarrow> 's consume_fn \<Rightarrow> instant \<Rightarrow>
   'k \<Rightarrow> 's \<Rightarrow> SignedToken \<Rightarrow> (auth_error + unit) \<times> 'k \<times> 's" where
  "Validate str t verify consume now_t k s tok =
     (let c = STClaims tok in
      case valid c of
        Some e \<Rightarrow> (Inl e, k, s)
      | None \<Rightarrow>
      if length (SignatureHex tok) \<noteq> 32 * 2 \<or> \<not> isLowerHex (SignatureHex tok) then (Inl ErrMalformed, k, s)
      else
        let now = unix_seconds now_t in
        if wrap64 (ExpiryUnix c + unix_seconds (skew t)) < now then (Inl ErrExpired, k, s)
        else
          let maxExpiry = wrap64 (now + unix_seconds (ttl t + skew t)) in
          if ExpiryUnix c > maxExpiry then (Inl ErrTooFarInFuture, k, s)
          else
            (case verify k (TenantID c) (KeyVersion c) of
               (Inl e, k') \<Rightarrow> (Inl ErrVerificationKey, k', s)
             | (Inr (key, active), k') \<Rightarrow>
                 if \<not> active then (Inl ErrUnknownKeyVer, k', s)
                 else
                   let want = computeMAC key (message str c) in
                   case DecodeString (SignatureHex tok) of
                     None \<Rightarrow> (Inl ErrMalformed, k', s)
                   | Some got \<Rightarrow>
                       if want \<noteq> got then (Inl ErrBadSignature, k', s)
                       else
                         (case consume s (NonceHex c) (ttl t + skew t) of
                            (Inl e, s') \<Rightarrow> (Inl ErrNonceUnavailable, k', s')
                          | (Inr ok, s') \<Rightarrow>
                              if \<not> ok then (Inl ErrReplay, k', s')
                              else (check_ownership t c, k', s'))))"

definition ValidateToken ::
  "(uuid \<Rightarrow> string) \<Rightarrow> TokenGenerator \<Rightarrow> 'k verify_fn \<Rightarrow> 's consume_fn \<Rightarrow> instant \<Rightarrow> 'k \<Rightarrow> 's \<Rightarrow>
   uuid \<Rightarrow> string \<Rightarrow> string \<Rightarrow> int \<Rightarrow> int \<Rightarrow> string \<Rightarrow> string \<Rightarrow> (auth_error + unit) \<times> 'k \<times> 's" where
  "ValidateToken str t verify consume now_t k s tenantID blockHash signature timestamp keyVersion
     endpointID nonceHex =
     Validate str t verify consume now_t k s
       \<lparr>STClaims = \<lparr>TenantID = tenantID, BlockHash = blockHash, ExpiryUnix = timestamp,
                    KeyVersion = keyVersion, EndpointID = endpointID, NonceHex = nonceHex\<rparr>,
        SignatureHex = signature\<rparr>"

section \<open>The message is unambiguous\<close>

lemma valid_None:
  "valid c = None \<longleftrightarrow>
     length (BlockHash c) = 64 \<and> isLowerHex (BlockHash c) \<and>
     EndpointID c \<noteq> '''' \<and> length (EndpointID c) \<le> 64 \<and> isEndpointSafe (EndpointID c) \<and>
     1 \<le> KeyVersion c \<and> KeyVersion c \<le> 1000000 \<and>
     length (NonceHex c) = 32 \<and> isLowerHex (NonceHex c)"
  by (auto simp: valid_def NonceSize_def)

lemma message_colons:
  assumes "\<forall>u. CHR '':'' \<notin> set (str u)" and "valid c = None"
  shows "CHR '':'' \<notin> set (Itoa (KeyVersion c))" "CHR '':'' \<notin> set (str (TenantID c))"
    "CHR '':'' \<notin> set (BlockHash c)" "CHR '':'' \<notin> set (FormatInt (ExpiryUnix c))"
    "CHR '':'' \<notin> set (EndpointID c)"
  using assms by (auto simp: valid_None FormatInt_no_colon dest: isLowerHex_no_colon isEndpointSafe_no_colon)

text \<open>No two distinct valid claim sets share a signed message: no field can masquerade as a
  separator or as another field. The hypotheses on \<open>str\<close> are what the textual form of a UUID
  gives: it is injective and has no colon.\<close>

theorem message_unambiguous:
  assumes "inj str" and "\<forall>u. CHR '':'' \<notin> set (str u)"
    and "valid c = None" and "valid c' = None"
    and "message str c = message str c'"
  shows "c = c'"
proof -
  note colons = message_colons [OF assms(2,3)] message_colons [OF assms(2,4)]
  from assms(5) have "Itoa (KeyVersion c) @ CHR '':'' # str (TenantID c) @ CHR '':'' # BlockHash c @
      CHR '':'' # FormatInt (ExpiryUnix c) @ CHR '':'' # EndpointID c @ CHR '':'' # NonceHex c =
    Itoa (KeyVersion c') @ CHR '':'' # str (TenantID c') @ CHR '':'' # BlockHash c' @
      CHR '':'' # FormatInt (ExpiryUnix c') @ CHR '':'' # EndpointID c' @ CHR '':'' # NonceHex c'"
    by (simp add: message_def string_bytes_inject)
  from append_sep_inject [OF this colons(1,6)] have kv: "KeyVersion c = KeyVersion c'" and
    r1: "str (TenantID c) @ CHR '':'' # BlockHash c @ CHR '':'' # FormatInt (ExpiryUnix c) @
        CHR '':'' # EndpointID c @ CHR '':'' # NonceHex c =
      str (TenantID c') @ CHR '':'' # BlockHash c' @ CHR '':'' # FormatInt (ExpiryUnix c') @
        CHR '':'' # EndpointID c' @ CHR '':'' # NonceHex c'"
    by simp_all
  from append_sep_inject [OF r1 colons(2,7)] have tn: "str (TenantID c) = str (TenantID c')" and
    r2: "BlockHash c @ CHR '':'' # FormatInt (ExpiryUnix c) @ CHR '':'' # EndpointID c @ CHR '':'' # NonceHex c =
      BlockHash c' @ CHR '':'' # FormatInt (ExpiryUnix c') @ CHR '':'' # EndpointID c' @ CHR '':'' # NonceHex c'"
    by simp_all
  from append_sep_inject [OF r2 colons(3,8)] have bh: "BlockHash c = BlockHash c'" and
    r3: "FormatInt (ExpiryUnix c) @ CHR '':'' # EndpointID c @ CHR '':'' # NonceHex c =
      FormatInt (ExpiryUnix c') @ CHR '':'' # EndpointID c' @ CHR '':'' # NonceHex c'"
    by simp_all
  from append_sep_inject [OF r3 colons(4,9)] have ex: "ExpiryUnix c = ExpiryUnix c'" and
    r4: "EndpointID c @ CHR '':'' # NonceHex c = EndpointID c' @ CHR '':'' # NonceHex c'"
    by simp_all
  from append_sep_inject [OF r4 colons(5,10)] have "EndpointID c = EndpointID c'" "NonceHex c = NonceHex c'"
    by simp_all
  with kv tn bh ex assms(1) show ?thesis
    by (simp add: inj_eq)
qed

section \<open>Validation\<close>

definition fresh :: "TokenGenerator \<Rightarrow> instant \<Rightarrow> Claims \<Rightarrow> bool" where
  "fresh t now c \<longleftrightarrow> unix_seconds now \<le> ExpiryUnix c + unix_seconds (skew t) \<and>
     ExpiryUnix c \<le> unix_seconds now + unix_seconds (ttl t + skew t)"

text \<open>The window sizes and clock readings for which the 64-bit sums of the freshness check do not
  overflow, whatever expiry the token claims.\<close>

definition sane_clock :: "TokenGenerator \<Rightarrow> instant \<Rightarrow> bool" where
  "sane_clock t now \<longleftrightarrow> 0 \<le> ttl t \<and> 0 \<le> skew t \<and> 0 \<le> now \<and>
     unix_seconds now + unix_seconds (ttl t + skew t) + unix_seconds (skew t) < 2 ^ 63"

lemma fresh_iff:
  assumes "sane_clock t now" and "is_int64 (ExpiryUnix c)"
  shows "fresh t now c \<longleftrightarrow>
    \<not> wrap64 (ExpiryUnix c + unix_seconds (skew t)) < unix_seconds now \<and>
    \<not> ExpiryUnix c > wrap64 (unix_seconds now + unix_seconds (ttl t + skew t))"
proof -
  have nonneg: "0 \<le> unix_seconds now" "0 \<le> unix_seconds (ttl t + skew t)" "0 \<le> unix_seconds (skew t)"
    using assms(1) by (simp_all add: sane_clock_def unix_seconds_def Second_def pos_imp_zdiv_nonneg_iff)
  then have max: "wrap64 (unix_seconds now + unix_seconds (ttl t + skew t)) =
      unix_seconds now + unix_seconds (ttl t + skew t)"
    using assms(1) by (intro wrap64_id) (simp add: is_int64_def sane_clock_def)
  show ?thesis
  proof (cases "ExpiryUnix c + unix_seconds (skew t) < 2 ^ 63")
    case True
    then have "wrap64 (ExpiryUnix c + unix_seconds (skew t)) = ExpiryUnix c + unix_seconds (skew t)"
      using assms(2) nonneg by (intro wrap64_id) (simp add: is_int64_def)
    then show ?thesis
      by (auto simp: fresh_def max)
  next
    case False
    then have "ExpiryUnix c > unix_seconds now + unix_seconds (ttl t + skew t)"
      using assms(1) by (simp add: sane_clock_def)
    then show ?thesis
      by (simp add: fresh_def max)
  qed
qed

lemma mac_hex_iff:
  assumes "length sig = 64" and "isLowerHex sig"
  shows "DecodeString sig = Some m \<longleftrightarrow> sig = EncodeToString m"
  using assms by (metis DecodeString_EncodeToString EncodeToString_DecodeString)

lemma length_computeMAC [simp]: "length (computeMAC key msg) = 32"
  by (simp add: computeMAC_def)

lemma hex_signature:
  assumes "length sig = 64" and "isLowerHex sig"
  obtains m where "sig = EncodeToString m"
  using assms isLowerHex_DecodeString [of sig] mac_hex_iff by fastforce

text \<open>One validation, given what the KMS and the nonce store answer.\<close>

lemma Validate_Inr_iff:
  assumes "sane_clock t now" and "is_int64 (ExpiryUnix (STClaims tok))"
    and v: "verify k (TenantID (STClaims tok)) (KeyVersion (STClaims tok)) = (kr, k')"
    and c: "consume s (NonceHex (STClaims tok)) (ttl t + skew t) = (cr, s')"
  shows "Validate str t verify consume now k s tok = (Inr (), k1, s1) \<longleftrightarrow>
    valid (STClaims tok) = None \<and> fresh t now (STClaims tok) \<and>
    (\<exists>key. kr = Inr (key, True) \<and>
       SignatureHex tok = EncodeToString (computeMAC key (message str (STClaims tok)))) \<and>
    cr = Inr True \<and> check_ownership t (STClaims tok) = Inr () \<and> k1 = k' \<and> s1 = s'"
proof (cases "length (SignatureHex tok) = 64 \<and> isLowerHex (SignatureHex tok)")
  case True
  then obtain m where m: "SignatureHex tok = EncodeToString m"
    using hex_signature by blast
  show ?thesis
    using True by (cases kr; cases cr; cases "valid (STClaims tok)")
      (auto simp: Validate_def Let_def v c m fresh_iff [OF assms(1,2)] split: if_splits)
next
  case False
  then show ?thesis
    by (auto simp: Validate_def Let_def split: option.splits)
qed

lemma Validate_nonce_effect:
  assumes "Validate str t verify consume now k s tok = (r, k', s')"
  shows "s' = s \<and> r \<noteq> Inr () \<or>
    (\<exists>b. consume s (NonceHex (STClaims tok)) (ttl t + skew t) = (b, s') \<and> (r = Inr () \<longrightarrow> b = Inr True) \<and>
      (\<exists>key k1. verify k (TenantID (STClaims tok)) (KeyVersion (STClaims tok)) = (Inr (key, True), k1) \<and>
           SignatureHex tok = EncodeToString (computeMAC key (message str (STClaims tok)))))"
proof (cases "length (SignatureHex tok) = 64 \<and> isLowerHex (SignatureHex tok)")
  case True
  then obtain m where m: "SignatureHex tok = EncodeToString m"
    using hex_signature by blast
  obtain kr kk where v: "verify k (TenantID (STClaims tok)) (KeyVersion (STClaims tok)) = (kr, kk)"
    by fastforce
  obtain cr ss where c: "consume s (NonceHex (STClaims tok)) (ttl t + skew t) = (cr, ss)"
    by fastforce
  show ?thesis
    using True assms by (cases kr; cases cr; cases "valid (STClaims tok)")
      (auto simp: Validate_def Let_def v c m split: if_splits)
next
  case False
  then show ?thesis
    using assms by (auto simp: Validate_def Let_def split: option.splits)
qed

text \<open>C5. A token is accepted exactly when its claims are well formed, its expiry lies in the
  window around the validator's clock (no 64-bit overflow lets an extreme expiry through), the
  version it names is an active key of the tenant it names, the signature is the lowercase hex
  of the MAC of its own message under that key, the nonce is consumed by this very call, and the
  ownership check, if any, agrees.\<close>

theorem Validate_accepts_iff:
  assumes "sane_clock t now" and "is_int64 (ExpiryUnix (STClaims tok))"
  shows "fst (Validate str t verify consume now k s tok) = Inr () \<longleftrightarrow>
    valid (STClaims tok) = None \<and> fresh t now (STClaims tok) \<and>
    (\<exists>key k'. verify k (TenantID (STClaims tok)) (KeyVersion (STClaims tok)) = (Inr (key, True), k') \<and>
       SignatureHex tok = EncodeToString (computeMAC key (message str (STClaims tok)))) \<and>
    (\<exists>s'. consume s (NonceHex (STClaims tok)) (ttl t + skew t) = (Inr True, s')) \<and>
    check_ownership t (STClaims tok) = Inr ()"
proof -
  obtain kr kk where v: "verify k (TenantID (STClaims tok)) (KeyVersion (STClaims tok)) = (kr, kk)"
    by fastforce
  obtain cr ss where c: "consume s (NonceHex (STClaims tok)) (ttl t + skew t) = (cr, ss)"
    by fastforce
  have "fst (Validate str t verify consume now k s tok) = Inr () \<longleftrightarrow>
      (\<exists>k1 s1. Validate str t verify consume now k s tok = (Inr (), k1, s1))"
    by (cases "Validate str t verify consume now k s tok") auto
  then show ?thesis
    using Validate_Inr_iff [of t now tok verify k kr kk consume s cr ss str, OF assms v c] v c by auto
qed

text \<open>C36. A validation that changes the nonce store has a signature that is the MAC of the token's
  message under an active key: garbage signatures cannot burn a victim's nonce.\<close>

theorem nonce_burn_needs_mac:
  assumes "Validate str t verify consume now k s tok = (r, k', s')" and "s' \<noteq> s"
  shows "\<exists>key k1. verify k (TenantID (STClaims tok)) (KeyVersion (STClaims tok)) = (Inr (key, True), k1) \<and>
           SignatureHex tok = EncodeToString (computeMAC key (message str (STClaims tok)))"
  using Validate_nonce_effect [OF assms(1)] assms(2) by blast

section \<open>Sign and validate over the interfaces\<close>

lemma SignClaims_Inr:
  assumes "SignClaims str t signing k now rnd tenant hash ep = (Inr tok, k')"
  obtains version key nonce where "signing k tenant = (Inr (version, key), k')" and "rnd = Some nonce"
    and "STClaims tok = \<lparr>TenantID = tenant, BlockHash = hash, ExpiryUnix = unix_seconds (now + ttl t),
           KeyVersion = version, EndpointID = ep, NonceHex = EncodeToString nonce\<rparr>"
    and "valid (STClaims tok) = None"
    and "SignatureHex tok = EncodeToString (computeMAC key (message str (STClaims tok)))"
proof -
  obtain kr kk where s: "signing k tenant = (kr, kk)" by fastforce
  from assms that show thesis
    by (auto simp: SignClaims_def Let_def s split: sum.splits option.splits if_splits)
qed

lemma div_add_le:
  fixes a b m :: int
  assumes "0 < m"
  shows "(a + b) div m \<le> a div m + b div m + 1"
proof -
  let ?x = "a mod m + b mod m"
  have x: "?x < m * 2"
    using pos_mod_bound [OF assms, of a] pos_mod_bound [OF assms, of b] by simp
  have "?x div m \<le> 1"
  proof (rule ccontr)
    assume "\<not> ?x div m \<le> 1"
    then have "m * 2 \<le> m * (?x div m)"
      using assms by (intro mult_left_mono) auto
    then show False
      using x assms mult_div_mod_eq [of m ?x] pos_mod_sign [of m ?x] by linarith
  qed
  then show ?thesis
    by (simp add: div_add1_eq [of a b m])
qed

lemma minted_fresh:
  assumes "Second \<le> skew t" and "now0 \<le> now"
    and "unix_seconds now \<le> unix_seconds (now0 + ttl t) + unix_seconds (skew t)"
    and "ExpiryUnix c = unix_seconds (now0 + ttl t)"
  shows "fresh t now c"
proof -
  have "(now0 + ttl t) div Second \<le> now0 div Second + ttl t div Second + 1"
    by (rule div_add_le) (simp add: Second_def)
  moreover have "now0 div Second \<le> now div Second"
    using assms(2) by (simp add: Second_def zdiv_mono1)
  moreover have "ttl t div Second + 1 = (ttl t + Second) div Second"
    by (simp add: Second_def)
  moreover have "(ttl t + Second) div Second \<le> (ttl t + skew t) div Second"
    using assms(1) by (simp add: Second_def zdiv_mono1)
  ultimately show ?thesis
    using assms(3,4) by (simp add: fresh_def unix_seconds_def)
qed

lemma minted_int64:
  assumes "sane_clock t now0" and "Second \<le> skew t"
  shows "is_int64 (unix_seconds (now0 + ttl t))"
proof -
  have "0 \<le> unix_seconds (now0 + ttl t)"
    using assms(1) by (simp add: sane_clock_def unix_seconds_def Second_def pos_imp_zdiv_nonneg_iff)
  moreover have "0 \<le> unix_seconds (skew t)"
    using assms by (simp add: sane_clock_def unix_seconds_def Second_def pos_imp_zdiv_nonneg_iff)
  moreover have "unix_seconds (now0 + ttl t) \<le> unix_seconds now0 + unix_seconds (ttl t) + 1"
    unfolding unix_seconds_def by (rule div_add_le) (simp add: Second_def)
  moreover have "unix_seconds (ttl t) + 1 \<le> unix_seconds (ttl t + skew t)"
    using assms(2) zdiv_mono1 [of "ttl t + Second" "ttl t + skew t" Second]
    by (simp add: unix_seconds_def Second_def)
  ultimately show ?thesis
    using assms(1) by (simp add: sane_clock_def is_int64_def)
qed

text \<open>A sequence of requests served one after the other; a request is the clock reading of its
  validation, the entropy the KMS may draw and the token.\<close>

fun serve ::
  "(uuid \<Rightarrow> string) \<Rightarrow> TokenGenerator \<Rightarrow>
   ('k \<Rightarrow> instant \<Rightarrow> bytes option \<Rightarrow> uuid \<Rightarrow> int \<Rightarrow> (auth_error + bytes \<times> bool) \<times> 'k) \<Rightarrow>
   ('s \<Rightarrow> instant \<Rightarrow> string \<Rightarrow> duration \<Rightarrow> (auth_error + bool) \<times> 's) \<Rightarrow>
   'k \<Rightarrow> 's \<Rightarrow> (instant \<times> bytes option \<times> SignedToken) list \<Rightarrow> (auth_error + unit) list" where
  "serve str t verification consume k s [] = []"
| "serve str t verification consume k s ((now, rnd, tok) # reqs) =
     (case Validate str t (\<lambda>k. verification k now rnd) (\<lambda>s. consume s now) now k s tok of
        (r, k', s') \<Rightarrow> r # serve str t verification consume k' s' reqs)"

text \<open>A generator over a KMS and a nonce store that keep their contracts.\<close>

locale token_perimeter =
  kms_client inv signing verification + nonce_store consume live
  for inv :: "'k \<Rightarrow> bool"
    and signing :: "'k \<Rightarrow> instant \<Rightarrow> bytes option \<Rightarrow> uuid \<Rightarrow> (auth_error + int \<times> bytes) \<times> 'k"
    and verification :: "'k \<Rightarrow> instant \<Rightarrow> bytes option \<Rightarrow> uuid \<Rightarrow> int \<Rightarrow> (auth_error + bytes \<times> bool) \<times> 'k"
    and consume :: "'s \<Rightarrow> instant \<Rightarrow> string \<Rightarrow> duration \<Rightarrow> (auth_error + bool) \<times> 's"
    and live :: "'s \<Rightarrow> instant \<Rightarrow> string \<Rightarrow> bool" +
  assumes consume_available: "\<exists>b s'. consume s now n d = (Inr b, s')"
begin

lemma consume_fresh_nonce:
  assumes "\<not> live s now n"
  obtains s' where "consume s now n d = (Inr True, s')"
proof -
  obtain b s' where "consume s now n d = (Inr b, s')"
    using consume_available by blast
  with consume_iff [OF this] assms that show thesis
    by auto
qed

lemma sign_then_validate:
  assumes "sane_clock t now0" and "sane_clock t now" and "Second \<le> skew t" and "now0 \<le> now"
    and "unix_seconds now \<le> unix_seconds (now0 + ttl t) + unix_seconds (skew t)"
    and "inv k"
    and signed: "SignClaims str t (\<lambda>k. signing k now0 rnd0) k now0 nonce tenant hash ep = (Inr tok, k')"
    and "\<not> live s now (NonceHex (STClaims tok))"
    and "check_ownership t (STClaims tok) = Inr ()"
  shows "\<exists>s'. Validate str t (\<lambda>k. verification k now rnd) (\<lambda>s. consume s now) now k' s tok = (Inr (), k', s') \<and>
    consume s now (NonceHex (STClaims tok)) (ttl t + skew t) = (Inr True, s')"
proof -
  from signed obtain version key raw where
    sk: "signing k now0 rnd0 tenant = (Inr (version, key), k')"
    and claims: "STClaims tok = \<lparr>TenantID = tenant, BlockHash = hash,
           ExpiryUnix = unix_seconds (now0 + ttl t), KeyVersion = version, EndpointID = ep,
           NonceHex = EncodeToString raw\<rparr>"
    and valid: "valid (STClaims tok) = None"
    and sig: "SignatureHex tok = EncodeToString (computeMAC key (message str (STClaims tok)))"
    by (rule SignClaims_Inr)
  obtain s' where c: "consume s now (NonceHex (STClaims tok)) (ttl t + skew t) = (Inr True, s')"
    using consume_fresh_nonce assms(8) by metis
  have v: "verification k' now rnd (TenantID (STClaims tok)) (KeyVersion (STClaims tok)) = (Inr (key, True), k')"
    using verifies_own [OF assms(6) sk] by (simp add: claims)
  have "is_int64 (ExpiryUnix (STClaims tok))"
    using minted_int64 assms(1,3) by (simp add: claims)
  moreover have "fresh t now (STClaims tok)"
    using assms(3-5) by (rule minted_fresh) (simp add: claims)
  ultimately have "Validate str t (\<lambda>k. verification k now rnd) (\<lambda>s. consume s now) now k' s tok = (Inr (), k', s')"
    using Validate_Inr_iff [of t now tok "\<lambda>k. verification k now rnd" k' "Inr (key, True)" k'
        "\<lambda>s. consume s now" s "Inr True" s' str k' s'] assms(2,9) valid sig v c by simp
  with c show ?thesis by blast
qed

lemma serve_live_refused:
  assumes "\<And>u. u < expiry \<Longrightarrow> t0 \<le> u \<Longrightarrow> live s u n"
    and "sorted (t0 # map fst reqs)"
    and "\<And>q. q \<in> set reqs \<Longrightarrow> fst q < expiry"
    and "i < length reqs" and "NonceHex (STClaims (snd (snd (reqs ! i)))) = n"
  shows "serve str t verification consume k s reqs ! i \<noteq> Inr ()"
  using assms
proof (induction reqs arbitrary: k s t0 i)
  case (Cons q reqs)
  obtain now rnd tok where q: "q = (now, rnd, tok)" by (cases q)
  obtain r k1 s1 where
    rs: "Validate str t (\<lambda>k. verification k now rnd) (\<lambda>s. consume s now) now k s tok = (r, k1, s1)"
    by (rule prod_cases3)
  have now: "t0 \<le> now" "now < expiry"
    using Cons.prems(2) Cons.prems(3) [of q] by (auto simp: q)
  then have live_now: "live s now n"
    using Cons.prems(1) by blast
  note effect = Validate_nonce_effect [OF rs]
  show ?case
  proof (cases i)
    case 0
    with Cons.prems(5) have "NonceHex (STClaims tok) = n" by (simp add: q)
    then have "r \<noteq> Inr ()"
      using effect consume_live_refused [OF live_now, of "ttl t + skew t"] by auto
    then show ?thesis
      by (simp add: 0 q rs)
  next
    case (Suc j)
    have "live s1 u n" if "u < expiry" "now \<le> u" for u
    proof -
      have "live s u n"
        using Cons.prems(1) that now by simp
      then show ?thesis
        using effect live_kept [of s u n now "NonceHex (STClaims tok)" "ttl t + skew t"] that
          consume_live_refused [OF live_now, of "ttl t + skew t"] by auto
    qed
    moreover have "sorted (now # map fst reqs)"
      using Cons.prems(2) by (simp add: q)
    ultimately have "serve str t verification consume k1 s1 reqs ! j \<noteq> Inr ()"
      using Cons.IH [of now s1 j k1] Cons.prems(3,4,5) Suc by auto
    then show ?thesis
      by (simp add: Suc q rs)
  qed
qed simp

lemma accepted_once:
  assumes first: "Validate str t (\<lambda>k. verification k now rnd) (\<lambda>s. consume s now) now k s tok = (Inr (), k', s')"
    and "sorted (now # map fst reqs)"
    and "\<And>q. q \<in> set reqs \<Longrightarrow> fst q < now + (ttl t + skew t)"
    and "i < length reqs"
    and "NonceHex (STClaims (snd (snd (reqs ! i)))) = NonceHex (STClaims tok)"
  shows "serve str t verification consume k' s' reqs ! i \<noteq> Inr ()"
proof -
  have "consume s now (NonceHex (STClaims tok)) (ttl t + skew t) = (Inr True, s')"
    using Validate_nonce_effect [OF first] by auto
  then show ?thesis
    using serve_live_refused [of "now + (ttl t + skew t)" now s' "NonceHex (STClaims tok)" reqs i]
      live_consumed assms(2-) by blast
qed

end

lemma Consume_available: "\<exists>b s'. Consume s now n d = (Inr b, s')"
  by (cases "Consume s now n d") (metis Consume_cases)

interpretation perimeter: token_perimeter kms_ok SigningKey VerificationKey Consume nonce_live
  by unfold_locales (rule Consume_available)

section \<open>Properties of the perimeter\<close>

text \<open>C19. A minted token is accepted by a validator whose clock is not behind the mint and at
  most the skew past the expiry, provided its nonce is unused and the owner agrees, even when the
  tenant's key was rotated any number of times in between, as long as the overlap window of the
  first rotation is open.\<close>

theorem signed_token_accepted:
  assumes "sane_clock t now0" and "sane_clock t now" and "Second \<le> skew t" and "now0 \<le> now"
    and "unix_seconds now \<le> unix_seconds (now0 + ttl t) + unix_seconds (skew t)"
    and "kms_ok k"
    and "SignClaims str t (\<lambda>k. SigningKey k now0 rnd0) k now0 nonce tenant hash ep = (Inr tok, k')"
    and "overlap_open rs now"
    and "\<not> nonce_live s now (NonceHex (STClaims tok))"
    and "check_ownership t (STClaims tok) = Inr ()"
  shows "fst (Validate str t (\<lambda>k. VerificationKey k now rnd) (\<lambda>s. Consume s now) now
           (rotate_all k' tenant rs) s tok) = Inr ()"
proof -
  obtain version key raw where
    sk: "SigningKey k now0 rnd0 tenant = (Inr (version, key), k')"
    and claims: "STClaims tok = \<lparr>TenantID = tenant, BlockHash = hash,
           ExpiryUnix = unix_seconds (now0 + ttl t), KeyVersion = version, EndpointID = ep,
           NonceHex = EncodeToString raw\<rparr>"
    and valid: "valid (STClaims tok) = None"
    and sig: "SignatureHex tok = EncodeToString (computeMAC key (message str (STClaims tok)))"
    using assms(7) by (rule SignClaims_Inr)
  let ?k = "rotate_all k' tenant rs"
  obtain s' where c: "Consume s now (NonceHex (STClaims tok)) (ttl t + skew t) = (Inr True, s')"
    using perimeter.consume_fresh_nonce assms(9) by metis
  have v: "VerificationKey ?k now rnd (TenantID (STClaims tok)) (KeyVersion (STClaims tok)) = (Inr (key, True), ?k)"
    using rotation_verifies [OF assms(6) sk] assms(8) by (simp add: claims)
  have "is_int64 (ExpiryUnix (STClaims tok))"
    using minted_int64 assms(1,3) by (simp add: claims)
  moreover have "fresh t now (STClaims tok)"
    using assms(3-5) by (rule minted_fresh) (simp add: claims)
  ultimately show ?thesis
    using Validate_Inr_iff [of t now tok "\<lambda>k. VerificationKey k now rnd" ?k "Inr (key, True)" ?k
        "\<lambda>s. Consume s now" s "Inr True" s' str ?k s'] assms(2,10) valid sig v c by simp
qed

text \<open>C13. After a token is accepted, no request that carries the same nonce is accepted within
  the next \<^verbatim>\<open>ttl + skew\<close>, in any sequence of requests with other tokens, garbage included.\<close>

theorem token_accepted_once:
  assumes "Validate str t (\<lambda>k. VerificationKey k now rnd) (\<lambda>s. Consume s now) now k s tok = (Inr (), k', s')"
    and "sorted (now # map fst reqs)"
    and "\<And>q. q \<in> set reqs \<Longrightarrow> fst q < now + (ttl t + skew t)"
    and "i < length reqs"
    and "NonceHex (STClaims (snd (snd (reqs ! i)))) = NonceHex (STClaims tok)"
  shows "serve str t VerificationKey Consume k' s' reqs ! i \<noteq> Inr ()"
  using assms by (rule perimeter.accepted_once)

text \<open>The nonce does not outlive the token: a token used within the second in which it was
  minted is accepted a second time exactly \<^verbatim>\<open>ttl + skew\<close> after its first use, because the
  freshness check rounds the clock down to seconds and still admits the instant at which the
  nonce has just expired.\<close>

theorem replay_at_window_end:
  assumes "sane_clock t now0" and "sane_clock t now1" and "sane_clock t (now1 + (ttl t + skew t))"
    and "Second \<le> skew t" and "now0 \<le> now1"
    and "unix_seconds (now1 + (ttl t + skew t)) = unix_seconds (now0 + ttl t) + unix_seconds (skew t)"
    and "kms_ok k"
    and "SignClaims str t (\<lambda>k. SigningKey k now0 rnd0) k now0 nonce tenant hash ep = (Inr tok, k')"
    and "\<not> nonce_live s now1 (NonceHex (STClaims tok))"
    and "ownership t = None"
  shows "serve str t VerificationKey Consume k' s [(now1, rnd, tok), (now1 + (ttl t + skew t), rnd', tok)]
           = [Inr (), Inr ()]"
proof -
  let ?now2 = "now1 + (ttl t + skew t)"
  have later: "now1 \<le> ?now2"
    using assms(1) by (simp add: sane_clock_def)
  have own: "check_ownership t (STClaims tok) = Inr ()"
    using assms(10) by (simp add: check_ownership_def)
  have unix: "unix_seconds now1 \<le> unix_seconds (now0 + ttl t) + unix_seconds (skew t)"
    using later assms(6) zdiv_mono1 [of now1 ?now2 Second] by (simp add: unix_seconds_def Second_def)
  obtain s1 where
    first: "Validate str t (\<lambda>k. VerificationKey k now1 rnd) (\<lambda>s. Consume s now1) now1 k' s tok = (Inr (), k', s1)"
    and c: "Consume s now1 (NonceHex (STClaims tok)) (ttl t + skew t) = (Inr True, s1)"
    using perimeter.sign_then_validate [OF assms(1,2,4,5) unix assms(7,8,9) own] by blast
  have "\<not> nonce_live s1 ?now2 (NonceHex (STClaims tok))"
    using mem.live_consumed [OF c later] by simp
  moreover have "now0 \<le> ?now2"
    and "unix_seconds ?now2 \<le> unix_seconds (now0 + ttl t) + unix_seconds (skew t)"
    using assms(5,6) later by simp_all
  ultimately obtain s2 where
    "Validate str t (\<lambda>k. VerificationKey k ?now2 rnd') (\<lambda>s. Consume s ?now2) ?now2 k' s1 tok = (Inr (), k', s2)"
    using perimeter.sign_then_validate [OF assms(1,3,4) _ _ assms(7,8) _ own] by blast
  with first show ?thesis by simp
qed

text \<open>What \<^verbatim>\<open>URL\<close> prints, \<^verbatim>\<open>ParsePreSignedURL\<close> reads back: a minted token survives the
  wire, given that the UUID package parses what it prints. Structural validation of the parsed
  token cannot fail.\<close>

theorem parse_presigned_roundtrip:
  assumes "SignClaims str t signing k now rnd tenant hash ep = (Inr tok, k')"
    and "parse (str tenant) = Some tenant"
    and "is_int64 (unix_seconds (now + ttl t))"
  shows "\<exists>base path q. GeneratePreSignedURL str t signing k now rnd tenant hash ep = (Inr (base, path, q), k') \<and>
    ParsePreSignedURL parse (Some (path, q)) = Inr tok"
proof -
  obtain version key raw where
    claims: "STClaims tok = \<lparr>TenantID = tenant, BlockHash = hash,
           ExpiryUnix = unix_seconds (now + ttl t), KeyVersion = version, EndpointID = ep,
           NonceHex = EncodeToString raw\<rparr>"
    and valid: "valid (STClaims tok) = None"
    and sig: "SignatureHex tok = EncodeToString (computeMAC key (message str (STClaims tok)))"
    using assms(1) by (rule SignClaims_Inr)
  have "is_int64 version" and hash: "length hash = 64"
    using valid by (auto simp: claims valid_None is_int64_def)
  then have "ParsePreSignedURL parse (Some (''/chunks/'' @ BlockHash (STClaims tok), Query str tok)) = Inr tok"
    using assms(2,3) valid by (simp add: ParsePreSignedURL_def Query_def values_Get_def claims sig Let_def)
  then show ?thesis
    using assms(1) by (simp add: GeneratePreSignedURL_def URL_def)
qed

section \<open>A concrete token\<close>

definition demo_kms :: StaticKMS where
  "demo_kms = Provision NewStaticKMS 0 [1] 1 (replicate 32 7)"

definition demo_gen :: TokenGenerator where
  "demo_gen = NewTokenGenerator []"

definition demo_claims :: Claims where
  "demo_claims = \<lparr>TenantID = [1], BlockHash = EncodeToString (replicate 32 0xab), ExpiryUnix = 900,
     KeyVersion = 1, EndpointID = ''pop-1'', NonceHex = EncodeToString (replicate 16 3)\<rparr>"

definition demo_token :: SignedToken where
  "demo_token = \<lparr>STClaims = demo_claims,
     SignatureHex = EncodeToString (computeMAC (replicate 32 7) (message EncodeToString demo_claims))\<rparr>"

lemma demo_kms_ok [simp]: "kms_ok demo_kms"
  by (simp add: demo_kms_def kms_ok_Provision)

lemma demo_gen_simps [simp]:
  "ttl demo_gen = 900 * Second" "skew demo_gen = 60 * Second" "ownership demo_gen = None"
  by (simp_all add: demo_gen_def NewTokenGenerator_def DefaultTokenTTL_def DefaultClockSkew_def Minute_def)

lemma demo_valid [simp]: "valid demo_claims = None"
  by (simp add: valid_None demo_claims_def endpoint_char_def in_range_def)

lemma demo_signed:
  "SignClaims EncodeToString demo_gen (\<lambda>k. SigningKey k 0 None) demo_kms 0 (Some (replicate 16 3)) [1]
     (EncodeToString (replicate 32 0xab)) ''pop-1'' = (Inr demo_token, demo_kms)"
proof -
  have "SigningKey demo_kms 0 None [1] = (Inr (1, replicate 32 7), demo_kms)"
    by (simp add: SigningKey_def demo_kms_def Provision_def NewStaticKMS_def version_record_def
        fresh_record_def Let_def)
  moreover have "\<lparr>TenantID = [1], BlockHash = EncodeToString (replicate 32 0xab),
      ExpiryUnix = unix_seconds (0 + ttl demo_gen), KeyVersion = 1, EndpointID = ''pop-1'',
      NonceHex = EncodeToString (replicate 16 3)\<rparr> = demo_claims"
    by (simp add: demo_claims_def unix_seconds_def Second_def)
  ultimately show ?thesis
    by (simp only: SignClaims_def prod.case sum.case Let_def option.case demo_valid)
      (simp add: demo_token_def)
qed

lemma demo_clock: "sane_clock demo_gen 0" "sane_clock demo_gen (960 * Second)" "Second \<le> skew demo_gen"
  by (simp_all add: sane_clock_def unix_seconds_def Second_def)

lemma demo_unused: "\<not> nonce_live (NewInMemoryNonceStore 0) now n"
  by (simp add: nonce_live_def NewInMemoryNonceStore_def)

lemma EncodeToString_inj: "inj EncodeToString"
  by (rule injI) simp

theorem message_unambiguous_witness:
  "message EncodeToString demo_claims \<noteq> message EncodeToString (demo_claims\<lparr>KeyVersion := 2\<rparr>)"
proof
  assume "message EncodeToString demo_claims = message EncodeToString (demo_claims\<lparr>KeyVersion := 2\<rparr>)"
  moreover have "valid (demo_claims\<lparr>KeyVersion := 2\<rparr>) = None"
    using demo_valid unfolding valid_None by simp
  ultimately have "demo_claims = demo_claims\<lparr>KeyVersion := 2\<rparr>"
    using message_unambiguous [of EncodeToString demo_claims "demo_claims\<lparr>KeyVersion := 2\<rparr>"]
      EncodeToString_inj isLowerHex_no_colon [OF isLowerHex_EncodeToString] by simp
  then show False
    by (simp add: demo_claims_def)
qed

theorem signed_token_accepted_witness:
  "fst (Validate EncodeToString demo_gen (\<lambda>k. VerificationKey k (960 * Second) None)
     (\<lambda>s. Consume s (960 * Second)) (960 * Second) (rotate_all demo_kms [1] [(Second, [9])])
     (NewInMemoryNonceStore 0) demo_token) = Inr ()"
  by (rule signed_token_accepted [OF demo_clock _ _ demo_kms_ok demo_signed])
    (simp_all add: unix_seconds_def Second_def overlap_open_def OverlapWindow_def Hour_def Minute_def
      demo_unused check_ownership_def)

theorem replay_at_window_end_witness:
  "serve EncodeToString demo_gen VerificationKey Consume demo_kms (NewInMemoryNonceStore 0)
     [(0, None, demo_token), (0 + (ttl demo_gen + skew demo_gen), None, demo_token)] = [Inr (), Inr ()]"
  by (rule replay_at_window_end [OF demo_clock(1,1) _ demo_clock(3) _ _ demo_kms_ok demo_signed])
    (simp_all add: unix_seconds_def Second_def sane_clock_def demo_unused)

lemma demo_first_use:
  obtains s where
    "Validate EncodeToString demo_gen (\<lambda>k. VerificationKey k 0 None) (\<lambda>s. Consume s 0) 0 demo_kms
       (NewInMemoryNonceStore 0) demo_token = (Inr (), demo_kms, s)"
    and "Consume (NewInMemoryNonceStore 0) 0 (NonceHex demo_claims) (960 * Second) = (Inr True, s)"
proof -
  have "check_ownership demo_gen (STClaims demo_token) = Inr ()"
    by (simp add: check_ownership_def)
  then show thesis
    using that perimeter.sign_then_validate [OF demo_clock(1,1,3) _ _ demo_kms_ok demo_signed demo_unused]
    by (fastforce simp: unix_seconds_def Second_def demo_token_def)
qed

theorem Validate_accepts_iff_witness:
  "fst (Validate EncodeToString demo_gen (\<lambda>k. VerificationKey k 0 None) (\<lambda>s. Consume s 0) (961 * Second)
     demo_kms (NewInMemoryNonceStore 0) demo_token) \<noteq> Inr () \<and>
   fst (Validate EncodeToString demo_gen (\<lambda>k. VerificationKey k 0 None) (\<lambda>s. Consume s 0) 0
     demo_kms (NewInMemoryNonceStore 0) demo_token) = Inr ()"
proof -
  have sane: "sane_clock demo_gen (961 * Second)" and int: "is_int64 (ExpiryUnix (STClaims demo_token))"
    by (simp_all add: sane_clock_def unix_seconds_def Second_def demo_token_def demo_claims_def is_int64_def)
  have "\<not> fresh demo_gen (961 * Second) (STClaims demo_token)"
    by (simp add: fresh_def demo_token_def demo_claims_def unix_seconds_def Second_def)
  then show ?thesis
    using Validate_accepts_iff [OF sane int] demo_first_use by (metis fst_conv)
qed

theorem nonce_burn_needs_mac_witness:
  "\<exists>key k1. VerificationKey demo_kms 0 None [1] 1 = (Inr (key, True), k1) \<and>
     SignatureHex demo_token = EncodeToString (computeMAC key (message EncodeToString demo_claims))"
proof -
  obtain s where
    v: "Validate EncodeToString demo_gen (\<lambda>k. VerificationKey k 0 None) (\<lambda>s. Consume s 0) 0 demo_kms
       (NewInMemoryNonceStore 0) demo_token = (Inr (), demo_kms, s)"
    and c: "Consume (NewInMemoryNonceStore 0) 0 (NonceHex demo_claims) (960 * Second) = (Inr True, s)"
    by (rule demo_first_use)
  have "nonce_live s 0 (NonceHex demo_claims)"
    using mem.live_consumed [OF c, of 0] by (simp add: Second_def)
  then have "s \<noteq> NewInMemoryNonceStore 0"
    using demo_unused by blast
  from nonce_burn_needs_mac [OF v this] show ?thesis
    by (simp add: demo_token_def demo_claims_def)
qed

theorem token_accepted_once_witness:
  "case Validate EncodeToString demo_gen (\<lambda>k. VerificationKey k 0 None) (\<lambda>s. Consume s 0) 0 demo_kms
     (NewInMemoryNonceStore 0) demo_token of
     (r, k, s) \<Rightarrow> serve EncodeToString demo_gen VerificationKey Consume k s
       [(5, None, demo_token), (960 * Second - 1, None, demo_token)] ! 1 \<noteq> Inr ()"
proof -
  obtain s where v: "Validate EncodeToString demo_gen (\<lambda>k. VerificationKey k 0 None) (\<lambda>s. Consume s 0) 0 demo_kms
       (NewInMemoryNonceStore 0) demo_token = (Inr (), demo_kms, s)"
    by (rule demo_first_use)
  have "serve EncodeToString demo_gen VerificationKey Consume demo_kms s
       [(5, None, demo_token), (960 * Second - 1, None, demo_token)] ! 1 \<noteq> Inr ()"
    by (rule token_accepted_once [OF v]) (auto simp: Second_def)
  then show ?thesis
    by (simp only: v prod.case not_False_eq_True)
qed

theorem parse_presigned_roundtrip_witness:
  "\<exists>base path q. GeneratePreSignedURL EncodeToString demo_gen (\<lambda>k. SigningKey k 0 None) demo_kms 0
       (Some (replicate 16 3)) [1] (EncodeToString (replicate 32 0xab)) ''pop-1''
     = (Inr (base, path, q), demo_kms) \<and>
     ParsePreSignedURL DecodeString (Some (path, q)) = Inr demo_token"
  by (rule parse_presigned_roundtrip [OF demo_signed], rule DecodeString_EncodeToString)
    (simp add: unix_seconds_def Second_def is_int64_def)

end
