(* ===== verification/Rbac.thy ===== *)
theory Rbac
  imports Prelude
begin

text \<open>
  Role-based access control (\<^verbatim>\<open>internal/auth/rbac.go\<close>): roles and permissions are the Go string
  constants, the middleware is a function from the request's context and header to a response,
  with the wrapped handler as an argument. \<^verbatim>\<open>strings.EqualFold\<close> compares under Unicode case
  folding and is the argument \<open>fold_eq\<close>.
\<close>

type_synonym Permission = string
type_synonym Role = string

definition PermissionWorkspaceRead :: Permission where
  [aegis_defs]: "PermissionWorkspaceRead = ''workspace:read''"
definition PermissionFileWrite :: Permission where
  [aegis_defs]: "PermissionFileWrite = ''file:write''"
definition PermissionFileDelete :: Permission where
  [aegis_defs]: "PermissionFileDelete = ''file:delete''"
definition PermissionAdminKeys :: Permission where
  [aegis_defs]: "PermissionAdminKeys = ''admin:keys''"
definition PermissionAuditExport :: Permission where
  [aegis_defs]: "PermissionAuditExport = ''audit:export''"

definition RoleOwner :: Role where
  [aegis_defs]: "RoleOwner = ''OWNER''"
definition RoleEditor :: Role where
  [aegis_defs]: "RoleEditor = ''EDITOR''"
definition RoleViewer :: Role where
  [aegis_defs]: "RoleViewer = ''VIEWER''"

definition RolePermissionMap :: "Role \<Rightarrow> Permission list option" where
  "RolePermissionMap =
     [RoleOwner \<mapsto> [PermissionWorkspaceRead, PermissionFileWrite, PermissionFileDelete,
                    PermissionAdminKeys, PermissionAuditExport],
      RoleEditor \<mapsto> [PermissionWorkspaceRead, PermissionFileWrite],
      RoleViewer \<mapsto> [PermissionWorkspaceRead]]"

record UserContext =
  UserID :: string
  UserTenant :: string
  UserRole :: Role

fun has_perm_loop :: "Permission list \<Rightarrow> Permission \<Rightarrow> bool" where
  "has_perm_loop [] required = False"
| "has_perm_loop (p # ps) required = (if p = required then True else has_perm_loop ps required)"

definition HasPermission :: "Role \<Rightarrow> Permission \<Rightarrow> bool" where
  "HasPermission r required =
     (case RolePermissionMap r of
        None \<Rightarrow> False
      | Some perms \<Rightarrow> has_perm_loop perms required)"

datatype 'resp rbac_response =
    Unauthorized
  | ForbiddenCrossTenant
  | ForbiddenPermissions Permission
  | Handled 'resp

text \<open>\<open>ctx\<close> is the value of the context key: \<^term>\<open>None\<close> when it is absent, of another type, or
  a nil pointer. \<open>header\<close> is \<^verbatim>\<open>X-Tenant-ID\<close>, empty when absent.\<close>

definition RBACMiddleware ::
  "(string \<Rightarrow> string \<Rightarrow> bool) \<Rightarrow> Permission \<Rightarrow> (UserContext \<Rightarrow> 'resp) \<Rightarrow>
   UserContext option \<Rightarrow> string \<Rightarrow> 'resp rbac_response" where
  "RBACMiddleware fold_eq required next ctx header =
     (case ctx of
        None \<Rightarrow> Unauthorized
      | Some u \<Rightarrow>
          if header \<noteq> '''' \<and> \<not> fold_eq header (UserTenant u) then ForbiddenCrossTenant
          else if \<not> HasPermission (UserRole u) required then ForbiddenPermissions required
          else Handled (next u))"

lemma has_perm_loop_iff: "has_perm_loop ps p \<longleftrightarrow> p \<in> set ps"
  by (induction ps) auto

lemmas role_defs = RoleOwner_def RoleEditor_def RoleViewer_def
lemmas permission_defs = PermissionWorkspaceRead_def PermissionFileWrite_def PermissionFileDelete_def
  PermissionAdminKeys_def PermissionAuditExport_def

text \<open>Least privilege: a viewer reads only, an editor also writes files, an owner holds all
  five scopes, any other role string holds none, and no role holds a scope outside the five.\<close>

theorem HasPermission_table:
  "HasPermission r p \<longleftrightarrow>
     p = PermissionWorkspaceRead \<and> r \<in> {RoleOwner, RoleEditor, RoleViewer} \<or>
     p = PermissionFileWrite \<and> r \<in> {RoleOwner, RoleEditor} \<or>
     p \<in> {PermissionFileDelete, PermissionAdminKeys, PermissionAuditExport} \<and> r = RoleOwner"
  by (auto simp: HasPermission_def RolePermissionMap_def has_perm_loop_iff role_defs permission_defs
      split: if_splits)

text \<open>The wrapped handler runs exactly for an authenticated user whose role holds the scope
  and whose tenant is the one the request names, if it names one; it runs with that user's
  context.\<close>

theorem middleware_guards_handler:
  "RBACMiddleware fold_eq required next ctx header = Handled resp \<longleftrightarrow>
     (\<exists>u. ctx = Some u \<and> (header = '''' \<or> fold_eq header (UserTenant u)) \<and>
          HasPermission (UserRole u) required \<and> resp = next u)"
  by (auto simp: RBACMiddleware_def split: option.splits)

end
