(* ===== verification/Metadata.thy ===== *)
theory Metadata
  imports Keys
begin

text \<open>
  The metadata tables as the Go statements see them, and the SQL the statements rest on. A table is
  the list of its rows; \<^verbatim>\<open>SELECT\<close>, \<^verbatim>\<open>UPDATE\<close> and \<^verbatim>\<open>DELETE\<close> with a \<^verbatim>\<open>WHERE\<close> clause are
  filters and maps. Column types, \<^verbatim>\<open>CHECK\<close>s, keys and references are those of
  \<^verbatim>\<open>db/schema.sql\<close>; the triggers and \<^verbatim>\<open>next_version_number\<close> are those of
  \<^verbatim>\<open>db/stored-procedures.sql\<close>. Of \<^verbatim>\<open>upload_sessions\<close> the model has the columns that the Go
  statements name: they read and write a column \<^verbatim>\<open>status\<close>, which the schema file does not
  have, and never \<^verbatim>\<open>is_completed\<close>, which it has and which the reaper procedure reads.

  The invariant \<open>refs_ok\<close> is the protocol of the reference counts: a block's count is the number
  of manifest rows that name it, and no manifest row names an absent block.
\<close>

section \<open>Rows and tables\<close>

record tenant_row =
  tn_id :: uuid
  tn_quota :: int
  tn_used :: int

record node_row =
  nn_id :: uuid
  nn_tenant :: uuid
  nn_parent :: "uuid option"
  nn_name :: string
  nn_type :: string
  nn_deleted :: bool

record version_row =
  fv_id :: uuid
  fv_node :: uuid
  fv_number :: int
  fv_size :: int
  fv_sha :: bytes
  fv_created_by :: uuid

record cas_row =
  cb_hash :: bytes
  cb_tenant :: uuid
  cb_size :: int
  cb_tier :: string
  cb_refs :: int
  cb_verified :: bool
  cb_created :: instant
  cb_updated :: instant

record manifest_row =
  mf_version :: uuid
  mf_index :: int
  mf_hash :: bytes
  mf_offset :: int
  mf_size :: int

record session_row =
  us_id :: uuid
  us_tenant :: uuid
  us_node :: "uuid option"
  us_status :: string
  us_total :: int
  us_expected :: int
  us_received :: int
  us_expires :: instant
  us_completed :: bool

record db =
  tenant_rows :: "tenant_row list"
  node_rows :: "node_row list"
  version_rows :: "version_row list"
  cas_rows :: "cas_row list"
  manifest_rows :: "manifest_row list"
  session_rows :: "session_row list"

datatype sql_error =
    CheckViolation
  | UniqueViolation
  | ForeignKeyViolation
  | OutOfRange
  | SerializationFailure
  | ConnFailure

section \<open>Statements\<close>

definition is_int32 :: "int \<Rightarrow> bool" where
  "is_int32 x \<longleftrightarrow> - (2 ^ 31) \<le> x \<and> x < 2 ^ 31"

definition update_where :: "('a \<Rightarrow> bool) \<Rightarrow> ('a \<Rightarrow> 'a) \<Rightarrow> 'a list \<Rightarrow> 'a list" where
  "update_where P f rows = map (\<lambda>r. if P r then f r else r) rows"

fun insert_each :: "('a \<Rightarrow> db \<Rightarrow> sql_error + db) \<Rightarrow> 'a list \<Rightarrow> db \<Rightarrow> sql_error + db" where
  "insert_each ins [] d = Inr d"
| "insert_each ins (x # xs) d =
     (case ins x d of
        Inl e \<Rightarrow> Inl e
      | Inr d' \<Rightarrow> insert_each ins xs d')"

text \<open>\<^verbatim>\<open>COALESCE(MAX(version_number), 0) + 1\<close> over the node's versions.\<close>

definition node_versions :: "db \<Rightarrow> uuid \<Rightarrow> int list" where
  "node_versions d n = map fv_number (filter (\<lambda>v. fv_node v = n) (version_rows d))"

definition next_version_number :: "db \<Rightarrow> uuid \<Rightarrow> int" where
  "next_version_number d n = foldr max (node_versions d n) 0 + 1"

definition insert_version :: "version_row \<Rightarrow> db \<Rightarrow> sql_error + db" where
  "insert_version v d =
     (if fv_number v < 1 \<or> fv_size v < 0 \<or> length (fv_sha v) \<noteq> 32 then Inl CheckViolation
      else if fv_id v \<in> set (map fv_id (version_rows d)) then Inl UniqueViolation
      else if fv_number v \<in> set (node_versions d (fv_node v)) then Inl UniqueViolation
      else if fv_node v \<notin> set (map nn_id (node_rows d)) then Inl ForeignKeyViolation
      else Inr (d\<lparr>version_rows := version_rows d @ [v]\<rparr>))"

text \<open>\<^verbatim>\<open>INSERT INTO cas_blocks (block_hash, tenant_id, size_bytes, ref_count) \<dots> ON CONFLICT
  (block_hash) DO NOTHING\<close>: the checks run before the conflict is looked for, the reference to the
  tenant only for a row that is inserted.\<close>

definition insert_block_on_conflict_nothing ::
  "instant \<Rightarrow> uuid \<Rightarrow> int \<Rightarrow> bytes \<times> int \<Rightarrow> db \<Rightarrow> sql_error + db" where
  "insert_block_on_conflict_nothing now tenant refs hs d =
     (let h = fst hs; size = snd hs in
      if \<not> is_int32 size then Inl OutOfRange
      else if length h \<noteq> 32 \<or> size \<le> 0 then Inl CheckViolation
      else if h \<in> set (map cb_hash (cas_rows d)) then Inr d
      else if tenant \<notin> set (map tn_id (tenant_rows d)) then Inl ForeignKeyViolation
      else Inr (d\<lparr>cas_rows := cas_rows d @
             [\<lparr>cb_hash = h, cb_tenant = tenant, cb_size = size, cb_tier = ''HOT'', cb_refs = refs,
               cb_verified = False, cb_created = now, cb_updated = now\<rparr>]\<rparr>))"

text \<open>The trigger \<^verbatim>\<open>manifest_block_added\<close>.\<close>

definition manifest_block_added :: "instant \<Rightarrow> bytes \<Rightarrow> db \<Rightarrow> sql_error + db" where
  "manifest_block_added now h d =
     (if h \<notin> set (map cb_hash (cas_rows d)) then Inl ForeignKeyViolation
      else Inr (d\<lparr>cas_rows := update_where (\<lambda>b. cb_hash b = h)
             (\<lambda>b. b\<lparr>cb_refs := cb_refs b + 1,
                    cb_tier := (if cb_refs b + 1 > 100 then ''HOT'' else cb_tier b),
                    cb_updated := now\<rparr>) (cas_rows d)\<rparr>))"

definition insert_manifest_block :: "instant \<Rightarrow> manifest_row \<Rightarrow> db \<Rightarrow> sql_error + db" where
  "insert_manifest_block now m d =
     (if \<not> is_int32 (mf_index m) \<or> \<not> is_int32 (mf_size m) then Inl OutOfRange
      else if mf_index m < 0 \<or> mf_offset m < 0 \<or> mf_size m \<le> 0 then Inl CheckViolation
      else if (mf_version m, mf_index m) \<in> set (map (\<lambda>r. (mf_version r, mf_index r)) (manifest_rows d))
        then Inl UniqueViolation
      else if mf_version m \<notin> set (map fv_id (version_rows d)) then Inl ForeignKeyViolation
      else manifest_block_added now (mf_hash m) (d\<lparr>manifest_rows := manifest_rows d @ [m]\<rparr>))"

section \<open>The reference-count protocol\<close>

definition ref_of :: "db \<Rightarrow> bytes \<Rightarrow> nat" where
  "ref_of d h = length (filter (\<lambda>m. mf_hash m = h) (manifest_rows d))"

definition refs_ok :: "db \<Rightarrow> bool" where
  "refs_ok d \<longleftrightarrow>
     distinct (map cb_hash (cas_rows d)) \<and>
     (\<forall>b \<in> set (cas_rows d). cb_refs b = int (ref_of d (cb_hash b))) \<and>
     (\<forall>m \<in> set (manifest_rows d). mf_hash m \<in> cb_hash ` set (cas_rows d))"

definition versions_ok :: "db \<Rightarrow> bool" where
  "versions_ok d \<longleftrightarrow> distinct (map fv_id (version_rows d)) \<and>
     (\<forall>n. node_versions d n = map int [1..<Suc (length (node_versions d n))])"

lemma refs_okD:
  assumes "refs_ok d"
  shows "distinct (map cb_hash (cas_rows d))"
    and "b \<in> set (cas_rows d) \<Longrightarrow> cb_refs b = int (ref_of d (cb_hash b))"
    and "m \<in> set (manifest_rows d) \<Longrightarrow> mf_hash m \<in> cb_hash ` set (cas_rows d)"
  using assms by (auto simp: refs_ok_def)

lemma ref_of_absent:
  assumes "refs_ok d" and "h \<notin> cb_hash ` set (cas_rows d)"
  shows "ref_of d h = 0"
  using assms by (force simp: ref_of_def refs_ok_def filter_empty_conv)

lemma set_update_where: "set (update_where P f rows) = (\<lambda>r. if P r then f r else r) ` set rows"
  by (simp add: update_where_def)

lemma map_update_where [simp]:
  assumes "\<And>r. g (f r) = g r"
  shows "map g (update_where P f rows) = map g rows"
  using assms by (simp add: update_where_def)

lemma image_update_where:
  assumes "\<And>r. g (f r) = g r"
  shows "g ` set (update_where P f rows) = g ` set rows"
  using map_update_where [of g f P rows, OF assms] by (metis list.set_map)

lemma length_update_where [simp]: "length (update_where P f rows) = length rows"
  by (simp add: update_where_def)

text \<open>An update of block rows that leaves hash and count alone keeps the protocol.\<close>

lemma refs_ok_update_block:
  assumes "refs_ok d" and "\<And>b. cb_hash (f b) = cb_hash b" and "\<And>b. cb_refs (f b) = cb_refs b"
  shows "refs_ok (d\<lparr>cas_rows := update_where P f (cas_rows d)\<rparr>)"
proof -
  have "cb_hash ` set (update_where P f (cas_rows d)) = cb_hash ` set (cas_rows d)"
    using assms(2) by (rule image_update_where)
  then show ?thesis
    using assms by (auto simp: refs_ok_def set_update_where ref_of_def)
qed

lemma refs_ok_insert_block:
  assumes "refs_ok d" and "insert_block_on_conflict_nothing now t 0 hs d = Inr d'"
  shows "refs_ok d'"
proof (cases "fst hs \<in> set (map cb_hash (cas_rows d))")
  case True
  with assms show ?thesis
    by (auto simp: insert_block_on_conflict_nothing_def Let_def split: if_splits)
next
  case False
  then have "ref_of d (fst hs) = 0"
    using ref_of_absent assms(1) by simp
  with False assms show ?thesis
    by (auto simp: insert_block_on_conflict_nothing_def Let_def refs_ok_def ref_of_def split: if_splits)
qed

lemma refs_ok_insert_manifest:
  assumes "refs_ok d" and "insert_manifest_block now m d = Inr d'"
  shows "refs_ok d'"
proof -
  let ?f = "\<lambda>b. b\<lparr>cb_refs := cb_refs b + 1, cb_tier := (if cb_refs b + 1 > 100 then ''HOT'' else cb_tier b),
                  cb_updated := now\<rparr>"
  have in_cas: "mf_hash m \<in> cb_hash ` set (cas_rows d)"
    and d': "d' = d\<lparr>manifest_rows := manifest_rows d @ [m],
                    cas_rows := update_where (\<lambda>b. cb_hash b = mf_hash m) ?f (cas_rows d)\<rparr>"
    using assms(2) by (auto simp: insert_manifest_block_def manifest_block_added_def split: if_splits)
  have hashes: "map cb_hash (cas_rows d') = map cb_hash (cas_rows d)"
    by (simp add: d')
  have counts: "cb_refs b = int (ref_of d' (cb_hash b))" if "b \<in> set (cas_rows d')" for b
  proof -
    from that obtain b0 where b0: "b0 \<in> set (cas_rows d)"
      and b: "b = (if cb_hash b0 = mf_hash m then ?f b0 else b0)"
      by (auto simp: d' set_update_where)
    have "ref_of d' (cb_hash b) = ref_of d (cb_hash b) + (if mf_hash m = cb_hash b then 1 else 0)"
      by (simp add: ref_of_def d')
    with refs_okD(2) [OF assms(1) b0] show ?thesis
      by (simp add: b)
  qed
  have named: "mf_hash r \<in> cb_hash ` set (cas_rows d')" if "r \<in> set (manifest_rows d')" for r
  proof -
    have "r \<in> set (manifest_rows d) \<or> r = m"
      using that by (auto simp: d')
    then have "mf_hash r \<in> set (map cb_hash (cas_rows d))"
      using refs_okD(3) [OF assms(1)] in_cas by auto
    then show ?thesis
      by (simp only: hashes [symmetric] list.set_map)
  qed
  show ?thesis
    unfolding refs_ok_def using counts named refs_okD(1) [OF assms(1)] by (simp only: hashes) blast
qed

lemma insert_each_induct:
  assumes "insert_each ins xs d = Inr d'" and "I d"
    and "\<And>x d d'. x \<in> set xs \<Longrightarrow> I d \<Longrightarrow> ins x d = Inr d' \<Longrightarrow> I d'"
  shows "I d'"
  using assms
proof (induction xs arbitrary: d)
  case (Cons x xs)
  then obtain d1 where d1: "ins x d = Inr d1" and rest: "insert_each ins xs d1 = Inr d'"
    by (auto split: sum.splits)
  have "I d1"
    by (rule Cons.prems(3) [OF _ Cons.prems(2) d1]) simp
  with rest show ?case
    using Cons.IH Cons.prems(3) by (metis list.set_intros(2))
qed simp

section \<open>Version numbers\<close>

lemma foldr_max_upto: "0 \<le> k \<Longrightarrow> foldr max (map int [1..<Suc n]) k = max k (int n)"
  by (induction n arbitrary: k) auto

lemma next_version_dense:
  assumes "versions_ok d"
  shows "next_version_number d n = int (length (node_versions d n)) + 1"
proof -
  have dense: "node_versions d n = map int [1..<Suc (length (node_versions d n))]"
    using assms unfolding versions_ok_def by blast
  show ?thesis
    unfolding next_version_number_def by (subst dense) (simp only: foldr_max_upto order.refl)
qed

lemma insert_version_ok:
  assumes "versions_ok d" and "fv_number v = next_version_number d (fv_node v)"
    and "insert_version v d = Inr d'"
  shows "versions_ok d'"
proof -
  have d': "d' = d\<lparr>version_rows := version_rows d @ [v]\<rparr>" and new: "fv_id v \<notin> set (map fv_id (version_rows d))"
    using assms(3) by (auto simp: insert_version_def split: if_splits)
  have "node_versions d' n = map int [1..<Suc (length (node_versions d' n))]" for n
  proof (cases "fv_node v = n")
    case True
    then have "node_versions d' n = node_versions d n @ [int (Suc (length (node_versions d n)))]"
      using next_version_dense [OF assms(1)] assms(2) by (simp add: node_versions_def d')
    then show ?thesis
      using assms(1) by (simp add: versions_ok_def)
  next
    case False
    then have "node_versions d' n = node_versions d n"
      by (simp add: node_versions_def d')
    then show ?thesis
      using assms(1) by (simp add: versions_ok_def)
  qed
  then show ?thesis
    using assms(1) new by (auto simp: versions_ok_def d')
qed

text \<open>The frames of the block and manifest statements.\<close>

lemma insert_block_frame:
  assumes "insert_block_on_conflict_nothing now t r hs d = Inr d'"
  shows "version_rows d' = version_rows d" "manifest_rows d' = manifest_rows d"
    "session_rows d' = session_rows d" "node_rows d' = node_rows d" "tenant_rows d' = tenant_rows d"
  using assms by (auto simp: insert_block_on_conflict_nothing_def Let_def split: if_splits)

lemma insert_manifest_frame:
  assumes "insert_manifest_block now m d = Inr d'"
  shows "version_rows d' = version_rows d" "manifest_rows d' = manifest_rows d @ [m]"
    "session_rows d' = session_rows d" "node_rows d' = node_rows d" "tenant_rows d' = tenant_rows d"
    "map cb_hash (cas_rows d') = map cb_hash (cas_rows d)"
  using assms by (auto simp: insert_manifest_block_def manifest_block_added_def split: if_splits)

lemma insert_each_blocks_frame:
  assumes "insert_each (insert_block_on_conflict_nothing now t r) hs d = Inr d'"
  shows "version_rows d' = version_rows d \<and> manifest_rows d' = manifest_rows d \<and>
    session_rows d' = session_rows d \<and> node_rows d' = node_rows d \<and> tenant_rows d' = tenant_rows d"
  using assms by (rule insert_each_induct) (simp_all add: insert_block_frame)

lemma insert_each_manifest_frame:
  assumes "insert_each (insert_manifest_block now) ms d = Inr d'"
  shows "version_rows d' = version_rows d \<and> manifest_rows d' = manifest_rows d @ ms \<and>
    session_rows d' = session_rows d \<and> node_rows d' = node_rows d \<and> tenant_rows d' = tenant_rows d \<and>
    map cb_hash (cas_rows d') = map cb_hash (cas_rows d)"
  using assms
proof (induction ms arbitrary: d)
  case (Cons m ms)
  then obtain d1 where "insert_manifest_block now m d = Inr d1" "insert_each (insert_manifest_block now) ms d1 = Inr d'"
    by (auto split: sum.splits)
  with Cons.IH [of d1] show ?case
    by (simp add: insert_manifest_frame)
qed simp

lemma versions_ok_frame: "version_rows d' = version_rows d \<Longrightarrow> versions_ok d' \<longleftrightarrow> versions_ok d"
  by (simp add: versions_ok_def node_versions_def)

end
