(* ===== verification/Models.thy ===== *)
theory Models
  imports Metadata
begin

text \<open>
  Requests, responses and errors of the ingestion engine (\<^verbatim>\<open>internal/ingress/models.go\<close>) and the
  events it publishes (\<^verbatim>\<open>internal/ingress/events.go\<close>). An error is the sentinel it wraps, or
  \<open>ErrOther\<close> when it wraps none; messages are left out. \<open>Panicked\<close> is not an error value: it is
  a panic on its way to the recovery in \<^verbatim>\<open>wrap\<close>, which answers 500. JSON decoding is not modelled: handlers
  take the decoded request.
\<close>

section \<open>Errors\<close>

datatype ing_error =
    ErrUnauthorized
  | ErrBadRequest
  | ErrTenantNotFound
  | ErrQuotaExceeded
  | ErrSessionNotFound
  | ErrSessionExpired
  | ErrSessionCompleted
  | ErrSessionTenantMismatch
  | ErrNodeNotFound
  | ErrNodeNotFile
  | ErrDBUnavailable
  | ErrSerialization
  | ErrOther
  | Panicked

definition HTTPStatus :: "ing_error option \<Rightarrow> nat" where
  "HTTPStatus err =
     (case err of
        None \<Rightarrow> 200
      | Some ErrUnauthorized \<Rightarrow> 401
      | Some ErrQuotaExceeded \<Rightarrow> 402
      | Some ErrSessionTenantMismatch \<Rightarrow> 403
      | Some ErrTenantNotFound \<Rightarrow> 404
      | Some ErrSessionNotFound \<Rightarrow> 404
      | Some ErrNodeNotFound \<Rightarrow> 404
      | Some ErrBadRequest \<Rightarrow> 400
      | Some ErrSessionCompleted \<Rightarrow> 409
      | Some ErrSessionExpired \<Rightarrow> 410
      | Some ErrNodeNotFile \<Rightarrow> 400
      | Some ErrDBUnavailable \<Rightarrow> 503
      | Some ErrSerialization \<Rightarrow> 503
      | Some ErrOther \<Rightarrow> 500
      | Some Panicked \<Rightarrow> 500)"

section \<open>Requests and responses\<close>

record ChunkInfo =
  ci_BlockHash :: string
  ci_SizeBytes :: int

record InitiateRequest =
  ir_TenantID :: string
  ir_FileName :: string
  ir_ParentID :: "string option"
  ir_NodeID :: "string option"
  ir_TotalSize :: int
  ir_Chunks :: "ChunkInfo list"

text \<open>The hex checks that both \<^verbatim>\<open>Validate\<close> methods make of a hash.\<close>

definition hex64 :: "string \<Rightarrow> bool" where
  "hex64 s \<longleftrightarrow> length s = 64 \<and> DecodeString s \<noteq> None"

fun validate_chunks :: "ChunkInfo list \<Rightarrow> ing_error option" where
  "validate_chunks [] = None"
| "validate_chunks (c # cs) =
     (if length (ci_BlockHash c) \<noteq> 64 then Some ErrBadRequest
      else if DecodeString (ci_BlockHash c) = None then Some ErrBadRequest
      else if ci_SizeBytes c \<le> 0 then Some ErrBadRequest
      else validate_chunks cs)"

definition InitiateRequest_Validate :: "InitiateRequest \<Rightarrow> ing_error option" where
  "InitiateRequest_Validate r =
     (if ir_TenantID r = '''' then Some ErrBadRequest
      else if ir_FileName r = '''' then Some ErrBadRequest
      else if ir_TotalSize r \<le> 0 then Some ErrBadRequest
      else if ir_Chunks r = [] then Some ErrBadRequest
      else validate_chunks (ir_Chunks r))"

record UploadURL =
  uu_BlockHash :: string
  uu_URL :: string
  uu_SizeBytes :: int

record InitiateResponse =
  ip_SessionID :: string
  ip_NodeID :: string
  ip_ExpiresAt :: instant
  ip_UploadURLs :: "UploadURL list"

record BlockMeta =
  bm_BlockHash :: string
  bm_ChunkIndex :: int
  bm_Offset :: int
  bm_SizeBytes :: int
  bm_ETag :: string

record CommitRequest =
  cr_SessionID :: string
  cr_ContentSHA256 :: string
  cr_MimeType :: string
  cr_Blocks :: "BlockMeta list"

fun validate_blocks :: "BlockMeta list \<Rightarrow> ing_error option" where
  "validate_blocks [] = None"
| "validate_blocks (b # bs) =
     (if length (bm_BlockHash b) \<noteq> 64 then Some ErrBadRequest
      else if DecodeString (bm_BlockHash b) = None then Some ErrBadRequest
      else if bm_SizeBytes b \<le> 0 then Some ErrBadRequest
      else validate_blocks bs)"

definition CommitRequest_Validate :: "CommitRequest \<Rightarrow> ing_error option" where
  "CommitRequest_Validate r =
     (if cr_SessionID r = '''' then Some ErrBadRequest
      else if length (cr_ContentSHA256 r) \<noteq> 64 then Some ErrBadRequest
      else if DecodeString (cr_ContentSHA256 r) = None then Some ErrBadRequest
      else validate_blocks (cr_Blocks r))"

record CommitResponse =
  cp_VersionID :: string
  cp_VersionNumber :: int

section \<open>Internal records\<close>

record TenantQuota =
  StorageQuotaBytes :: int
  UsedBytes :: int

record SessionRecord =
  sr_SessionID :: string
  sr_TenantID :: string
  sr_NodeID :: string
  sr_Status :: string
  sr_TotalSize :: int
  sr_ExpectedChunks :: int
  sr_ExpiresAt :: instant

text \<open>\<^verbatim>\<open>MustDecodeHash\<close> panics on invalid hex: \<^term>\<open>None\<close> here.\<close>

definition MustDecodeHash :: "string \<Rightarrow> bytes option" where
  "MustDecodeHash h = DecodeString h"

section \<open>Events\<close>

record ChunkDetail =
  cd_Index :: int
  cd_BlockHash :: string
  cd_SizeBytes :: int
  cd_OffsetBytes :: int

record FileCommittedEvent =
  fe_EventID :: string
  fe_EventType :: string
  fe_TenantID :: string
  fe_NodeID :: string
  fe_VersionID :: string
  fe_VersionNumber :: int
  fe_TotalSize :: int
  fe_MimeType :: string
  fe_ContentSHA256 :: string
  fe_CreatedAt :: instant
  fe_Chunks :: "ChunkDetail list"
  fe_BlockHashes :: "string list"

record BlockTombstoneEvent =
  te_BlockHash :: string
  te_TenantID :: string
  te_SizeBytes :: int
  te_Timestamp :: instant
  te_Reason :: string

section \<open>What validation guarantees\<close>

lemma validate_chunks_None:
  "validate_chunks cs = None \<longleftrightarrow> (\<forall>c \<in> set cs. hex64 (ci_BlockHash c) \<and> 0 < ci_SizeBytes c)"
  by (induction cs) (auto simp: hex64_def)

lemma validate_blocks_None:
  "validate_blocks bs = None \<longleftrightarrow> (\<forall>b \<in> set bs. hex64 (bm_BlockHash b) \<and> 0 < bm_SizeBytes b)"
  by (induction bs) (auto simp: hex64_def)

lemma validate_bad_request:
  "validate_chunks cs = Some e \<Longrightarrow> e = ErrBadRequest"
  "validate_blocks bs = Some e \<Longrightarrow> e = ErrBadRequest"
  by (induction cs, simp_all split: if_splits) (induction bs, simp_all split: if_splits)

lemma hex64_decodes:
  assumes "hex64 s"
  obtains h where "DecodeString s = Some h" and "length h = 32"
proof -
  from assms obtain h where h: "DecodeString s = Some h" and "length s = 64"
    by (auto simp: hex64_def)
  with DecodeString_length [OF h] that show thesis
    by simp
qed

text \<open>Validation is exactly the decision whether the later decoding of the hashes cannot panic:
  it accepts a request iff every required field is there and every hash is 64 hex characters of a
  32-byte value with a positive size; everything else is a 400.\<close>

theorem request_validation:
  "(InitiateRequest_Validate ir = None \<longleftrightarrow> ir_TenantID ir \<noteq> '''' \<and> ir_FileName ir \<noteq> '''' \<and> 0 < ir_TotalSize ir \<and>
      ir_Chunks ir \<noteq> [] \<and> (\<forall>c \<in> set (ir_Chunks ir). 0 < ci_SizeBytes c \<and>
        (\<exists>h. length h = 32 \<and> MustDecodeHash (ci_BlockHash c) = Some h))) \<and>
   (CommitRequest_Validate cr = None \<longleftrightarrow> cr_SessionID cr \<noteq> '''' \<and>
      (\<exists>h. length h = 32 \<and> MustDecodeHash (cr_ContentSHA256 cr) = Some h) \<and>
      (\<forall>b \<in> set (cr_Blocks cr). 0 < bm_SizeBytes b \<and>
        (\<exists>h. length h = 32 \<and> MustDecodeHash (bm_BlockHash b) = Some h))) \<and>
   HTTPStatus (InitiateRequest_Validate ir) \<in> {200, 400} \<and> HTTPStatus (CommitRequest_Validate cr) \<in> {200, 400}"
proof -
  have hex: "hex64 s \<longleftrightarrow> (\<exists>h. length h = 32 \<and> MustDecodeHash s = Some h)" for s
    using DecodeString_length [of s] by (fastforce simp: hex64_def MustDecodeHash_def)
  have "InitiateRequest_Validate ir \<in> {None, Some ErrBadRequest}"
    using validate_bad_request(1)
    by (cases "validate_chunks (ir_Chunks ir)") (auto simp: InitiateRequest_Validate_def)
  moreover have "CommitRequest_Validate cr \<in> {None, Some ErrBadRequest}"
    using validate_bad_request(2)
    by (cases "validate_blocks (cr_Blocks cr)") (auto simp: CommitRequest_Validate_def)
  moreover have "InitiateRequest_Validate ir = None \<longleftrightarrow> ir_TenantID ir \<noteq> '''' \<and> ir_FileName ir \<noteq> '''' \<and>
      0 < ir_TotalSize ir \<and> ir_Chunks ir \<noteq> [] \<and>
      (\<forall>c \<in> set (ir_Chunks ir). 0 < ci_SizeBytes c \<and> (\<exists>h. length h = 32 \<and> MustDecodeHash (ci_BlockHash c) = Some h))"
    unfolding hex [symmetric] by (auto simp: InitiateRequest_Validate_def validate_chunks_None)
  moreover have "CommitRequest_Validate cr = None \<longleftrightarrow> cr_SessionID cr \<noteq> '''' \<and>
      (\<exists>h. length h = 32 \<and> MustDecodeHash (cr_ContentSHA256 cr) = Some h) \<and>
      (\<forall>b \<in> set (cr_Blocks cr). 0 < bm_SizeBytes b \<and> (\<exists>h. length h = 32 \<and> MustDecodeHash (bm_BlockHash b) = Some h))"
    unfolding hex [symmetric] by (auto simp: CommitRequest_Validate_def validate_blocks_None hex64_def)
  ultimately show ?thesis
    by (auto simp: HTTPStatus_def)
qed

definition demo_initiate :: InitiateRequest where
  "demo_initiate = \<lparr>ir_TenantID = ''t'', ir_FileName = ''f'', ir_ParentID = None, ir_NodeID = None,
     ir_TotalSize = 10, ir_Chunks = [\<lparr>ci_BlockHash = EncodeToString (replicate 32 5), ci_SizeBytes = 10\<rparr>]\<rparr>"

definition demo_commit :: CommitRequest where
  "demo_commit = \<lparr>cr_SessionID = ''s'', cr_ContentSHA256 = EncodeToString (replicate 32 6), cr_MimeType = '''',
     cr_Blocks = [\<lparr>bm_BlockHash = EncodeToString (replicate 32 5), bm_ChunkIndex = 0, bm_Offset = 0,
                   bm_SizeBytes = 10, bm_ETag = ''''\<rparr>]\<rparr>"

theorem request_validation_witness:
  "InitiateRequest_Validate demo_initiate = None \<and> CommitRequest_Validate demo_commit = None"
proof -
  have "MustDecodeHash (EncodeToString h) = Some h" for h
    by (simp add: MustDecodeHash_def)
  then show ?thesis
    using request_validation [of demo_initiate demo_commit]
    by (simp add: demo_initiate_def demo_commit_def del: EncodeToString.simps)
qed

end
