(* ===== verification/Store.thy ===== *)
theory Store
  imports Models
begin

text \<open>
  The data access layer of the ingestion engine (\<^verbatim>\<open>internal/ingress/store.go\<close>): the interface
  \<^verbatim>\<open>Store\<close> as a record of operations, its production implementation \<open>PgStore\<close> over the tables of
  theory \<open>Metadata\<close>, and the in-memory double \<open>FakeStore\<close>.

  What the outside decides during a call is an environment: the clock, the identifiers that the
  database or \<^verbatim>\<open>uuid.New\<close> generates, the column defaults of a new session, whether a text is a
  valid \<^verbatim>\<open>inet\<close>, and for every statement whether the driver or the server fails it. A
  transaction works on a copy of the tables that replaces them when the commit succeeds and is
  dropped by the deferred rollback otherwise. \<open>U\<close> is the UUID package.
\<close>

section \<open>Environment\<close>

record uuid_pkg =
  u_str :: "uuid \<Rightarrow> string"
  u_parse :: "string \<Rightarrow> uuid option"

datatype pg_stmt =
    StPing | StQuota | StBegin | StInsertNode | StTxCommit | StValidateNode | StBatchCAS
  | StInsertSession | StGetSession | StLockSession | StLockNode | StNextVersion | StInsertVersion
  | StUpsertBlocks | StInsertManifest | StCompleteSession | StBump | StExpire | StMarkVerified

record pg_env =
  pe_now :: instant
  pe_id :: "pg_stmt \<Rightarrow> uuid"
  pe_fault :: "pg_stmt \<Rightarrow> sql_error option"
  pe_status :: string
  pe_expires :: instant
  pe_inet :: "string \<Rightarrow> bool"

definition exec :: "pg_env \<Rightarrow> pg_stmt \<Rightarrow> sql_error + 'a \<Rightarrow> ing_error + 'a" where
  "exec E st r =
     (case pe_fault E st of
        Some e \<Rightarrow> Inl ErrOther
      | None \<Rightarrow> (case r of Inl e \<Rightarrow> Inl ErrOther | Inr a \<Rightarrow> Inr a))"

definition in_tx ::
  "pg_env \<Rightarrow> (sql_error \<Rightarrow> ing_error) \<Rightarrow> (db \<Rightarrow> ing_error + 'a \<times> db) \<Rightarrow> db \<Rightarrow> (ing_error + 'a) \<times> db" where
  "in_tx E commit_err body d =
     (case pe_fault E StBegin of
        Some e \<Rightarrow> (Inl ErrDBUnavailable, d)
      | None \<Rightarrow>
          (case body d of
             Inl e \<Rightarrow> (Inl e, d)
           | Inr (a, d') \<Rightarrow>
               (case pe_fault E StTxCommit of
                  Some e \<Rightarrow> (Inl (commit_err e), d)
                | None \<Rightarrow> (Inr a, d'))))"

section \<open>PgStore\<close>

definition Pg_Ping :: "pg_env \<Rightarrow> ing_error option" where
  "Pg_Ping E = (case pe_fault E StPing of Some e \<Rightarrow> Some ErrDBUnavailable | None \<Rightarrow> None)"

definition Pg_GetTenantQuota :: "pg_env \<Rightarrow> uuid \<Rightarrow> db \<Rightarrow> ing_error + TenantQuota" where
  "Pg_GetTenantQuota E tenantID d =
     (case pe_fault E StQuota of
        Some e \<Rightarrow> Inl ErrDBUnavailable
      | None \<Rightarrow>
          (case filter (\<lambda>t. tn_id t = tenantID) (tenant_rows d) of
             [] \<Rightarrow> Inl ErrTenantNotFound
           | t # _ \<Rightarrow> Inr \<lparr>StorageQuotaBytes = tn_quota t, UsedBytes = tn_used t\<rparr>))"

text \<open>The \<^verbatim>\<open>INSERT\<close> into \<^verbatim>\<open>namespace_nodes\<close> with its lineage trigger, its checks (a file has a
  parent, a name is not blank) and its keys.\<close>

definition not_blank :: "string \<Rightarrow> bool" where
  "not_blank s \<longleftrightarrow> list_ex (\<lambda>c. c \<noteq> CHR '' '') s"

definition insert_node :: "node_row \<Rightarrow> db \<Rightarrow> sql_error + db" where
  "insert_node n d =
     (let parent_ok = (case nn_parent n of
            None \<Rightarrow> True
          | Some p \<Rightarrow> list_ex (\<lambda>r. nn_id r = p \<and> nn_tenant r = nn_tenant n \<and> nn_type r = ''DIRECTORY'' \<and>
                                  \<not> nn_deleted r) (node_rows d))
      in if \<not> parent_ok then Inl ForeignKeyViolation
         else if \<not> (nn_type n = ''DIRECTORY'' \<or> nn_parent n \<noteq> None) then Inl CheckViolation
         else if \<not> not_blank (nn_name n) then Inl CheckViolation
         else if list_ex (\<lambda>r. nn_id r = nn_id n) (node_rows d) then Inl UniqueViolation
         else if nn_parent n \<noteq> None \<and>
                 list_ex (\<lambda>r. (nn_tenant r, nn_parent r, nn_name r, nn_deleted r) =
                              (nn_tenant n, nn_parent n, nn_name n, nn_deleted n)) (node_rows d)
           then Inl UniqueViolation
         else if \<not> list_ex (\<lambda>t. tn_id t = nn_tenant n) (tenant_rows d) then Inl ForeignKeyViolation
         else Inr (d\<lparr>node_rows := node_rows d @ [n]\<rparr>))"

definition Pg_CreateFileNode ::
  "pg_env \<Rightarrow> uuid \<Rightarrow> uuid option \<Rightarrow> string \<Rightarrow> db \<Rightarrow> (ing_error + uuid) \<times> db" where
  "Pg_CreateFileNode E tenantID parentID name d =
     in_tx E (\<lambda>_. ErrOther)
       (\<lambda>d. bindE (exec E StInsertNode (insert_node
               \<lparr>nn_id = pe_id E StInsertNode, nn_tenant = tenantID, nn_parent = parentID, nn_name = name,
                nn_type = ''FILE'', nn_deleted = False\<rparr> d))
             (\<lambda>d'. Inr (pe_id E StInsertNode, d'))) d"

definition Pg_ValidateFileNode :: "pg_env \<Rightarrow> uuid \<Rightarrow> uuid \<Rightarrow> db \<Rightarrow> ing_error option" where
  "Pg_ValidateFileNode E tenantID nodeID d =
     (case pe_fault E StValidateNode of
        Some e \<Rightarrow> Some ErrOther
      | None \<Rightarrow>
          (case filter (\<lambda>n. nn_id n = nodeID \<and> nn_tenant n = tenantID) (node_rows d) of
             [] \<Rightarrow> Some ErrNodeNotFound
           | n # _ \<Rightarrow> if nn_type n \<noteq> ''FILE'' then Some ErrNodeNotFile else None))"

definition Pg_BatchQueryExistingCAS :: "pg_env \<Rightarrow> bytes list \<Rightarrow> db \<Rightarrow> ing_error + (string \<Rightarrow> bool)" where
  "Pg_BatchQueryExistingCAS E hashes d =
     (if hashes = [] then Inr (\<lambda>_. False)
      else case pe_fault E StBatchCAS of
             Some e \<Rightarrow> Inl ErrDBUnavailable
           | None \<Rightarrow>
               let found = map cb_hash (filter (\<lambda>b. cb_hash b \<in> set hashes) (cas_rows d))
               in Inr (\<lambda>k. list_ex (\<lambda>h. EncodeToString h = k) found))"

text \<open>The \<^verbatim>\<open>INSERT\<close> into \<^verbatim>\<open>upload_sessions\<close>: \<open>client_ip\<close> is cast to \<^verbatim>\<open>inet\<close>; status and expiry
  come from the table's defaults.\<close>

definition insert_session :: "pg_env \<Rightarrow> string \<Rightarrow> session_row \<Rightarrow> db \<Rightarrow> sql_error + db" where
  "insert_session E ip s d =
     (if \<not> pe_inet E ip then Inl OutOfRange
      else if \<not> is_int32 (us_expected s) then Inl OutOfRange
      else if us_total s < 0 \<or> us_expected s \<le> 0 then Inl CheckViolation
      else if list_ex (\<lambda>r. us_id r = us_id s) (session_rows d) then Inl UniqueViolation
      else if \<not> list_ex (\<lambda>t. tn_id t = us_tenant s) (tenant_rows d) then Inl ForeignKeyViolation
      else if \<not> (case us_node s of None \<Rightarrow> True | Some n \<Rightarrow> list_ex (\<lambda>r. nn_id r = n) (node_rows d))
        then Inl ForeignKeyViolation
      else Inr (d\<lparr>session_rows := session_rows d @ [s]\<rparr>))"

definition Pg_CreateUploadSession ::
  "pg_env \<Rightarrow> uuid \<Rightarrow> uuid \<Rightarrow> int \<Rightarrow> int \<Rightarrow> string \<Rightarrow> string \<Rightarrow> db \<Rightarrow> (ing_error + uuid \<times> instant) \<times> db" where
  "Pg_CreateUploadSession E tenantID nodeID totalSize chunks ip ua d =
     in_tx E (\<lambda>_. ErrOther)
       (\<lambda>d. bindE (exec E StInsertSession (insert_session E ip
               \<lparr>us_id = pe_id E StInsertSession, us_tenant = tenantID, us_node = Some nodeID,
                us_status = pe_status E, us_total = totalSize, us_expected = chunks, us_received = 0,
                us_expires = pe_expires E, us_completed = False\<rparr> d))
             (\<lambda>d'. Inr ((pe_id E StInsertSession, pe_expires E), d'))) d"

definition find_session :: "uuid \<Rightarrow> db \<Rightarrow> session_row option" where
  "find_session sid d = List.find (\<lambda>s. us_id s = sid) (session_rows d)"

definition session_record :: "uuid_pkg \<Rightarrow> session_row \<Rightarrow> SessionRecord" where
  "session_record U s =
     \<lparr>sr_SessionID = u_str U (us_id s), sr_TenantID = u_str U (us_tenant s),
      sr_NodeID = (case us_node s of None \<Rightarrow> '''' | Some n \<Rightarrow> u_str U n), sr_Status = us_status s,
      sr_TotalSize = us_total s, sr_ExpectedChunks = us_expected s, sr_ExpiresAt = us_expires s\<rparr>"

definition Pg_GetSession :: "uuid_pkg \<Rightarrow> pg_env \<Rightarrow> uuid \<Rightarrow> db \<Rightarrow> ing_error + SessionRecord" where
  "Pg_GetSession U E sessionID d =
     (case pe_fault E StGetSession of
        Some e \<Rightarrow> Inl ErrOther
      | None \<Rightarrow>
          (case find_session sessionID d of
             None \<Rightarrow> Inl ErrSessionNotFound
           | Some s \<Rightarrow> Inr (session_record U s)))"

section \<open>PgStore.CommitFile\<close>

text \<open>Steps 1 to 3: the session row, its state, the node.\<close>

definition commit_preconditions ::
  "uuid_pkg \<Rightarrow> pg_env \<Rightarrow> uuid \<Rightarrow> uuid \<Rightarrow> BlockMeta list \<Rightarrow> db \<Rightarrow> ing_error + SessionRecord \<times> uuid" where
  "commit_preconditions U E tenantID sessionID blocks d =
     bindE (exec E StLockSession (Inr ())) (\<lambda>_.
     case find_session sessionID d of
       None \<Rightarrow> Inl ErrSessionNotFound
     | Some row \<Rightarrow>
         let rec = session_record U row in
         if sr_Status rec = ''COMPLETED'' then Inl ErrSessionCompleted
         else if pe_now E > sr_ExpiresAt rec then Inl ErrSessionExpired
         else if sr_TenantID rec \<noteq> u_str U tenantID then Inl ErrSessionTenantMismatch
         else if int (length blocks) \<noteq> sr_ExpectedChunks rec then Inl ErrBadRequest
         else if sr_NodeID rec = '''' then Inl ErrBadRequest
         else case u_parse U (sr_NodeID rec) of
                None \<Rightarrow> Inl ErrOther
              | Some nodeID \<Rightarrow> bindE (exec E StLockNode (Inr ())) (\<lambda>_. Inr (rec, nodeID)))"

text \<open>Steps 6 and 7: the block rows and the manifest rows; decoding a malformed hash panics.\<close>

definition write_blocks ::
  "pg_env \<Rightarrow> uuid \<Rightarrow> uuid \<Rightarrow> BlockMeta list \<Rightarrow> db \<Rightarrow> ing_error + db" where
  "write_blocks E tenantID versionID blocks d =
     (if blocks = [] then Inr d
      else case those (map (\<lambda>b. MustDecodeHash (bm_BlockHash b)) blocks) of
             None \<Rightarrow> Inl Panicked
           | Some hashes \<Rightarrow>
               bindE (exec E StUpsertBlocks
                 (insert_each (insert_block_on_conflict_nothing (pe_now E) tenantID 0)
                    (zip hashes (map bm_SizeBytes blocks)) d)) (\<lambda>d1.
               exec E StInsertManifest
                 (insert_each (insert_manifest_block (pe_now E))
                    (map (\<lambda>(h, b). \<lparr>mf_version = versionID, mf_index = bm_ChunkIndex b, mf_hash = h,
                                    mf_offset = bm_Offset b, mf_size = bm_SizeBytes b\<rparr>) (zip hashes blocks)) d1)))"

definition complete_session :: "uuid \<Rightarrow> int \<Rightarrow> db \<Rightarrow> db" where
  "complete_session sid n d =
     d\<lparr>session_rows := update_where (\<lambda>s. us_id s = sid)
         (\<lambda>s. s\<lparr>us_status := ''COMPLETED'', us_received := n\<rparr>) (session_rows d)\<rparr>"

definition commit_body ::
  "uuid_pkg \<Rightarrow> pg_env \<Rightarrow> uuid \<Rightarrow> uuid \<Rightarrow> bytes \<Rightarrow> BlockMeta list \<Rightarrow> db \<Rightarrow> ing_error + (string \<times> int) \<times> db" where
  "commit_body U E tenantID sessionID contentSHA256 blocks d =
     bindE (commit_preconditions U E tenantID sessionID blocks d) (\<lambda>(rec, nodeID).
     bindE (exec E StNextVersion (Inr (next_version_number d nodeID))) (\<lambda>versionNumber.
     let versionID = pe_id E StInsertVersion in
     bindE (exec E StInsertVersion (insert_version
              \<lparr>fv_id = versionID, fv_node = nodeID, fv_number = versionNumber, fv_size = sr_TotalSize rec,
               fv_sha = contentSHA256, fv_created_by = tenantID\<rparr> d)) (\<lambda>d1.
     bindE (write_blocks E tenantID versionID blocks d1) (\<lambda>d2.
     bindE (exec E StCompleteSession (Inr (complete_session sessionID (int (length blocks)) d2))) (\<lambda>d3.
     Inr ((u_str U versionID, versionNumber), d3))))))"

definition Pg_CommitFile ::
  "uuid_pkg \<Rightarrow> pg_env \<Rightarrow> uuid \<Rightarrow> uuid \<Rightarrow> bytes \<Rightarrow> BlockMeta list \<Rightarrow> db \<Rightarrow> (ing_error + string \<times> int) \<times> db" where
  "Pg_CommitFile U E tenantID sessionID contentSHA256 blocks d =
     in_tx E (\<lambda>e. if e = SerializationFailure then ErrSerialization else ErrOther)
       (commit_body U E tenantID sessionID contentSHA256 blocks) d"

text \<open>The reaper procedure deletes sessions whose expiry lies seven days back and whose
  \<^verbatim>\<open>is_completed\<close> is false; the Go call reports the number of rows of the \<^verbatim>\<open>SELECT\<close>, which is one.\<close>

definition expire_stale_upload_sessions :: "instant \<Rightarrow> db \<Rightarrow> db" where
  "expire_stale_upload_sessions now d =
     d\<lparr>session_rows := filter (\<lambda>s. \<not> (us_expires s < now - 7 * 24 * Hour \<and> \<not> us_completed s)) (session_rows d)\<rparr>"

definition Pg_ExpireStaleSessions :: "pg_env \<Rightarrow> db \<Rightarrow> (ing_error + int) \<times> db" where
  "Pg_ExpireStaleSessions E d =
     (case pe_fault E StExpire of
        Some e \<Rightarrow> (Inl ErrOther, d)
      | None \<Rightarrow> (Inr 1, expire_stale_upload_sessions (pe_now E) d))"

definition Pg_MarkBlockVerified :: "pg_env \<Rightarrow> bytes \<Rightarrow> db \<Rightarrow> ing_error option \<times> db" where
  "Pg_MarkBlockVerified E h d =
     (case pe_fault E StMarkVerified of
        Some e \<Rightarrow> (Some ErrOther, d)
      | None \<Rightarrow>
          (None, d\<lparr>cas_rows := update_where (\<lambda>b. cb_hash b = h)
             (\<lambda>b. b\<lparr>cb_verified := True, cb_updated := pe_now E\<rparr>) (cas_rows d)\<rparr>))"

section \<open>FakeStore\<close>

record FakeStore =
  fk_tenants :: "uuid \<Rightarrow> TenantQuota option"
  fk_nodes :: "uuid \<Rightarrow> uuid option"
  fk_sessions :: "uuid \<Rightarrow> SessionRecord option"
  fk_casSet :: "string \<Rightarrow> bool"
  fk_nextVer :: int
  fk_lastVer :: string
  fk_lastNum :: int
  fk_pingErr :: "ing_error option"

definition NewFakeStore :: FakeStore where
  "NewFakeStore = \<lparr>fk_tenants = Map.empty, fk_nodes = Map.empty, fk_sessions = Map.empty,
     fk_casSet = (\<lambda>_. False), fk_nextVer = 0, fk_lastVer = '''', fk_lastNum = 0, fk_pingErr = None\<rparr>"

definition SeedTenant :: "uuid \<Rightarrow> int \<Rightarrow> int \<Rightarrow> FakeStore \<Rightarrow> FakeStore" where
  "SeedTenant i quota used f =
     f\<lparr>fk_tenants := (fk_tenants f)(i \<mapsto> \<lparr>StorageQuotaBytes = quota, UsedBytes = used\<rparr>)\<rparr>"

definition SeedCASBlock :: "string \<Rightarrow> FakeStore \<Rightarrow> FakeStore" where
  "SeedCASBlock h f = f\<lparr>fk_casSet := (fk_casSet f)(h := True)\<rparr>"

definition SetPingErr :: "ing_error option \<Rightarrow> FakeStore \<Rightarrow> FakeStore" where
  "SetPingErr e f = f\<lparr>fk_pingErr := e\<rparr>"

definition Fk_GetTenantQuota :: "uuid \<Rightarrow> FakeStore \<Rightarrow> ing_error + TenantQuota" where
  "Fk_GetTenantQuota tenantID f =
     (case fk_tenants f tenantID of None \<Rightarrow> Inl ErrTenantNotFound | Some q \<Rightarrow> Inr q)"

definition Fk_CreateFileNode ::
  "pg_env \<Rightarrow> uuid \<Rightarrow> uuid option \<Rightarrow> string \<Rightarrow> FakeStore \<Rightarrow> (ing_error + uuid) \<times> FakeStore" where
  "Fk_CreateFileNode E tenantID parentID name f =
     (let nodeID = pe_id E StInsertNode
      in (Inr nodeID, f\<lparr>fk_nodes := (fk_nodes f)(nodeID \<mapsto> tenantID)\<rparr>))"

definition Fk_ValidateFileNode :: "uuid \<Rightarrow> uuid \<Rightarrow> FakeStore \<Rightarrow> ing_error option" where
  "Fk_ValidateFileNode tenantID nodeID f =
     (case fk_nodes f nodeID of
        None \<Rightarrow> Some ErrNodeNotFound
      | Some tid \<Rightarrow> if tid \<noteq> tenantID then Some ErrNodeNotFound else None)"

definition Fk_BatchQueryExistingCAS :: "bytes list \<Rightarrow> FakeStore \<Rightarrow> ing_error + (string \<Rightarrow> bool)" where
  "Fk_BatchQueryExistingCAS hashes f =
     Inr (\<lambda>k. list_ex (\<lambda>h. EncodeToString h = k) hashes \<and> fk_casSet f k)"

definition Fk_CreateUploadSession ::
  "uuid_pkg \<Rightarrow> pg_env \<Rightarrow> uuid \<Rightarrow> uuid \<Rightarrow> int \<Rightarrow> int \<Rightarrow> string \<Rightarrow> string \<Rightarrow> FakeStore \<Rightarrow>
   (ing_error + uuid \<times> instant) \<times> FakeStore" where
  "Fk_CreateUploadSession U E tenantID nodeID totalSize chunks ip ua f =
     (let sid = pe_id E StInsertSession;
          rec = \<lparr>sr_SessionID = u_str U sid, sr_TenantID = u_str U tenantID, sr_NodeID = u_str U nodeID,
                 sr_Status = ''INITIATED'', sr_TotalSize = totalSize, sr_ExpectedChunks = chunks,
                 sr_ExpiresAt = pe_now E + 15 * Minute\<rparr>
      in (Inr (sid, pe_now E + 15 * Minute), f\<lparr>fk_sessions := (fk_sessions f)(sid \<mapsto> rec)\<rparr>))"

definition Fk_GetSession :: "uuid \<Rightarrow> FakeStore \<Rightarrow> ing_error + SessionRecord" where
  "Fk_GetSession sessionID f =
     (case fk_sessions f sessionID of None \<Rightarrow> Inl ErrSessionNotFound | Some rec \<Rightarrow> Inr rec)"

definition Fk_CommitFile ::
  "uuid_pkg \<Rightarrow> pg_env \<Rightarrow> uuid \<Rightarrow> uuid \<Rightarrow> bytes \<Rightarrow> BlockMeta list \<Rightarrow> FakeStore \<Rightarrow>
   (ing_error + string \<times> int) \<times> FakeStore" where
  "Fk_CommitFile U E tenantID sessionID contentSHA256 blocks f =
     (case fk_sessions f sessionID of
        None \<Rightarrow> (Inl ErrSessionNotFound, f)
      | Some rec \<Rightarrow>
          if sr_Status rec = ''COMPLETED'' then (Inl ErrSessionCompleted, f)
          else if pe_now E > sr_ExpiresAt rec then (Inl ErrSessionExpired, f)
          else if sr_TenantID rec \<noteq> u_str U tenantID then (Inl ErrSessionTenantMismatch, f)
          else if int (length blocks) \<noteq> sr_ExpectedChunks rec then (Inl ErrBadRequest, f)
          else
            let ver = fk_nextVer f + 1; vid = u_str U (pe_id E StInsertVersion)
            in (Inr (vid, ver),
                f\<lparr>fk_nextVer := ver, fk_lastVer := vid, fk_lastNum := ver,
                  fk_casSet := foldl (\<lambda>m b. m(bm_BlockHash b := True)) (fk_casSet f) blocks,
                  fk_sessions := (fk_sessions f)(sessionID \<mapsto> rec\<lparr>sr_Status := ''COMPLETED''\<rparr>)\<rparr>))"

section \<open>The interface Store\<close>

record 'st Store =
  s_Ping :: "'st \<Rightarrow> ing_error option"
  s_GetTenantQuota :: "uuid \<Rightarrow> 'st \<Rightarrow> ing_error + TenantQuota"
  s_CreateFileNode :: "uuid \<Rightarrow> uuid option \<Rightarrow> string \<Rightarrow> 'st \<Rightarrow> (ing_error + uuid) \<times> 'st"
  s_ValidateFileNode :: "uuid \<Rightarrow> uuid \<Rightarrow> 'st \<Rightarrow> ing_error option"
  s_BatchQueryExistingCAS :: "bytes list \<Rightarrow> 'st \<Rightarrow> ing_error + (string \<Rightarrow> bool)"
  s_CreateUploadSession ::
    "uuid \<Rightarrow> uuid \<Rightarrow> int \<Rightarrow> int \<Rightarrow> string \<Rightarrow> string \<Rightarrow> 'st \<Rightarrow> (ing_error + uuid \<times> instant) \<times> 'st"
  s_GetSession :: "uuid \<Rightarrow> 'st \<Rightarrow> ing_error + SessionRecord"
  s_CommitFile :: "uuid \<Rightarrow> uuid \<Rightarrow> bytes \<Rightarrow> BlockMeta list \<Rightarrow> 'st \<Rightarrow> (ing_error + string \<times> int) \<times> 'st"
  s_BumpCacheGeneration :: "uuid \<Rightarrow> 'st \<Rightarrow> ing_error option \<times> 'st"
  s_ExpireStaleSessions :: "'st \<Rightarrow> (ing_error + int) \<times> 'st"
  s_MarkBlockVerified :: "bytes \<Rightarrow> 'st \<Rightarrow> ing_error option \<times> 'st"

text \<open>The cache generation lives in Redis, not in the tables: bumping it leaves the store alone.\<close>

definition PgStore :: "uuid_pkg \<Rightarrow> pg_env \<Rightarrow> db Store" where
  "PgStore U E =
     \<lparr>s_Ping = (\<lambda>_. Pg_Ping E), s_GetTenantQuota = Pg_GetTenantQuota E,
      s_CreateFileNode = Pg_CreateFileNode E, s_ValidateFileNode = Pg_ValidateFileNode E,
      s_BatchQueryExistingCAS = Pg_BatchQueryExistingCAS E,
      s_CreateUploadSession = Pg_CreateUploadSession E, s_GetSession = Pg_GetSession U E,
      s_CommitFile = Pg_CommitFile U E,
      s_BumpCacheGeneration = (\<lambda>_ d. (if pe_fault E StBump = None then None else Some ErrOther, d)),
      s_ExpireStaleSessions = Pg_ExpireStaleSessions E, s_MarkBlockVerified = Pg_MarkBlockVerified E\<rparr>"

definition Fake :: "uuid_pkg \<Rightarrow> pg_env \<Rightarrow> FakeStore Store" where
  "Fake U E =
     \<lparr>s_Ping = fk_pingErr, s_GetTenantQuota = Fk_GetTenantQuota, s_CreateFileNode = Fk_CreateFileNode E,
      s_ValidateFileNode = Fk_ValidateFileNode, s_BatchQueryExistingCAS = Fk_BatchQueryExistingCAS,
      s_CreateUploadSession = Fk_CreateUploadSession U E, s_GetSession = Fk_GetSession,
      s_CommitFile = Fk_CommitFile U E, s_BumpCacheGeneration = (\<lambda>_ f. (None, f)),
      s_ExpireStaleSessions = (\<lambda>f. (Inr 0, f)), s_MarkBlockVerified = (\<lambda>_ f. (None, f))\<rparr>"

section \<open>What a commit does\<close>

lemma exec_Inr: "exec E st r = Inr a \<longleftrightarrow> pe_fault E st = None \<and> r = Inr a"
  by (auto simp: exec_def split: option.splits sum.splits)

lemma in_tx_Inl: "in_tx E ce body d = (Inl e, d') \<Longrightarrow> d' = d"
  by (auto simp: in_tx_def split: option.splits sum.splits prod.splits)

lemma in_tx_Inr:
  "in_tx E ce body d = (Inr a, d') \<longleftrightarrow>
     pe_fault E StBegin = None \<and> pe_fault E StTxCommit = None \<and> body d = Inr (a, d')"
  by (auto simp: in_tx_def split: option.splits sum.splits prod.splits)

lemma commit_preconditions_Inr:
  "commit_preconditions U E t sid blocks d = Inr (rec, node) \<longleftrightarrow>
     pe_fault E StLockSession = None \<and> pe_fault E StLockNode = None \<and>
     (\<exists>row. find_session sid d = Some row \<and> rec = session_record U row) \<and>
     sr_Status rec \<noteq> ''COMPLETED'' \<and> pe_now E \<le> sr_ExpiresAt rec \<and> sr_TenantID rec = u_str U t \<and>
     int (length blocks) = sr_ExpectedChunks rec \<and> sr_NodeID rec \<noteq> '''' \<and> u_parse U (sr_NodeID rec) = Some node"
  by (auto simp: commit_preconditions_def bindE_Inr exec_Inr Let_def split: option.splits)

definition manifest_of :: "uuid \<Rightarrow> (bytes \<times> BlockMeta) list \<Rightarrow> manifest_row list" where
  "manifest_of v hbs = map (\<lambda>(h, b). \<lparr>mf_version = v, mf_index = bm_ChunkIndex b, mf_hash = h,
                              mf_offset = bm_Offset b, mf_size = bm_SizeBytes b\<rparr>) hbs"

lemma those_map_Some:
  "those (map f xs) = Some ys \<Longrightarrow> map f xs = map Some ys"
  by (induction xs arbitrary: ys) (auto split: option.splits)

lemma write_blocks_Inr:
  assumes "write_blocks E t v blocks d = Inr d'"
  obtains hashes where
    "those (map (\<lambda>b. MustDecodeHash (bm_BlockHash b)) blocks) = Some hashes"
    and "manifest_rows d' = manifest_rows d @ manifest_of v (zip hashes blocks)"
    and "version_rows d' = version_rows d" and "session_rows d' = session_rows d"
    and "node_rows d' = node_rows d" and "tenant_rows d' = tenant_rows d"
proof (cases "blocks = []")
  case True
  with assms that [of "[]"] show thesis
    by (auto simp: write_blocks_def manifest_of_def)
next
  case False
  from assms False obtain hashes d1 where
    hashes: "those (map (\<lambda>b. MustDecodeHash (bm_BlockHash b)) blocks) = Some hashes"
    and d1: "insert_each (insert_block_on_conflict_nothing (pe_now E) t 0) (zip hashes (map bm_SizeBytes blocks)) d = Inr d1"
    and d': "insert_each (insert_manifest_block (pe_now E)) (manifest_of v (zip hashes blocks)) d1 = Inr d'"
    by (auto simp: write_blocks_def bindE_Inr exec_Inr manifest_of_def split: option.splits)
  show thesis
    using that [OF hashes] insert_each_blocks_frame [OF d1] insert_each_manifest_frame [OF d'] by simp
qed

lemma write_blocks_refs_ok:
  assumes "write_blocks E t v blocks d = Inr d'" and "refs_ok d"
  shows "refs_ok d'"
proof (cases "blocks = []")
  case True
  with assms show ?thesis
    by (simp add: write_blocks_def)
next
  case False
  from assms(1) False obtain hashes d1 where
    d1: "insert_each (insert_block_on_conflict_nothing (pe_now E) t 0) (zip hashes (map bm_SizeBytes blocks)) d = Inr d1"
    and d': "insert_each (insert_manifest_block (pe_now E)) (manifest_of v (zip hashes blocks)) d1 = Inr d'"
    by (auto simp: write_blocks_def bindE_Inr exec_Inr manifest_of_def split: option.splits)
  have "refs_ok d1"
    using d1 assms(2) by (rule insert_each_induct) (erule refs_ok_insert_block)
  with d' show ?thesis
    by (rule insert_each_induct) (erule refs_ok_insert_manifest)
qed

lemma commit_body_Inr:
  assumes "commit_body U E t sid sha blocks d = Inr ((vid, n), d')"
  obtains rec node d1 d2 where
    "commit_preconditions U E t sid blocks d = Inr (rec, node)"
    and "n = next_version_number d node" and "vid = u_str U (pe_id E StInsertVersion)"
    and "insert_version \<lparr>fv_id = pe_id E StInsertVersion, fv_node = node, fv_number = n,
           fv_size = sr_TotalSize rec, fv_sha = sha, fv_created_by = t\<rparr> d = Inr d1"
    and "write_blocks E t (pe_id E StInsertVersion) blocks d1 = Inr d2"
    and "d' = complete_session sid (int (length blocks)) d2"
  using assms by (auto simp: commit_body_def bindE_Inr exec_Inr Let_def split: prod.splits)

lemma complete_session_frame [simp]:
  "version_rows (complete_session sid n d) = version_rows d"
  "manifest_rows (complete_session sid n d) = manifest_rows d"
  "cas_rows (complete_session sid n d) = cas_rows d"
  "node_rows (complete_session sid n d) = node_rows d"
  "tenant_rows (complete_session sid n d) = tenant_rows d"
  by (simp_all add: complete_session_def)

lemma refs_ok_frame:
  assumes "cas_rows d' = cas_rows d" and "manifest_rows d' = manifest_rows d"
  shows "refs_ok d' \<longleftrightarrow> refs_ok d"
  using assms by (simp add: refs_ok_def ref_of_def)

lemma find_complete_session:
  "find_session i (complete_session sid n d) =
     (if i = sid then map_option (\<lambda>s. s\<lparr>us_status := ''COMPLETED'', us_received := n\<rparr>) (find_session i d)
      else find_session i d)"
proof -
  have "List.find (\<lambda>s. us_id s = i) (update_where (\<lambda>s. us_id s = sid) (\<lambda>s. s\<lparr>us_status := ''COMPLETED'', us_received := n\<rparr>) rows) =
     (if i = sid then map_option (\<lambda>s. s\<lparr>us_status := ''COMPLETED'', us_received := n\<rparr>) (List.find (\<lambda>s. us_id s = i) rows)
      else List.find (\<lambda>s. us_id s = i) rows)" for rows
    by (induction rows) (auto simp: update_where_def)
  from this [of "session_rows d"] show ?thesis
    unfolding find_session_def complete_session_def by simp
qed

lemma insert_version_frame:
  assumes "insert_version v d = Inr d'"
  shows "d' = d\<lparr>version_rows := version_rows d @ [v]\<rparr>"
  using assms by (auto simp: insert_version_def split: if_splits)

lemma commit_body_invariants:
  assumes "commit_body U E t sid sha blocks d = Inr ((vid, n), d')" and "refs_ok d" and "versions_ok d"
  shows "refs_ok d' \<and> versions_ok d'"
proof -
  from assms(1) obtain rec node d1 d2 where
    "commit_preconditions U E t sid blocks d = Inr (rec, node)"
    and n: "n = next_version_number d node"
    and d1: "insert_version \<lparr>fv_id = pe_id E StInsertVersion, fv_node = node, fv_number = n,
           fv_size = sr_TotalSize rec, fv_sha = sha, fv_created_by = t\<rparr> d = Inr d1"
    and d2: "write_blocks E t (pe_id E StInsertVersion) blocks d1 = Inr d2"
    and d': "d' = complete_session sid (int (length blocks)) d2"
    by (rule commit_body_Inr)
  have "versions_ok d1"
    using insert_version_ok [OF assms(3) _ d1] n by simp
  moreover have "version_rows d2 = version_rows d1"
    using d2 by (rule write_blocks_Inr)
  moreover have "refs_ok d1"
    using insert_version_frame [OF d1] assms(2) refs_ok_frame [of d1 d] by simp
  then have "refs_ok d2"
    using write_blocks_refs_ok [OF d2] by simp
  ultimately show ?thesis
    using versions_ok_frame [of d' d1] refs_ok_frame [of d' d2] by (simp add: d')
qed

section \<open>Properties of CommitFile\<close>

text \<open>C14. A commit is all or nothing: whichever statement fails, and for whatever reason, the tables
  are as before; when it succeeds, the reference-count protocol holds again and every node's
  versions are still numbered 1, 2, 3, \<dots> without gap or repetition.\<close>

theorem CommitFile_atomic:
  assumes "Pg_CommitFile U E t sid sha blocks d = (res, d')"
  shows "(\<forall>e. res = Inl e \<longrightarrow> d' = d) \<and> (refs_ok d \<and> versions_ok d \<longrightarrow> refs_ok d' \<and> versions_ok d')"
proof (cases res)
  case (Inl e)
  then have "d' = d"
    using assms in_tx_Inl by (simp add: Pg_CommitFile_def)
  with Inl show ?thesis by simp
next
  case (Inr r)
  obtain vid n where r: "r = (vid, n)" by (cases r)
  have "commit_body U E t sid sha blocks d = Inr ((vid, n), d')"
    using assms by (simp add: Pg_CommitFile_def Inr r in_tx_Inr)
  then show ?thesis
    using commit_body_invariants Inr by blast
qed

lemma CommitFile_effect:
  assumes "Pg_CommitFile U E t sid sha blocks d = (Inr (vid, n), d')"
  shows "\<exists>row node hashes v. find_session sid d = Some row \<and> us_status row \<noteq> ''COMPLETED'' \<and>
    pe_now E \<le> us_expires row \<and> u_str U (us_tenant row) = u_str U t \<and>
    int (length blocks) = us_expected row \<and>
    vid = u_str U v \<and> n = next_version_number d node \<and>
    version_rows d' = version_rows d @ [\<lparr>fv_id = v, fv_node = node, fv_number = n, fv_size = us_total row,
      fv_sha = sha, fv_created_by = t\<rparr>] \<and>
    map (\<lambda>b. MustDecodeHash (bm_BlockHash b)) blocks = map Some hashes \<and>
    manifest_rows d' = manifest_rows d @ manifest_of v (zip hashes blocks) \<and>
    find_session sid d' = Some (row\<lparr>us_status := ''COMPLETED'', us_received := int (length blocks)\<rparr>) \<and>
    (\<forall>i. i \<noteq> sid \<longrightarrow> find_session i d' = find_session i d) \<and>
    node_rows d' = node_rows d \<and> tenant_rows d' = tenant_rows d"
proof -
  let ?v = "pe_id E StInsertVersion"
  have "commit_body U E t sid sha blocks d = Inr ((vid, n), d')"
    using assms(1) by (simp add: Pg_CommitFile_def in_tx_Inr)
  then obtain rec node d1 d2 where
    pre: "commit_preconditions U E t sid blocks d = Inr (rec, node)"
    and n: "n = next_version_number d node" and vid: "vid = u_str U ?v"
    and d1: "insert_version \<lparr>fv_id = ?v, fv_node = node, fv_number = n,
           fv_size = sr_TotalSize rec, fv_sha = sha, fv_created_by = t\<rparr> d = Inr d1"
    and d2: "write_blocks E t ?v blocks d1 = Inr d2"
    and d': "d' = complete_session sid (int (length blocks)) d2"
    by (rule commit_body_Inr)
  from pre obtain row where row: "find_session sid d = Some row" "rec = session_record U row"
    by (auto simp: commit_preconditions_Inr)
  from d2 obtain hashes where
    hashes: "those (map (\<lambda>b. MustDecodeHash (bm_BlockHash b)) blocks) = Some hashes"
    and rows: "manifest_rows d2 = manifest_rows d1 @ manifest_of ?v (zip hashes blocks)"
      "version_rows d2 = version_rows d1" "session_rows d2 = session_rows d1"
      "node_rows d2 = node_rows d1" "tenant_rows d2 = tenant_rows d1"
    by (rule write_blocks_Inr)
  have "map (\<lambda>b. MustDecodeHash (bm_BlockHash b)) blocks = map Some hashes"
    using hashes by (rule those_map_Some)
  moreover have "find_session i d2 = find_session i d" for i
    using rows(3) insert_version_frame [OF d1] by (simp add: find_session_def)
  ultimately show ?thesis
    using row pre n vid rows insert_version_frame [OF d1]
    by (intro exI [of _ row] exI [of _ node] exI [of _ hashes] exI [of _ ?v])
      (simp add: commit_preconditions_Inr session_record_def d' find_complete_session)
qed

lemma CommitFile_manifest:
  assumes "Pg_CommitFile U E t sid sha blocks d = (Inr (vid, n), d')"
  shows "\<exists>hashes v. vid = u_str U v \<and> map (\<lambda>b. MustDecodeHash (bm_BlockHash b)) blocks = map Some hashes \<and>
    manifest_rows d' = manifest_rows d @ manifest_of v (zip hashes blocks)"
  using CommitFile_effect [OF assms] by blast

text \<open>C6. A successful commit writes exactly the request: one version row with the session's size,
  the given content hash and the next number of the node; one manifest row per block, in order,
  naming the decoded hash, index, offset and size; the session is completed and no other session,
  no node and no tenant row changes.\<close>

theorem CommitFile_writes_request:
  assumes "Pg_CommitFile U E t sid sha blocks d = (Inr (vid, n), d')" and "versions_ok d"
  shows "\<exists>row node hashes v. find_session sid d = Some row \<and> us_status row \<noteq> ''COMPLETED'' \<and>
    pe_now E \<le> us_expires row \<and> u_str U (us_tenant row) = u_str U t \<and>
    int (length blocks) = us_expected row \<and>
    vid = u_str U v \<and> n = int (length (node_versions d node)) + 1 \<and>
    version_rows d' = version_rows d @ [\<lparr>fv_id = v, fv_node = node, fv_number = n, fv_size = us_total row,
      fv_sha = sha, fv_created_by = t\<rparr>] \<and>
    map (\<lambda>b. MustDecodeHash (bm_BlockHash b)) blocks = map Some hashes \<and>
    manifest_rows d' = manifest_rows d @ manifest_of v (zip hashes blocks) \<and>
    find_session sid d' = Some (row\<lparr>us_status := ''COMPLETED'', us_received := int (length blocks)\<rparr>) \<and>
    (\<forall>i. i \<noteq> sid \<longrightarrow> find_session i d' = find_session i d) \<and>
    node_rows d' = node_rows d \<and> tenant_rows d' = tenant_rows d"
  using CommitFile_effect [OF assms(1)] unfolding next_version_dense [OF assms(2)] .

section \<open>The contract of Store\<close>

text \<open>What the handlers rely on, for every environment of a call: a failed commit changes nothing, a
  commit succeeds only on a live session with the expected number of blocks and completes it, a
  completed session is never committed again, and the two post-commit operations leave sessions
  alone.\<close>

locale ingest_store =
  fixes S :: "pg_env \<Rightarrow> 'st Store"
  assumes commit_error: "s_CommitFile (S E) t sid sha bs st = (Inl e, st') \<Longrightarrow> st' = st"
    and commit_live: "\<lbrakk>s_CommitFile (S E) t sid sha bs st = (Inr r, st'); s_GetSession (S E') sid st = Inr rec\<rbrakk> \<Longrightarrow>
      sr_Status rec \<noteq> ''COMPLETED'' \<and> pe_now E \<le> sr_ExpiresAt rec \<and> int (length bs) = sr_ExpectedChunks rec"
    and commit_completes: "\<lbrakk>s_CommitFile (S E) t sid sha bs st = (Inr r, st'); s_GetSession (S E') sid st' = Inr rec\<rbrakk> \<Longrightarrow>
      sr_Status rec = ''COMPLETED''"
    and bump_sessions: "s_GetSession (S E') sid (snd (s_BumpCacheGeneration (S E) t st)) = s_GetSession (S E') sid st"
    and mark_sessions: "s_GetSession (S E') sid (snd (s_MarkBlockVerified (S E) h st)) = s_GetSession (S E') sid st"

interpretation pg_store: ingest_store "PgStore U"
proof unfold_locales
  fix E E' :: pg_env and t sid sha bs d e d'
  assume "s_CommitFile (PgStore U E) t sid sha bs d = (Inl e, d')"
  then show "d' = d"
    using in_tx_Inl by (simp add: PgStore_def Pg_CommitFile_def)
next
  fix E E' :: pg_env and t sid sha bs d and r :: "string \<times> int" and d' rec
  obtain vid n where r: "r = (vid, n)" by (cases r)
  assume "s_CommitFile (PgStore U E) t sid sha bs d = (Inr r, d')"
  then have body: "commit_body U E t sid sha bs d = Inr ((vid, n), d')"
    by (simp add: PgStore_def Pg_CommitFile_def in_tx_Inr r)
  obtain rec0 node d1 d2 row where
    pre: "commit_preconditions U E t sid bs d = Inr (rec0, node)"
    and d1: "insert_version \<lparr>fv_id = pe_id E StInsertVersion, fv_node = node, fv_number = n,
           fv_size = sr_TotalSize rec0, fv_sha = sha, fv_created_by = t\<rparr> d = Inr d1"
    and d2: "write_blocks E t (pe_id E StInsertVersion) bs d1 = Inr d2"
    and d': "d' = complete_session sid (int (length bs)) d2"
    and row: "find_session sid d = Some row" "rec0 = session_record U row"
    using commit_body_Inr [OF body] commit_preconditions_Inr by metis
  show "sr_Status rec \<noteq> ''COMPLETED'' \<and> pe_now E \<le> sr_ExpiresAt rec \<and> int (length bs) = sr_ExpectedChunks rec"
    if "s_GetSession (PgStore U E') sid d = Inr rec"
    using that pre row by (auto simp: PgStore_def Pg_GetSession_def commit_preconditions_Inr split: option.splits)
  show "sr_Status rec = ''COMPLETED''" if "s_GetSession (PgStore U E') sid d' = Inr rec"
    using that by (auto simp: PgStore_def Pg_GetSession_def d' find_complete_session session_record_def
        split: option.splits)
qed (simp_all add: PgStore_def Pg_GetSession_def Pg_MarkBlockVerified_def find_session_def split: option.splits)

interpretation fake_store: ingest_store "Fake U"
  by unfold_locales
    (auto simp: Fake_def Fk_CommitFile_def Fk_GetSession_def Let_def split: option.splits if_splits)

section \<open>A worked commit\<close>

definition demo_U :: uuid_pkg where
  "demo_U = \<lparr>u_str = EncodeToString, u_parse = DecodeString\<rparr>"

definition demo_env :: pg_env where
  "demo_env = \<lparr>pe_now = 0, pe_id = (\<lambda>_. [77]), pe_fault = (\<lambda>_. None), pe_status = ''INITIATED'',
     pe_expires = 100, pe_inet = (\<lambda>_. True)\<rparr>"

definition demo_session :: session_row where
  "demo_session = \<lparr>us_id = [3], us_tenant = [1], us_node = Some [8], us_status = ''INITIATED'', us_total = 10,
     us_expected = 1, us_received = 0, us_expires = 100, us_completed = False\<rparr>"

definition demo_tables :: db where
  "demo_tables = \<lparr>tenant_rows = [\<lparr>tn_id = [1], tn_quota = 0, tn_used = 0\<rparr>],
     node_rows = [\<lparr>nn_id = [8], nn_tenant = [1], nn_parent = Some [7], nn_name = ''f'', nn_type = ''FILE'', nn_deleted = False\<rparr>],
     version_rows = [], cas_rows = [], manifest_rows = [], session_rows = [demo_session]\<rparr>"

definition demo_block :: BlockMeta where
  "demo_block = \<lparr>bm_BlockHash = EncodeToString (replicate 32 5), bm_ChunkIndex = 0, bm_Offset = 0,
     bm_SizeBytes = 10, bm_ETag = ''''\<rparr>"

definition demo_after :: db where
  "demo_after = demo_tables\<lparr>
     version_rows := [\<lparr>fv_id = [77], fv_node = [8], fv_number = 1, fv_size = 10, fv_sha = replicate 32 6, fv_created_by = [1]\<rparr>],
     cas_rows := [\<lparr>cb_hash = replicate 32 5, cb_tenant = [1], cb_size = 10, cb_tier = ''HOT'', cb_refs = 1,
       cb_verified = False, cb_created = 0, cb_updated = 0\<rparr>],
     manifest_rows := [\<lparr>mf_version = [77], mf_index = 0, mf_hash = replicate 32 5, mf_offset = 0, mf_size = 10\<rparr>],
     session_rows := [demo_session\<lparr>us_status := ''COMPLETED'', us_received := 1\<rparr>]\<rparr>"

lemma demo_commit_result:
  "Pg_CommitFile demo_U demo_env [1] [3] (replicate 32 6) [demo_block] demo_tables =
     (Inr (EncodeToString [77], 1), demo_after)"
proof -
  have pre: "commit_preconditions demo_U demo_env [1] [3] [demo_block] demo_tables = Inr (session_record demo_U demo_session, [8])"
    unfolding commit_preconditions_Inr
    by (simp add: demo_env_def demo_tables_def find_session_def demo_session_def session_record_def demo_U_def
        del: EncodeToString.simps) (simp)
  show ?thesis
    unfolding Pg_CommitFile_def in_tx_Inr commit_body_def pre bindE_simps prod.case
    by (simp add: exec_def demo_env_def
        next_version_number_def node_versions_def insert_version_def write_blocks_def insert_each.simps
        insert_block_on_conflict_nothing_def insert_manifest_block_def manifest_block_added_def
        complete_session_def update_where_def MustDecodeHash_def demo_block_def demo_tables_def demo_after_def
        is_int32_def Let_def demo_U_def session_record_def demo_session_def del: EncodeToString.simps)
qed

lemma demo_tables_ok: "refs_ok demo_tables" "versions_ok demo_tables"
  by (simp_all add: refs_ok_def versions_ok_def node_versions_def demo_tables_def)

theorem CommitFile_atomic_witness: "refs_ok demo_after \<and> versions_ok demo_after"
  using CommitFile_atomic [OF demo_commit_result] demo_tables_ok by simp

theorem CommitFile_writes_request_witness:
  "find_session [3] demo_after = Some (demo_session\<lparr>us_status := ''COMPLETED'', us_received := 1\<rparr>)"
  using CommitFile_writes_request [OF demo_commit_result demo_tables_ok(2)]
  by (auto simp: demo_tables_def find_session_def demo_session_def)

section \<open>A well-formed commit succeeds\<close>

definition commit_ready :: "uuid_pkg \<Rightarrow> pg_env \<Rightarrow> uuid \<Rightarrow> uuid \<Rightarrow> BlockMeta list \<Rightarrow> db \<Rightarrow> bool" where
  "commit_ready U E t sid blocks d \<longleftrightarrow>
     (\<forall>st. pe_fault E st = None) \<and> (\<forall>u. u_parse U (u_str U u) = Some u \<and> u_str U u \<noteq> '''') \<and>
     t \<in> set (map tn_id (tenant_rows d)) \<and>
     pe_id E StInsertVersion \<notin> set (map fv_id (version_rows d)) \<and>
     pe_id E StInsertVersion \<notin> set (map mf_version (manifest_rows d)) \<and>
     (\<exists>row node. find_session sid d = Some row \<and> us_status row \<noteq> ''COMPLETED'' \<and> pe_now E \<le> us_expires row \<and>
        us_tenant row = t \<and> int (length blocks) = us_expected row \<and> 0 \<le> us_total row \<and>
        us_node row = Some node \<and> node \<in> set (map nn_id (node_rows d))) \<and>
     distinct (map bm_ChunkIndex blocks) \<and>
     (\<forall>b \<in> set blocks. hex64 (bm_BlockHash b) \<and> 0 < bm_SizeBytes b \<and> is_int32 (bm_SizeBytes b) \<and>
        0 \<le> bm_ChunkIndex b \<and> is_int32 (bm_ChunkIndex b) \<and> 0 \<le> bm_Offset b)"

lemma insert_blocks_succeed:
  assumes "t \<in> set (map tn_id (tenant_rows d))"
    and "\<And>h s. (h, s) \<in> set hs \<Longrightarrow> length h = 32 \<and> 0 < s \<and> is_int32 s"
  shows "\<exists>d'. insert_each (insert_block_on_conflict_nothing now t r) hs d = Inr d' \<and>
    set (map cb_hash (cas_rows d)) \<union> fst ` set hs \<subseteq> set (map cb_hash (cas_rows d'))"
  using assms
proof (induction hs arbitrary: d)
  case (Cons x hs)
  obtain h s where x: "x = (h, s)" by (cases x)
  have ok: "length h = 32" "0 < s" "is_int32 s"
    using Cons.prems(2) [of h s] by (auto simp: x)
  then obtain d1 where d1: "insert_block_on_conflict_nothing now t r x d = Inr d1"
    and cas: "set (map cb_hash (cas_rows d1)) = set (map cb_hash (cas_rows d)) \<union> {h}"
    using Cons.prems(1) by (cases "h \<in> set (map cb_hash (cas_rows d))")
      (auto simp: insert_block_on_conflict_nothing_def Let_def x)
  have "t \<in> set (map tn_id (tenant_rows d1))"
    using Cons.prems(1) insert_block_frame(5) [OF d1] by simp
  moreover have "length h = 32 \<and> 0 < s \<and> is_int32 s" if "(h, s) \<in> set hs" for h s
    using Cons.prems(2) [of h s] that by simp
  ultimately have "\<exists>d'. insert_each (insert_block_on_conflict_nothing now t r) hs d1 = Inr d' \<and>
      set (map cb_hash (cas_rows d1)) \<union> fst ` set hs \<subseteq> set (map cb_hash (cas_rows d'))"
    by (rule Cons.IH)
  with d1 cas show ?case
    by (auto simp: x)
qed simp

lemma insert_manifest_succeed:
  assumes "v \<in> set (map fv_id (version_rows d))"
    and "mf_hash ` set ms \<subseteq> set (map cb_hash (cas_rows d))"
    and "distinct (map mf_index ms)"
    and "\<And>m. m \<in> set ms \<Longrightarrow> mf_version m = v \<and> is_int32 (mf_index m) \<and> is_int32 (mf_size m) \<and>
           0 \<le> mf_index m \<and> 0 \<le> mf_offset m \<and> 0 < mf_size m"
    and "\<And>m r. m \<in> set ms \<Longrightarrow> r \<in> set (manifest_rows d) \<Longrightarrow> mf_version r = v \<Longrightarrow> mf_index r \<noteq> mf_index m"
  shows "\<exists>d'. insert_each (insert_manifest_block now) ms d = Inr d'"
  using assms
proof (induction ms arbitrary: d)
  case (Cons m ms)
  have m: "mf_version m = v" "is_int32 (mf_index m)" "is_int32 (mf_size m)" "0 \<le> mf_index m"
    "0 \<le> mf_offset m" "0 < mf_size m"
    using Cons.prems(4) [of m] by simp_all
  have new: "(mf_version m, mf_index m) \<notin> set (map (\<lambda>r. (mf_version r, mf_index r)) (manifest_rows d))"
  proof
    assume "(mf_version m, mf_index m) \<in> set (map (\<lambda>r. (mf_version r, mf_index r)) (manifest_rows d))"
    then obtain r where "r \<in> set (manifest_rows d)" "mf_version r = v" "mf_index r = mf_index m"
      using m(1) by auto
    then show False
      using Cons.prems(5) [of m r] by simp
  qed
  obtain d1 where d1: "insert_manifest_block now m d = Inr d1"
    using m new Cons.prems(1,2) by (auto simp: insert_manifest_block_def manifest_block_added_def)
  note frame = insert_manifest_frame [OF d1]
  have "\<exists>d'. insert_each (insert_manifest_block now) ms d1 = Inr d'"
  proof (rule Cons.IH)
    show "mf_index r \<noteq> mf_index x" if "x \<in> set ms" "r \<in> set (manifest_rows d1)" "mf_version r = v" for x r
      using that Cons.prems(3) Cons.prems(5) [of x r] by (auto simp: frame)
  qed (use Cons.prems in \<open>auto simp: frame simp flip: set_map\<close>)
  with d1 show ?case by auto
qed simp

lemma those_map_total:
  assumes "\<And>x. x \<in> set xs \<Longrightarrow> \<exists>y. f x = Some y"
  obtains ys where "those (map f xs) = Some ys"
  using assms
proof (induction xs arbitrary: thesis)
  case (Cons x xs)
  then obtain y ys where "f x = Some y" "those (map f xs) = Some ys"
    by (metis list.set_intros)
  with Cons.prems(1) [of "y # ys"] show ?case by simp
qed simp

lemma write_blocks_succeed:
  assumes "\<forall>st. pe_fault E st = None" and "t \<in> set (map tn_id (tenant_rows d))"
    and "v \<in> set (map fv_id (version_rows d))" and "v \<notin> set (map mf_version (manifest_rows d))"
    and "distinct (map bm_ChunkIndex blocks)"
    and blocks: "\<forall>b \<in> set blocks. hex64 (bm_BlockHash b) \<and> 0 < bm_SizeBytes b \<and> is_int32 (bm_SizeBytes b) \<and>
        0 \<le> bm_ChunkIndex b \<and> is_int32 (bm_ChunkIndex b) \<and> 0 \<le> bm_Offset b"
  shows "\<exists>d'. write_blocks E t v blocks d = Inr d'"
proof -
  have "\<exists>h. MustDecodeHash (bm_BlockHash b) = Some h" if "b \<in> set blocks" for b
    using blocks that by (auto simp: hex64_def MustDecodeHash_def)
  then obtain hashes where hashes: "those (map (\<lambda>b. MustDecodeHash (bm_BlockHash b)) blocks) = Some hashes"
    by (rule those_map_total)
  then have decoded: "map (\<lambda>b. MustDecodeHash (bm_BlockHash b)) blocks = map Some hashes"
    by (rule those_map_Some)
  then have len: "length hashes = length blocks"
    by (metis length_map)
  have pair: "MustDecodeHash (bm_BlockHash b) = Some h \<and> b \<in> set blocks \<and> length h = 32" if "(h, b) \<in> set (zip hashes blocks)" for h b
  proof -
    from that obtain i where i: "i < length blocks" "h = hashes ! i" "b = blocks ! i"
      using len by (auto simp: set_zip)
    then have dec: "MustDecodeHash (bm_BlockHash b) = Some h"
      using decoded len by (metis (no_types, lifting) nth_map)
    have "hex64 (bm_BlockHash b)"
      using blocks i by auto
    with dec DecodeString_length show ?thesis
      using i by (fastforce simp: hex64_def MustDecodeHash_def)
  qed
  have "length h = 32 \<and> 0 < s \<and> is_int32 s" if "(h, s) \<in> set (zip hashes (map bm_SizeBytes blocks))" for h s
    using that pair blocks by (auto simp: zip_map2)
  then obtain d1 where
    d1: "insert_each (insert_block_on_conflict_nothing (pe_now E) t 0) (zip hashes (map bm_SizeBytes blocks)) d = Inr d1"
    and cas: "fst ` set (zip hashes (map bm_SizeBytes blocks)) \<subseteq> set (map cb_hash (cas_rows d1))"
    using insert_blocks_succeed [OF assms(2), of "zip hashes (map bm_SizeBytes blocks)" "pe_now E" 0] by auto
  note frame = insert_each_blocks_frame [OF d1]
  let ?ms = "manifest_of v (zip hashes blocks)"
  have idx: "map mf_index ?ms = map bm_ChunkIndex blocks"
    using len by (simp add: manifest_of_def comp_def split_beta flip: map_map [of bm_ChunkIndex snd, unfolded comp_def])
  have hs: "mf_hash ` set ?ms \<subseteq> set (map cb_hash (cas_rows d1))"
  proof -
    have "map mf_hash ?ms = hashes"
      using len by (induction hashes blocks rule: list_induct2) (simp_all add: manifest_of_def)
    then have "mf_hash ` set ?ms = set hashes"
      by (metis list.set_map)
    also have "\<dots> = fst ` set (zip hashes (map bm_SizeBytes blocks))"
      using len by (simp flip: set_map)
    finally show ?thesis
      using cas by simp
  qed
  obtain d2 where "insert_each (insert_manifest_block (pe_now E)) ?ms d1 = Inr d2"
  proof -
    have "\<exists>d2. insert_each (insert_manifest_block (pe_now E)) ?ms d1 = Inr d2"
    proof (rule insert_manifest_succeed)
      show "v \<in> set (map fv_id (version_rows d1))"
        using frame assms(3) by simp
      show "distinct (map mf_index ?ms)"
        using assms(5) by (simp add: idx)
      show "mf_index r \<noteq> mf_index m" if "r \<in> set (manifest_rows d1)" "mf_version r = v" for m r
        using that frame assms(4) by auto
      show "mf_version m = v \<and> is_int32 (mf_index m) \<and> is_int32 (mf_size m) \<and>
           0 \<le> mf_index m \<and> 0 \<le> mf_offset m \<and> 0 < mf_size m" if "m \<in> set ?ms" for m
        using that pair blocks by (auto simp: manifest_of_def)
    qed (rule hs)
    with that show thesis by blast
  qed
  then show ?thesis
    using assms(1) d1 hashes by (auto simp: write_blocks_def exec_def manifest_of_def)
qed

text \<open>C29. On a live session of the tenant, with working statements, a fresh version identifier and
  well-formed blocks whose indices differ, the commit succeeds and returns the next number of the
  node.\<close>

theorem CommitFile_succeeds:
  assumes "commit_ready U E t sid blocks d" and "length sha = 32" and "versions_ok d"
  shows "\<exists>vid n d'. Pg_CommitFile U E t sid sha blocks d = (Inr (vid, n), d')"
proof -
  from assms(1) obtain row node where
    row: "find_session sid d = Some row" "us_status row \<noteq> ''COMPLETED''" "pe_now E \<le> us_expires row"
      "us_tenant row = t" "int (length blocks) = us_expected row" "0 \<le> us_total row" "us_node row = Some node"
      "node \<in> set (map nn_id (node_rows d))"
    and ok: "\<forall>st. pe_fault E st = None" "\<forall>u. u_parse U (u_str U u) = Some u \<and> u_str U u \<noteq> ''''"
    by (auto simp: commit_ready_def)
  let ?v = "pe_id E StInsertVersion" and ?rec = "session_record U row" and ?n = "next_version_number d node"
  have pre: "commit_preconditions U E t sid blocks d = Inr (?rec, node)"
    using row ok by (simp add: commit_preconditions_Inr session_record_def)
  let ?row = "\<lparr>fv_id = ?v, fv_node = node, fv_number = ?n, fv_size = sr_TotalSize ?rec, fv_sha = sha, fv_created_by = t\<rparr>"
  have n: "?n = int (length (node_versions d node)) + 1"
    using assms(3) by (rule next_version_dense)
  have "node_versions d node = map int [1..<Suc (length (node_versions d node))]"
    using assms(3) by (simp add: versions_ok_def)
  then have "set (node_versions d node) = int ` {1..<Suc (length (node_versions d node))}"
    by (metis list.set_map set_upt)
  then have "?n \<notin> set (node_versions d node)"
    using n by auto
  then have d1: "insert_version ?row d = Inr (d\<lparr>version_rows := version_rows d @ [?row]\<rparr>)"
    using n row assms(1,2) by (simp add: insert_version_def session_record_def commit_ready_def)
  obtain d2 where "write_blocks E t ?v blocks (d\<lparr>version_rows := version_rows d @ [?row]\<rparr>) = Inr d2"
    using write_blocks_succeed [of E t "d\<lparr>version_rows := version_rows d @ [?row]\<rparr>" ?v blocks] assms(1)
    by (auto simp: commit_ready_def)
  then show ?thesis
    using ok pre d1 by (auto simp: Pg_CommitFile_def in_tx_Inr commit_body_def bindE_Inr exec_Inr Let_def)
qed

theorem CommitFile_succeeds_witness:
  "\<exists>vid n d'. Pg_CommitFile \<lparr>u_str = (\<lambda>u. CHR ''u'' # EncodeToString u), u_parse = (\<lambda>s. DecodeString (tl s))\<rparr>
     (demo_env\<lparr>pe_id := \<lambda>_. [42]\<rparr>) [1] [3] (replicate 32 9) [demo_block] demo_tables = (Inr (vid, n), d')"
proof -
  let ?U = "\<lparr>u_str = (\<lambda>u. CHR ''u'' # EncodeToString u), u_parse = (\<lambda>s. DecodeString (tl s))\<rparr>"
  have "hex64 (bm_BlockHash demo_block)"
    by (simp add: hex64_def demo_block_def del: EncodeToString.simps)
  then have "commit_ready ?U (demo_env\<lparr>pe_id := \<lambda>_. [42]\<rparr>) [1] [3] [demo_block] demo_tables"
    by (simp add: commit_ready_def demo_env_def demo_tables_def find_session_def demo_session_def is_int32_def
        demo_block_def del: EncodeToString.simps)
  from CommitFile_succeeds [OF this _ demo_tables_ok(2), of "replicate 32 9"] show ?thesis
    by simp
qed

end
