(* ===== verification/Ingress.thy ===== *)
theory Ingress
  imports Store
begin

text \<open>
  The stateless ingestion engine: \<^verbatim>\<open>handleInitiate\<close> (\<^verbatim>\<open>internal/ingress/initiate.go\<close>),
  \<^verbatim>\<open>handleCommit\<close> (\<^verbatim>\<open>internal/ingress/commit.go\<close>) and the authentication and error mapping of
  \<^verbatim>\<open>internal/ingress/server.go\<close>. A handler is a function of the server's dependencies and the
  decoded request that returns its error or response, the store it leaves behind and, for a
  commit, the events it published. \<^term>\<open>None\<close> as a request is a body that did not decode.
  Metrics and log lines are left out.
\<close>

section \<open>Server configuration\<close>

record Config =
  APIToken :: string
  EndpointID :: string
  MaxBodySize :: int
  GracePeriod :: duration

definition Config_applyDefaults :: "Config \<Rightarrow> Config" where
  "Config_applyDefaults c =
     c\<lparr>MaxBodySize := (if MaxBodySize c \<le> 0 then 100 * 2 ^ 20 else MaxBodySize c),
       GracePeriod := (if GracePeriod c \<le> 0 then 10 * Second else GracePeriod c)\<rparr>"

text \<open>A blob store, when there is one, mints direct upload URLs and verifies blocks; otherwise the
  token signer mints edge URLs. Both may fail.\<close>

record BlobStore =
  GenerateUploadURL :: "string \<Rightarrow> string \<Rightarrow> int \<Rightarrow> string option"
  VerifyBlock :: "string \<Rightarrow> string \<Rightarrow> bool"

record 'st IngressServer =
  srv_store :: "'st Store"
  srv_sign :: "string \<Rightarrow> string \<Rightarrow> string \<Rightarrow> string option"
  srv_blob :: "BlobStore option"
  srv_events :: bool
  srv_cfg :: Config

section \<open>Middleware\<close>

definition bearer :: string where
  "bearer = ''Bearer ''"

definition authenticate :: "Config \<Rightarrow> string \<Rightarrow> ing_error option" where
  "authenticate cfg auth =
     (if APIToken cfg = '''' then None
      else if take (length bearer) auth \<noteq> bearer then Some ErrUnauthorized
      else
        let token = drop (length bearer) auth
        in if token \<noteq> APIToken cfg then Some ErrUnauthorized else None)"

text \<open>The response is a status and the value a successful handler wrote; \<open>ok\<close> is the status of its
  success.\<close>

definition wrap ::
  "Config \<Rightarrow> string \<Rightarrow> nat \<Rightarrow> ('st \<Rightarrow> (ing_error + 'resp) \<times> 'st) \<Rightarrow> 'st \<Rightarrow> (nat \<times> 'resp option) \<times> 'st" where
  "wrap cfg auth ok fn st =
     (case authenticate cfg auth of
        Some e \<Rightarrow> ((401, None), st)
      | None \<Rightarrow>
          (case fn st of
             (Inl e, st') \<Rightarrow> ((HTTPStatus (Some e), None), st')
           | (Inr resp, st') \<Rightarrow> ((ok, Some resp), st')))"

definition handleReadyz :: "'st IngressServer \<Rightarrow> 'st \<Rightarrow> nat" where
  "handleReadyz s st = (case s_Ping (srv_store s) st of Some e \<Rightarrow> 503 | None \<Rightarrow> 200)"

section \<open>Initiate\<close>

definition quota_exceeded :: "TenantQuota \<Rightarrow> int \<Rightarrow> bool" where
  "quota_exceeded q totalSize \<longleftrightarrow> StorageQuotaBytes q > 0 \<and> wrap64 (UsedBytes q + totalSize) > StorageQuotaBytes q"

definition resolve_node ::
  "uuid_pkg \<Rightarrow> 'st Store \<Rightarrow> uuid \<Rightarrow> InitiateRequest \<Rightarrow> 'st \<Rightarrow> (ing_error + uuid) \<times> 'st" where
  "resolve_node U S tenantID req st =
     (case ir_NodeID req of
        Some n \<Rightarrow>
          (case u_parse U n of
             None \<Rightarrow> (Inl ErrBadRequest, st)
           | Some nodeID \<Rightarrow>
               (case s_ValidateFileNode S tenantID nodeID st of
                  Some e \<Rightarrow> (Inl e, st)
                | None \<Rightarrow> (Inr nodeID, st)))
      | None \<Rightarrow>
          (case ir_ParentID req of
             None \<Rightarrow> s_CreateFileNode S tenantID None (ir_FileName req) st
           | Some p \<Rightarrow>
               (case u_parse U p of
                  None \<Rightarrow> (Inl ErrBadRequest, st)
                | Some pid \<Rightarrow> s_CreateFileNode S tenantID (Some pid) (ir_FileName req) st)))"

fun mint_urls ::
  "(string \<Rightarrow> int \<Rightarrow> string option) \<Rightarrow> (string \<Rightarrow> bool) \<Rightarrow> ChunkInfo list \<Rightarrow> ing_error + UploadURL list" where
  "mint_urls mint existing [] = Inr []"
| "mint_urls mint existing (c # cs) =
     (if existing (ci_BlockHash c) then mint_urls mint existing cs
      else
        (case mint (ci_BlockHash c) (ci_SizeBytes c) of
           None \<Rightarrow> Inl ErrOther
         | Some url \<Rightarrow>
             bindE (mint_urls mint existing cs)
               (\<lambda>us. Inr (\<lparr>uu_BlockHash = ci_BlockHash c, uu_URL = url, uu_SizeBytes = ci_SizeBytes c\<rparr> # us))))"

definition minter :: "'st IngressServer \<Rightarrow> string \<Rightarrow> string \<Rightarrow> int \<Rightarrow> string option" where
  "minter s tenant blockHash sizeBytes =
     (case srv_blob s of
        Some b \<Rightarrow> GenerateUploadURL b tenant blockHash sizeBytes
      | None \<Rightarrow> srv_sign s tenant blockHash (EndpointID (srv_cfg s)))"

definition handleInitiate ::
  "uuid_pkg \<Rightarrow> 'st IngressServer \<Rightarrow> InitiateRequest option \<Rightarrow> string \<Rightarrow> string \<Rightarrow> string \<Rightarrow> 'st \<Rightarrow>
   (ing_error + InitiateResponse) \<times> 'st" where
  "handleInitiate U s body forwardedFor remoteAddr ua st =
     (case body of
        None \<Rightarrow> (Inl ErrBadRequest, st)
      | Some req \<Rightarrow>
      case InitiateRequest_Validate req of
        Some e \<Rightarrow> (Inl e, st)
      | None \<Rightarrow>
      case u_parse U (ir_TenantID req) of
        None \<Rightarrow> (Inl ErrBadRequest, st)
      | Some tenantID \<Rightarrow>
      case s_GetTenantQuota (srv_store s) tenantID st of
        Inl e \<Rightarrow> (Inl e, st)
      | Inr quota \<Rightarrow>
      if quota_exceeded quota (ir_TotalSize req) then (Inl ErrQuotaExceeded, st)
      else
      case resolve_node U (srv_store s) tenantID req st of
        (Inl e, st1) \<Rightarrow> (Inl e, st1)
      | (Inr nodeID, st1) \<Rightarrow>
      case those (map (\<lambda>c. MustDecodeHash (ci_BlockHash c)) (ir_Chunks req)) of
        None \<Rightarrow> (Inl Panicked, st1)
      | Some hashes \<Rightarrow>
      case s_BatchQueryExistingCAS (srv_store s) hashes st1 of
        Inl e \<Rightarrow> (Inl e, st1)
      | Inr existing \<Rightarrow>
      case mint_urls (minter s (u_str U tenantID)) existing (ir_Chunks req) of
        Inl e \<Rightarrow> (Inl e, st1)
      | Inr uploadURLs \<Rightarrow>
      let clientIP = (if forwardedFor = '''' then remoteAddr else forwardedFor) in
      case s_CreateUploadSession (srv_store s) tenantID nodeID (ir_TotalSize req)
             (int (length (ir_Chunks req))) clientIP ua st1 of
        (Inl e, st2) \<Rightarrow> (Inl e, st2)
      | (Inr (sessionID, expiresAt), st2) \<Rightarrow>
          (Inr \<lparr>ip_SessionID = u_str U sessionID, ip_NodeID = u_str U nodeID, ip_ExpiresAt = expiresAt,
                ip_UploadURLs = uploadURLs\<rparr>, st2))"

section \<open>Commit\<close>

fun verify_loop :: "BlobStore \<Rightarrow> 'st Store \<Rightarrow> BlockMeta list \<Rightarrow> 'st \<Rightarrow> 'st" where
  "verify_loop blob S [] st = st"
| "verify_loop blob S (b # bs) st =
     (if \<not> VerifyBlock blob (bm_BlockHash b) (bm_ETag b) then verify_loop blob S bs st
      else
        (case MustDecodeHash (bm_BlockHash b) of
           None \<Rightarrow> verify_loop blob S bs st
         | Some h \<Rightarrow> verify_loop blob S bs (snd (s_MarkBlockVerified S h st))))"

definition committed_event ::
  "string \<Rightarrow> instant \<Rightarrow> string \<Rightarrow> SessionRecord \<Rightarrow> CommitRequest \<Rightarrow> string \<Rightarrow> int \<Rightarrow> FileCommittedEvent" where
  "committed_event eventID now tenant session req versionID versionNumber =
     \<lparr>fe_EventID = eventID, fe_EventType = ''VERSION_COMMITTED'', fe_TenantID = tenant,
      fe_NodeID = sr_NodeID session, fe_VersionID = versionID, fe_VersionNumber = versionNumber,
      fe_TotalSize = sr_TotalSize session,
      fe_MimeType = (if cr_MimeType req = '''' then ''application/octet-stream'' else cr_MimeType req),
      fe_ContentSHA256 = cr_ContentSHA256 req, fe_CreatedAt = now,
      fe_Chunks = map (\<lambda>b. \<lparr>cd_Index = bm_ChunkIndex b, cd_BlockHash = bm_BlockHash b,
                            cd_SizeBytes = bm_SizeBytes b, cd_OffsetBytes = bm_Offset b\<rparr>) (cr_Blocks req),
      fe_BlockHashes = map bm_BlockHash (cr_Blocks req)\<rparr>"

text \<open>The request was validated, so the decoding in \<^verbatim>\<open>verify_loop\<close> does not fail; \<open>eventID\<close> is the
  fresh identifier of the event.\<close>

definition handleCommit ::
  "uuid_pkg \<Rightarrow> 'st IngressServer \<Rightarrow> instant \<Rightarrow> string \<Rightarrow> CommitRequest option \<Rightarrow> 'st \<Rightarrow>
   ((ing_error + CommitResponse) \<times> FileCommittedEvent list) \<times> 'st" where
  "handleCommit U s now eventID body st =
     (case body of
        None \<Rightarrow> ((Inl ErrBadRequest, []), st)
      | Some req \<Rightarrow>
      case CommitRequest_Validate req of
        Some e \<Rightarrow> ((Inl e, []), st)
      | None \<Rightarrow>
      case u_parse U (cr_SessionID req) of
        None \<Rightarrow> ((Inl ErrBadRequest, []), st)
      | Some sessionID \<Rightarrow>
      case DecodeString (cr_ContentSHA256 req) of
        None \<Rightarrow> ((Inl ErrBadRequest, []), st)
      | Some contentSHA256 \<Rightarrow>
      case s_GetSession (srv_store s) sessionID st of
        Inl e \<Rightarrow> ((Inl e, []), st)
      | Inr session \<Rightarrow>
      if sr_Status session = ''COMPLETED'' then ((Inl ErrSessionCompleted, []), st)
      else if now > sr_ExpiresAt session then ((Inl ErrSessionExpired, []), st)
      else
      case u_parse U (sr_TenantID session) of
        None \<Rightarrow> ((Inl ErrOther, []), st)
      | Some tenantID \<Rightarrow>
      case s_CommitFile (srv_store s) tenantID sessionID contentSHA256 (cr_Blocks req) st of
        (Inl e, st1) \<Rightarrow> ((Inl e, []), st1)
      | (Inr (versionID, versionNumber), st1) \<Rightarrow>
          let st2 = snd (s_BumpCacheGeneration (srv_store s) tenantID st1);
              st3 = (case srv_blob s of None \<Rightarrow> st2 | Some b \<Rightarrow> verify_loop b (srv_store s) (cr_Blocks req) st2);
              events = (if srv_events s
                        then [committed_event eventID now (u_str U tenantID) session req versionID versionNumber]
                        else [])
          in ((Inr \<lparr>cp_VersionID = versionID, cp_VersionNumber = versionNumber\<rparr>, events), st3))"

section \<open>Authentication and quota\<close>

lemma authenticate_None:
  "authenticate cfg auth = None \<longleftrightarrow> APIToken cfg = '''' \<or> auth = bearer @ APIToken cfg"
proof -
  have "auth = bearer @ tok \<longleftrightarrow> take (length bearer) auth = bearer \<and> drop (length bearer) auth = tok" for tok
    by (metis append_eq_conv_conj append_take_drop_id)
  then show ?thesis
    by (auto simp: authenticate_def Let_def)
qed

text \<open>With a token configured, a handler runs only for a request whose header is exactly the
  scheme and that token; every other request is answered 401 and leaves the store alone.\<close>

theorem wrap_requires_token:
  assumes "APIToken cfg \<noteq> ''''" and "auth \<noteq> ''Bearer '' @ APIToken cfg"
  shows "wrap cfg auth ok fn st = ((401, None), st)"
proof -
  have "authenticate cfg auth \<noteq> None"
    using assms by (simp add: authenticate_None bearer_def)
  then show ?thesis
    by (auto simp: wrap_def split: option.splits)
qed

theorem wrap_requires_token_witness:
  "wrap \<lparr>APIToken = ''k'', EndpointID = '''', MaxBodySize = 0, GracePeriod = 0\<rparr> ''Bearer '' 200
     (\<lambda>n. (Inr (), n + (1 :: nat))) 5 = ((401, None), 5)"
  by (rule wrap_requires_token) simp_all

text \<open>The quota check refuses a request that would exceed a positive quota, except where the
  64-bit sum of used and requested bytes wraps round: then the request passes, however large.\<close>

theorem quota_check_exact:
  assumes "0 \<le> UsedBytes q" and "is_int64 (UsedBytes q)" and "0 < n" and "is_int64 n"
    and "is_int64 (StorageQuotaBytes q)"
  shows "quota_exceeded q n \<longleftrightarrow>
    0 < StorageQuotaBytes q \<and> StorageQuotaBytes q < UsedBytes q + n \<and> UsedBytes q + n < 2 ^ 63"
proof (cases "UsedBytes q + n < 2 ^ 63")
  case True
  then have "wrap64 (UsedBytes q + n) = UsedBytes q + n"
    using assms by (intro wrap64_id) (simp add: is_int64_def)
  with True show ?thesis
    by (auto simp: quota_exceeded_def)
next
  case False
  then have "wrap64 (UsedBytes q + n) = UsedBytes q + n - 2 ^ 64"
    using assms by (intro wrap64_overflow) (auto simp: is_int64_def)
  then have "wrap64 (UsedBytes q + n) < 0"
    using assms by (simp add: is_int64_def)
  with False show ?thesis
    by (auto simp: quota_exceeded_def)
qed

theorem quota_check_exact_witness:
  "quota_exceeded \<lparr>StorageQuotaBytes = 100, UsedBytes = 60\<rparr> 41 \<and>
   \<not> quota_exceeded \<lparr>StorageQuotaBytes = 100, UsedBytes = 60\<rparr> 40 \<and>
   \<not> quota_exceeded \<lparr>StorageQuotaBytes = 100, UsedBytes = 60\<rparr> (2 ^ 63 - 1)"
  by (simp add: quota_check_exact is_int64_def)

section \<open>Initiate\<close>

lemma mint_urls_missing:
  "mint_urls mint existing cs = Inr us \<Longrightarrow>
     map (\<lambda>u. (uu_BlockHash u, uu_SizeBytes u)) us =
     map (\<lambda>c. (ci_BlockHash c, ci_SizeBytes c)) (filter (\<lambda>c. \<not> existing (ci_BlockHash c)) cs)"
  by (induction cs arbitrary: us) (auto simp: bindE_Inr split: if_splits option.splits)

text \<open>A block counts as present exactly when the chunk spells its hash in lowercase and the table
  has it: the map of known hashes has lowercase keys.\<close>

definition known_block :: "db \<Rightarrow> ChunkInfo \<Rightarrow> bool" where
  "known_block d c \<longleftrightarrow> isLowerHex (ci_BlockHash c) \<and>
     (\<exists>h \<in> cb_hash ` set (cas_rows d). DecodeString (ci_BlockHash c) = Some h)"

lemma existing_known:
  assumes "Pg_BatchQueryExistingCAS E hashes d = Inr existing"
    and "map (\<lambda>c. MustDecodeHash (ci_BlockHash c)) cs = map Some hashes"
    and "c \<in> set cs"
  shows "existing (ci_BlockHash c) \<longleftrightarrow> known_block d c"
proof -
  have "hashes \<noteq> []"
    using assms(2,3) by auto
  then have ex: "existing k \<longleftrightarrow> (\<exists>b \<in> set (cas_rows d). cb_hash b \<in> set hashes \<and> EncodeToString (cb_hash b) = k)" for k
    using assms(1) by (auto simp: Pg_BatchQueryExistingCAS_def list_ex_iff split: option.splits)
  have "MustDecodeHash (ci_BlockHash c) \<in> set (map Some hashes)"
    using assms(2,3) by (metis image_eqI list.set_map)
  then obtain h where h: "h \<in> set hashes" "DecodeString (ci_BlockHash c) = Some h"
    by (auto simp: MustDecodeHash_def)
  then have "EncodeToString x = ci_BlockHash c \<longleftrightarrow> x = h \<and> isLowerHex (ci_BlockHash c)" for x
    by (metis DecodeString_EncodeToString EncodeToString_DecodeString isLowerHex_EncodeToString option.inject)
  with h show ?thesis
    unfolding ex known_block_def by auto
qed

lemma handleInitiate_Inr:
  assumes "handleInitiate U s body ff ra ua st = (Inr resp, st')"
  obtains req tenant quota node st1 hashes existing sid exp where
    "body = Some req" and "InitiateRequest_Validate req = None" and "u_parse U (ir_TenantID req) = Some tenant"
    and "s_GetTenantQuota (srv_store s) tenant st = Inr quota" and "\<not> quota_exceeded quota (ir_TotalSize req)"
    and "resolve_node U (srv_store s) tenant req st = (Inr node, st1)"
    and "map (\<lambda>c. MustDecodeHash (ci_BlockHash c)) (ir_Chunks req) = map Some hashes"
    and "s_BatchQueryExistingCAS (srv_store s) hashes st1 = Inr existing"
    and "mint_urls (minter s (u_str U tenant)) existing (ir_Chunks req) = Inr (ip_UploadURLs resp)"
    and "s_CreateUploadSession (srv_store s) tenant node (ir_TotalSize req) (int (length (ir_Chunks req)))
           (if ff = '''' then ra else ff) ua st1 = (Inr (sid, exp), st')"
    and "ip_SessionID resp = u_str U sid" and "ip_NodeID resp = u_str U node" and "ip_ExpiresAt resp = exp"
  using assms unfolding handleInitiate_def Let_def
  by (force split: option.splits sum.splits if_splits prod.splits dest!: those_map_Some)

definition same_content :: "db \<Rightarrow> db \<Rightarrow> bool" where
  "same_content d d' \<longleftrightarrow> tenant_rows d' = tenant_rows d \<and> version_rows d' = version_rows d \<and>
     cas_rows d' = cas_rows d \<and> manifest_rows d' = manifest_rows d"

lemma same_content_refl [simp]: "same_content d d"
  by (simp add: same_content_def)

lemma same_content_trans: "same_content d d1 \<Longrightarrow> same_content d1 d2 \<Longrightarrow> same_content d d2"
  by (simp add: same_content_def)

lemma Pg_CreateFileNode_frame:
  assumes "Pg_CreateFileNode E t p name d = (r, d')"
  shows "same_content d d' \<and> session_rows d' = session_rows d"
  using assms
  by (cases r) (auto simp: Pg_CreateFileNode_def in_tx_Inr bindE_Inr exec_Inr insert_node_def Let_def same_content_def
      dest!: in_tx_Inl split: if_splits)

lemma resolve_node_frame:
  assumes "resolve_node U (PgStore U E) t req d = (r, d')"
  shows "same_content d d' \<and> session_rows d' = session_rows d"
  using assms Pg_CreateFileNode_frame
  by (auto simp: resolve_node_def PgStore_def split: option.splits)

lemma Pg_CreateUploadSession_Inr:
  assumes "Pg_CreateUploadSession E t n sz chunks ip ua d = (Inr (sid, exp), d')"
  shows "same_content d d' \<and> node_rows d' = node_rows d \<and>
    session_rows d' = session_rows d @ [\<lparr>us_id = sid, us_tenant = t, us_node = Some n, us_status = pe_status E,
      us_total = sz, us_expected = chunks, us_received = 0, us_expires = exp, us_completed = False\<rparr>] \<and>
    find_session sid d = None"
  using assms
  by (auto simp: Pg_CreateUploadSession_def in_tx_Inr bindE_Inr exec_Inr insert_session_def same_content_def
      find_session_def find_None_iff list_ex_iff split: if_splits option.splits)

lemma handleInitiate_effect:
  assumes "handleInitiate U s body ff ra ua d = (Inr resp, d')" and "srv_store s = PgStore U E"
  shows "\<exists>req tenant node sid. body = Some req \<and> u_parse U (ir_TenantID req) = Some tenant \<and>
    ip_SessionID resp = u_str U sid \<and> ip_NodeID resp = u_str U node \<and>
    map (\<lambda>u. (uu_BlockHash u, uu_SizeBytes u)) (ip_UploadURLs resp) =
      map (\<lambda>c. (ci_BlockHash c, ci_SizeBytes c)) (filter (\<lambda>c. \<not> known_block d c) (ir_Chunks req)) \<and>
    session_rows d' = session_rows d @ [\<lparr>us_id = sid, us_tenant = tenant, us_node = Some node,
      us_status = pe_status E, us_total = ir_TotalSize req, us_expected = int (length (ir_Chunks req)),
      us_received = 0, us_expires = ip_ExpiresAt resp, us_completed = False\<rparr>] \<and>
    same_content d d' \<and>
    (\<exists>t \<in> set (tenant_rows d). tn_id t = tenant \<and>
       \<not> quota_exceeded \<lparr>StorageQuotaBytes = tn_quota t, UsedBytes = tn_used t\<rparr> (ir_TotalSize req))"
proof -
  from assms(1) obtain req tenant quota node d1 hashes existing sid exp where
    body: "body = Some req" and tenant: "u_parse U (ir_TenantID req) = Some tenant"
    and quota: "Pg_GetTenantQuota E tenant d = Inr quota" "\<not> quota_exceeded quota (ir_TotalSize req)"
    and node: "resolve_node U (PgStore U E) tenant req d = (Inr node, d1)"
    and hashes: "map (\<lambda>c. MustDecodeHash (ci_BlockHash c)) (ir_Chunks req) = map Some hashes"
    and existing: "Pg_BatchQueryExistingCAS E hashes d1 = Inr existing"
    and urls: "mint_urls (minter s (u_str U tenant)) existing (ir_Chunks req) = Inr (ip_UploadURLs resp)"
    and session: "Pg_CreateUploadSession E tenant node (ir_TotalSize req) (int (length (ir_Chunks req)))
           (if ff = '''' then ra else ff) ua d1 = (Inr (sid, exp), d')"
    and ids: "ip_SessionID resp = u_str U sid" "ip_NodeID resp = u_str U node" "ip_ExpiresAt resp = exp"
    by (rule handleInitiate_Inr) (simp add: assms(2) PgStore_def)
  note node_frame = resolve_node_frame [OF node]
  have "known_block d1 c = known_block d c" for c
    using node_frame by (simp add: known_block_def same_content_def)
  then have "filter (\<lambda>c. \<not> existing (ci_BlockHash c)) (ir_Chunks req) =
      filter (\<lambda>c. \<not> known_block d c) (ir_Chunks req)"
    using existing_known [OF existing hashes] by (intro filter_cong) simp_all
  with mint_urls_missing [OF urls] have "map (\<lambda>u. (uu_BlockHash u, uu_SizeBytes u)) (ip_UploadURLs resp) =
      map (\<lambda>c. (ci_BlockHash c, ci_SizeBytes c)) (filter (\<lambda>c. \<not> known_block d c) (ir_Chunks req))"
    by simp
  moreover have "\<exists>t \<in> set (tenant_rows d). tn_id t = tenant \<and>
       \<not> quota_exceeded \<lparr>StorageQuotaBytes = tn_quota t, UsedBytes = tn_used t\<rparr> (ir_TotalSize req)"
    using quota by (auto simp: Pg_GetTenantQuota_def filter_eq_Cons_iff split: option.splits list.splits)
  ultimately show ?thesis
    using body tenant ids node_frame Pg_CreateUploadSession_Inr [OF session] same_content_trans by auto
qed

text \<open>C33. A successful initiate hands out an upload URL for exactly those chunks, in order, that the
  registry does not have, and records one session for the whole file: the tenant, the node, the
  declared size and the number of all chunks. Nothing else is written but, possibly, the new node;
  in particular no block, version or manifest row, and the quota did not forbid it.\<close>

theorem initiate_registers_upload:
  assumes "handleInitiate U s body ff ra ua d = (Inr resp, d')" and "srv_store s = PgStore U E"
  shows "\<exists>req tenant node sid. body = Some req \<and> u_parse U (ir_TenantID req) = Some tenant \<and>
    ip_SessionID resp = u_str U sid \<and> ip_NodeID resp = u_str U node \<and>
    map (\<lambda>u. (uu_BlockHash u, uu_SizeBytes u)) (ip_UploadURLs resp) =
      map (\<lambda>c. (ci_BlockHash c, ci_SizeBytes c)) (filter (\<lambda>c. \<not> known_block d c) (ir_Chunks req)) \<and>
    session_rows d' = session_rows d @ [\<lparr>us_id = sid, us_tenant = tenant, us_node = Some node,
      us_status = pe_status E, us_total = ir_TotalSize req, us_expected = int (length (ir_Chunks req)),
      us_received = 0, us_expires = ip_ExpiresAt resp, us_completed = False\<rparr>] \<and>
    same_content d d' \<and>
    (\<exists>t \<in> set (tenant_rows d). tn_id t = tenant \<and>
       \<not> quota_exceeded \<lparr>StorageQuotaBytes = tn_quota t, UsedBytes = tn_used t\<rparr> (ir_TotalSize req))"
  using assms by (rule handleInitiate_effect)

section \<open>Commit\<close>

lemma handleCommit_Inr:
  assumes "handleCommit U s now ev body st = ((Inr resp, events), st')"
  obtains req sid sha session tenant vid n st1 where
    "body = Some req" and "CommitRequest_Validate req = None" and "u_parse U (cr_SessionID req) = Some sid"
    and "DecodeString (cr_ContentSHA256 req) = Some sha"
    and "s_GetSession (srv_store s) sid st = Inr session" and "u_parse U (sr_TenantID session) = Some tenant"
    and "s_CommitFile (srv_store s) tenant sid sha (cr_Blocks req) st = (Inr (vid, n), st1)"
    and "resp = \<lparr>cp_VersionID = vid, cp_VersionNumber = n\<rparr>"
    and "events = (if srv_events s then [committed_event ev now (u_str U tenant) session req vid n] else [])"
    and "st' = (case srv_blob s of None \<Rightarrow> snd (s_BumpCacheGeneration (srv_store s) tenant st1)
               | Some b \<Rightarrow> verify_loop b (srv_store s) (cr_Blocks req) (snd (s_BumpCacheGeneration (srv_store s) tenant st1)))"
  using assms unfolding handleCommit_def Let_def
  by (force split: option.splits sum.splits if_splits prod.splits)

context ingest_store
begin

lemma verify_loop_sessions:
  "s_GetSession (S E') sid (verify_loop b (S E) bs st) = s_GetSession (S E') sid st"
  by (induction bs arbitrary: st) (auto simp: mark_sessions split: option.splits)

lemma handleCommit_error:
  assumes "handleCommit U s now ev body st = ((Inl e, events), st')" and "srv_store s = S E"
  shows "events = [] \<and> st' = st"
  using assms commit_error unfolding handleCommit_def Let_def
  by (auto split: option.splits sum.splits if_splits prod.splits)

text \<open>Once a session is committed, every later commit of it fails, whatever the request, the
  environment of the call and the server: nothing is written and no event is published.\<close>

lemma commit_once:
  assumes first: "handleCommit U s now ev (Some req) st = ((Inr resp, events), st')" and "srv_store s = S E"
    and "srv_store s2 = S E2" and "u_parse U (cr_SessionID req2) = u_parse U (cr_SessionID req)"
  shows "\<exists>e. handleCommit U s2 now2 ev2 (Some req2) st' = ((Inl e, []), st')"
proof -
  obtain sid sha tenant vid n st1 where
    sid: "u_parse U (cr_SessionID req) = Some sid"
    and commit: "s_CommitFile (srv_store s) tenant sid sha (cr_Blocks req) st = (Inr (vid, n), st1)"
    and st': "st' = (case srv_blob s of None \<Rightarrow> snd (s_BumpCacheGeneration (srv_store s) tenant st1)
               | Some b \<Rightarrow> verify_loop b (srv_store s) (cr_Blocks req) (snd (s_BumpCacheGeneration (srv_store s) tenant st1)))"
    using first by (rule handleCommit_Inr) (simp only: option.inject)
  note commit = commit [unfolded assms(2)] and st' = st' [unfolded assms(2)]
  have "s_GetSession (S E2) sid st' = s_GetSession (S E2) sid st1"
    by (auto simp: st' verify_loop_sessions bump_sessions split: option.splits)
  then have completed: "sr_Status session = ''COMPLETED''" if "s_GetSession (S E2) sid st' = Inr session" for session
    using commit_completes [OF commit] that by simp
  show ?thesis
  proof (cases "handleCommit U s2 now2 ev2 (Some req2) st'")
    case (Pair re st2)
    obtain r events2 where re: "re = (r, events2)" by (cases re)
    show ?thesis
    proof (cases r)
      case (Inl e)
      with handleCommit_error [of U s2 now2 ev2 "Some req2" st' e events2 st2] Pair re assms(3) show ?thesis
        by auto
    next
      case (Inr resp2)
      then obtain session2 vid2 n2 st3 tenant2 sha2 where
        "s_GetSession (S E2) sid st' = Inr session2"
        and "s_CommitFile (S E2) tenant2 sid sha2 (cr_Blocks req2) st' = (Inr (vid2, n2), st3)"
        using handleCommit_Inr [of U s2 now2 ev2 "Some req2" st' resp2 events2 st2] Pair re assms(3,4) sid
        by (metis option.inject)
      with commit_live [of E2 tenant2 sid sha2 "cr_Blocks req2" st' "(vid2, n2)" st3 E2 session2] completed [of session2]
      show ?thesis by simp
    qed
  qed
qed

end

text \<open>C31. A session is committed at most once: after a successful commit every further commit of the
  same session, from any server and under any faults, is refused, writes nothing and publishes no
  event. This holds of the production store and of the in-memory store alike.\<close>

theorem commit_at_most_once:
  assumes "handleCommit U s now ev (Some req) d = ((Inr resp, events), d')" and "srv_store s = PgStore U E"
    and "srv_store s2 = PgStore U E2" and "u_parse U (cr_SessionID req2) = u_parse U (cr_SessionID req)"
    and "handleCommit U f now ev (Some req) fk = ((Inr fresp, fevents), fk')" and "srv_store f = Fake U E"
    and "srv_store f2 = Fake U E2"
  shows "(\<exists>e. handleCommit U s2 now2 ev2 (Some req2) d' = ((Inl e, []), d')) \<and>
    (\<exists>e. handleCommit U f2 now2 ev2 (Some req2) fk' = ((Inl e, []), fk'))"
  using pg_store.commit_once [OF assms(1-4)] fake_store.commit_once [OF assms(5-7) assms(4)] by blast

lemma manifest_of_view:
  assumes "length hs = length bs" and "map (\<lambda>b. MustDecodeHash (bm_BlockHash b)) bs = map Some hs"
  shows "map (\<lambda>b. (bm_ChunkIndex b, DecodeString (bm_BlockHash b), bm_Offset b, bm_SizeBytes b)) bs =
      map (\<lambda>m. (mf_index m, Some (mf_hash m), mf_offset m, mf_size m)) (manifest_of v (zip hs bs))"
  using assms by (induction hs bs rule: list_induct2) (auto simp: manifest_of_def MustDecodeHash_def)

text \<open>What a successful commit wrote, seen from the handler: the blocks' verification and the cache bump that follow leave
  versions and manifests alone.\<close>

lemma verify_loop_frame:
  "manifest_rows (verify_loop b (PgStore U E) bs x) = manifest_rows x \<and> version_rows (verify_loop b (PgStore U E) bs x) = version_rows x"
  by (induction bs arbitrary: x) (auto simp: PgStore_def Pg_MarkBlockVerified_def split: option.splits)

lemma handleCommit_effect:
  assumes "handleCommit U s now ev (Some req) d = ((Inr resp, events), d')" and "srv_store s = PgStore U E"
  obtains sha session tenant v hashes row where
    "DecodeString (cr_ContentSHA256 req) = Some sha"
    and "resp = \<lparr>cp_VersionID = u_str U v, cp_VersionNumber = fv_number row\<rparr>"
    and "events = (if srv_events s then [committed_event ev now (u_str U tenant) session req (u_str U v) (fv_number row)] else [])"
    and "map (\<lambda>b. MustDecodeHash (bm_BlockHash b)) (cr_Blocks req) = map Some hashes"
    and "manifest_rows d' = manifest_rows d @ manifest_of v (zip hashes (cr_Blocks req))"
    and "version_rows d' = version_rows d @ [row]" and "fv_id row = v" and "fv_sha row = sha"
proof -
  obtain sid sha session tenant vid n d1 where
    sha: "DecodeString (cr_ContentSHA256 req) = Some sha"
    and commit: "s_CommitFile (srv_store s) tenant sid sha (cr_Blocks req) d = (Inr (vid, n), d1)"
    and resp: "resp = \<lparr>cp_VersionID = vid, cp_VersionNumber = n\<rparr>"
    and events: "events = (if srv_events s then [committed_event ev now (u_str U tenant) session req vid n] else [])"
    and d': "d' = (case srv_blob s of None \<Rightarrow> snd (s_BumpCacheGeneration (srv_store s) tenant d1)
               | Some b \<Rightarrow> verify_loop b (srv_store s) (cr_Blocks req) (snd (s_BumpCacheGeneration (srv_store s) tenant d1)))"
    using assms(1) by (rule handleCommit_Inr) (simp only: option.inject)
  have "Pg_CommitFile U E tenant sid sha (cr_Blocks req) d = (Inr (vid, n), d1)"
    using commit by (simp add: assms(2) PgStore_def)
  from CommitFile_effect [OF this] obtain hashes v row where
    vid: "vid = u_str U v" and hashes: "map (\<lambda>b. MustDecodeHash (bm_BlockHash b)) (cr_Blocks req) = map Some hashes"
    and rows: "manifest_rows d1 = manifest_rows d @ manifest_of v (zip hashes (cr_Blocks req))"
    and row: "version_rows d1 = version_rows d @ [row]" "fv_id row = v" "fv_sha row = sha" "fv_number row = n"
    by force
  have "manifest_rows d' = manifest_rows d1 \<and> version_rows d' = version_rows d1"
    using verify_loop_frame by (auto simp: d' assms(2) split: option.splits) (simp_all add: PgStore_def)
  then show ?thesis
    using sha resp events vid hashes rows row by (intro that [of sha v row tenant session hashes]) simp_all
qed

text \<open>C32. The event published by a successful commit tells downstream consumers exactly what the
  transaction wrote: there is one, it carries the identifier and number of the new version, and its
  chunks are the new manifest rows, in order.\<close>

theorem commit_event_matches_manifest:
  assumes "handleCommit U s now ev (Some req) d = ((Inr resp, events), d')" and "srv_store s = PgStore U E"
    and "srv_events s"
  shows "\<exists>e v rows. events = [e] \<and> fe_VersionID e = cp_VersionID resp \<and> fe_VersionNumber e = cp_VersionNumber resp \<and>
    cp_VersionID resp = u_str U v \<and> manifest_rows d' = manifest_rows d @ rows \<and>
    map (\<lambda>c. (cd_Index c, DecodeString (cd_BlockHash c), cd_OffsetBytes c, cd_SizeBytes c)) (fe_Chunks e) =
    map (\<lambda>m. (mf_index m, Some (mf_hash m), mf_offset m, mf_size m)) rows \<and>
    (\<forall>m \<in> set rows. mf_version m = v)"
proof (rule handleCommit_effect [OF assms(1,2)], goal_cases)
  case (1 sha session tenant v hashes row)
  then have "length hashes = length (cr_Blocks req)"
    by (metis length_map)
  then have "map (\<lambda>b. (bm_ChunkIndex b, DecodeString (bm_BlockHash b), bm_Offset b, bm_SizeBytes b)) (cr_Blocks req) =
      map (\<lambda>m. (mf_index m, Some (mf_hash m), mf_offset m, mf_size m)) (manifest_of v (zip hashes (cr_Blocks req)))"
    using 1(4) by (rule manifest_of_view)
  moreover have "\<forall>m \<in> set (manifest_of v (zip hashes (cr_Blocks req))). mf_version m = v"
    by (auto simp: manifest_of_def)
  ultimately show ?case
    using assms(3) 1(5)
    by (intro exI [of _ "committed_event ev now (u_str U tenant) session req (u_str U v) (fv_number row)"] exI [of _ v]
        exI [of _ "manifest_of v (zip hashes (cr_Blocks req))"])
      (simp add: 1(2,3) committed_event_def comp_def)
qed

section \<open>A worked upload\<close>

definition demo_cfg :: Config where
  "demo_cfg = \<lparr>APIToken = '''', EndpointID = ''pop'', MaxBodySize = 0, GracePeriod = 0\<rparr>"

definition demo_server :: "'st Store \<Rightarrow> 'st IngressServer" where
  "demo_server S = \<lparr>srv_store = S, srv_sign = (\<lambda>_ h _. Some h), srv_blob = None, srv_events = True, srv_cfg = demo_cfg\<rparr>"

lemma demo_server_simps [simp]:
  "srv_store (demo_server S) = S" "srv_blob (demo_server S) = None" "srv_events (demo_server S)"
  by (simp_all add: demo_server_def)

definition demo_request :: CommitRequest where
  "demo_request = \<lparr>cr_SessionID = EncodeToString [3], cr_ContentSHA256 = EncodeToString (replicate 32 6),
     cr_MimeType = '''', cr_Blocks = [demo_block]\<rparr>"

lemma demo_request_valid: "CommitRequest_Validate demo_request = None"
  by (simp add: CommitRequest_Validate_def demo_request_def demo_block_def del: EncodeToString.simps)
    (simp add: hextable_def)

lemma demo_U_simps [simp]:
  "u_parse demo_U (EncodeToString u) = Some u" "u_str demo_U u = EncodeToString u"
  by (simp_all add: demo_U_def)

lemma demo_handleCommit:
  "\<exists>ev. handleCommit demo_U (demo_server (PgStore demo_U demo_env)) 0 ''e'' (Some demo_request) demo_tables =
     ((Inr \<lparr>cp_VersionID = EncodeToString [77], cp_VersionNumber = 1\<rparr>, [ev]), demo_after)"
proof -
  have "Pg_GetSession demo_U demo_env [3] demo_tables = Inr (session_record demo_U demo_session)"
    by (simp add: Pg_GetSession_def demo_env_def demo_tables_def find_session_def demo_session_def)
  moreover have "u_parse demo_U (cr_SessionID demo_request) = Some [3]"
    "DecodeString (cr_ContentSHA256 demo_request) = Some (replicate 32 6)" "cr_Blocks demo_request = [demo_block]"
    by (simp_all add: demo_request_def del: EncodeToString.simps)
  moreover have "sr_Status (session_record demo_U demo_session) = ''INITIATED''"
    "sr_ExpiresAt (session_record demo_U demo_session) = 100"
    "u_parse demo_U (sr_TenantID (session_record demo_U demo_session)) = Some [1]"
    by (simp_all add: session_record_def demo_session_def del: EncodeToString.simps)
  ultimately show ?thesis
    using demo_commit_result
    by (simp add: handleCommit_def demo_request_valid PgStore_def Let_def)
qed

definition demo_fake :: FakeStore where
  "demo_fake = NewFakeStore\<lparr>fk_sessions := [[3] \<mapsto> session_record demo_U demo_session]\<rparr>"

lemma demo_fake_commit:
  "\<exists>ev f. handleCommit demo_U (demo_server (Fake demo_U demo_env)) 0 ''e'' (Some demo_request) demo_fake =
     ((Inr \<lparr>cp_VersionID = EncodeToString [77], cp_VersionNumber = 1\<rparr>, [ev]), f)"
proof -
  have "u_parse demo_U (cr_SessionID demo_request) = Some [3]"
    "DecodeString (cr_ContentSHA256 demo_request) = Some (replicate 32 6)" "cr_Blocks demo_request = [demo_block]"
    by (simp_all add: demo_request_def del: EncodeToString.simps)
  moreover have "sr_Status (session_record demo_U demo_session) = ''INITIATED''"
    "sr_ExpiresAt (session_record demo_U demo_session) = 100" "sr_ExpectedChunks (session_record demo_U demo_session) = 1"
    "sr_TenantID (session_record demo_U demo_session) = EncodeToString [1]"
    by (simp_all add: session_record_def demo_session_def del: EncodeToString.simps)
  ultimately show ?thesis
    by (simp add: handleCommit_def demo_request_valid Fake_def Let_def demo_fake_def Fk_GetSession_def Fk_CommitFile_def
        NewFakeStore_def demo_env_def del: EncodeToString.simps)
qed

theorem commit_at_most_once_witness:
  "\<exists>e. handleCommit demo_U (demo_server (PgStore demo_U demo_env)) 5 ''e2'' (Some demo_request) demo_after =
     ((Inl e, []), demo_after)"
proof -
  obtain ev where pg: "handleCommit demo_U (demo_server (PgStore demo_U demo_env)) 0 ''e'' (Some demo_request) demo_tables =
     ((Inr \<lparr>cp_VersionID = EncodeToString [77], cp_VersionNumber = 1\<rparr>, [ev]), demo_after)"
    using demo_handleCommit by blast
  obtain fev f where fk: "handleCommit demo_U (demo_server (Fake demo_U demo_env)) 0 ''e'' (Some demo_request) demo_fake =
     ((Inr \<lparr>cp_VersionID = EncodeToString [77], cp_VersionNumber = 1\<rparr>, [fev]), f)"
    using demo_fake_commit by blast
  show ?thesis
    using commit_at_most_once [OF pg demo_server_simps(1) demo_server_simps(1) refl fk demo_server_simps(1)
        demo_server_simps(1)] by blast
qed

theorem commit_event_matches_manifest_witness:
  "\<exists>e. snd (fst (handleCommit demo_U (demo_server (PgStore demo_U demo_env)) 0 ''e'' (Some demo_request) demo_tables)) = [e] \<and>
     fe_VersionNumber e = 1"
proof -
  obtain ev where pg: "handleCommit demo_U (demo_server (PgStore demo_U demo_env)) 0 ''e'' (Some demo_request) demo_tables =
     ((Inr \<lparr>cp_VersionID = EncodeToString [77], cp_VersionNumber = 1\<rparr>, [ev]), demo_after)"
    using demo_handleCommit by blast
  from commit_event_matches_manifest [OF pg demo_server_simps(1) demo_server_simps(3)] show ?thesis
    by (auto simp: pg)
qed

definition demo_upload :: InitiateRequest where
  "demo_upload = \<lparr>ir_TenantID = EncodeToString [1], ir_FileName = ''f'', ir_ParentID = None,
     ir_NodeID = Some (EncodeToString [8]), ir_TotalSize = 10,
     ir_Chunks = [\<lparr>ci_BlockHash = EncodeToString (replicate 32 5), ci_SizeBytes = 10\<rparr>]\<rparr>"

lemma demo_handleInitiate:
  "\<exists>resp d'. handleInitiate demo_U (demo_server (PgStore demo_U demo_env)) (Some demo_upload) '''' ''ip'' ''ua'' demo_tables
     = (Inr resp, d')"
proof -
  have valid: "InitiateRequest_Validate demo_upload = None"
    by (simp add: InitiateRequest_Validate_def demo_upload_def del: EncodeToString.simps) (simp add: hextable_def)
  have "u_parse demo_U (ir_TenantID demo_upload) = Some [1]" "ir_NodeID demo_upload = Some (EncodeToString [8])"
    "ir_TotalSize demo_upload = 10"
    "ir_Chunks demo_upload = [\<lparr>ci_BlockHash = EncodeToString (replicate 32 5), ci_SizeBytes = 10\<rparr>]"
    by (simp_all add: demo_upload_def del: EncodeToString.simps)
  moreover have "Pg_GetTenantQuota demo_env [1] demo_tables = Inr \<lparr>StorageQuotaBytes = 0, UsedBytes = 0\<rparr>"
    "Pg_ValidateFileNode demo_env [1] [8] demo_tables = None"
    "Pg_BatchQueryExistingCAS demo_env [replicate 32 5] demo_tables = Inr (\<lambda>k. False)"
    by (simp_all add: Pg_GetTenantQuota_def Pg_ValidateFileNode_def Pg_BatchQueryExistingCAS_def demo_env_def demo_tables_def)
  ultimately show ?thesis
    by (simp add: handleInitiate_def valid PgStore_def quota_exceeded_def resolve_node_def MustDecodeHash_def minter_def
        demo_server_def Let_def Pg_CreateUploadSession_def in_tx_def bindE_def exec_def insert_session_def demo_env_def
        demo_tables_def is_int32_def demo_session_def del: EncodeToString.simps)
qed

theorem initiate_registers_upload_witness:
  "\<exists>resp d'. handleInitiate demo_U (demo_server (PgStore demo_U demo_env)) (Some demo_upload) '''' ''ip'' ''ua'' demo_tables
     = (Inr resp, d') \<and> length (ip_UploadURLs resp) = 1 \<and> length (session_rows d') = 2"
proof -
  obtain resp d' where init:
    "handleInitiate demo_U (demo_server (PgStore demo_U demo_env)) (Some demo_upload) '''' ''ip'' ''ua'' demo_tables = (Inr resp, d')"
    using demo_handleInitiate by blast
  have "length (ip_UploadURLs resp) = 1 \<and> length (session_rows d') = 2"
    using initiate_registers_upload [OF init demo_server_simps(1)]
    by (auto simp: demo_upload_def known_block_def demo_tables_def dest: arg_cong [of _ _ length])
  with init show ?thesis by blast
qed

end
