(* ===== verification/Registry.thy ===== *)
theory Registry
  imports Metadata Complex_Main
begin

text \<open>
  The content-addressable-storage registry (\<^verbatim>\<open>internal/cas/registry.go\<close>), its garbage-collection
  worker (\<^verbatim>\<open>internal/cas/gc.go\<close>) and the Bloom filter in front of it
  (\<^verbatim>\<open>internal/cas/bloom.go\<close>). Every statement may fail in the driver: that outcome is the
  argument \<open>flt\<close>. The worker runs over the interface \<^verbatim>\<open>Registry\<close>; the locale \<open>cas_registry\<close>
  is the part of its contract that the worker relies on, interpreted on \<^verbatim>\<open>PgRegistry\<close>. Between
  the worker's two statements other sessions may commit: they are the argument \<open>mid\<close>.
\<close>

section \<open>Registry operations\<close>

datatype cas_error = ErrBlockNotFound | CasSql sql_error

definition TierThresholdWarm :: int where
  "TierThresholdWarm = 10"

definition TierThresholdHot :: int where
  "TierThresholdHot = 100"

definition GCSafetyWindow :: duration where
  "GCSafetyWindow = 7 * 24 * Hour"

record BlockInfo =
  bi_hash :: string
  bi_tenant :: uuid
  bi_size :: int
  bi_refs :: int
  bi_tier :: string
  bi_verified :: bool
  bi_created :: instant
  bi_updated :: instant

definition block_info :: "cas_row \<Rightarrow> BlockInfo" where
  "block_info b = \<lparr>bi_hash = EncodeToString (cb_hash b), bi_tenant = cb_tenant b, bi_size = cb_size b,
     bi_refs = cb_refs b, bi_tier = cb_tier b, bi_verified = cb_verified b, bi_created = cb_created b,
     bi_updated = cb_updated b\<rparr>"

definition EnsureBlock ::
  "sql_error option \<Rightarrow> instant \<Rightarrow> bytes \<Rightarrow> uuid \<Rightarrow> int \<Rightarrow> db \<Rightarrow> (cas_error + bool) \<times> db" where
  "EnsureBlock flt now blockHash tenantID sizeBytes d =
     (case flt of
        Some e \<Rightarrow> (Inl (CasSql e), d)
      | None \<Rightarrow>
          (case insert_block_on_conflict_nothing now tenantID 1 (blockHash, sizeBytes) d of
             Inl e \<Rightarrow> (Inl (CasSql e), d)
           | Inr d' \<Rightarrow> (Inr (length (cas_rows d') - length (cas_rows d) > 0), d')))"

text \<open>The result is the lookup function of the returned map, false for absent keys.\<close>

definition BatchQueryExisting ::
  "sql_error option \<Rightarrow> bytes list \<Rightarrow> db \<Rightarrow> cas_error + (string \<Rightarrow> bool)" where
  "BatchQueryExisting flt hashes d =
     (if hashes = [] then Inr (\<lambda>_. False)
      else case flt of
             Some e \<Rightarrow> Inl (CasSql e)
           | None \<Rightarrow>
               let found = map cb_hash (filter (\<lambda>b. cb_hash b \<in> set hashes) (cas_rows d))
               in Inr (\<lambda>k. list_ex (\<lambda>h. EncodeToString h = k) found))"

definition GetBlock :: "sql_error option \<Rightarrow> bytes \<Rightarrow> db \<Rightarrow> cas_error + BlockInfo" where
  "GetBlock flt blockHash d =
     (case flt of
        Some e \<Rightarrow> Inl (CasSql e)
      | None \<Rightarrow>
          (case filter (\<lambda>b. cb_hash b = blockHash) (cas_rows d) of
             [] \<Rightarrow> Inl ErrBlockNotFound
           | b # _ \<Rightarrow> Inr (block_info b)))"

definition FindOrphans :: "sql_error option \<Rightarrow> instant \<Rightarrow> int \<Rightarrow> db \<Rightarrow> cas_error + BlockInfo list" where
  "FindOrphans flt now batchSize d =
     (let n = (if batchSize \<le> 0 then 1000 else batchSize);
          n = (if n > 10000 then 10000 else n)
      in case flt of
           Some e \<Rightarrow> Inl (CasSql e)
         | None \<Rightarrow>
             Inr (map block_info (take (nat n) (sort_key cb_created
               (filter (\<lambda>b. cb_refs b = 0 \<and> cb_created b < now - GCSafetyWindow) (cas_rows d))))))"

definition delete_unreferenced :: "bytes list \<Rightarrow> db \<Rightarrow> nat \<times> db" where
  "delete_unreferenced hashes d =
     (let gone = (\<lambda>b. cb_hash b \<in> set hashes \<and> cb_refs b = 0)
      in (length (filter gone (cas_rows d)), d\<lparr>cas_rows := filter (\<lambda>b. \<not> gone b) (cas_rows d)\<rparr>))"

definition DeleteBlocks ::
  "sql_error option \<Rightarrow> bytes list \<Rightarrow> db \<Rightarrow> (cas_error + int) \<times> db" where
  "DeleteBlocks flt hashes d =
     (if hashes = [] then (Inr 0, d)
      else case flt of
             Some e \<Rightarrow> (Inl (CasSql e), d)
           | None \<Rightarrow> (case delete_unreferenced hashes d of (n, d') \<Rightarrow> (Inr (int n), d')))"

record StorageStats =
  TotalBlocks :: int
  TotalBytes :: int
  OrphanBlocks :: int
  OrphanBytes :: int
  HotBlocks :: int
  WarmBlocks :: int
  ColdBlocks :: int
  UnverifiedBlocks :: int
  AvgRefCount :: rat
  MaxRefCount :: int

definition count_where :: "(cas_row \<Rightarrow> bool) \<Rightarrow> db \<Rightarrow> int" where
  "count_where P d = int (length (filter P (cas_rows d)))"

definition bytes_where :: "(cas_row \<Rightarrow> bool) \<Rightarrow> db \<Rightarrow> int" where
  "bytes_where P d = sum_list (map cb_size (filter P (cas_rows d)))"

definition GetStorageStats :: "sql_error option \<Rightarrow> db \<Rightarrow> cas_error + StorageStats" where
  "GetStorageStats flt d =
     (case flt of
        Some e \<Rightarrow> Inl (CasSql e)
      | None \<Rightarrow> Inr
          \<lparr>TotalBlocks = count_where (\<lambda>_. True) d, TotalBytes = bytes_where (\<lambda>_. True) d,
           OrphanBlocks = count_where (\<lambda>b. cb_refs b = 0) d, OrphanBytes = bytes_where (\<lambda>b. cb_refs b = 0) d,
           HotBlocks = count_where (\<lambda>b. cb_tier b = ''HOT'') d,
           WarmBlocks = count_where (\<lambda>b. cb_tier b = ''WARM'') d,
           ColdBlocks = count_where (\<lambda>b. cb_tier b = ''COLD'') d,
           UnverifiedBlocks = count_where (\<lambda>b. \<not> cb_verified b) d,
           AvgRefCount = (if cas_rows d = [] then 0
             else of_int (sum_list (map cb_refs (cas_rows d))) / of_nat (length (cas_rows d))),
           MaxRefCount = (if cas_rows d = [] then 0 else Max (set (map cb_refs (cas_rows d))))\<rparr>)"

definition tier_of :: "int \<Rightarrow> string" where
  "tier_of refs =
     (if refs > TierThresholdHot then ''HOT''
      else if refs \<ge> TierThresholdWarm then ''WARM''
      else ''COLD'')"

definition UpdateTier :: "sql_error option \<Rightarrow> instant \<Rightarrow> bytes \<Rightarrow> db \<Rightarrow> cas_error option \<times> db" where
  "UpdateTier flt now blockHash d =
     (case flt of
        Some e \<Rightarrow> (Some (CasSql e), d)
      | None \<Rightarrow>
          (None, d\<lparr>cas_rows := update_where (\<lambda>b. cb_hash b = blockHash)
             (\<lambda>b. b\<lparr>cb_tier := tier_of (cb_refs b), cb_updated := now\<rparr>) (cas_rows d)\<rparr>))"

section \<open>The sweep of the GC worker\<close>

record GCConfig =
  gcc_interval :: duration
  gcc_batch :: int

definition GCConfig_applyDefaults :: "GCConfig \<Rightarrow> GCConfig" where
  "GCConfig_applyDefaults c =
     c\<lparr>gcc_interval := (if gcc_interval c \<le> 0 then 5 * Minute else gcc_interval c),
       gcc_batch := (if gcc_batch c \<le> 0 then 1000 else gcc_batch c)\<rparr>"

definition decode_orphans :: "BlockInfo list \<Rightarrow> bytes list" where
  "decode_orphans orphans = List.map_filter (\<lambda>o'. decodeHex (bi_hash o')) orphans"

text \<open>\<open>blobDeleter\<close> gives the blob store after the call, whether or not it reported an error.\<close>

fun delete_blobs :: "('b \<Rightarrow> string \<Rightarrow> 'b) option \<Rightarrow> BlockInfo list \<Rightarrow> 'b \<Rightarrow> 'b" where
  "delete_blobs None orphans blobs = blobs"
| "delete_blobs (Some del) orphans blobs = foldl (\<lambda>bs o'. del bs (bi_hash o')) blobs orphans"

definition worker_sweep ::
  "(int \<Rightarrow> 'st \<Rightarrow> cas_error + BlockInfo list) \<Rightarrow> (bytes list \<Rightarrow> 'st \<Rightarrow> (cas_error + int) \<times> 'st) \<Rightarrow>
   ('b \<Rightarrow> string \<Rightarrow> 'b) option \<Rightarrow> int \<Rightarrow> ('st \<Rightarrow> 'st) \<Rightarrow> 'st \<Rightarrow> 'b \<Rightarrow> 'st \<times> 'b" where
  "worker_sweep findO del blobDeleter batchSize mid st blobs =
     (case findO batchSize st of
        Inl e \<Rightarrow> (st, blobs)
      | Inr orphans \<Rightarrow>
          if orphans = [] then (st, blobs)
          else
            let hashes = decode_orphans orphans;
                blobs' = delete_blobs blobDeleter orphans blobs
            in (snd (del hashes (mid st)), blobs'))"

section \<open>The Bloom filter\<close>

text \<open>The Redis commands are the functions of \<^verbatim>\<open>RedisCmdRunner\<close> over a Redis state.\<close>

record 'r RedisCmdRunner =
  BFReserve :: "'r \<Rightarrow> string \<Rightarrow> bool \<times> 'r"
  BFAdd :: "'r \<Rightarrow> string \<Rightarrow> string \<Rightarrow> bool option \<times> 'r"
  BFExists :: "'r \<Rightarrow> string \<Rightarrow> string \<Rightarrow> bool option"
  BFDel :: "'r \<Rightarrow> string \<Rightarrow> bool \<times> 'r"

datatype bloom_error = BloomReserve | BloomAdd | BloomExists | BloomReset

definition bloomKeyPrefix :: string where
  "bloomKeyPrefix = ''aegis:cas:bloom''"

definition bloom_key :: "string \<Rightarrow> string" where
  "bloom_key endpointID = bloomKeyPrefix @ '':'' @ endpointID"

definition Bloom_Add ::
  "'r RedisCmdRunner \<Rightarrow> string \<Rightarrow> string \<Rightarrow> 'r \<Rightarrow> (bloom_error + bool) \<times> 'r" where
  "Bloom_Add cmd key h r =
     (case BFAdd cmd r key h of
        (Some created, r1) \<Rightarrow> (Inr created, r1)
      | (None, r1) \<Rightarrow>
          (case BFReserve cmd r1 key of
             (True, r2) \<Rightarrow>
               (case BFReserve cmd (snd (BFDel cmd r2 key)) key of
                  (False, r3) \<Rightarrow> (Inl BloomReserve, r3)
                | (True, r3) \<Rightarrow>
                    (case BFAdd cmd r3 key h of
                       (None, r4) \<Rightarrow> (Inl BloomAdd, r4)
                     | (Some created, r4) \<Rightarrow> (Inr created, r4)))
           | (False, r2) \<Rightarrow> (Inl BloomAdd, r2)))"

text \<open>\<^verbatim>\<open>(true, err)\<close> on an error: the answer and whether an error came with it.\<close>

definition Bloom_MightContain :: "'r RedisCmdRunner \<Rightarrow> string \<Rightarrow> string \<Rightarrow> 'r \<Rightarrow> bool \<times> bloom_error option" where
  "Bloom_MightContain cmd key h r =
     (case BFExists cmd r key h of
        None \<Rightarrow> (True, Some BloomExists)
      | Some ex \<Rightarrow> (ex, None))"

fun Bloom_AddBatch_loop ::
  "('f \<Rightarrow> string \<Rightarrow> (bloom_error + bool) \<times> 'f) \<Rightarrow> int \<Rightarrow> string list \<Rightarrow> 'f \<Rightarrow> int \<times> bloom_error option \<times> 'f" where
  "Bloom_AddBatch_loop add added [] f = (added, None, f)"
| "Bloom_AddBatch_loop add added (h # hs) f =
     (case add f h of
        (Inl e, f') \<Rightarrow> (added, Some e, f')
      | (Inr isNew, f') \<Rightarrow> Bloom_AddBatch_loop add (if isNew then added + 1 else added) hs f')"

definition Bloom_Reset :: "'r RedisCmdRunner \<Rightarrow> string \<Rightarrow> 'r \<Rightarrow> bloom_error option \<times> 'r" where
  "Bloom_Reset cmd key r =
     (case BFDel cmd r key of
        (False, r1) \<Rightarrow> (Some BloomReset, r1)
      | (True, r1) \<Rightarrow>
          (case BFReserve cmd r1 key of
             (True, r2) \<Rightarrow> (None, r2)
           | (False, r2) \<Rightarrow> (Some BloomReserve, r2)))"

record FakeBloomFilter =
  entries :: "string list"
  addErr :: "bloom_error option"
  existErr :: "bloom_error option"

definition Fake_Add :: "FakeBloomFilter \<Rightarrow> string \<Rightarrow> (bloom_error + bool) \<times> FakeBloomFilter" where
  "Fake_Add f h =
     (case addErr f of
        Some e \<Rightarrow> (Inl e, f)
      | None \<Rightarrow>
          if h \<in> set (entries f) then (Inr False, f)
          else (Inr True, f\<lparr>entries := h # entries f\<rparr>))"

definition Fake_MightContain :: "FakeBloomFilter \<Rightarrow> string \<Rightarrow> bool \<times> bloom_error option" where
  "Fake_MightContain f h =
     (case existErr f of
        Some e \<Rightarrow> (True, Some e)
      | None \<Rightarrow> (h \<in> set (entries f), None))"

definition Fake_AddBatch :: "string list \<Rightarrow> FakeBloomFilter \<Rightarrow> int \<times> bloom_error option \<times> FakeBloomFilter" where
  "Fake_AddBatch hs f = Bloom_AddBatch_loop Fake_Add 0 hs f"

definition Fake_Reset :: "FakeBloomFilter \<Rightarrow> FakeBloomFilter" where
  "Fake_Reset f = f\<lparr>entries := []\<rparr>"

section \<open>What the registry keeps\<close>

lemma delete_unreferenced_cas:
  "set (cas_rows (snd (delete_unreferenced hashes d))) =
     {b \<in> set (cas_rows d). \<not> (cb_hash b \<in> set hashes \<and> cb_refs b = 0)}"
  by (auto simp: delete_unreferenced_def Let_def)

lemma delete_unreferenced_frame:
  "manifest_rows (snd (delete_unreferenced hashes d)) = manifest_rows d"
  "version_rows (snd (delete_unreferenced hashes d)) = version_rows d"
  "session_rows (snd (delete_unreferenced hashes d)) = session_rows d"
  by (simp_all add: delete_unreferenced_def Let_def)

lemma refs_ok_delete:
  assumes "refs_ok d"
  shows "refs_ok (snd (delete_unreferenced hashes d))"
proof -
  let ?d = "snd (delete_unreferenced hashes d)"
  have ref: "ref_of ?d h = ref_of d h" for h
    by (simp add: ref_of_def delete_unreferenced_frame)
  have "distinct (map cb_hash (cas_rows ?d))"
    using refs_okD(1) [OF assms] by (simp add: delete_unreferenced_def Let_def distinct_map_filter)
  moreover have "mf_hash m \<in> cb_hash ` set (cas_rows ?d)" if "m \<in> set (manifest_rows ?d)" for m
  proof -
    have m: "m \<in> set (manifest_rows d)"
      using that by (simp add: delete_unreferenced_frame)
    then obtain b where b: "b \<in> set (cas_rows d)" "cb_hash b = mf_hash m"
      using refs_okD(3) [OF assms m] by auto
    have "filter (\<lambda>r. mf_hash r = mf_hash m) (manifest_rows d) \<noteq> []"
      using m by (auto simp: filter_empty_conv)
    then have "cb_refs b \<noteq> 0"
      using refs_okD(2) [OF assms b(1)] b(2) by (simp add: ref_of_def)
    with b show ?thesis
      by (force simp: delete_unreferenced_cas)
  qed
  ultimately show ?thesis
    using refs_okD(2) [OF assms] by (simp add: refs_ok_def delete_unreferenced_cas ref)
qed

lemma refs_ok_UpdateTier:
  assumes "refs_ok d"
  shows "refs_ok (snd (UpdateTier flt now h d))"
  using assms by (cases flt) (auto simp: UpdateTier_def intro!: refs_ok_update_block)

section \<open>The interface of the worker\<close>

locale cas_registry =
  fixes findO :: "int \<Rightarrow> 'st \<Rightarrow> cas_error + BlockInfo list"
    and del :: "bytes list \<Rightarrow> 'st \<Rightarrow> (cas_error + int) \<times> 'st"
    and refs :: "'st \<Rightarrow> bytes \<Rightarrow> int option"
    and inv :: "'st \<Rightarrow> bool"
  assumes find_orphans: "\<lbrakk>inv s; findO n s = Inr bs; b \<in> set bs\<rbrakk> \<Longrightarrow>
      \<exists>h. bi_hash b = EncodeToString h \<and> refs s h = Some 0"
    and del_guarded: "refs s h = Some r \<Longrightarrow> r \<noteq> 0 \<Longrightarrow> refs (snd (del hs s)) h = Some r"
    and del_listed: "h \<notin> set hs \<Longrightarrow> refs (snd (del hs s)) h = refs s h"
    and del_gone: "inv s \<Longrightarrow> del hs s = (Inr n, s') \<Longrightarrow> h \<in> set hs \<Longrightarrow> refs s h = Some 0 \<Longrightarrow> refs s' h = None"
begin

lemma sweep_keeps_referenced:
  assumes "refs s h = Some r" and "r \<noteq> 0" and "refs (mid s) h = Some r'" and "r' \<noteq> 0"
  shows "\<exists>r''. r'' \<noteq> 0 \<and> refs (fst (worker_sweep findO del bd n mid s blobs)) h = Some r''"
  using assms del_guarded by (auto simp: worker_sweep_def Let_def split: sum.splits)

lemma decode_orphans_found:
  assumes "inv s" and "findO n s = Inr bs"
  shows "set (decode_orphans bs) = {h. EncodeToString h \<in> bi_hash ` set bs}"
proof -
  have eq: "decodeHex (bi_hash b) = Some h \<longleftrightarrow> bi_hash b = EncodeToString h" if "b \<in> set bs" for b h
    using find_orphans [OF assms that] by (auto simp: decodeHex_agrees)
  have "set (decode_orphans bs) = {h. \<exists>b \<in> set bs. decodeHex (bi_hash b) = Some h}"
    by (force simp: decode_orphans_def map_filter_def)
  then show ?thesis
    using eq by (auto simp: image_iff) metis+
qed

text \<open>Without interference and without a driver error, exactly the orphans found are removed.\<close>

lemma sweep_removes_orphans:
  assumes "inv s" and "findO n s = Inr bs" and "del (decode_orphans bs) s = (Inr k, s')" and "bs \<noteq> []"
  shows "refs (fst (worker_sweep findO del bd n id s blobs)) h =
    (if EncodeToString h \<in> bi_hash ` set bs then None else refs s h)"
proof -
  have res: "fst (worker_sweep findO del bd n id s blobs) = s'"
    using assms by (simp add: worker_sweep_def Let_def)
  show ?thesis
  proof (cases "EncodeToString h \<in> bi_hash ` set bs")
    case True
    then have "h \<in> set (decode_orphans bs)"
      using decode_orphans_found [OF assms(1,2)] by simp
    moreover have "refs s h = Some 0"
      using True find_orphans [OF assms(1,2)] by (metis EncodeToString_inject imageE)
    ultimately show ?thesis
      using del_gone [OF assms(1,3)] res True by simp
  next
    case False
    then have "h \<notin> set (decode_orphans bs)"
      using decode_orphans_found [OF assms(1,2)] by simp
    with False show ?thesis
      using del_listed [of h "decode_orphans bs" s] assms(3) res by simp
  qed
qed

end

text \<open>The count of a stored block.\<close>

definition stored_refs :: "db \<Rightarrow> bytes \<Rightarrow> int option" where
  "stored_refs d h = map_of (map (\<lambda>b. (cb_hash b, cb_refs b)) (cas_rows d)) h"

lemma stored_refs_iff:
  assumes "refs_ok d"
  shows "stored_refs d h = Some r \<longleftrightarrow> (\<exists>b \<in> set (cas_rows d). cb_hash b = h \<and> cb_refs b = r)"
proof -
  have "distinct (map fst (map (\<lambda>b. (cb_hash b, cb_refs b)) (cas_rows d)))"
    using refs_okD(1) [OF assms] by (simp add: comp_def)
  then show ?thesis
    unfolding stored_refs_def by (subst map_of_eq_Some_iff) auto
qed

lemma map_of_filter_kept:
  assumes "map_of (map (\<lambda>b. (f b, g b)) xs) k = Some v" and "\<And>b. f b = k \<Longrightarrow> g b = v \<Longrightarrow> P b"
  shows "map_of (map (\<lambda>b. (f b, g b)) (filter P xs)) k = Some v"
  using assms by (induction xs) (auto split: if_splits)

lemma map_of_filter_other:
  assumes "\<And>b. f b = k \<Longrightarrow> P b"
  shows "map_of (map (\<lambda>b. (f b, g b)) (filter P xs)) k = map_of (map (\<lambda>b. (f b, g b)) xs) k"
  using assms by (induction xs) auto

lemma DeleteBlocks_cas:
  "cas_rows (snd (DeleteBlocks flt hs d)) =
     (if flt = None then filter (\<lambda>b. \<not> (cb_hash b \<in> set hs \<and> cb_refs b = 0)) (cas_rows d) else cas_rows d)"
  by (auto simp: DeleteBlocks_def delete_unreferenced_def Let_def split: option.splits)

interpretation pg: cas_registry "\<lambda>n d. FindOrphans flt now n d" "DeleteBlocks flt'" stored_refs refs_ok
proof unfold_locales
  fix n s bs b
  assume ok: "refs_ok s" and find: "FindOrphans flt now n s = Inr bs" and b: "b \<in> set bs"
  from find obtain m where bs: "bs = map block_info (take m (sort_key cb_created
      (filter (\<lambda>b. cb_refs b = 0 \<and> cb_created b < now - GCSafetyWindow) (cas_rows s))))"
    by (auto simp: FindOrphans_def Let_def split: option.splits)
  from b obtain c where c: "b = block_info c" "c \<in> set (cas_rows s)" "cb_refs c = 0"
    unfolding bs by (auto dest!: in_set_takeD)
  then have "bi_hash b = EncodeToString (cb_hash c)" and "stored_refs s (cb_hash c) = Some 0"
    by (auto simp: block_info_def stored_refs_iff [OF ok])
  then show "\<exists>h. bi_hash b = EncodeToString h \<and> stored_refs s h = Some 0"
    by blast
next
  fix s h r hs
  assume "stored_refs s h = Some r" and "r \<noteq> 0"
  then show "stored_refs (snd (DeleteBlocks flt' hs s)) h = Some r"
    unfolding stored_refs_def DeleteBlocks_cas by (auto intro!: map_of_filter_kept)
next
  fix s :: db and h :: bytes and hs
  assume "h \<notin> set hs"
  then show "stored_refs (snd (DeleteBlocks flt' hs s)) h = stored_refs s h"
    unfolding stored_refs_def DeleteBlocks_cas by (auto simp: map_of_filter_other)
next
  fix s :: db and h :: bytes and hs n s'
  assume ok: "refs_ok s" and del: "DeleteBlocks flt' hs s = (Inr n, s')" and h: "h \<in> set hs"
    and zero: "stored_refs s h = Some 0"
  have "flt' = None"
    using del h by (cases flt') (auto simp: DeleteBlocks_def split: if_splits)
  then have rows: "cas_rows s' = filter (\<lambda>b. \<not> (cb_hash b \<in> set hs \<and> cb_refs b = 0)) (cas_rows s)"
    using DeleteBlocks_cas [of flt' hs s] del by simp
  have "cb_refs b = 0" if "b \<in> set (cas_rows s)" "cb_hash b = h" for b
    using stored_refs_iff [OF ok, of h "cb_refs b"] that zero by auto
  then show "stored_refs s' h = None"
    using h by (auto simp: stored_refs_def rows map_of_eq_None_iff)
qed

section \<open>Properties\<close>

text \<open>The guarded delete keeps the reference-count protocol and never removes a block that a
  manifest names, whatever hashes it is asked to remove and whether or not the driver fails; it
  reports exactly the rows it removed.\<close>

theorem DeleteBlocks_keeps_references:
  assumes "refs_ok d" and "DeleteBlocks flt hashes d = (res, d')"
  shows "refs_ok d' \<and> manifest_rows d' = manifest_rows d \<and>
    (\<forall>m \<in> set (manifest_rows d). mf_hash m \<in> cb_hash ` set (cas_rows d')) \<and>
    (\<forall>n. res = Inr n \<longrightarrow> int (length (cas_rows d)) = n + int (length (cas_rows d')))"
proof -
  have ok: "refs_ok d'" and man: "manifest_rows d' = manifest_rows d"
    using assms refs_ok_delete [OF assms(1), of hashes] delete_unreferenced_frame [of hashes d]
    by (auto simp: DeleteBlocks_def split: if_splits option.splits prod.splits)
  have "length (cas_rows d) =
      length (filter (\<lambda>b. cb_hash b \<in> set hashes \<and> cb_refs b = 0) (cas_rows d)) +
      length (filter (\<lambda>b. \<not> (cb_hash b \<in> set hashes \<and> cb_refs b = 0)) (cas_rows d))"
    by (rule sum_length_filter_compl [symmetric])
  then have "int (length (cas_rows d)) = n + int (length (cas_rows d'))" if "res = Inr n" for n
    using assms(2) that
    by (auto simp: DeleteBlocks_def delete_unreferenced_def Let_def split: if_splits option.splits)
  then show ?thesis
    using ok man refs_okD(3) [OF ok] by simp
qed

text \<open>The orphans found are unreferenced, older than the seven-day safety window, oldest first,
  and at most ten thousand, whatever batch size is asked for.\<close>

theorem FindOrphans_sound:
  assumes "FindOrphans flt now batch d = Inr bs"
  shows "length bs \<le> 10000 \<and> sorted (map bi_created bs) \<and>
    (\<forall>b \<in> set bs. bi_refs b = 0 \<and> bi_created b + GCSafetyWindow < now \<and> (\<exists>r \<in> set (cas_rows d). b = block_info r))"
proof -
  let ?rows = "sort_key cb_created (filter (\<lambda>b. cb_refs b = 0 \<and> cb_created b < now - GCSafetyWindow) (cas_rows d))"
  define n where "n = (let n = (if batch \<le> 0 then 1000 else batch) in if n > 10000 then 10000 else n)"
  have n: "n \<le> 10000" and bs: "bs = map block_info (take (nat n) ?rows)"
    using assms by (auto simp: n_def FindOrphans_def Let_def split: option.splits)
  have "map bi_created bs = take (nat n) (map cb_created ?rows)"
    by (simp add: bs block_info_def take_map comp_def)
  then have "sorted (map bi_created bs)"
    by (metis sorted_sort_key sorted_wrt_take)
  moreover have "bi_refs b = 0 \<and> bi_created b + GCSafetyWindow < now \<and> (\<exists>r \<in> set (cas_rows d). b = block_info r)"
    if "b \<in> set bs" for b
    using that by (auto simp: bs block_info_def dest!: in_set_takeD)
  ultimately show ?thesis
    using n by (simp add: bs)
qed

text \<open>A sweep of the worker leaves every block that is referenced when it deletes, also when
  other sessions commit between its two statements.\<close>

theorem sweep_keeps_referenced_rows:
  assumes "stored_refs d h = Some r" and "r \<noteq> 0"
    and "stored_refs (mid d) h = Some r'" and "r' \<noteq> 0"
  shows "\<exists>r''. r'' \<noteq> 0 \<and>
    stored_refs (fst (worker_sweep (\<lambda>n d. FindOrphans flt now n d) (DeleteBlocks flt') bd n mid d blobs)) h = Some r''"
  using assms by (rule pg.sweep_keeps_referenced)

text \<open>Undisturbed and without driver errors, a sweep removes exactly the blocks that it found to
  be orphans and leaves every other block as it was.\<close>

theorem sweep_removes_exactly_orphans:
  assumes "refs_ok d" and "FindOrphans None now n d = Inr bs" and "bs \<noteq> []"
  shows "stored_refs (fst (worker_sweep (\<lambda>n d. FindOrphans None now n d) (DeleteBlocks None) bd n id d blobs)) h =
    (if EncodeToString h \<in> bi_hash ` set bs then None else stored_refs d h)"
proof -
  obtain k s' where del: "DeleteBlocks None (decode_orphans bs) d = (Inr k, s')"
    by (cases "decode_orphans bs = []") (auto simp: DeleteBlocks_def split_beta)
  show ?thesis
    by (rule pg.sweep_removes_orphans [OF assms(1,2) del assms(3)])
qed

section \<open>A worked example\<close>

definition demo_hash :: bytes where
  "demo_hash = replicate 32 5"

definition demo_orphan :: cas_row where
  "demo_orphan = \<lparr>cb_hash = demo_hash, cb_tenant = [1], cb_size = 10, cb_tier = ''COLD'', cb_refs = 0,
     cb_verified = True, cb_created = 0, cb_updated = 0\<rparr>"

definition demo_db :: db where
  "demo_db = \<lparr>tenant_rows = [\<lparr>tn_id = [1], tn_quota = 0, tn_used = 0\<rparr>], node_rows = [],
     version_rows = [\<lparr>fv_id = [9], fv_node = [8], fv_number = 1, fv_size = 10, fv_sha = demo_hash, fv_created_by = [1]\<rparr>],
     cas_rows = [demo_orphan], manifest_rows = [], session_rows = []\<rparr>"

definition demo_manifest :: manifest_row where
  "demo_manifest = \<lparr>mf_version = [9], mf_index = 0, mf_hash = demo_hash, mf_offset = 0, mf_size = 10\<rparr>"

text \<open>What another session does: it commits a manifest row that names the orphan.\<close>

definition demo_reference :: "db \<Rightarrow> db" where
  "demo_reference d = (case insert_manifest_block 1 demo_manifest d of Inl e \<Rightarrow> d | Inr d' \<Rightarrow> d')"

definition week_later :: instant where
  "week_later = 8 * 24 * Hour"

lemma demo_refs_ok: "refs_ok demo_db"
  by (simp add: refs_ok_def demo_db_def demo_orphan_def ref_of_def)

lemma demo_found: "FindOrphans None week_later 10 demo_db = Inr [block_info demo_orphan]"
  by (simp add: FindOrphans_def demo_db_def demo_orphan_def GCSafetyWindow_def week_later_def Hour_def
      Minute_def Second_def)

lemma demo_reference_result:
  "demo_reference demo_db = demo_db\<lparr>manifest_rows := [demo_manifest],
     cas_rows := [demo_orphan\<lparr>cb_refs := 1, cb_updated := 1\<rparr>]\<rparr>"
  by (simp add: demo_reference_def insert_manifest_block_def manifest_block_added_def demo_manifest_def
      demo_db_def demo_orphan_def update_where_def is_int32_def)

text \<open>The worker deletes blobs before the guarded delete of the rows: when another session
  commits a reference in between, the row survives with its reference and its blob is gone, so a
  committed file has lost a block.\<close>

theorem sweep_loses_referenced_blob:
  "\<exists>d mid blobs h. refs_ok d \<and> refs_ok (mid d) \<and> h \<in> blobs \<and>
     (case worker_sweep (\<lambda>n d. FindOrphans None week_later n d) (DeleteBlocks None)
             (Some (\<lambda>bs k. bs - {k})) 10 mid d blobs of
        (d', blobs') \<Rightarrow> (\<exists>m \<in> set (manifest_rows d'). EncodeToString (mf_hash m) = h) \<and> h \<notin> blobs')"
proof (intro exI conjI)
  show "refs_ok demo_db" by (rule demo_refs_ok)
  show "refs_ok (demo_reference demo_db)"
    unfolding demo_reference_result
    by (simp add: refs_ok_def ref_of_def demo_db_def demo_orphan_def demo_manifest_def)
  show "EncodeToString demo_hash \<in> {EncodeToString demo_hash}" by simp
  show "case worker_sweep (\<lambda>n d. FindOrphans None week_later n d) (DeleteBlocks None)
             (Some (\<lambda>bs k. bs - {k})) 10 demo_reference demo_db {EncodeToString demo_hash} of
        (d', blobs') \<Rightarrow> (\<exists>m \<in> set (manifest_rows d'). EncodeToString (mf_hash m) = EncodeToString demo_hash) \<and>
          EncodeToString demo_hash \<notin> blobs'"
    by (simp add: worker_sweep_def demo_found demo_reference_result Let_def DeleteBlocks_def
        delete_unreferenced_def block_info_def demo_orphan_def demo_manifest_def)
qed

text \<open>\<^verbatim>\<open>EnsureBlock\<close> breaks the protocol of the counts: a block it inserts has count one
  although no manifest names it, so the count stays one too high for ever and the block is never
  an orphan.\<close>

theorem EnsureBlock_overcounts:
  assumes "refs_ok d" and "h \<notin> cb_hash ` set (cas_rows d)"
    and "EnsureBlock flt now h t sz d = (Inr new, d')"
  shows "new \<and> \<not> refs_ok d' \<and> stored_refs d' h = Some 1 \<and> ref_of d' h = 0"
proof -
  have d': "d' = d\<lparr>cas_rows := cas_rows d @ [\<lparr>cb_hash = h, cb_tenant = t, cb_size = sz, cb_tier = ''HOT'',
      cb_refs = 1, cb_verified = False, cb_created = now, cb_updated = now\<rparr>]\<rparr>" and new: new
    using assms(2,3)
    by (auto simp: EnsureBlock_def insert_block_on_conflict_nothing_def Let_def
        split: option.splits sum.splits if_splits)
  have zero: "ref_of d' h = 0"
    using ref_of_absent [OF assms(1,2)] by (simp add: ref_of_def d')
  then have "\<not> refs_ok d'"
    by (auto simp: refs_ok_def d')
  moreover have "map_of (map (\<lambda>b. (cb_hash b, cb_refs b)) (cas_rows d)) h = None"
    using assms(2) by (force simp: map_of_eq_None_iff)
  then have "stored_refs d' h = Some 1"
    by (simp add: stored_refs_def d' map_add_def)
  ultimately show ?thesis
    using new zero by simp
qed

section \<open>Witnesses\<close>

theorem DeleteBlocks_keeps_references_witness:
  "refs_ok (snd (DeleteBlocks None [demo_hash] demo_db)) \<and>
   int (length (cas_rows demo_db)) = 1 + int (length (cas_rows (snd (DeleteBlocks None [demo_hash] demo_db))))"
proof -
  have "DeleteBlocks None [demo_hash] demo_db = (Inr 1, demo_db\<lparr>cas_rows := []\<rparr>)"
    by (simp add: DeleteBlocks_def delete_unreferenced_def demo_db_def demo_orphan_def)
  from DeleteBlocks_keeps_references [OF demo_refs_ok this] this show ?thesis
    by simp
qed

theorem FindOrphans_sound_witness: "bi_created (block_info demo_orphan) + GCSafetyWindow < week_later"
  using FindOrphans_sound [OF demo_found] by simp

lemma demo_referenced: "stored_refs (demo_reference demo_db) demo_hash = Some 1"
  by (simp add: stored_refs_def demo_reference_result demo_orphan_def)

theorem sweep_keeps_referenced_rows_witness:
  "\<exists>r. r \<noteq> 0 \<and> stored_refs (fst (worker_sweep (\<lambda>n d. FindOrphans None week_later n d) (DeleteBlocks None)
     None 10 id (demo_reference demo_db) ())) demo_hash = Some r"
  by (rule sweep_keeps_referenced_rows [of _ _ 1 _ 1]) (simp_all add: demo_referenced)

theorem sweep_removes_exactly_orphans_witness:
  "stored_refs (fst (worker_sweep (\<lambda>n d. FindOrphans None week_later n d) (DeleteBlocks None) None 10 id demo_db ()))
     demo_hash = None"
  using sweep_removes_exactly_orphans [OF demo_refs_ok demo_found, of None "()" demo_hash]
  by (simp add: block_info_def demo_orphan_def)

theorem EnsureBlock_overcounts_witness:
  "\<not> refs_ok (snd (EnsureBlock None 0 (replicate 32 6) [1] 10 demo_db))"
proof -
  have new: "replicate 32 6 \<notin> cb_hash ` set (cas_rows demo_db)"
    by (simp add: demo_db_def demo_orphan_def demo_hash_def replicate_eq_replicate)
  obtain d where "EnsureBlock None 0 (replicate 32 6) [1] 10 demo_db = (Inr True, d)"
    using new by (simp add: EnsureBlock_def insert_block_on_conflict_nothing_def is_int32_def)
      (simp add: demo_db_def)
  from EnsureBlock_overcounts [OF demo_refs_ok new this] this show ?thesis
    by simp
qed

end
