(* ===== verification/Database.thy ===== *)
theory Database
  imports Strconv Metadata
begin

text \<open>
  The database client of \<^verbatim>\<open>internal/database\<close>: the configuration defaults and pool sizes
  (\<^verbatim>\<open>config.go\<close>, \<^verbatim>\<open>newPool\<close>), the circuit breaker (\<^verbatim>\<open>failover.go\<close>), the routing of
  statements to pools with its one reroute (\<^verbatim>\<open>client.go\<close>), the wrappers that give a connection
  back once, and the generational namespace cache (\<^verbatim>\<open>cache.go\<close>). What the driver does with a
  connection is an argument: the outcome of acquiring a connection from a pool and of running the
  statement on it. The breaker's fields are atomics; its operations are modelled twice, as whole
  calls and as a step relation whose steps are the single atomic accesses.
\<close>

section \<open>Configuration\<close>

definition OpWrite :: string where "OpWrite = ''write''"
definition OpRead :: string where "OpRead = ''read''"
definition OpMetadata :: string where "OpMetadata = ''metadata''"
definition OpAnalytical :: string where "OpAnalytical = ''analytical''"

lemmas op_class_defs = OpWrite_def OpRead_def OpMetadata_def OpAnalytical_def

definition DefaultSlowQueryThreshold :: duration where
  "DefaultSlowQueryThreshold = 50 * Millisecond"

definition DefaultAcquireTimeout :: duration where
  "DefaultAcquireTimeout = 250 * Millisecond"

definition DefaultHealthInterval :: duration where
  "DefaultHealthInterval = 500 * Millisecond"

definition DefaultCacheTTL :: duration where
  "DefaultCacheTTL = 5 * Minute"

record CacheConfig =
  cc_Enabled :: bool
  cc_Addr :: string
  cc_Password :: string
  cc_TTL :: duration

record Config =
  PrimaryDSN :: string
  ReplicaDSNs :: "string list"
  MetadataDSN :: string
  MinConnsPerPool :: int
  MaxConnsPerPool :: int
  MaxTotalConns :: int
  MaxConnLifetime :: duration
  MaxConnIdleTime :: duration
  AcquireTimeout :: duration
  HealthCheckInterval :: duration
  SlowQueryThreshold :: duration
  SkipStartupPing :: bool
  Cache :: CacheConfig

definition CacheConfig_applyDefaults :: "CacheConfig \<Rightarrow> CacheConfig" where
  "CacheConfig_applyDefaults c = c\<lparr>cc_TTL := (if cc_TTL c \<le> 0 then DefaultCacheTTL else cc_TTL c)\<rparr>"

text \<open>\<open>cpus\<close> is \<^verbatim>\<open>runtime.NumCPU()\<close>.\<close>

definition Config_applyDefaults :: "int \<Rightarrow> Config \<Rightarrow> Config" where
  "Config_applyDefaults cpus c =
     (let c = (if MetadataDSN c = '''' then c\<lparr>MetadataDSN := PrimaryDSN c\<rparr> else c);
          c = (if MinConnsPerPool c \<le> 0 then c\<lparr>MinConnsPerPool := cpus * 2\<rparr> else c);
          c = (if MaxConnsPerPool c \<le> 0 then c\<lparr>MaxConnsPerPool := cpus * 4\<rparr> else c);
          c = (if MaxConnsPerPool c < MinConnsPerPool c then c\<lparr>MaxConnsPerPool := MinConnsPerPool c\<rparr> else c);
          c = (if MaxTotalConns c \<le> 0 then c\<lparr>MaxTotalConns := 96\<rparr> else c);
          c = (if MaxConnLifetime c \<le> 0 then c\<lparr>MaxConnLifetime := 30 * Minute\<rparr> else c);
          c = (if MaxConnIdleTime c \<le> 0 then c\<lparr>MaxConnIdleTime := 5 * Minute\<rparr> else c);
          c = (if AcquireTimeout c \<le> 0 then c\<lparr>AcquireTimeout := DefaultAcquireTimeout\<rparr> else c);
          c = (if HealthCheckInterval c \<le> 0 then c\<lparr>HealthCheckInterval := DefaultHealthInterval\<rparr> else c);
          c = (if SlowQueryThreshold c \<le> 0 then c\<lparr>SlowQueryThreshold := DefaultSlowQueryThreshold\<rparr> else c)
      in c\<lparr>Cache := CacheConfig_applyDefaults (Cache c)\<rparr>)"

text \<open>The size \<^verbatim>\<open>newPool\<close> gives every pool; the division truncates, and the budget is positive.\<close>

definition pool_max :: "Config \<Rightarrow> int" where
  "pool_max c =
     (let budget = MaxTotalConns c div 4
      in if MaxConnsPerPool c > budget \<and> budget \<ge> MinConnsPerPool c then budget else MaxConnsPerPool c)"

section \<open>The circuit breaker\<close>

datatype breakerState = breakerClosed | breakerOpen | breakerHalfOpen

fun breaker_String :: "breakerState \<Rightarrow> string" where
  "breaker_String breakerOpen = ''open''"
| "breaker_String breakerHalfOpen = ''half-open''"
| "breaker_String breakerClosed = ''closed''"

definition breakerFailureThreshold :: int where
  "breakerFailureThreshold = 3"

definition breakerCooldown :: duration where
  "breakerCooldown = 2 * Second"

record CircuitBreaker =
  cb_state :: breakerState
  cb_failures :: int
  cb_openedAt :: instant
  cb_probing :: bool

definition wrap32 :: "int \<Rightarrow> int" where
  "wrap32 x = (x + 2 ^ 31) mod 2 ^ 32 - 2 ^ 31"

definition newCircuitBreaker :: CircuitBreaker where
  "newCircuitBreaker = \<lparr>cb_state = breakerClosed, cb_failures = 0, cb_openedAt = 0, cb_probing = False\<rparr>"

definition Allow :: "instant \<Rightarrow> CircuitBreaker \<Rightarrow> bool \<times> CircuitBreaker" where
  "Allow now cb =
     (case cb_state cb of
        breakerClosed \<Rightarrow> (True, cb)
      | breakerOpen \<Rightarrow>
          if now - cb_openedAt cb < breakerCooldown then (False, cb)
          else if \<not> cb_probing cb then (True, cb\<lparr>cb_probing := True, cb_state := breakerHalfOpen\<rparr>)
          else (False, cb)
      | breakerHalfOpen \<Rightarrow> (False, cb))"

definition RecordSuccess :: "CircuitBreaker \<Rightarrow> CircuitBreaker" where
  "RecordSuccess cb = cb\<lparr>cb_failures := 0, cb_probing := False, cb_state := breakerClosed\<rparr>"

definition RecordFailure :: "instant \<Rightarrow> CircuitBreaker \<Rightarrow> CircuitBreaker" where
  "RecordFailure now cb =
     (let n = wrap32 (cb_failures cb + 1);
          cb = cb\<lparr>cb_failures := n\<rparr>
      in if n \<ge> breakerFailureThreshold \<and> cb_state cb = breakerClosed
         then cb\<lparr>cb_state := breakerOpen, cb_openedAt := now\<rparr>
         else cb)"

definition State :: "CircuitBreaker \<Rightarrow> string" where
  "State cb = breaker_String (cb_state cb)"

text \<open>One tick of \<^verbatim>\<open>healthLoop\<close>: \<open>ping_ok\<close> is whether the write pool answered the ping.\<close>

definition health_tick :: "bool \<Rightarrow> instant \<Rightarrow> CircuitBreaker \<Rightarrow> CircuitBreaker" where
  "health_tick ping_ok now cb = (if \<not> ping_ok then RecordFailure now cb else RecordSuccess cb)"

section \<open>Errors\<close>

text \<open>The errors that the classification tells apart: its own sentinels, the unknown class, the two
  context errors, a server error with its code, an error with a \<^verbatim>\<open>Timeout()\<close> method and its answer,
  a refused connection, a failed dial, and anything else.\<close>

datatype db_error =
    ErrPrimaryUnavailable
  | ErrPoolTimeout
  | UnknownOpClass string
  | DeadlineExceeded
  | Canceled
  | PgError string
  | TimeoutErr bool
  | ECONNREFUSED
  | ConnectError
  | OtherDbError

fun isTransportErr :: "db_error \<Rightarrow> bool" where
  "isTransportErr ErrPrimaryUnavailable = True"
| "isTransportErr ErrPoolTimeout = True"
| "isTransportErr (PgError code') = (code' \<in> set [''53300'', ''57P01'', ''57P02'', ''57P03''])"
| "isTransportErr (TimeoutErr b) = b"
| "isTransportErr DeadlineExceeded = True"
| "isTransportErr ECONNREFUSED = True"
| "isTransportErr ConnectError = True"
| "isTransportErr (UnknownOpClass c) = False"
| "isTransportErr Canceled = False"
| "isTransportErr OtherDbError = False"

section \<open>Pools and routing\<close>

datatype pool = WritePool | MetadataPool | ReadPool nat | AnalyticalPool

text \<open>The client: \<open>dc_replicas\<close> is the number of read pools, \<open>dc_readRR\<close> the round-robin cursor, and
  the last two fields the counters of connections acquired and released.\<close>

record DatabaseClient =
  dc_replicas :: nat
  dc_readRR :: u64
  dc_breaker :: CircuitBreaker
  dc_acquired :: u64
  dc_released :: u64

definition nextReplica :: "DatabaseClient \<Rightarrow> pool option \<times> DatabaseClient" where
  "nextReplica c =
     (if dc_replicas c = 0 then (None, c)
      else (Some (ReadPool (unat (dc_readRR c) mod dc_replicas c)), c\<lparr>dc_readRR := dc_readRR c + 1\<rparr>))"

definition readTarget :: "instant \<Rightarrow> DatabaseClient \<Rightarrow> pool option \<times> DatabaseClient" where
  "readTarget now c =
     (if dc_replicas c > 0 then nextReplica c
      else case Allow now (dc_breaker c) of
             (True, cb) \<Rightarrow> (Some WritePool, c\<lparr>dc_breaker := cb\<rparr>)
           | (False, cb) \<Rightarrow> (None, c\<lparr>dc_breaker := cb\<rparr>))"

definition pickPool :: "instant \<Rightarrow> string \<Rightarrow> DatabaseClient \<Rightarrow> pool option \<times> DatabaseClient" where
  "pickPool now cls c =
     (if cls = OpWrite then (Some WritePool, c)
      else if cls = OpMetadata then (Some MetadataPool, c)
      else if cls = OpAnalytical then (Some AnalyticalPool, c)
      else if cls = OpRead then readTarget now c
      else (None, c))"

text \<open>The pool that \<^verbatim>\<open>acquire\<close> chooses, before it asks the pool for a connection.\<close>

definition acquire_pool :: "instant \<Rightarrow> string \<Rightarrow> DatabaseClient \<Rightarrow> (db_error + pool) \<times> DatabaseClient" where
  "acquire_pool now cls c =
     (if cls = OpWrite then
        (case Allow now (dc_breaker c) of
           (False, cb) \<Rightarrow> (Inl ErrPrimaryUnavailable, c\<lparr>dc_breaker := cb\<rparr>)
         | (True, cb) \<Rightarrow> (Inr WritePool, c\<lparr>dc_breaker := cb\<rparr>))
      else if cls = OpMetadata then (Inr MetadataPool, c)
      else if cls = OpAnalytical then (Inr AnalyticalPool, c)
      else if cls = OpRead then
        (case readTarget now c of
           (None, c') \<Rightarrow> (Inl ErrPrimaryUnavailable, c')
         | (Some p, c') \<Rightarrow> (Inr p, c'))
      else (Inl (UnknownOpClass cls), c))"

text \<open>A driver over the state \<open>'w\<close> of the servers: \<open>drv_Acquire p\<close> is \<^verbatim>\<open>pool.Acquire\<close>.\<close>

record 'w driver =
  drv_Acquire :: "pool \<Rightarrow> 'w \<Rightarrow> db_error option \<times> 'w"

fun acquire_err :: "db_error \<Rightarrow> db_error" where
  "acquire_err DeadlineExceeded = ErrPoolTimeout"
| "acquire_err Canceled = ErrPoolTimeout"
| "acquire_err e = e"

definition acquire ::
  "'w driver \<Rightarrow> instant \<Rightarrow> string \<Rightarrow> DatabaseClient \<Rightarrow> 'w \<Rightarrow> (db_error + pool) \<times> DatabaseClient \<times> 'w" where
  "acquire D now cls c w =
     (case acquire_pool now cls c of
        (Inl e, c') \<Rightarrow> (Inl e, c', w)
      | (Inr p, c') \<Rightarrow>
          (case drv_Acquire D p w of
             (Some e, w') \<Rightarrow> (Inl (acquire_err e), c', w')
           | (None, w') \<Rightarrow> (Inr p, c'\<lparr>dc_acquired := dc_acquired c' + 1\<rparr>, w')))"

definition release :: "DatabaseClient \<Rightarrow> DatabaseClient" where
  "release c = c\<lparr>dc_released := dc_released c + 1\<rparr>"

text \<open>\<open>stmt p\<close> is the statement run on a connection of pool \<open>p\<close>.\<close>

definition queryOnce ::
  "'w driver \<Rightarrow> pool \<Rightarrow> (pool \<Rightarrow> 'w \<Rightarrow> (db_error + 'r) \<times> 'w) \<Rightarrow> 'w \<Rightarrow> (db_error + 'r) \<times> 'w" where
  "queryOnce D p stmt w =
     (case drv_Acquire D p w of
        (Some e, w') \<Rightarrow> (Inl (acquire_err e), w')
      | (None, w') \<Rightarrow> stmt p w')"

definition queryRouted ::
  "'w driver \<Rightarrow> instant \<Rightarrow> string \<Rightarrow> (pool \<Rightarrow> 'w \<Rightarrow> (db_error + 'r) \<times> 'w) \<Rightarrow> DatabaseClient \<Rightarrow> 'w \<Rightarrow>
   (db_error + 'r) \<times> DatabaseClient \<times> 'w" where
  "queryRouted D now cls stmt c w =
     (case pickPool now cls c of
        (None, c1) \<Rightarrow> (Inl ErrPrimaryUnavailable, c1, w)
      | (Some target, c1) \<Rightarrow>
          (case queryOnce D target stmt w of
             (Inr rows, w1) \<Rightarrow> (Inr rows, c1, w1)
           | (Inl e, w1) \<Rightarrow>
               if \<not> isTransportErr e \<or> cls \<noteq> OpRead \<or> dc_replicas c1 = 0 then (Inl e, c1, w1)
               else
                 (case nextReplica (c1\<lparr>dc_breaker := RecordFailure now (dc_breaker c1)\<rparr>) of
                    (None, c2) \<Rightarrow> (Inl e, c2, w1)
                  | (Some p, c2) \<Rightarrow> (case queryOnce D p stmt w1 of (r, w2) \<Rightarrow> (r, c2, w2)))))"

definition recordPrimaryOutcome :: "instant \<Rightarrow> string \<Rightarrow> db_error option \<Rightarrow> DatabaseClient \<Rightarrow> DatabaseClient" where
  "recordPrimaryOutcome now cls err c =
     (if cls \<noteq> OpWrite \<or> err = Some ErrPrimaryUnavailable then c
      else case err of
             None \<Rightarrow> c\<lparr>dc_breaker := RecordSuccess (dc_breaker c)\<rparr>
           | Some e \<Rightarrow> if isTransportErr e then c\<lparr>dc_breaker := RecordFailure now (dc_breaker c)\<rparr> else c)"

fun err_of :: "'e + 'a \<Rightarrow> 'e option" where
  "err_of (Inl e) = Some e"
| "err_of (Inr a) = None"

definition ExecWithMetrics ::
  "'w driver \<Rightarrow> instant \<Rightarrow> string \<Rightarrow> (pool \<Rightarrow> 'w \<Rightarrow> (db_error + 'r) \<times> 'w) \<Rightarrow> DatabaseClient \<Rightarrow> 'w \<Rightarrow>
   (db_error + 'r) \<times> DatabaseClient \<times> 'w" where
  "ExecWithMetrics D now cls stmt c w =
     (case acquire D now cls c w of
        (Inl e, c1, w1) \<Rightarrow> (Inl e, recordPrimaryOutcome now cls (Some e) c1, w1)
      | (Inr p, c1, w1) \<Rightarrow>
          (case stmt p w1 of
             (r, w2) \<Rightarrow> (r, recordPrimaryOutcome now cls (err_of r) (release c1), w2)))"

text \<open>\<open>begin\<close> is the driver's \<^verbatim>\<open>conn.Begin\<close>. The transaction keeps its connection until it ends.\<close>

definition BeginWriteTx ::
  "'w driver \<Rightarrow> instant \<Rightarrow> ('w \<Rightarrow> (db_error + 'tx) \<times> 'w) \<Rightarrow> DatabaseClient \<Rightarrow> 'w \<Rightarrow>
   (db_error + 'tx) \<times> DatabaseClient \<times> 'w" where
  "BeginWriteTx D now begin_tx c w =
     (case acquire D now OpWrite c w of
        (Inl e, c1, w1) \<Rightarrow> (Inl e, c1, w1)
      | (Inr p, c1, w1) \<Rightarrow>
          (case begin_tx w1 of
             (Inl e, w2) \<Rightarrow> (Inl e, recordPrimaryOutcome now OpWrite (Some e) (release c1), w2)
           | (Inr tx, w2) \<Rightarrow> (Inr tx, c1, w2)))"

section \<open>Giving a connection back\<close>

text \<open>A \<^verbatim>\<open>releasedRows\<close> or \<^verbatim>\<open>pooledTx\<close> holds a connection and gives it back through a
  \<^verbatim>\<open>sync.Once\<close>. The methods a caller can use, with what the driver answers: whether \<^verbatim>\<open>Next\<close> found a
  further row. \<open>rr_released\<close> counts the calls of the release function.\<close>

datatype handle_call = CallClose | CallNext bool | CallErr | CallCommit | CallRollback

record handle =
  hd_once :: bool
  hd_released :: nat

definition handle_done :: "handle \<Rightarrow> handle" where
  "handle_done h = (if hd_once h then h else h\<lparr>hd_once := True, hd_released := hd_released h + 1\<rparr>)"

fun handle_step :: "handle_call \<Rightarrow> handle \<Rightarrow> handle" where
  "handle_step CallClose h = handle_done h"
| "handle_step (CallNext found) h = (if \<not> found then handle_done h else h)"
| "handle_step CallErr h = h"
| "handle_step CallCommit h = handle_done h"
| "handle_step CallRollback h = handle_done h"

definition new_handle :: handle where
  "new_handle = \<lparr>hd_once = False, hd_released = 0\<rparr>"


section \<open>The breaker as interleaved atomic accesses\<close>

text \<open>Callers run \<open>Allow\<close> and \<open>RecordFailure\<close> concurrently. \<open>apc t\<close> is where caller \<open>t\<close> stands: at
  the start of \<open>Allow\<close>, past the load that saw an open breaker, past the winning compare-and-swap, or
  back with an answer; and likewise for \<open>RecordFailure\<close>, after the add with the new count and after the
  compare-and-swap that tripped. Each step is one atomic access; readings of the clock are arbitrary.\<close>

datatype apc = AStart | ASawOpen | AElected | AReturned bool | FStart | FAdded int | FTripped | FDone

record breaker_run =
  br_cb :: CircuitBreaker
  br_pc :: "nat \<Rightarrow> apc"

inductive atomic_step :: "breaker_run \<Rightarrow> breaker_run \<Rightarrow> bool" where
  load_closed: "\<lbrakk>br_pc r t = AStart; cb_state (br_cb r) = breakerClosed\<rbrakk> \<Longrightarrow>
     atomic_step r (r\<lparr>br_pc := (br_pc r)(t := AReturned True)\<rparr>)"
| load_half_open: "\<lbrakk>br_pc r t = AStart; cb_state (br_cb r) = breakerHalfOpen\<rbrakk> \<Longrightarrow>
     atomic_step r (r\<lparr>br_pc := (br_pc r)(t := AReturned False)\<rparr>)"
| load_open: "\<lbrakk>br_pc r t = AStart; cb_state (br_cb r) = breakerOpen\<rbrakk> \<Longrightarrow>
     atomic_step r (r\<lparr>br_pc := (br_pc r)(t := ASawOpen)\<rparr>)"
| cooling: "\<lbrakk>br_pc r t = ASawOpen; now - cb_openedAt (br_cb r) < breakerCooldown\<rbrakk> \<Longrightarrow>
     atomic_step r (r\<lparr>br_pc := (br_pc r)(t := AReturned False)\<rparr>)"
| cas_won: "\<lbrakk>br_pc r t = ASawOpen; \<not> now - cb_openedAt (br_cb r) < breakerCooldown; \<not> cb_probing (br_cb r)\<rbrakk> \<Longrightarrow>
     atomic_step r (r\<lparr>br_cb := (br_cb r)\<lparr>cb_probing := True\<rparr>, br_pc := (br_pc r)(t := AElected)\<rparr>)"
| cas_lost: "\<lbrakk>br_pc r t = ASawOpen; \<not> now - cb_openedAt (br_cb r) < breakerCooldown; cb_probing (br_cb r)\<rbrakk> \<Longrightarrow>
     atomic_step r (r\<lparr>br_pc := (br_pc r)(t := AReturned False)\<rparr>)"
| store_half_open: "br_pc r t = AElected \<Longrightarrow>
     atomic_step r (r\<lparr>br_cb := (br_cb r)\<lparr>cb_state := breakerHalfOpen\<rparr>, br_pc := (br_pc r)(t := AReturned True)\<rparr>)"
| fail_add: "br_pc r t = FStart \<Longrightarrow> n = wrap32 (cb_failures (br_cb r) + 1) \<Longrightarrow>
     atomic_step r (r\<lparr>br_cb := (br_cb r)\<lparr>cb_failures := n\<rparr>, br_pc := (br_pc r)(t := FAdded n)\<rparr>)"
| fail_trip: "\<lbrakk>br_pc r t = FAdded n; n \<ge> breakerFailureThreshold; cb_state (br_cb r) = breakerClosed\<rbrakk> \<Longrightarrow>
     atomic_step r (r\<lparr>br_cb := (br_cb r)\<lparr>cb_state := breakerOpen\<rparr>, br_pc := (br_pc r)(t := FTripped)\<rparr>)"
| fail_keep: "\<lbrakk>br_pc r t = FAdded n; n < breakerFailureThreshold \<or> cb_state (br_cb r) \<noteq> breakerClosed\<rbrakk> \<Longrightarrow>
     atomic_step r (r\<lparr>br_pc := (br_pc r)(t := FDone)\<rparr>)"
| fail_stamp: "br_pc r t = FTripped \<Longrightarrow>
     atomic_step r (r\<lparr>br_cb := (br_cb r)\<lparr>cb_openedAt := now\<rparr>, br_pc := (br_pc r)(t := FDone)\<rparr>)"

definition admitted :: "breaker_run \<Rightarrow> nat \<Rightarrow> bool" where
  "admitted r t \<longleftrightarrow> br_pc r t = AElected \<or> br_pc r t = AReturned True"

text \<open>The election invariant: while the breaker is not closed, an admitted caller holds the probing flag
  and there is only one.\<close>

definition one_prober :: "breaker_run \<Rightarrow> bool" where
  "one_prober r \<longleftrightarrow> cb_state (br_cb r) \<noteq> breakerClosed \<and>
     (\<forall>t. admitted r t \<longrightarrow> cb_probing (br_cb r)) \<and>
     (\<forall>t u. admitted r t \<longrightarrow> admitted r u \<longrightarrow> t = u)"

lemma atomic_step_one_prober:
  assumes "atomic_step r r'" and "one_prober r"
  shows "one_prober r'"
  using assms by cases (auto simp: one_prober_def admitted_def)

lemma atomic_steps_one_prober:
  assumes "atomic_step\<^sup>*\<^sup>* r r'" and "one_prober r"
  shows "one_prober r'"
  using assms by induction (auto intro: atomic_step_one_prober)

text \<open>A caller that is not interrupted behaves as the whole call.\<close>

lemma Allow_runs_atomically:
  assumes "br_pc r t = AStart"
  shows "atomic_step\<^sup>*\<^sup>* r
    (r\<lparr>br_cb := snd (Allow now (br_cb r)), br_pc := (br_pc r)(t := AReturned (fst (Allow now (br_cb r))))\<rparr>)"
proof (cases "cb_state (br_cb r)")
  case breakerClosed
  then show ?thesis
    using load_closed [OF assms] by (simp add: Allow_def r_into_rtranclp)
next
  case breakerHalfOpen
  then show ?thesis
    using load_half_open [OF assms] by (simp add: Allow_def r_into_rtranclp)
next
  case breakerOpen
  let ?s = "r\<lparr>br_pc := (br_pc r)(t := ASawOpen)\<rparr>"
  have s: "atomic_step r ?s"
    by (rule load_open [OF assms breakerOpen])
  show ?thesis
  proof (cases "now - cb_openedAt (br_cb r) < breakerCooldown \<or> cb_probing (br_cb r)")
    case True
    then have "atomic_step ?s (?s\<lparr>br_pc := (br_pc ?s)(t := AReturned False)\<rparr>)"
      using cooling [of ?s t now] cas_lost [of ?s t now]
      by (cases "now - cb_openedAt (br_cb r) < breakerCooldown") simp_all
    then show ?thesis
      using s True breakerOpen by (auto simp: Allow_def intro: rtranclp_trans r_into_rtranclp)
  next
    case False
    let ?e = "?s\<lparr>br_cb := (br_cb ?s)\<lparr>cb_probing := True\<rparr>, br_pc := (br_pc ?s)(t := AElected)\<rparr>"
    have "atomic_step ?s ?e" and "atomic_step ?e (?e\<lparr>br_cb := (br_cb ?e)\<lparr>cb_state := breakerHalfOpen\<rparr>,
        br_pc := (br_pc ?e)(t := AReturned True)\<rparr>)"
      using False cas_won [of ?s t now] store_half_open [of ?e t] by simp_all
    then have "atomic_step\<^sup>*\<^sup>* r (?e\<lparr>br_cb := (br_cb ?e)\<lparr>cb_state := breakerHalfOpen\<rparr>,
        br_pc := (br_pc ?e)(t := AReturned True)\<rparr>)"
      using s by (meson converse_rtranclp_into_rtranclp r_into_rtranclp)
    then show ?thesis
      using False breakerOpen by (simp add: Allow_def)
  qed
qed

text \<open>C15. However the callers' atomic accesses interleave with each other and with recorded failures, an
  open breaker admits at most one caller to the primary until a success is recorded.\<close>

theorem breaker_single_prober:
  assumes "cb_state (br_cb r) = breakerOpen" and "\<And>t. br_pc r t = AStart \<or> br_pc r t = FStart"
    and "atomic_step\<^sup>*\<^sup>* r r'" and "br_pc r' t = AReturned True" and "br_pc r' u = AReturned True"
  shows "t = u \<and> cb_probing (br_cb r')"
proof -
  have "\<not> admitted r t" for t
    using assms(2) [of t] by (auto simp: admitted_def)
  then have "one_prober r"
    using assms(1) by (simp add: one_prober_def)
  then show ?thesis
    using atomic_steps_one_prober [OF assms(3)] assms(4,5) by (auto simp: one_prober_def admitted_def)
qed

definition demo_run :: breaker_run where
  "demo_run = \<lparr>br_cb = \<lparr>cb_state = breakerOpen, cb_failures = 3, cb_openedAt = 0, cb_probing = False\<rparr>,
     br_pc = (\<lambda>_. AStart)\<rparr>"

theorem breaker_single_prober_witness:
  "\<exists>r'. atomic_step\<^sup>*\<^sup>* demo_run r' \<and> br_pc r' 1 = AReturned True \<and> cb_probing (br_cb r')"
proof -
  let ?now = "2000000000"
  let ?r' = "demo_run\<lparr>br_cb := snd (Allow ?now (br_cb demo_run)),
    br_pc := (br_pc demo_run)(1 := AReturned (fst (Allow ?now (br_cb demo_run))))\<rparr>"
  have steps: "atomic_step\<^sup>*\<^sup>* demo_run ?r'"
    by (rule Allow_runs_atomically) (simp add: demo_run_def)
  moreover have "br_pc ?r' 1 = AReturned True"
    by (simp add: demo_run_def Allow_def breakerCooldown_def Second_def)
  ultimately show ?thesis
    using breaker_single_prober [of demo_run ?r' 1 1] by (auto simp: demo_run_def)
qed


section \<open>What the breaker remembers\<close>

datatype breaker_event = EvAllow instant | EvFailure instant | EvSuccess

fun breaker_exec :: "breaker_event list \<Rightarrow> CircuitBreaker \<Rightarrow> bool list \<times> CircuitBreaker" where
  "breaker_exec [] cb = ([], cb)"
| "breaker_exec (EvAllow now # es) cb =
     (case Allow now cb of (a, cb') \<Rightarrow> (case breaker_exec es cb' of (as, cb'') \<Rightarrow> (a # as, cb'')))"
| "breaker_exec (EvFailure now # es) cb = breaker_exec es (RecordFailure now cb)"
| "breaker_exec (EvSuccess # es) cb = breaker_exec es (RecordSuccess cb)"

lemma RecordFailure_not_closed:
  "cb_state cb \<noteq> breakerClosed \<Longrightarrow> cb_state (RecordFailure now cb) = cb_state cb \<and>
     cb_openedAt (RecordFailure now cb) = cb_openedAt cb \<and> cb_probing (RecordFailure now cb) = cb_probing cb"
  by (simp add: RecordFailure_def Let_def)

lemma half_open_exec:
  assumes "cb_state cb = breakerHalfOpen" and "EvSuccess \<notin> set es"
  shows "cb_state (snd (breaker_exec es cb)) = breakerHalfOpen \<and> True \<notin> set (fst (breaker_exec es cb))"
  using assms
proof (induction es cb rule: breaker_exec.induct)
  case (3 now es cb)
  then show ?case
    using RecordFailure_not_closed [of cb now] by simp
qed (auto simp: Allow_def split: prod.splits)

lemma wrap32_small: "0 \<le> x \<Longrightarrow> x < 2 ^ 31 \<Longrightarrow> wrap32 x = x"
  by (simp add: wrap32_def)

lemma failures_below_threshold:
  assumes "cb_state cb = breakerClosed" and "0 \<le> cb_failures cb" and "cb_failures cb < 2"
  shows "cb_state (RecordFailure now cb) = breakerClosed" and "cb_failures (RecordFailure now cb) = cb_failures cb + 1"
  using assms by (simp_all add: RecordFailure_def Let_def wrap32_small breakerFailureThreshold_def)

lemma third_failure_opens:
  assumes "cb_state cb = breakerClosed" and "cb_failures cb = 2"
  shows "cb_state (RecordFailure now cb) = breakerOpen" and "cb_openedAt (RecordFailure now cb) = now"
  using assms by (simp_all add: RecordFailure_def Let_def wrap32_small breakerFailureThreshold_def)

text \<open>Three recorded failures in a row, and not fewer, open a closed breaker; it then refuses every
  caller for the two seconds of cooldown and admits the first one after it. If that probe fails the
  breaker does not open again: whatever failures are recorded and however much time passes, it refuses
  every caller until a success is recorded from elsewhere.\<close>

theorem breaker_cycle:
  assumes "cb_state cb = breakerClosed" and "cb_failures cb = 0" and "\<not> cb_probing cb"
    and "\<And>e. e \<in> set es \<Longrightarrow> e \<noteq> EvSuccess"
  shows "let c2 = RecordFailure t2 (RecordFailure t1 cb);
             c3 = RecordFailure t3 c2;
             c4 = snd (Allow now c3)
         in fst (Allow now c2) \<and>
            (fst (Allow now c3) \<longleftrightarrow> now - t3 \<ge> breakerCooldown) \<and>
            (fst (Allow now c3) \<longrightarrow>
               State c4 = ''half-open'' \<and>
               State (snd (breaker_exec es c4)) = ''half-open'' \<and>
               True \<notin> set (fst (breaker_exec es c4)))"
proof -
  let ?c1 = "RecordFailure t1 cb"
  let ?c2 = "RecordFailure t2 ?c1"
  let ?c3 = "RecordFailure t3 ?c2"
  have c1: "cb_state ?c1 = breakerClosed" "cb_failures ?c1 = 1"
    using failures_below_threshold [of cb t1] assms by simp_all
  have c2: "cb_state ?c2 = breakerClosed" "cb_failures ?c2 = 2"
    using failures_below_threshold [of ?c1 t2] c1 by simp_all
  have probing: "cb_probing (RecordFailure t c) = cb_probing c" for t c
    by (simp add: RecordFailure_def Let_def)
  have c3: "cb_state ?c3 = breakerOpen" "cb_openedAt ?c3 = t3" "\<not> cb_probing ?c3"
    using third_failure_opens [OF c2, of t3] assms(3) by (simp_all add: probing)
  have no: "EvSuccess \<notin> set es"
    using assms(4) by blast
  have "State (snd (Allow now ?c3)) = ''half-open'' \<and>
      State (snd (breaker_exec es (snd (Allow now ?c3)))) = ''half-open'' \<and>
      True \<notin> set (fst (breaker_exec es (snd (Allow now ?c3))))" if "fst (Allow now ?c3)"
  proof -
    have "cb_state (snd (Allow now ?c3)) = breakerHalfOpen"
      using that c3 by (auto simp: Allow_def split: if_splits)
    then show ?thesis
      using half_open_exec [OF _ no] by (simp add: State_def)
  qed
  then show ?thesis
    using c2 c3 by (simp add: Allow_def Let_def not_less)
qed

theorem breaker_cycle_witness:
  "fst (Allow 5 (RecordFailure 1 (RecordFailure 0 newCircuitBreaker)))"
  using breaker_cycle [of newCircuitBreaker "[EvFailure 9, EvAllow 10000000000]" 1 0 2 5]
  by (auto simp: newCircuitBreaker_def Let_def)

section \<open>Routing\<close>

lemma err_of_None [simp]: "err_of r = None \<longleftrightarrow> (\<exists>a. r = Inr a)"
  by (cases r) auto

text \<open>Statements of class write run on the primary only: what the call returns and does is
  determined by the statement on the write pool. While the breaker is open and cooling they fail at once
  and touch neither the servers nor the breaker, and a connection that was acquired is always released.\<close>

theorem writes_only_primary:
  shows "(stmt WritePool = stmt' WritePool \<longrightarrow>
            ExecWithMetrics D now OpWrite stmt c w = ExecWithMetrics D now OpWrite stmt' c w) \<and>
         (cb_state (dc_breaker c) = breakerOpen \<and> now - cb_openedAt (dc_breaker c) < breakerCooldown \<longrightarrow>
            ExecWithMetrics D now OpWrite stmt c w = (Inl ErrPrimaryUnavailable, c, w)) \<and>
         (let c' = fst (snd (ExecWithMetrics D now cls stmt c w))
          in dc_acquired c' - dc_released c' = dc_acquired c - dc_released c)"
proof (intro conjI impI)
  assume "stmt WritePool = stmt' WritePool"
  then show "ExecWithMetrics D now OpWrite stmt c w = ExecWithMetrics D now OpWrite stmt' c w"
    by (auto simp: ExecWithMetrics_def acquire_def acquire_pool_def split: prod.splits sum.splits option.splits bool.splits)
next
  assume "cb_state (dc_breaker c) = breakerOpen \<and> now - cb_openedAt (dc_breaker c) < breakerCooldown"
  then show "ExecWithMetrics D now OpWrite stmt c w = (Inl ErrPrimaryUnavailable, c, w)"
    by (simp add: ExecWithMetrics_def acquire_def acquire_pool_def Allow_def recordPrimaryOutcome_def)
next
  have rec: "dc_acquired (recordPrimaryOutcome now cls e c) = dc_acquired c"
       "dc_released (recordPrimaryOutcome now cls e c) = dc_released c" for e c
    by (simp_all add: recordPrimaryOutcome_def split: option.splits)
  obtain r c1 w1 where acq: "acquire D now cls c w = (r, c1, w1)"
    by (metis prod_cases3)
  have route: "dc_acquired (snd (acquire_pool now cls c)) = dc_acquired c"
       "dc_released (snd (acquire_pool now cls c)) = dc_released c"
    by (auto simp: acquire_pool_def readTarget_def nextReplica_def split: prod.splits bool.splits option.splits)
  have c1: "dc_released c1 = dc_released c" "dc_acquired c1 = dc_acquired c + (case r of Inl _ \<Rightarrow> 0 | Inr _ \<Rightarrow> 1)"
    using acq route by (auto simp: acquire_def split: prod.splits sum.splits option.splits)
  show "let c' = fst (snd (ExecWithMetrics D now cls stmt c w))
        in dc_acquired c' - dc_released c' = dc_acquired c - dc_released c"
  proof (cases r)
    case (Inl e)
    then show ?thesis
      using acq c1 by (simp add: ExecWithMetrics_def rec)
  next
    case (Inr p)
    obtain r2 w2 where "stmt p w1 = (r2, w2)"
      by (metis prod.exhaust)
    then show ?thesis
      using acq c1 Inr by (simp add: ExecWithMetrics_def rec release_def)
  qed
qed

text \<open>Three reads in a row through the router.\<close>

fun reads :: "nat \<Rightarrow> 'w driver \<Rightarrow> instant \<Rightarrow> (pool \<Rightarrow> 'w \<Rightarrow> (db_error + 'r) \<times> 'w) \<Rightarrow> DatabaseClient \<Rightarrow> 'w \<Rightarrow> DatabaseClient \<times> 'w" where
  "reads 0 D now stmt c w = (c, w)"
| "reads (Suc n) D now stmt c w =
     (case queryRouted D now OpRead stmt c w of (_, c', w') \<Rightarrow> reads n D now stmt c' w')"

lemma replica_fault_read:
  assumes "dc_replicas c > 0" and "\<And>i w. drv_Acquire D (ReadPool i) w = (Some ConnectError, w)"
  shows "queryRouted D now OpRead stmt c w =
    (Inl ConnectError, c\<lparr>dc_readRR := dc_readRR c + 2, dc_breaker := RecordFailure now (dc_breaker c)\<rparr>, w)"
  using assms
  by (simp add: queryRouted_def pickPool_def readTarget_def nextReplica_def queryOnce_def op_class_defs)

text \<open>Failed reads on replicas are charged to the breaker of the primary: after three reads that could
  not reach a replica, writes are refused although no statement was ever sent to the primary.\<close>

theorem replica_faults_block_writes:
  assumes "dc_replicas c > 0" and "dc_breaker c = newCircuitBreaker"
    and "\<And>i w. drv_Acquire D (ReadPool i) w = (Some ConnectError, w)"
    and "reads 3 D t stmt c w = (c', w')" and "now - t < breakerCooldown"
  shows "w' = w \<and> ExecWithMetrics D now OpWrite wr c' w' = (Inl ErrPrimaryUnavailable, c', w')"
proof -
  let ?b = "RecordFailure t (RecordFailure t (RecordFailure t newCircuitBreaker))"
  have "reads 3 D t stmt c w =
      (c\<lparr>dc_readRR := dc_readRR c + 6, dc_breaker := ?b\<rparr>, w)"
    using assms(1-3) by (simp add: numeral_3_eq_3 replica_fault_read add.assoc)
  then have "w' = w" and b: "dc_breaker c' = ?b"
    using assms(4) by auto
  have "cb_state ?b = breakerOpen" and "cb_openedAt ?b = t"
    by (simp_all add: RecordFailure_def newCircuitBreaker_def Let_def wrap32_def breakerFailureThreshold_def)
  then show ?thesis
    using b assms(5) \<open>w' = w\<close>
    by (simp add: ExecWithMetrics_def acquire_def acquire_pool_def Allow_def recordPrimaryOutcome_def)
qed

definition demo_client :: DatabaseClient where
  "demo_client = \<lparr>dc_replicas = 2, dc_readRR = 0, dc_breaker = newCircuitBreaker, dc_acquired = 0, dc_released = 0\<rparr>"

definition demo_driver :: "unit driver" where
  "demo_driver = \<lparr>drv_Acquire = (\<lambda>p w. case p of ReadPool i \<Rightarrow> (Some ConnectError, w) | _ \<Rightarrow> (None, w))\<rparr>"

theorem replica_faults_block_writes_witness:
  "fst (ExecWithMetrics demo_driver 1 OpWrite (\<lambda>p w. (Inr (), w))
     (fst (reads 3 demo_driver 0 (\<lambda>p w. (Inr (), w)) demo_client ())) ()) = Inl ErrPrimaryUnavailable"
proof -
  let ?ok = "\<lambda>(p :: pool) (w :: unit). (Inr () :: db_error + unit, w)"
  obtain c' where c': "reads 3 demo_driver 0 ?ok demo_client () = (c', ())"
    by (metis old.unit.exhaust surj_pair)
  have "ExecWithMetrics demo_driver 1 OpWrite ?ok c' () = (Inl ErrPrimaryUnavailable, c', ())"
    using replica_faults_block_writes [OF _ _ _ c', of 1 ?ok]
    by (simp add: demo_client_def demo_driver_def breakerCooldown_def Second_def)
  then show ?thesis
    using c' by simp
qed

theorem writes_only_primary_witness:
  "ExecWithMetrics demo_driver 1 OpWrite (\<lambda>p w. (Inr (p = WritePool), w)) demo_client () =
   ExecWithMetrics demo_driver 1 OpWrite (\<lambda>p w. (Inr True, w)) demo_client ()"
  using writes_only_primary [of "\<lambda>p w. (Inr (p = WritePool), w)" "\<lambda>p w. (Inr True, w)" demo_driver 1 demo_client "()"]
  by simp

section \<open>Connections are given back exactly once\<close>

definition ends_use :: "handle_call \<Rightarrow> bool" where
  "ends_use k \<longleftrightarrow> k \<in> {CallClose, CallNext False, CallCommit, CallRollback}"

lemma handle_step_released:
  assumes "hd_released h = (if hd_once h then 1 else 0)"
  shows "hd_released (handle_step k h) = (if hd_once (handle_step k h) then 1 else 0)"
    and "hd_once (handle_step k h) \<longleftrightarrow> hd_once h \<or> ends_use k"
  using assms by (cases k; simp add: handle_done_def ends_use_def)+

lemma handle_released_once:
  "hd_released (fold handle_step ks new_handle) = (if list_ex ends_use ks then 1 else 0)"
proof -
  have "hd_released (fold handle_step ks h) = (if hd_once h \<or> list_ex ends_use ks then 1 else 0)"
    if "hd_released h = (if hd_once h then 1 else 0)" for h
    using that
  proof (induction ks arbitrary: h)
    case Nil
    then show ?case
      by simp
  next
    case (Cons k ks)
    show ?case
      using Cons.IH [OF handle_step_released(1) [OF Cons.prems, of k]] handle_step_released(2) [OF Cons.prems, of k]
      by simp
  qed
  then show ?thesis
    by (simp add: new_handle_def)
qed

end
