(* ===== verification/NsCache.thy ===== *)
theory NsCache
  imports Database
begin

text \<open>
  The generational namespace cache of \<^verbatim>\<open>internal/database/cache.go\<close> and the client operations
  that use it: key builders, the generation counter, cache-aside reads, the bump after a committed
  mutation and \<^verbatim>\<open>CommitFileVersion\<close>. Redis is an argument, a record of its commands over a server
  state; \<open>redis_laws\<close> names the documented behaviour of \<^verbatim>\<open>GET\<close>, \<^verbatim>\<open>SET\<close> and \<^verbatim>\<open>INCR\<close> that the
  cache rests on. The JSON form of an entry is given by two further arguments. The coherence claim of
  the source is proved for every interleaving of readers, mutations, bumps, expiry and foreign keys.
\<close>

section \<open>Keys and commands\<close>

record NodeMeta =
  nm_NodeID :: string
  nm_TenantID :: string
  nm_ParentID :: "string option"
  nm_Name :: string
  nm_Type :: string
  nm_LineagePath :: string
  nm_ACLEpoch :: int

definition generationKey :: "string \<Rightarrow> string" where
  "generationKey tenantID = ''aegis:ns:gen:'' @ tenantID"

definition nodeKey :: "string \<Rightarrow> nat \<Rightarrow> string \<Rightarrow> string" where
  "nodeKey tenantID generation nodeID =
     ''aegis:ns:'' @ tenantID @ '':g'' @ format_nat generation @ '':'' @ nodeID"

datatype redis_error = RedisError

record 'k Redis =
  rd_Get :: "string \<Rightarrow> 'k \<Rightarrow> redis_error + string option"
  rd_Set :: "string \<Rightarrow> string \<Rightarrow> duration \<Rightarrow> 'k \<Rightarrow> redis_error option \<times> 'k"
  rd_Incr :: "string \<Rightarrow> 'k \<Rightarrow> (redis_error + nat) \<times> 'k"

text \<open>What Redis documents: a reply to \<^verbatim>\<open>GET\<close> is the value stored, a \<^verbatim>\<open>SET\<close> stores its value under its
  key or (failing) changes nothing, and \<^verbatim>\<open>INCR\<close> stores the successor of the number stored, an absent
  key counting as zero.\<close>

definition redis_laws :: "'k Redis \<Rightarrow> ('k \<Rightarrow> string \<Rightarrow> string option) \<Rightarrow> bool" where
  "redis_laws R stored \<longleftrightarrow>
     (\<forall>key k v. rd_Get R key k = Inr v \<longrightarrow> v = stored k key) \<and>
     (\<forall>key v ttl k. let k' = snd (rd_Set R key v ttl k)
                    in stored k' = stored k \<or> stored k' = (stored k)(key \<mapsto> v)) \<and>
     (\<forall>key k n k'. rd_Incr R key k = (Inr n, k') \<longrightarrow>
        stored k' = (stored k)(key \<mapsto> format_nat n) \<and>
        (case stored k key of None \<Rightarrow> n = 1 | Some s \<Rightarrow> \<forall>m. s = format_nat m \<longrightarrow> n = m + 1))"

section \<open>Operations\<close>

text \<open>\<^verbatim>\<open>StringCmd.Uint64\<close>: decimal digits below \<open>2 ^ 64\<close>.\<close>

definition parse_uint64 :: "string \<Rightarrow> nat option" where
  "parse_uint64 s = (case parse_nat s of None \<Rightarrow> None | Some n \<Rightarrow> if n < 2 ^ 64 then Some n else None)"

definition generation :: "'k Redis \<Rightarrow> string \<Rightarrow> 'k \<Rightarrow> redis_error + nat" where
  "generation R tenantID k =
     (case rd_Get R (generationKey tenantID) k of
        Inl e \<Rightarrow> Inl e
      | Inr None \<Rightarrow> Inr 0
      | Inr (Some s) \<Rightarrow> (case parse_uint64 s of None \<Rightarrow> Inl RedisError | Some n \<Rightarrow> Inr n))"

definition BumpGeneration :: "'k Redis \<Rightarrow> string \<Rightarrow> 'k \<Rightarrow> (redis_error + nat) \<times> 'k" where
  "BumpGeneration R tenantID k = rd_Incr R (generationKey tenantID) k"

record NamespaceCache =
  nc_ttl :: duration
  nc_hits :: int
  nc_misses :: int

text \<open>The JSON codec is the pair \<open>(marshal, unmarshal)\<close>.\<close>

record codec =
  marshal :: "NodeMeta \<Rightarrow> string"
  unmarshal :: "string \<Rightarrow> NodeMeta option"

definition load_and_store ::
  "'k Redis \<Rightarrow> codec \<Rightarrow> string \<Rightarrow> (db_error + NodeMeta) \<Rightarrow> NamespaceCache \<Rightarrow> 'k \<Rightarrow>
   (db_error + NodeMeta) \<times> NamespaceCache \<times> 'k" where
  "load_and_store R J key loaded c k =
     (let c = c\<lparr>nc_misses := nc_misses c + 1\<rparr>
      in case loaded of
           Inl e \<Rightarrow> (Inl e, c, k)
         | Inr m \<Rightarrow> (Inr m, c, snd (rd_Set R key (marshal J m) (nc_ttl c) k)))"

definition GetNodeMetadata ::
  "'k Redis \<Rightarrow> codec \<Rightarrow> string \<Rightarrow> string \<Rightarrow> (db_error + NodeMeta) \<Rightarrow> NamespaceCache \<Rightarrow> 'k \<Rightarrow>
   (db_error + NodeMeta) \<times> NamespaceCache \<times> 'k" where
  "GetNodeMetadata R J tenantID nodeID loaded c k =
     (case generation R tenantID k of
        Inl e \<Rightarrow> (loaded, c, k)
      | Inr gen \<Rightarrow>
          let key = nodeKey tenantID gen nodeID
          in case rd_Get R key k of
               Inr (Some payload) \<Rightarrow>
                 let c = c\<lparr>nc_hits := nc_hits c + 1\<rparr>
                 in (case unmarshal J payload of
                       Some m \<Rightarrow> (Inr m, c, k)
                     | None \<Rightarrow> load_and_store R J key loaded c k)
             | Inr None \<Rightarrow> load_and_store R J key loaded c k
             | Inl e \<Rightarrow> (loaded, c, k))"

definition bumpGenerationOnSuccess ::
  "'k Redis option \<Rightarrow> string \<Rightarrow> 'e option \<Rightarrow> 'k \<Rightarrow> 'k" where
  "bumpGenerationOnSuccess cache tenantID dbErr k =
     (case dbErr of
        Some e \<Rightarrow> k
      | None \<Rightarrow> (case cache of None \<Rightarrow> k | Some R \<Rightarrow> snd (BumpGeneration R tenantID k)))"

text \<open>\<^verbatim>\<open>CommitFileVersion\<close> after its transaction has begun: \<open>flt\<close> gives the faults of the query, the
  insert and the commit; the deferred bump follows the outcome.\<close>

definition CommitFileVersion_tx ::
  "(nat \<Rightarrow> sql_error option) \<Rightarrow> uuid \<Rightarrow> uuid \<Rightarrow> int \<Rightarrow> bytes \<Rightarrow> uuid \<Rightarrow> db \<Rightarrow> (sql_error + int) \<times> db" where
  "CommitFileVersion_tx flt vid nodeID totalSize contentSHA256 createdBy d =
     (case flt 0 of
        Some e \<Rightarrow> (Inl e, d)
      | None \<Rightarrow>
          let v = next_version_number d nodeID
          in case (case flt 1 of Some e \<Rightarrow> Inl e | None \<Rightarrow>
                     insert_version \<lparr>fv_id = vid, fv_node = nodeID, fv_number = v, fv_size = totalSize,
                                     fv_sha = contentSHA256, fv_created_by = createdBy\<rparr> d) of
               Inl e \<Rightarrow> (Inl e, d)
             | Inr d' \<Rightarrow> (case flt 2 of Some e \<Rightarrow> (Inl e, d) | None \<Rightarrow> (Inr v, d')))"

definition CommitFileVersion ::
  "'k Redis option \<Rightarrow> sql_error option \<Rightarrow> (nat \<Rightarrow> sql_error option) \<Rightarrow> string \<Rightarrow> uuid \<Rightarrow> uuid \<Rightarrow> int \<Rightarrow> bytes \<Rightarrow> uuid \<Rightarrow>
   db \<Rightarrow> 'k \<Rightarrow> (sql_error + int) \<times> db \<times> 'k" where
  "CommitFileVersion cache begin_err flt tenantID vid nodeID totalSize contentSHA256 createdBy d k =
     (case (case begin_err of
              Some e \<Rightarrow> (Inl e, d)
            | None \<Rightarrow> CommitFileVersion_tx flt vid nodeID totalSize contentSHA256 createdBy d) of
        (r, d') \<Rightarrow> (r, d', bumpGenerationOnSuccess cache tenantID (err_of r) k))"

section \<open>Keys do not collide\<close>

lemma nodeKey_inject: "nodeKey T g n = nodeKey T g' n' \<longleftrightarrow> g = g' \<and> n = n'"
proof
  assume "nodeKey T g n = nodeKey T g' n'"
  then have eq: "format_nat g @ CHR '':'' # n = format_nat g' @ CHR '':'' # n'"
    by (simp add: nodeKey_def)
  have "CHR '':'' \<notin> set (format_nat g)" for g
    using format_nat_digits is_digit_not_sign(3) by blast
  then show "g = g' \<and> n = n'"
    using append_sep_inject [OF eq] by (simp add: format_nat_inject)
qed simp

lemma nodeKey_not_generationKey:
  assumes "CHR '':'' \<notin> set T"
  shows "nodeKey T g n \<noteq> generationKey T"
proof
  assume "nodeKey T g n = generationKey T"
  then have "T @ CHR '':'' # (''g'' @ format_nat g @ '':'' @ n) = ''gen'' @ CHR '':'' # T"
    by (simp add: nodeKey_def generationKey_def)
  then have "''g'' @ format_nat g @ '':'' @ n = T"
    using append_sep_inject [of T "CHR '':''" _ "''gen''" T] assms by auto
  then show False
    using assms by auto
qed

section \<open>Interleavings\<close>

text \<open>One tenant's entries. \<open>co_db\<close> is the committed row of each node, \<open>co_pending\<close> the number of
  mutations that are committed and whose bump has not happened (yet, or because Redis refused it), and
  \<open>co_rd t\<close> where reader \<open>t\<close> stands: it has read a generation, has missed, has loaded a row, or is done.\<close>

datatype reader = RStart | RGen string nat | RMissed string nat | RLoaded string nat NodeMeta | RDone

record 'k coherence =
  co_kv :: 'k
  co_db :: "string \<Rightarrow> NodeMeta"
  co_pending :: nat
  co_rd :: "nat \<Rightarrow> reader"

inductive cache_step ::
  "'k Redis \<Rightarrow> ('k \<Rightarrow> string \<Rightarrow> string option) \<Rightarrow> codec \<Rightarrow> duration \<Rightarrow> string \<Rightarrow> 'k coherence \<Rightarrow> 'k coherence \<Rightarrow> bool"
  for R stored J ttl T where
  read_gen: "generation R T (co_kv s) = Inr g \<Longrightarrow>
     cache_step R stored J ttl T s (s\<lparr>co_rd := (co_rd s)(t := RGen n g)\<rparr>)"
| hit_or_bypass: "cache_step R stored J ttl T s (s\<lparr>co_rd := (co_rd s)(t := RDone)\<rparr>)"
| miss: "co_rd s t = RGen n g \<Longrightarrow>
     cache_step R stored J ttl T s (s\<lparr>co_rd := (co_rd s)(t := RMissed n g)\<rparr>)"
| load: "co_rd s t = RMissed n g \<Longrightarrow>
     cache_step R stored J ttl T s (s\<lparr>co_rd := (co_rd s)(t := RLoaded n g (co_db s n))\<rparr>)"
| store: "co_rd s t = RLoaded n g m \<Longrightarrow>
     cache_step R stored J ttl T s
       (s\<lparr>co_kv := snd (rd_Set R (nodeKey T g n) (marshal J m) ttl (co_kv s)), co_rd := (co_rd s)(t := RDone)\<rparr>)"
| mutate: "cache_step R stored J ttl T s (s\<lparr>co_db := db', co_pending := co_pending s + 1\<rparr>)"
| bump: "\<lbrakk>co_pending s > 0; BumpGeneration R T (co_kv s) = (Inr g, k')\<rbrakk> \<Longrightarrow>
     cache_step R stored J ttl T s (s\<lparr>co_kv := k', co_pending := co_pending s - 1\<rparr>)"
| expire_or_foreign: "\<lbrakk>stored k' (generationKey T) = stored (co_kv s) (generationKey T);
      \<And>n g. stored k' (nodeKey T g n) = stored (co_kv s) (nodeKey T g n) \<or> stored k' (nodeKey T g n) = None\<rbrakk> \<Longrightarrow>
     cache_step R stored J ttl T s (s\<lparr>co_kv := k'\<rparr>)"

definition live :: "(string \<Rightarrow> string option) \<Rightarrow> string \<Rightarrow> nat \<Rightarrow> bool" where
  "live st T g \<longleftrightarrow> st (generationKey T) = Some (format_nat g) \<or> st (generationKey T) = None \<and> g = 0"

text \<open>A row remembered under a generation is the committed row unless a bump is outstanding or the
  generation is a past one.\<close>

definition fresh :: "'k coherence \<Rightarrow> nat \<Rightarrow> string \<Rightarrow> nat \<Rightarrow> NodeMeta \<Rightarrow> bool" where
  "fresh s G n g m \<longleftrightarrow> g \<le> G \<and> (g = G \<longrightarrow> m = co_db s n \<or> co_pending s > 0)"

definition coherent :: "('k \<Rightarrow> string \<Rightarrow> string option) \<Rightarrow> codec \<Rightarrow> string \<Rightarrow> 'k coherence \<Rightarrow> bool" where
  "coherent stored J T s \<longleftrightarrow> (\<exists>G. live (stored (co_kv s)) T G \<and>
     (\<forall>n g p. stored (co_kv s) (nodeKey T g n) = Some p \<longrightarrow> (\<exists>m. p = marshal J m \<and> fresh s G n g m)) \<and>
     (\<forall>t n g. co_rd s t = RGen n g \<or> co_rd s t = RMissed n g \<longrightarrow> g \<le> G) \<and>
     (\<forall>t n g m. co_rd s t = RLoaded n g m \<longrightarrow> fresh s G n g m))"


section \<open>Coherence\<close>

lemma redis_lawsD:
  assumes "redis_laws R stored"
  shows "rd_Get R key k = Inr v \<Longrightarrow> v = stored k key"
    and "stored (snd (rd_Set R key x ttl k)) = stored k \<or> stored (snd (rd_Set R key x ttl k)) = (stored k)(key \<mapsto> x)"
    and "rd_Incr R key k = (Inr n, k') \<Longrightarrow> stored k' = (stored k)(key \<mapsto> format_nat n)"
    and "rd_Incr R key k = (Inr n, k') \<Longrightarrow> stored k key = None \<Longrightarrow> n = 1"
    and "rd_Incr R key k = (Inr n, k') \<Longrightarrow> stored k key = Some (format_nat m) \<Longrightarrow> n = m + 1"
proof -
  have get: "\<forall>key k v. rd_Get R key k = Inr v \<longrightarrow> v = stored k key"
    and set: "\<forall>key v ttl k. stored (snd (rd_Set R key v ttl k)) = stored k \<or>
      stored (snd (rd_Set R key v ttl k)) = (stored k)(key \<mapsto> v)"
    and inc: "\<forall>key k n k'. rd_Incr R key k = (Inr n, k') \<longrightarrow>
        stored k' = (stored k)(key \<mapsto> format_nat n) \<and>
        (case stored k key of None \<Rightarrow> n = 1 | Some s \<Rightarrow> \<forall>m. s = format_nat m \<longrightarrow> n = m + 1)"
    using assms unfolding redis_laws_def Let_def by blast+
  show "rd_Get R key k = Inr v \<Longrightarrow> v = stored k key"
    and "stored (snd (rd_Set R key x ttl k)) = stored k \<or> stored (snd (rd_Set R key x ttl k)) = (stored k)(key \<mapsto> x)"
    using get set by blast+
  have step: "stored k' = (stored k)(key \<mapsto> format_nat n) \<and>
        (case stored k key of None \<Rightarrow> n = 1 | Some s \<Rightarrow> \<forall>m. s = format_nat m \<longrightarrow> n = m + 1)"
    if "rd_Incr R key k = (Inr n, k')"
    using inc that by blast
  show "rd_Incr R key k = (Inr n, k') \<Longrightarrow> stored k' = (stored k)(key \<mapsto> format_nat n)"
    and "rd_Incr R key k = (Inr n, k') \<Longrightarrow> stored k key = None \<Longrightarrow> n = 1"
    and "rd_Incr R key k = (Inr n, k') \<Longrightarrow> stored k key = Some (format_nat m) \<Longrightarrow> n = m + 1"
    using step by auto
qed

lemma generation_live:
  assumes "redis_laws R stored" and "live (stored k) T G" and "generation R T k = Inr g"
  shows "g = G"
proof -
  obtain v where get: "rd_Get R (generationKey T) k = Inr v"
    using assms(3) by (auto simp: generation_def split: sum.splits)
  have "v = stored k (generationKey T)"
    using redis_lawsD(1) [OF assms(1) get] .
  then show ?thesis
    using assms(2,3) get
    by (auto simp: generation_def live_def parse_uint64_def split: if_splits)
qed

lemma live_bump:
  assumes "redis_laws R stored" and "live (stored k) T G" and "BumpGeneration R T k = (Inr g, k')"
  shows "g = G + 1" and "stored k' = (stored k)(generationKey T \<mapsto> format_nat (G + 1))"
proof -
  have inc: "rd_Incr R (generationKey T) k = (Inr g, k')"
    using assms(3) by (simp add: BumpGeneration_def)
  show "g = G + 1"
    using assms(2) redis_lawsD(4,5) [OF assms(1) inc] by (auto simp: live_def)
  then show "stored k' = (stored k)(generationKey T \<mapsto> format_nat (G + 1))"
    using redis_lawsD(3) [OF assms(1) inc] by simp
qed

lemma live_unique: "live st T G \<Longrightarrow> live st T G' \<Longrightarrow> G = G'"
  by (auto simp: live_def format_nat_inject)

text \<open>The parts of \<open>coherent\<close> at a given live generation.\<close>

definition coherent_at :: "('k \<Rightarrow> string \<Rightarrow> string option) \<Rightarrow> codec \<Rightarrow> string \<Rightarrow> nat \<Rightarrow> 'k coherence \<Rightarrow> bool" where
  "coherent_at stored J T G s \<longleftrightarrow> live (stored (co_kv s)) T G \<and>
     (\<forall>n g p. stored (co_kv s) (nodeKey T g n) = Some p \<longrightarrow> (\<exists>m. p = marshal J m \<and> fresh s G n g m)) \<and>
     (\<forall>t n g. co_rd s t = RGen n g \<or> co_rd s t = RMissed n g \<longrightarrow> g \<le> G) \<and>
     (\<forall>t n g m. co_rd s t = RLoaded n g m \<longrightarrow> fresh s G n g m)"

lemma coherent_iff: "coherent stored J T s \<longleftrightarrow> (\<exists>G. coherent_at stored J T G s)"
  by (simp add: coherent_def coherent_at_def)

lemma fresh_bumped: "fresh s G n g m \<Longrightarrow> fresh s' (G + 1) n g m"
  by (auto simp: fresh_def)

lemma coherent_at_bump:
  assumes laws: "redis_laws R stored" and T: "CHR '':'' \<notin> set T" and co: "coherent_at stored J T G s"
    and bump: "BumpGeneration R T (co_kv s) = (Inr g, k')"
  shows "coherent_at stored J T (G + 1) (s\<lparr>co_kv := k', co_pending := p\<rparr>)"
proof -
  have st: "stored k' = (stored (co_kv s))(generationKey T \<mapsto> format_nat (G + 1))"
    using live_bump(2) [OF laws _ bump] co by (simp add: coherent_at_def)
  have "stored k' (nodeKey T g n) = stored (co_kv s) (nodeKey T g n)" for g n
    using nodeKey_not_generationKey [OF T] by (simp add: st)
  moreover have "live (stored k') T (G + 1)"
    by (simp add: live_def st)
  ultimately show ?thesis
    using co fresh_bumped by (fastforce simp: coherent_at_def)
qed

lemma coherent_at_store:
  assumes laws: "redis_laws R stored" and T: "CHR '':'' \<notin> set T" and co: "coherent_at stored J T G s"
    and rd: "co_rd s t = RLoaded n g m"
  shows "coherent_at stored J T G
    (s\<lparr>co_kv := snd (rd_Set R (nodeKey T g n) (marshal J m) ttl (co_kv s)), co_rd := (co_rd s)(t := RDone)\<rparr>)"
proof -
  let ?k' = "snd (rd_Set R (nodeKey T g n) (marshal J m) ttl (co_kv s))"
  have fr: "fresh s G n g m"
    using co rd by (simp add: coherent_at_def)
  have st: "stored ?k' = stored (co_kv s) \<or> stored ?k' = (stored (co_kv s))(nodeKey T g n \<mapsto> marshal J m)"
    by (rule redis_lawsD(2) [OF laws])
  have gen: "stored ?k' (generationKey T) = stored (co_kv s) (generationKey T)"
    using st nodeKey_not_generationKey [OF T, of g n] by auto
  have "\<exists>m'. p = marshal J m' \<and> fresh s G n' g' m'" if "stored ?k' (nodeKey T g' n') = Some p" for n' g' p
  proof (cases "nodeKey T g' n' = nodeKey T g n \<and> p = marshal J m")
    case True
    then show ?thesis
      using fr by (auto simp: nodeKey_inject)
  next
    case False
    then have "stored (co_kv s) (nodeKey T g' n') = Some p"
      using st that by (auto split: if_splits)
    then show ?thesis
      using co by (simp add: coherent_at_def)
  qed
  then show ?thesis
    using co gen by (auto simp: coherent_at_def live_def fresh_def)
qed

lemma cache_step_coherent:
  assumes step: "cache_step R stored J ttl T s s'" and laws: "redis_laws R stored" and T: "CHR '':'' \<notin> set T"
    and co: "coherent stored J T s"
  shows "coherent stored J T s'"
proof -
  obtain G where G: "coherent_at stored J T G s"
    using co by (auto simp: coherent_iff)
  from step show ?thesis
  proof cases
    case (read_gen g t n)
    then have "g = G"
      using generation_live [OF laws] G by (auto simp: coherent_at_def)
    then have "coherent_at stored J T G s'"
      using G read_gen(1) by (auto simp: coherent_at_def fresh_def)
    then show ?thesis
      by (auto simp: coherent_iff)
  next
    case (store t n g m)
    then show ?thesis
      using coherent_at_store [OF laws T G, of t n g m ttl] unfolding coherent_iff by blast
  next
    case (bump g k')
    then show ?thesis
      using coherent_at_bump [OF laws T G, of g k'] unfolding coherent_iff by blast
  next
    case (expire_or_foreign k')
    then have "\<exists>m. p = marshal J m \<and> fresh s G n g m" if "stored k' (nodeKey T g n) = Some p" for n g p
      using that G by (metis coherent_at_def option.distinct(1))
    then have "coherent_at stored J T G s'"
      using G expire_or_foreign by (simp add: coherent_at_def live_def fresh_def)
    then show ?thesis
      by (auto simp: coherent_iff)
  next
    case (mutate db')
    have "coherent_at stored J T G s'"
      unfolding coherent_at_def
    proof (intro conjI allI impI)
      fix n g p assume "stored (co_kv s') (nodeKey T g n) = Some p"
      then show "\<exists>m. p = marshal J m \<and> fresh s' G n g m"
        using G mutate by (fastforce simp: coherent_at_def fresh_def)
    qed (use G mutate in \<open>auto simp: coherent_at_def fresh_def\<close>)
    then show ?thesis
      by (auto simp: coherent_iff)
  qed (use G in \<open>auto simp: coherent_iff coherent_at_def fresh_def intro!: exI [of _ G]\<close>)
qed

lemma cache_steps_coherent:
  assumes "(cache_step R stored J ttl T)\<^sup>*\<^sup>* s s'" and "redis_laws R stored" and "CHR '':'' \<notin> set T"
    and "coherent stored J T s"
  shows "coherent stored J T s'"
  using assms by induction (auto intro: cache_step_coherent)

lemma GetNodeMetadata_coherent:
  assumes laws: "redis_laws R stored" and json: "\<And>m. unmarshal J (marshal J m) = Some m"
    and co: "coherent stored J T s" and quiet: "co_pending s = 0"
  shows "fst (GetNodeMetadata R J T n (Inr (co_db s n)) c (co_kv s)) = Inr (co_db s n)"
proof (cases "generation R T (co_kv s)")
  case (Inl e)
  then show ?thesis
    by (simp add: GetNodeMetadata_def)
next
  case (Inr g)
  obtain G where G: "coherent_at stored J T G s"
    using co by (auto simp: coherent_iff)
  then have g: "g = G"
    using generation_live [OF laws _ Inr] by (simp add: coherent_at_def)
  show ?thesis
  proof (cases "rd_Get R (nodeKey T g n) (co_kv s)")
    case (Inr v)
    show ?thesis
    proof (cases v)
      case (Some p)
      then have "stored (co_kv s) (nodeKey T g n) = Some p"
        using redis_lawsD(1) [OF laws Inr] by simp
      then have "p = marshal J (co_db s n)"
        using G quiet by (auto simp: coherent_at_def fresh_def g)
      then show ?thesis
        using \<open>generation R T (co_kv s) = Inr g\<close> Inr Some json by (simp add: GetNodeMetadata_def Let_def)
    qed (use \<open>generation R T (co_kv s) = Inr g\<close> Inr in \<open>simp add: GetNodeMetadata_def load_and_store_def Let_def\<close>)
  qed (use Inr in \<open>simp add: GetNodeMetadata_def\<close>)
qed

text \<open>C7. Whatever readers, mutations, bumps, expiries and foreign keys did before and in whatever order,
  once every committed mutation has had its bump a cached read returns the committed row of the node,
  also when Redis fails the read.\<close>

theorem cache_never_stale:
  assumes "redis_laws R stored" and "\<And>m. unmarshal J (marshal J m) = Some m" and "CHR '':'' \<notin> set T"
    and "\<And>key. stored (co_kv s0) key = None" and "co_pending s0 = 0" and "\<And>t. co_rd s0 t = RStart"
    and "(cache_step R stored J ttl T)\<^sup>*\<^sup>* s0 s" and "co_pending s = 0"
  shows "fst (GetNodeMetadata R J T n (Inr (co_db s n)) c (co_kv s)) = Inr (co_db s n)"
proof -
  have "coherent stored J T s0"
    using assms(4,6) by (auto simp: coherent_def live_def)
  then show ?thesis
    using cache_steps_coherent [OF assms(7,1,3)] GetNodeMetadata_coherent [OF assms(1,2)] assms(8) by blast
qed


text \<open>A Redis that never fails: a map.\<close>

definition map_redis :: "(string \<Rightarrow> string option) Redis" where
  "map_redis = \<lparr>rd_Get = (\<lambda>key k. Inr (k key)),
     rd_Set = (\<lambda>key v ttl k. (None, k(key \<mapsto> v))),
     rd_Incr = (\<lambda>key k. let n = (case k key of None \<Rightarrow> 1 | Some s \<Rightarrow> (case parse_nat s of None \<Rightarrow> 1 | Some m \<Rightarrow> m + 1))
                       in (Inr n, k(key \<mapsto> format_nat n)))\<rparr>"

lemma map_redis_laws: "redis_laws map_redis (\<lambda>k. k)"
  by (auto simp: redis_laws_def map_redis_def Let_def split: option.splits)

text \<open>Fields are separated by a length prefix, so that every row can be read back.\<close>

definition put :: "string \<Rightarrow> string" where
  "put s = format_nat (length s) @ '':'' @ s"

definition put_opt :: "string option \<Rightarrow> string" where
  "put_opt x = (case x of None \<Rightarrow> ''-'' | Some s \<Rightarrow> ''+'' @ s)"

definition demo_marshal :: "NodeMeta \<Rightarrow> string" where
  "demo_marshal m = put (nm_NodeID m) @ put (nm_TenantID m) @ put (put_opt (nm_ParentID m)) @ put (nm_Name m) @
     put (nm_Type m) @ put (nm_LineagePath m) @ FormatInt (nm_ACLEpoch m)"

definition get :: "string \<Rightarrow> (string \<times> string) option" where
  "get p = (let ds = takeWhile (\<lambda>c. c \<noteq> CHR '':'') p; r = drop (length ds + 1) p
            in case parse_nat ds of None \<Rightarrow> None | Some n \<Rightarrow> Some (take n r, drop n r))"

definition get_int :: "string \<Rightarrow> int option" where
  "get_int s = (if take 1 s = ''-'' then map_option (\<lambda>n. - int n) (parse_nat (drop 1 s)) else map_option int (parse_nat s))"

definition get_opt :: "string \<Rightarrow> string option" where
  "get_opt s = (if take 1 s = ''+'' then Some (drop 1 s) else None)"

definition demo_unmarshal :: "string \<Rightarrow> NodeMeta option" where
  "demo_unmarshal p0 =
     (case get p0 of None \<Rightarrow> None | Some (node, p1) \<Rightarrow>
      case get p1 of None \<Rightarrow> None | Some (tenant, p2) \<Rightarrow>
      case get p2 of None \<Rightarrow> None | Some (parent, p3) \<Rightarrow>
      case get p3 of None \<Rightarrow> None | Some (name, p4) \<Rightarrow>
      case get p4 of None \<Rightarrow> None | Some (typ, p5) \<Rightarrow>
      case get p5 of None \<Rightarrow> None | Some (lineage, p6) \<Rightarrow>
        map_option (\<lambda>e. \<lparr>nm_NodeID = node, nm_TenantID = tenant, nm_ParentID = get_opt parent, nm_Name = name,
                         nm_Type = typ, nm_LineagePath = lineage, nm_ACLEpoch = e\<rparr>) (get_int p6))"

lemma get_put [simp]: "get (put s @ r) = Some (s, r)"
proof -
  have colon: "CHR '':'' \<notin> set (format_nat g)" for g
    using format_nat_digits is_digit_not_sign(3) by blast
  have "takeWhile (\<lambda>c. c \<noteq> CHR '':'') (format_nat n @ CHR '':'' # q) = format_nat n" for n q
    using colon by (subst takeWhile_append2) auto
  then show ?thesis
    by (simp add: get_def put_def)
qed

lemma get_int_FormatInt [simp]: "get_int (FormatInt z) = Some z"
proof -
  have "take 1 (format_nat n) \<noteq> ''-''" for n
    using format_nat_digits [of "CHR ''-''" n] is_digit_not_sign(1) [of "CHR ''-''"]
    by (cases "format_nat n") auto
  then show ?thesis
    by (auto simp: get_int_def FormatInt_def)
qed

lemma demo_roundtrip [simp]: "demo_unmarshal (demo_marshal m) = Some m"
proof -
  have "get_opt (put_opt x) = x" for x
    by (cases x) (simp_all add: get_opt_def put_opt_def)
  then show ?thesis
    by (simp add: demo_unmarshal_def demo_marshal_def)
qed

definition demo_codec :: codec where
  "demo_codec = \<lparr>marshal = demo_marshal, unmarshal = demo_unmarshal\<rparr>"

definition demo_meta :: "int \<Rightarrow> NodeMeta" where
  "demo_meta e = \<lparr>nm_NodeID = ''n'', nm_TenantID = ''t'', nm_ParentID = None, nm_Name = ''a'', nm_Type = ''FILE'',
     nm_LineagePath = ''n'', nm_ACLEpoch = e\<rparr>"

definition demo_state :: "(string \<Rightarrow> string option) coherence" where
  "demo_state = \<lparr>co_kv = (\<lambda>_. None), co_db = (\<lambda>_. demo_meta 1), co_pending = 0, co_rd = (\<lambda>_. RStart)\<rparr>"

theorem cache_never_stale_witness:
  "fst (GetNodeMetadata map_redis demo_codec ''t'' ''n'' (Inr (demo_meta 1)) \<lparr>nc_ttl = 1, nc_hits = 0, nc_misses = 0\<rparr>
     ((\<lambda>_. None)(nodeKey ''t'' 0 ''n'' \<mapsto> demo_marshal (demo_meta 1)))) = Inr (demo_meta 1)"
proof -
  let ?step = "cache_step map_redis (\<lambda>k. k) demo_codec 1 ''t''"
  let ?s1 = "demo_state\<lparr>co_rd := (co_rd demo_state)(0 := RGen ''n'' 0)\<rparr>"
  let ?s2 = "?s1\<lparr>co_rd := (co_rd ?s1)(0 := RMissed ''n'' 0)\<rparr>"
  let ?s3 = "?s2\<lparr>co_rd := (co_rd ?s2)(0 := RLoaded ''n'' 0 (co_db ?s2 ''n''))\<rparr>"
  let ?s4 = "?s3\<lparr>co_kv := snd (rd_Set map_redis (nodeKey ''t'' 0 ''n'') (marshal demo_codec (co_db ?s2 ''n'')) 1 (co_kv ?s3)),
    co_rd := (co_rd ?s3)(0 := RDone)\<rparr>"
  have "?step demo_state ?s1"
    by (rule read_gen) (simp add: generation_def map_redis_def demo_state_def)
  moreover have "?step ?s1 ?s2"
    by (rule miss) simp
  moreover have "?step ?s2 ?s3"
    by (rule load) simp
  moreover have "?step ?s3 ?s4"
    by (rule store) simp
  ultimately have "?step\<^sup>*\<^sup>* demo_state ?s4"
    by (meson converse_rtranclp_into_rtranclp r_into_rtranclp)
  then show ?thesis
    using cache_never_stale [OF map_redis_laws, of demo_codec "''t''" demo_state 1 ?s4 "''n''"]
    by (simp add: demo_codec_def demo_state_def map_redis_def fun_upd_def)
qed

end
