(* ===== verification/Namespace.thy ===== *)
theory Namespace
  imports NsCache Store "HOL-Library.Sublist"
begin

text \<open>
  The hierarchical namespace: the table \<^verbatim>\<open>namespace_nodes\<close> with its lineage paths (db/schema.sql), the trigger and procedures that
  maintain it (db/stored-procedures.sql: \<^verbatim>\<open>nodes_lineage_guard\<close>, \<^verbatim>\<open>create_root\<close>, \<^verbatim>\<open>move_directory\<close>, \<^verbatim>\<open>soft_delete_node\<close>), and the
  database client's operations on it (internal/database/client.go: \<^verbatim>\<open>MoveDirectory\<close>, \<^verbatim>\<open>GrantACLEntry\<close>, \<^verbatim>\<open>GetNodeMetadataCached\<close>). A
  lineage path is the list of the node identifiers whose labels it joins; labels are an injective spelling of
  identifiers. A procedure runs as one transaction; what two of them do under the default isolation is looked at apart.
\<close>

section \<open>Rows and constraints\<close>

record ns_row =
  ns_id :: uuid
  ns_tenant :: uuid
  ns_parent :: "uuid option"
  ns_name :: string
  ns_type :: string
  ns_path :: "uuid list"
  ns_epoch :: int
  ns_deleted :: bool

datatype ns_error =
    ParentMissing | CrossTenantParent | ParentNotDirectory | ParentDeleted
  | DirectReparent | RootMoveForbidden | InvalidTargetParent | LineageTamper
  | MoveInvalidArguments | MoveNodeNotFound | SourceDeleted | TargetNotDirectory | TargetDeleted | Cycle | NameConflict
  | MoveRemappedZeroRows | NodeNotFound | InvalidUUID | NameTooLong | SqlError sql_error

definition ns_find :: "uuid \<Rightarrow> ns_row list \<Rightarrow> ns_row option" where
  "ns_find i rows = List.find (\<lambda>r. ns_id r = i) rows"

definition ns_find_in :: "uuid \<Rightarrow> uuid \<Rightarrow> ns_row list \<Rightarrow> ns_row option" where
  "ns_find_in t i rows = List.find (\<lambda>r. ns_id r = i \<and> ns_tenant r = t) rows"

text \<open>\<^verbatim>\<open>uq_parent_name\<close> (null parents never clash) and \<^verbatim>\<open>uq_tenant_root\<close>.\<close>

definition clashes :: "ns_row \<Rightarrow> ns_row \<Rightarrow> bool" where
  "clashes r r' \<longleftrightarrow> ns_id r \<noteq> ns_id r' \<and> ns_tenant r = ns_tenant r' \<and>
     (if ns_parent r = None then ns_parent r' = None
      else ns_parent r = ns_parent r' \<and> ns_name r = ns_name r' \<and> ns_deleted r = ns_deleted r')"

text \<open>\<^verbatim>\<open>length(btrim(name)) > 0\<close> and \<^verbatim>\<open>VARCHAR(255)\<close>, for single-byte names.\<close>

definition row_check :: "ns_row \<Rightarrow> ns_error option" where
  "row_check r =
     (if length (ns_name r) > 255 then Some NameTooLong
      else if \<not> (ns_type r = ''DIRECTORY'' \<or> ns_parent r \<noteq> None) \<or> list_all (\<lambda>c. c = CHR '' '') (ns_name r) \<or> ns_epoch r < 1
      then Some (SqlError CheckViolation)
      else if \<not> is_int64 (ns_epoch r) then Some (SqlError OutOfRange)
      else None)"

definition table_check :: "ns_row list \<Rightarrow> ns_error option" where
  "table_check rows =
     (case List.find (\<lambda>r. row_check r \<noteq> None) rows of
        Some r \<Rightarrow> row_check r
      | None \<Rightarrow> if list_ex (\<lambda>r. list_ex (clashes r) rows) rows then Some (SqlError UniqueViolation) else None)"

section \<open>The lineage trigger\<close>

definition guard_insert :: "ns_row list \<Rightarrow> ns_row \<Rightarrow> ns_error + ns_row" where
  "guard_insert rows new =
     (case ns_parent new of
        None \<Rightarrow> Inr (new\<lparr>ns_path := [ns_id new]\<rparr>)
      | Some p \<Rightarrow>
          (case ns_find p rows of
             None \<Rightarrow> Inl ParentMissing
           | Some q \<Rightarrow>
               if ns_tenant q \<noteq> ns_tenant new then Inl CrossTenantParent
               else if ns_type q \<noteq> ''DIRECTORY'' then Inl ParentNotDirectory
               else if ns_deleted q then Inl ParentDeleted
               else Inr (new\<lparr>ns_path := ns_path q @ [ns_id new]\<rparr>)))"

text \<open>\<open>allow\<close> is the transaction's setting \<^verbatim>\<open>aegis.allow_move\<close>.\<close>

definition guard_update :: "bool \<Rightarrow> ns_row list \<Rightarrow> ns_row \<Rightarrow> ns_row \<Rightarrow> ns_error + ns_row" where
  "guard_update allow rows old new =
     (if ns_parent new \<noteq> ns_parent old then
        if \<not> allow then Inl DirectReparent
        else
          (case ns_parent new of
             None \<Rightarrow> Inl RootMoveForbidden
           | Some p \<Rightarrow>
               (case ns_find p rows of
                  None \<Rightarrow> Inl InvalidTargetParent
                | Some q \<Rightarrow>
                    if ns_tenant q \<noteq> ns_tenant new \<or> ns_type q \<noteq> ''DIRECTORY'' \<or> ns_deleted q then Inl InvalidTargetParent
                    else Inr (new\<lparr>ns_path := ns_path q @ [ns_id new]\<rparr>)))
      else if ns_path new \<noteq> ns_path old \<and> \<not> allow then Inl LineageTamper
      else Inr new)"

text \<open>An \<^verbatim>\<open>UPDATE\<close> of the rows in \<open>sel\<close> by \<open>f\<close>, with the trigger on each and the constraints at the end. The trigger of a row sees the
  rows before it already updated.\<close>

fun guard_rows :: "bool \<Rightarrow> (ns_row \<Rightarrow> bool) \<Rightarrow> (ns_row \<Rightarrow> ns_row) \<Rightarrow> ns_row list \<Rightarrow> ns_row list \<Rightarrow> ns_error + ns_row list" where
  "guard_rows allow sel f seen [] = Inr seen"
| "guard_rows allow sel f seen (r # rs) =
     bindE (if sel r then guard_update allow (seen @ r # rs) r (f r) else Inr r)
       (\<lambda>r'. guard_rows allow sel f (seen @ [r']) rs)"

definition ns_update :: "bool \<Rightarrow> (ns_row \<Rightarrow> bool) \<Rightarrow> (ns_row \<Rightarrow> ns_row) \<Rightarrow> ns_row list \<Rightarrow> ns_error + ns_row list" where
  "ns_update allow sel f rows =
     bindE (guard_rows allow sel f [] rows)
       (\<lambda>rows'. case table_check rows' of Some e \<Rightarrow> Inl e | None \<Rightarrow> Inr rows')"

section \<open>Procedures\<close>

text \<open>\<open>ts\<close> are the identifiers of the table the foreign key refers to.\<close>

definition ns_insert :: "uuid list \<Rightarrow> ns_row \<Rightarrow> ns_row list \<Rightarrow> ns_error + ns_row list" where
  "ns_insert ts new rows =
     bindE (guard_insert rows new)
       (\<lambda>r. if ns_id r \<in> ns_id ` set rows then Inl (SqlError UniqueViolation)
            else (case table_check (rows @ [r]) of Some e \<Rightarrow> Inl e | None \<Rightarrow> Inr (rows @ [r])))"

definition create_root :: "uuid list \<Rightarrow> uuid \<Rightarrow> string \<Rightarrow> uuid \<Rightarrow> ns_row list \<Rightarrow> ns_error + uuid \<times> ns_row list" where
  "create_root ts t name i rows =
     bindE (ns_insert ts \<lparr>ns_id = i, ns_tenant = t, ns_parent = None, ns_name = name, ns_type = ''DIRECTORY'', ns_path = [],
                       ns_epoch = 1, ns_deleted = False\<rparr> rows)
       (\<lambda>rows'. Inr (i, rows'))"

text \<open>\<^verbatim>\<open>lineage_path <@ p\<close>: the row lies in the subtree of the path \<open>p\<close>.\<close>

definition under :: "uuid list \<Rightarrow> ns_row \<Rightarrow> bool" where
  "under p r \<longleftrightarrow> prefix p (ns_path r)"

definition remap :: "uuid \<Rightarrow> uuid \<Rightarrow> uuid list \<Rightarrow> uuid list \<Rightarrow> ns_row \<Rightarrow> ns_row" where
  "remap n np src_path dst_path r =
     r\<lparr>ns_parent := (if ns_id r = n then Some np else ns_parent r),
       ns_path := (if ns_id r = n then dst_path @ [n] else dst_path @ [n] @ drop (length src_path) (ns_path r)),
       ns_epoch := ns_epoch r + 1\<rparr>"

text \<open>The checks of the procedure yield the two paths.\<close>

definition move_check :: "uuid \<Rightarrow> uuid \<Rightarrow> uuid \<Rightarrow> ns_row list \<Rightarrow> ns_error + uuid list \<times> uuid list" where
  "move_check t n np rows =
     (if n = np then Inl MoveInvalidArguments
      else
        (case (ns_find_in t n rows, ns_find_in t np rows) of
           (Some src, Some dst) \<Rightarrow>
             if ns_parent src = None then Inl RootMoveForbidden
             else if ns_deleted src then Inl SourceDeleted
             else if ns_type dst \<noteq> ''DIRECTORY'' then Inl TargetNotDirectory
             else if ns_deleted dst then Inl TargetDeleted
             else if prefix (ns_path src) (ns_path dst) then Inl Cycle
             else if list_ex (\<lambda>r. ns_tenant r = t \<and> ns_parent r = Some np \<and> ns_name r = ns_name src \<and> \<not> ns_deleted r \<and> ns_id r \<noteq> n) rows
             then Inl NameConflict
             else Inr (ns_path src, ns_path dst)
         | _ \<Rightarrow> Inl MoveNodeNotFound))"

definition move_selects :: "uuid \<Rightarrow> uuid \<Rightarrow> uuid list \<Rightarrow> ns_row \<Rightarrow> bool" where
  "move_selects t n src_path r \<longleftrightarrow> ns_tenant r = t \<and> (ns_id r = n \<or> under src_path r)"

definition move_directory :: "uuid \<Rightarrow> uuid \<Rightarrow> uuid \<Rightarrow> ns_row list \<Rightarrow> ns_error + ns_row list" where
  "move_directory t n np rows =
     bindE (move_check t n np rows)
       (\<lambda>(src_path, dst_path).
          bindE (ns_update True (move_selects t n src_path) (remap n np src_path dst_path) rows)
            (\<lambda>rows'. if list_ex (move_selects t n src_path) rows then Inr rows' else Inl MoveRemappedZeroRows))"

text \<open>\<^verbatim>\<open>name || '~del:' || substr(node_id::text, 1, 8)\<close>; the strict descendants only get a new epoch.\<close>

definition tombstone :: "uuid_pkg \<Rightarrow> ns_row \<Rightarrow> ns_row" where
  "tombstone U x =
     x\<lparr>ns_deleted := True, ns_name := ns_name x @ ''~del:'' @ take 8 (u_str U (ns_id x)), ns_epoch := ns_epoch x + 1\<rparr>"

definition soft_delete_node :: "uuid_pkg \<Rightarrow> uuid \<Rightarrow> uuid \<Rightarrow> ns_row list \<Rightarrow> ns_error + ns_row list" where
  "soft_delete_node U t n rows =
     (case ns_find_in t n rows of
        None \<Rightarrow> Inl NodeNotFound
      | Some r \<Rightarrow>
          bindE (ns_update False (\<lambda>x. ns_tenant x = t \<and> ns_id x = n) (tombstone U) rows)
            (ns_update False (\<lambda>x. ns_tenant x = t \<and> under (ns_path r) x \<and> ns_id x \<noteq> n) (\<lambda>x. x\<lparr>ns_epoch := ns_epoch x + 1\<rparr>)))"

section \<open>The client's operations\<close>

text \<open>A transaction that runs one statement: a fault of the connection when it begins, executes or commits leaves the table
  as it was, and a successful mutation moves the cache's generation.\<close>

definition in_write_tx :: "(nat \<Rightarrow> ns_error option) \<Rightarrow> ('a \<Rightarrow> ns_error + 'a) \<Rightarrow> 'a \<Rightarrow> ns_error option \<times> 'a" where
  "in_write_tx flt stmt d =
     (case flt 0 of
        Some e \<Rightarrow> (Some e, d)
      | None \<Rightarrow>
          (case (case flt 1 of Some e \<Rightarrow> Inl e | None \<Rightarrow> stmt d) of
             Inl e \<Rightarrow> (Some e, d)
           | Inr d' \<Rightarrow> (case flt 2 of Some e \<Rightarrow> (Some e, d) | None \<Rightarrow> (None, d'))))"

definition MoveDirectory ::
  "uuid_pkg \<Rightarrow> 'k Redis option \<Rightarrow> (nat \<Rightarrow> ns_error option) \<Rightarrow> string \<Rightarrow> string \<Rightarrow> string \<Rightarrow> ns_row list \<Rightarrow> 'k \<Rightarrow>
   ns_error option \<times> ns_row list \<times> 'k" where
  "MoveDirectory U cache flt tenantID nodeID newParentID rows k =
     (case in_write_tx flt
             (\<lambda>d. case (u_parse U tenantID, u_parse U nodeID, u_parse U newParentID) of
                    (Some t, Some n, Some p) \<Rightarrow> move_directory t n p d
                  | _ \<Rightarrow> Inl InvalidUUID) rows of
        (e, rows') \<Rightarrow> (e, rows', bumpGenerationOnSuccess cache tenantID e k))"

record acl_row =
  ac_tenant :: uuid
  ac_node :: uuid
  ac_ptype :: string
  ac_principal :: uuid
  ac_role :: string
  ac_granted_by :: uuid

definition insert_acl :: "(uuid \<Rightarrow> bool) \<Rightarrow> ns_row list \<Rightarrow> acl_row \<Rightarrow> acl_row list \<Rightarrow> ns_error + acl_row list" where
  "insert_acl tenant_exists nodes a acls =
     (if ac_ptype a \<notin> set [''USER'', ''GROUP'', ''SERVICE''] \<or> ac_role a \<notin> set [''OWNER'', ''EDITOR'', ''VIEWER''] then Inl (SqlError CheckViolation)
      else if list_ex (\<lambda>b. ac_tenant b = ac_tenant a \<and> ac_node b = ac_node a \<and> ac_ptype b = ac_ptype a \<and>
                           ac_principal b = ac_principal a \<and> ac_role b = ac_role a) acls then Inl (SqlError UniqueViolation)
      else if \<not> tenant_exists (ac_tenant a) \<or> ac_node a \<notin> ns_id ` set nodes then Inl (SqlError ForeignKeyViolation)
      else Inr (acls @ [a]))"

definition GrantACLEntry ::
  "uuid_pkg \<Rightarrow> 'k Redis option \<Rightarrow> (nat \<Rightarrow> ns_error option) \<Rightarrow> (uuid \<Rightarrow> bool) \<Rightarrow> ns_row list \<Rightarrow> string \<Rightarrow> string \<Rightarrow> string \<Rightarrow> string \<Rightarrow>
   string \<Rightarrow> string \<Rightarrow> acl_row list \<Rightarrow> 'k \<Rightarrow> ns_error option \<times> acl_row list \<times> 'k" where
  "GrantACLEntry U cache flt tenant_exists nodes tenantID nodeID principalType principalID role grantedBy acls k =
     (case in_write_tx flt
             (\<lambda>d. case (u_parse U tenantID, u_parse U nodeID, u_parse U principalID, u_parse U grantedBy) of
                    (Some t, Some n, Some p, Some g) \<Rightarrow>
                      insert_acl tenant_exists nodes
                        \<lparr>ac_tenant = t, ac_node = n, ac_ptype = principalType, ac_principal = p, ac_role = role, ac_granted_by = g\<rparr> d
                  | _ \<Rightarrow> Inl InvalidUUID) acls of
        (e, acls') \<Rightarrow> (e, acls', bumpGenerationOnSuccess cache tenantID e k))"

text \<open>The metadata of a node as the query selects it: the path is printed by \<open>path_text\<close>.\<close>

definition node_meta :: "uuid_pkg \<Rightarrow> (uuid list \<Rightarrow> string) \<Rightarrow> ns_row \<Rightarrow> NodeMeta" where
  "node_meta U path_text r =
     \<lparr>nm_NodeID = u_str U (ns_id r), nm_TenantID = u_str U (ns_tenant r), nm_ParentID = map_option (u_str U) (ns_parent r),
      nm_Name = ns_name r, nm_Type = ns_type r, nm_LineagePath = path_text (ns_path r), nm_ACLEpoch = ns_epoch r\<rparr>"

text \<open>\<open>acq\<close> is the outcome of acquiring a metadata connection, \<open>no_rows\<close> the error of scanning no row.\<close>

definition load_node :: "uuid_pkg \<Rightarrow> (uuid list \<Rightarrow> string) \<Rightarrow> db_error option \<Rightarrow> db_error \<Rightarrow> uuid \<Rightarrow> uuid \<Rightarrow> ns_row list \<Rightarrow> db_error + NodeMeta" where
  "load_node U path_text acq no_rows t n rows =
     (case acq of
        Some e \<Rightarrow> Inl e
      | None \<Rightarrow> (case ns_find_in t n rows of None \<Rightarrow> Inl no_rows | Some r \<Rightarrow> Inr (node_meta U path_text r)))"

definition GetNodeMetadataCached ::
  "('k Redis \<times> codec) option \<Rightarrow> string \<Rightarrow> string \<Rightarrow> (db_error + NodeMeta) \<Rightarrow> NamespaceCache \<Rightarrow> 'k \<Rightarrow>
   (db_error + NodeMeta) \<times> NamespaceCache \<times> 'k" where
  "GetNodeMetadataCached cache tenantID nodeID loaded c k =
     (case cache of
        None \<Rightarrow> (loaded, c, k)
      | Some (R, J) \<Rightarrow> GetNodeMetadata R J tenantID nodeID loaded c k)"

section \<open>The tree\<close>

text \<open>A row is placed: a root's path is its own label, any other row hangs below a directory of its tenant and its path extends
  the path of that directory by its own label.\<close>

definition placed :: "ns_row list \<Rightarrow> ns_row \<Rightarrow> bool" where
  "placed rows r \<longleftrightarrow>
     (case ns_parent r of
        None \<Rightarrow> ns_path r = [ns_id r]
      | Some p \<Rightarrow>
          (case ns_find p rows of
             None \<Rightarrow> False
           | Some q \<Rightarrow> ns_tenant q = ns_tenant r \<and> ns_type q = ''DIRECTORY'' \<and> ns_path r = ns_path q @ [ns_id r]))"

definition ns_ok :: "ns_row list \<Rightarrow> bool" where
  "ns_ok rows \<longleftrightarrow> distinct (map ns_id rows) \<and> list_all (placed rows) rows"

definition parent_of :: "ns_row list \<Rightarrow> (uuid \<times> uuid) set" where
  "parent_of rows = {(ns_id r, p) |r p. r \<in> set rows \<and> ns_parent r = Some p}"

lemma ns_find_SomeD: "ns_find i rows = Some r \<Longrightarrow> r \<in> set rows \<and> ns_id r = i"
  by (auto simp: ns_find_def find_Some_iff)

lemma ns_find_iff: "distinct (map ns_id rows) \<Longrightarrow> ns_find i rows = Some r \<longleftrightarrow> r \<in> set rows \<and> ns_id r = i"
  by (induction rows) (auto simp: ns_find_def)

lemma ns_find_None: "ns_find i rows = None \<longleftrightarrow> i \<notin> ns_id ` set rows"
  by (auto simp: ns_find_def find_None_iff)

lemma ns_find_map: "(\<And>r. ns_id (F r) = ns_id r) \<Longrightarrow> ns_find i (map F rows) = map_option F (ns_find i rows)"
  by (induction rows) (auto simp: ns_find_def)

lemma ns_find_append: "ns_find i (xs @ ys) = (case ns_find i xs of Some r \<Rightarrow> Some r | None \<Rightarrow> ns_find i ys)"
  by (induction xs) (auto simp: ns_find_def)

lemma ns_find_inD: "ns_find_in t i rows = Some r \<Longrightarrow> r \<in> set rows \<and> ns_id r = i \<and> ns_tenant r = t"
  by (auto simp: ns_find_in_def find_Some_iff)

lemma ns_same_id: "ns_ok rows \<Longrightarrow> r \<in> set rows \<Longrightarrow> r' \<in> set rows \<Longrightarrow> ns_id r = ns_id r' \<Longrightarrow> r = r'"
  by (auto simp: ns_ok_def distinct_map inj_on_def)

lemma ns_okD: "ns_ok rows \<Longrightarrow> r \<in> set rows \<Longrightarrow> placed rows r"
  by (simp add: ns_ok_def list_all_iff)

lemma ns_ok_cases:
  assumes "ns_ok rows" "r \<in> set rows"
  obtains (root) "ns_parent r = None" "ns_path r = [ns_id r]"
  | (below) q where "q \<in> set rows" "ns_parent r = Some (ns_id q)" "ns_tenant q = ns_tenant r" "ns_type q = ''DIRECTORY''"
      "ns_path r = ns_path q @ [ns_id r]"
  using ns_okD[OF assms] by (auto simp: placed_def split: option.splits dest: ns_find_SomeD)

lemma ns_path_last: "ns_ok rows \<Longrightarrow> r \<in> set rows \<Longrightarrow> ns_path r \<noteq> [] \<and> last (ns_path r) = ns_id r"
  by (erule (1) ns_ok_cases) auto

lemma ns_okI:
  assumes "distinct (map ns_id rows)"
    and "\<And>r. r \<in> set rows \<Longrightarrow> ns_parent r = None \<and> ns_path r = [ns_id r] \<or>
      (\<exists>q. q \<in> set rows \<and> ns_parent r = Some (ns_id q) \<and> ns_tenant q = ns_tenant r \<and> ns_type q = ''DIRECTORY'' \<and>
           ns_path r = ns_path q @ [ns_id r])"
  shows "ns_ok rows"
proof -
  have "placed rows r" if "r \<in> set rows" for r
    using assms(2)[OF that]
  proof (elim disjE exE conjE)
    fix q assume "q \<in> set rows" and par: "ns_parent r = Some (ns_id q)"
      and q: "ns_tenant q = ns_tenant r" "ns_type q = ''DIRECTORY''" "ns_path r = ns_path q @ [ns_id r]"
    then have "ns_find (ns_id q) rows = Some q" using ns_find_iff[OF assms(1)] by simp
    with par q show ?thesis unfolding placed_def by (simp only: option.case)
  qed (simp add: placed_def)
  with assms(1) show ?thesis by (simp add: ns_ok_def list_all_iff)
qed

subsection \<open>The path spells the ancestors\<close>

lemma parent_of_iff: "(i, p) \<in> parent_of rows \<longleftrightarrow> (\<exists>r\<in>set rows. ns_id r = i \<and> ns_parent r = Some p)"
  by (auto simp: parent_of_def)

lemma ancestor_prefix:
  assumes "ns_ok rows" "(i, j) \<in> (parent_of rows)\<^sup>*"
  shows "\<lbrakk>r \<in> set rows; ns_id r = i\<rbrakk> \<Longrightarrow> \<exists>d\<in>set rows. ns_id d = j \<and> ns_tenant d = ns_tenant r \<and> prefix (ns_path d) (ns_path r)"
  using assms(2)
proof (induction arbitrary: r rule: converse_rtrancl_induct)
  case base
  then show ?case by auto
next
  case (step i k)
  from step.hyps(1) obtain r' where r': "r' \<in> set rows" "ns_id r' = i" "ns_parent r' = Some k" by (auto simp: parent_of_iff)
  with step.prems have eq: "r' = r" using ns_same_id[OF assms(1)] by simp
  from assms(1) step.prems(1) show ?case
  proof (cases rule: ns_ok_cases)
    case root
    with r' eq show ?thesis by simp
  next
    case (below q)
    with r' eq have "ns_id q = k" by simp
    from step.IH[OF below(1) this] below show ?thesis by (auto simp: prefix_append)
  qed
qed

lemma prefix_ancestor:
  assumes "ns_ok rows" "d \<in> set rows"
  shows "\<lbrakk>r \<in> set rows; prefix (ns_path d) (ns_path r)\<rbrakk> \<Longrightarrow> (ns_id r, ns_id d) \<in> (parent_of rows)\<^sup>*"
proof (induction "length (ns_path r)" arbitrary: r rule: less_induct)
  case less
  show ?case
  proof (cases "ns_path d = ns_path r")
    case True
    then have "ns_id d = ns_id r" using ns_path_last[OF assms(1)] assms(2) less.prems(1) by metis
    then show ?thesis by simp
  next
    case False
    from assms(1) less.prems(1) show ?thesis
    proof (cases rule: ns_ok_cases)
      case root
      with less.prems False ns_path_last[OF assms] show ?thesis by (auto simp: prefix_Cons)
    next
      case (below q)
      with less.prems False have "prefix (ns_path d) (ns_path q)" by (auto simp: prefix_snoc)
      with less.hyps[of q] below have "(ns_id q, ns_id d) \<in> (parent_of rows)\<^sup>*" by simp
      moreover have "(ns_id r, ns_id q) \<in> parent_of rows" using below less.prems(1) by (auto simp: parent_of_iff)
      ultimately show ?thesis by (rule converse_rtrancl_into_rtrancl[rotated])
    qed
  qed
qed

lemma lineage_is_ancestry:
  assumes "ns_ok rows" "d \<in> set rows" "r \<in> set rows"
  shows "under (ns_path d) r \<longleftrightarrow> (ns_id r, ns_id d) \<in> (parent_of rows)\<^sup>*"
  unfolding under_def
proof
  show "prefix (ns_path d) (ns_path r) \<Longrightarrow> (ns_id r, ns_id d) \<in> (parent_of rows)\<^sup>*"
    using prefix_ancestor[OF assms] .
  assume "(ns_id r, ns_id d) \<in> (parent_of rows)\<^sup>*"
  from ancestor_prefix[OF assms(1) this assms(3) refl] show "prefix (ns_path d) (ns_path r)"
    using ns_same_id[OF assms(1) _ assms(2)] by auto
qed

lemma parent_of_shortens:
  assumes "ns_ok rows" "(i, j) \<in> (parent_of rows)\<^sup>+"
  shows "\<lbrakk>r \<in> set rows; ns_id r = i\<rbrakk> \<Longrightarrow> \<exists>q\<in>set rows. ns_id q = j \<and> length (ns_path q) < length (ns_path r)"
proof -
  assume r: "r \<in> set rows" "ns_id r = i"
  from assms(2) obtain k where k: "(i, k) \<in> parent_of rows" "(k, j) \<in> (parent_of rows)\<^sup>*" by (auto dest: tranclD)
  from k(1) r obtain r' where "r' \<in> set rows" "ns_id r' = i" "ns_parent r' = Some k" by (auto simp: parent_of_iff)
  with r have par: "ns_parent r = Some k" using ns_same_id[OF assms(1)] by metis
  from assms(1) r(1) show ?thesis
  proof (cases rule: ns_ok_cases)
    case root
    with par show ?thesis by simp
  next
    case (below q)
    with par have "ns_id q = k" by simp
    from ancestor_prefix[OF assms(1) k(2) below(1) this] below show ?thesis by (auto dest!: prefix_length_le)
  qed
qed

lemma ns_ok_acyclic: "ns_ok rows \<Longrightarrow> acyclic (parent_of rows)"
proof (rule acyclicI, intro allI notI)
  fix i
  assume ok: "ns_ok rows" and i: "(i, i) \<in> (parent_of rows)\<^sup>+"
  then obtain r where r: "r \<in> set rows" "ns_id r = i" by (auto dest!: tranclD simp: parent_of_iff)
  from parent_of_shortens[OF ok i r] r ns_same_id[OF ok] show False by (metis less_irrefl)
qed

section \<open>Every operation keeps the tree\<close>

lemma guard_rows_map:
  assumes "\<And>xs r ys. rows = xs @ r # ys \<Longrightarrow> sel r \<Longrightarrow>
      guard_update allow (map (\<lambda>r. if sel r then f r else r) xs @ r # ys) r (f r) = Inr (f r)"
  shows "guard_rows allow sel f [] rows = Inr (map (\<lambda>r. if sel r then f r else r) rows)"
proof -
  have "guard_rows allow sel f (map (\<lambda>r. if sel r then f r else r) xs) ys = Inr (map (\<lambda>r. if sel r then f r else r) rows)"
    if "rows = xs @ ys" for xs ys
    using that
  proof (induction ys arbitrary: xs)
    case (Cons r ys)
    from Cons.IH[of "xs @ [r]"] Cons.prems assms[of xs r ys] show ?case by (cases "sel r") simp_all
  qed simp
  from this[of "[]" rows] show ?thesis by simp
qed

lemma ns_update_Inr:
  "ns_update allow sel f rows = Inr rows' \<longleftrightarrow> guard_rows allow sel f [] rows = Inr rows' \<and> table_check rows' = None"
  by (auto simp: ns_update_def bindE_Inr split: option.splits)

text \<open>An update that touches neither parents nor paths passes the trigger.\<close>

lemma ns_update_attrs:
  assumes "\<And>r. ns_parent (f r) = ns_parent r \<and> ns_path (f r) = ns_path r"
  shows "ns_update allow sel f rows = Inr rows' \<longleftrightarrow>
    rows' = map (\<lambda>r. if sel r then f r else r) rows \<and> table_check rows' = None"
proof -
  have "guard_rows allow sel f [] rows = Inr (map (\<lambda>r. if sel r then f r else r) rows)"
    by (rule guard_rows_map) (simp add: guard_update_def assms)
  then show ?thesis by (auto simp: ns_update_Inr)
qed

lemma ns_ok_map_attrs:
  assumes "ns_ok rows"
    and f: "\<And>r. ns_id (f r) = ns_id r \<and> ns_tenant (f r) = ns_tenant r \<and> ns_type (f r) = ns_type r \<and> ns_parent (f r) = ns_parent r \<and> ns_path (f r) = ns_path r"
  shows "ns_ok (map f rows)"
proof (rule ns_okI)
  show "distinct (map ns_id (map f rows))" using assms(1) f by (simp add: ns_ok_def comp_def)
  fix r' assume "r' \<in> set (map f rows)"
  then obtain r where r: "r \<in> set rows" "r' = f r" by auto
  from assms(1) r(1) show "ns_parent r' = None \<and> ns_path r' = [ns_id r'] \<or>
      (\<exists>q. q \<in> set (map f rows) \<and> ns_parent r' = Some (ns_id q) \<and> ns_tenant q = ns_tenant r' \<and> ns_type q = ''DIRECTORY'' \<and>
           ns_path r' = ns_path q @ [ns_id r'])"
  proof (cases rule: ns_ok_cases)
    case root
    with r f show ?thesis by simp
  next
    case (below q)
    with r f have "f q \<in> set (map f rows) \<and> ns_parent r' = Some (ns_id (f q)) \<and> ns_tenant (f q) = ns_tenant r' \<and>
      ns_type (f q) = ''DIRECTORY'' \<and> ns_path r' = ns_path (f q) @ [ns_id r']" by simp
    then show ?thesis by blast
  qed
qed

lemma ns_insert_ok:
  assumes ok: "ns_ok rows" and ins: "ns_insert ts new rows = Inr rows'"
  shows "ns_ok rows' \<and> table_check rows' = None"
proof -
  from ins obtain r where g: "guard_insert rows new = Inr r" and new: "ns_id r \<notin> ns_id ` set rows"
    and rows': "rows' = rows @ [r]" and chk: "table_check rows' = None"
    by (auto simp: ns_insert_def bindE_Inr split: if_splits option.splits)
  have "ns_ok (rows @ [r])"
  proof (rule ns_okI)
    show "distinct (map ns_id (rows @ [r]))" using ok new by (simp add: ns_ok_def)
    fix x assume x: "x \<in> set (rows @ [r])"
    show "ns_parent x = None \<and> ns_path x = [ns_id x] \<or>
      (\<exists>q. q \<in> set (rows @ [r]) \<and> ns_parent x = Some (ns_id q) \<and> ns_tenant q = ns_tenant x \<and> ns_type q = ''DIRECTORY'' \<and>
           ns_path x = ns_path q @ [ns_id x])"
    proof (cases "x = r")
      case True
      with g show ?thesis by (auto simp: guard_insert_def split: option.splits if_splits dest!: ns_find_SomeD)
    next
      case False
      with x have "x \<in> set rows" by simp
      with ok show ?thesis by (cases rule: ns_ok_cases) auto
    qed
  qed
  with rows' chk show ?thesis by simp
qed

lemma tombstone_simps [simp]:
  "ns_id (tombstone U r) = ns_id r" "ns_tenant (tombstone U r) = ns_tenant r" "ns_type (tombstone U r) = ns_type r"
  "ns_parent (tombstone U r) = ns_parent r" "ns_path (tombstone U r) = ns_path r"
  by (simp_all add: tombstone_def)

lemma soft_delete_ok:
  assumes ok: "ns_ok rows" and del: "soft_delete_node U t n rows = Inr rows'"
  shows "ns_ok rows' \<and> table_check rows' = None"
  using del by (auto simp: soft_delete_node_def ns_update_attrs bindE_Inr split: option.splits intro!: ns_ok_map_attrs ok)

subsection \<open>Moving a subtree\<close>

lemma move_checkD:
  assumes "move_check t n np rows = Inr (sp, dp)"
  obtains src dst where "src \<in> set rows" "ns_id src = n" "ns_tenant src = t" "ns_path src = sp"
    "dst \<in> set rows" "ns_id dst = np" "ns_tenant dst = t" "ns_path dst = dp" "ns_parent src \<noteq> None"
    "\<not> ns_deleted dst" "ns_type dst = ''DIRECTORY''" "\<not> prefix sp dp" "n \<noteq> np" "\<not> ns_deleted src"
  using assms by (auto simp: move_check_def split: if_splits option.splits dest!: ns_find_inD)

definition moved :: "uuid \<Rightarrow> uuid \<Rightarrow> uuid \<Rightarrow> uuid list \<Rightarrow> uuid list \<Rightarrow> ns_row \<Rightarrow> ns_row" where
  "moved t n np sp dp r = (if move_selects t n sp r then remap n np sp dp r else r)"

lemma moved_simps [simp]:
  "ns_id (moved t n np sp dp r) = ns_id r" "ns_tenant (moved t n np sp dp r) = ns_tenant r" "ns_type (moved t n np sp dp r) = ns_type r"
  "ns_name (moved t n np sp dp r) = ns_name r" "ns_deleted (moved t n np sp dp r) = ns_deleted r"
  by (simp_all add: moved_def remap_def)

lemma move_guard_rows:
  assumes ok: "ns_ok rows" and chk: "move_check t n np rows = Inr (sp, dp)"
  shows "guard_rows True (move_selects t n sp) (remap n np sp dp) [] rows = Inr (map (moved t n np sp dp) rows)"
proof -
  from chk obtain src dst where src: "src \<in> set rows" "ns_id src = n" "ns_tenant src = t" "ns_path src = sp"
    and dst: "dst \<in> set rows" "ns_id dst = np" "ns_tenant dst = t" "ns_path dst = dp" "\<not> ns_deleted dst" "ns_type dst = ''DIRECTORY''"
    and np: "\<not> prefix sp dp" "n \<noteq> np" by (rule move_checkD)
  let ?F = "moved t n np sp dp"
  have F: "(\<lambda>r. if move_selects t n sp r then remap n np sp dp r else r) = ?F" by (simp add: moved_def fun_eq_iff)
  have stay: "?F dst = dst" using dst np by (simp add: moved_def move_selects_def under_def)
  have "guard_update True (map ?F xs @ r # ys) r (remap n np sp dp r) = Inr (remap n np sp dp r)"
    if rows: "rows = xs @ r # ys" for xs r ys
  proof (cases "ns_id r = n")
    case False
    then show ?thesis by (simp add: guard_update_def remap_def)
  next
    case True
    have "ns_find np rows = Some dst" using ns_find_iff ok dst by (simp add: ns_ok_def)
    then have "ns_find np (map ?F xs @ r # ys) = Some dst"
      using stay by (auto simp: rows ns_find_append ns_find_map split: option.splits)
    moreover have "ns_tenant r = t" using True src ns_same_id[OF ok, of r src] rows by auto
    ultimately show ?thesis using True dst by (auto simp: guard_update_def remap_def)
  qed
  from guard_rows_map[of rows "move_selects t n sp" True "remap n np sp dp", unfolded F, OF this] show ?thesis .
qed

lemma move_directory_Inr:
  assumes ok: "ns_ok rows"
  shows "move_directory t n np rows = Inr rows' \<longleftrightarrow>
    (\<exists>sp dp. move_check t n np rows = Inr (sp, dp) \<and> rows' = map (moved t n np sp dp) rows \<and> table_check rows' = None)"
proof -
  have "list_ex (move_selects t n sp) rows" if "move_check t n np rows = Inr (sp, dp)" for sp dp
    using that by (rule move_checkD) (auto simp: list_ex_iff move_selects_def)
  with move_guard_rows[OF ok] show ?thesis by (auto simp: move_directory_def bindE_Inr ns_update_Inr)
qed

lemma moved_path:
  assumes "ns_path r = sp \<longleftrightarrow> ns_id r = n" "move_selects t n sp r"
  shows "ns_path (moved t n np sp dp r) = dp @ [n] @ drop (length sp) (ns_path r)"
  using assms by (auto simp: moved_def remap_def)

lemma moved_ok:
  assumes ok: "ns_ok rows" and chk: "move_check t n np rows = Inr (sp, dp)"
  shows "ns_ok (map (moved t n np sp dp) rows)"
proof (rule ns_okI)
  from chk obtain src dst where src: "src \<in> set rows" "ns_id src = n" "ns_tenant src = t" "ns_path src = sp"
    and dst: "dst \<in> set rows" "ns_id dst = np" "ns_tenant dst = t" "ns_path dst = dp" "ns_type dst = ''DIRECTORY''"
    and np: "\<not> prefix sp dp" "n \<noteq> np" by (rule move_checkD)
  let ?F = "moved t n np sp dp"
  have path: "ns_path r = sp \<longleftrightarrow> ns_id r = n" if "r \<in> set rows" for r
    using that src ns_path_last[OF ok] ns_same_id[OF ok] by metis
  have path': "ns_path (?F r) = dp @ [n] @ drop (length sp) (ns_path r)" if "r \<in> set rows" "move_selects t n sp r" for r
    by (rule moved_path[OF path[OF that(1)] that(2)])
  have stay: "?F dst = dst" using dst np by (simp add: moved_def move_selects_def under_def)
  show "distinct (map ns_id (map ?F rows))" using ok by (simp add: ns_ok_def comp_def)
  fix r' assume "r' \<in> set (map ?F rows)"
  then obtain r where r: "r \<in> set rows" "r' = ?F r" by auto
  have sel_parent: "move_selects t n sp q \<longleftrightarrow> move_selects t n sp r"
    if "q \<in> set rows" "ns_tenant q = ns_tenant r" "ns_path r = ns_path q @ [ns_id r]" "ns_id r \<noteq> n" for q
    using that path[OF that(1)] path[OF r(1)] by (auto simp: move_selects_def under_def prefix_snoc)
  show "ns_parent r' = None \<and> ns_path r' = [ns_id r'] \<or>
      (\<exists>q. q \<in> set (map ?F rows) \<and> ns_parent r' = Some (ns_id q) \<and> ns_tenant q = ns_tenant r' \<and> ns_type q = ''DIRECTORY'' \<and>
           ns_path r' = ns_path q @ [ns_id r'])"
  proof (cases "ns_id r = n")
    case True
    with r src ns_same_id[OF ok] have "r = src" by metis
    with src have "ns_parent r' = Some np" "ns_path r' = dp @ [n]" "ns_tenant r' = t" "ns_id r' = n" using r
      by (simp_all add: moved_def remap_def move_selects_def)
    moreover have "dst \<in> set (map ?F rows)" using dst stay by force
    ultimately show ?thesis using dst by blast
  next
    case False
    then have par: "ns_parent r' = ns_parent r" by (simp add: r moved_def remap_def)
    from ok r(1) show ?thesis
    proof (cases rule: ns_ok_cases)
      case root
      with False src path[OF r(1)] ns_path_last[OF ok src(1)] have "\<not> move_selects t n sp r"
        by (auto simp: move_selects_def under_def prefix_Cons)
      with root par show ?thesis by (simp add: r moved_def)
    next
      case (below q)
      note sel = sel_parent[OF below(1,3,5) False]
      have "ns_path r' = ns_path (?F q) @ [ns_id r']"
      proof (cases "move_selects t n sp r")
        case True
        with sel path[OF below(1)] have "length sp \<le> length (ns_path q)" by (auto simp: move_selects_def under_def dest: prefix_length_le)
        with True sel below path'[OF r(1)] path'[OF below(1)] show ?thesis by (simp add: r)
      next
        case False
        with sel below show ?thesis by (simp add: r moved_def)
      qed
      moreover have "?F q \<in> set (map ?F rows)" using below(1) by simp
      moreover have "ns_parent r' = Some (ns_id (?F q))" "ns_tenant (?F q) = ns_tenant r'" "ns_type (?F q) = ''DIRECTORY''"
        using below par by (simp_all add: r)
      ultimately show ?thesis by blast
    qed
  qed
qed

lemma move_directory_ok:
  assumes ok: "ns_ok rows" and mv: "move_directory t n np rows = Inr rows'"
  shows "ns_ok rows' \<and> table_check rows' = None"
  using mv moved_ok[OF ok] by (auto simp: move_directory_Inr[OF ok])

text \<open>The statements that change the namespace, in any order; one that fails is rolled back.\<close>

datatype ns_op = NsInsert ns_row | NsMove uuid uuid uuid | NsDelete uuid uuid

fun ns_exec :: "uuid_pkg \<Rightarrow> uuid list \<Rightarrow> ns_op \<Rightarrow> ns_row list \<Rightarrow> ns_error + ns_row list" where
  "ns_exec U ts (NsInsert new) rows = ns_insert ts new rows"
| "ns_exec U ts (NsMove t n np) rows = move_directory t n np rows"
| "ns_exec U ts (NsDelete t n) rows = soft_delete_node U t n rows"

definition ns_commit :: "uuid_pkg \<Rightarrow> uuid list \<Rightarrow> ns_op \<Rightarrow> ns_row list \<Rightarrow> ns_row list" where
  "ns_commit U ts x rows = (case ns_exec U ts x rows of Inl _ \<Rightarrow> rows | Inr rows' \<Rightarrow> rows')"

lemma table_check_row: "table_check rows = None \<Longrightarrow> r \<in> set rows \<Longrightarrow> row_check r = None"
proof (cases "List.find (\<lambda>r. row_check r \<noteq> None) rows")
  case None
  moreover assume "r \<in> set rows"
  ultimately show ?thesis unfolding find_None_iff by blast
next
  case (Some x)
  then have "row_check x \<noteq> None" unfolding find_Some_iff by blast
  moreover assume "table_check rows = None"
  ultimately show ?thesis using Some by (simp only: table_check_def option.case)
qed

lemma table_check_map: "r \<in> set rows \<Longrightarrow> row_check (F r) \<noteq> None \<Longrightarrow> table_check (map F rows) \<noteq> None"
  using table_check_row[of "map F rows" "F r"] by (cases "table_check (map F rows)") auto

lemma ns_exec_ok: "ns_ok rows \<Longrightarrow> ns_exec U ts x rows = Inr rows' \<Longrightarrow> ns_ok rows' \<and> table_check rows' = None"
  by (cases x) (auto dest: ns_insert_ok move_directory_ok soft_delete_ok)

lemma ns_run_ok: "ns_ok rows \<Longrightarrow> table_check rows = None \<Longrightarrow> ns_ok (fold (ns_commit U ts) ops rows) \<and> table_check (fold (ns_commit U ts) ops rows) = None"
  by (induction ops arbitrary: rows) (auto simp: ns_commit_def split: sum.splits dest: ns_exec_ok)

lemma ns_empty_ok: "ns_ok [] \<and> table_check [] = None"
  by (simp add: ns_ok_def table_check_def)

text \<open>C11. Whatever sequence of inserts, moves and soft deletes runs on the namespace, the table stays a forest: parents exist, are
  directories of the same tenant and form no cycle, constraints hold, and the lineage path of a row lies under the
  path of another exactly when the other is one of its ancestors (or itself).\<close>

theorem namespace_stays_tree:
  "ns_ok (fold (ns_commit U ts) ops []) \<and> table_check (fold (ns_commit U ts) ops []) = None \<and> acyclic (parent_of (fold (ns_commit U ts) ops [])) \<and>
   (\<forall>d r. {d, r} \<subseteq> set (fold (ns_commit U ts) ops []) \<longrightarrow>
      under (ns_path d) r = ((ns_id r, ns_id d) \<in> (parent_of (fold (ns_commit U ts) ops []))\<^sup>*))"
  using ns_run_ok[of "[]" U ts ops] ns_empty_ok by (simp add: ns_ok_acyclic lineage_is_ancestry)

text \<open>C21. A successful move changes exactly the moved node and its descendants: the node hangs below its new parent, every
  row of the subtree has its path rewritten by replacing the path of the moved node and its access epoch advanced by one, and
  every other row stays as it was, those of other tenants included.\<close>

theorem move_directory_effect:
  assumes ok: "ns_ok rows" and mv: "move_directory t n np rows = Inr rows'"
  shows "\<exists>src dst. ns_find n rows = Some src \<and> ns_find np rows = Some dst \<and> (np, n) \<notin> (parent_of rows)\<^sup>* \<and>
    rows' = map (\<lambda>r. if (ns_id r, n) \<in> (parent_of rows)\<^sup>*
                     then r\<lparr>ns_parent := (if ns_id r = n then Some np else ns_parent r),
                            ns_path := ns_path dst @ [n] @ drop (length (ns_path src)) (ns_path r), ns_epoch := ns_epoch r + 1\<rparr>
                     else r) rows"
proof -
  from mv ok obtain sp dp where chk: "move_check t n np rows = Inr (sp, dp)" and rows': "rows' = map (moved t n np sp dp) rows"
    by (auto simp: move_directory_Inr)
  from chk obtain src dst where src: "src \<in> set rows" "ns_id src = n" "ns_tenant src = t" "ns_path src = sp"
    and dst: "dst \<in> set rows" "ns_id dst = np" "ns_path dst = dp" and np: "\<not> prefix sp dp" by (rule move_checkD)
  have f: "ns_find n rows = Some src" "ns_find np rows = Some dst" using ok src dst by (simp_all add: ns_ok_def ns_find_iff)
  have anc: "under sp r \<longleftrightarrow> (ns_id r, n) \<in> (parent_of rows)\<^sup>*" if "r \<in> set rows" for r
    using lineage_is_ancestry[OF ok src(1) that] src by simp
  have sel: "move_selects t n sp r \<longleftrightarrow> (ns_id r, n) \<in> (parent_of rows)\<^sup>*" if r: "r \<in> set rows" for r
  proof
    show "move_selects t n sp r \<Longrightarrow> (ns_id r, n) \<in> (parent_of rows)\<^sup>*" using anc[OF r] by (auto simp: move_selects_def)
    assume a: "(ns_id r, n) \<in> (parent_of rows)\<^sup>*"
    with ancestor_prefix[OF ok a r refl] src ns_same_id[OF ok] have "ns_tenant r = t" by metis
    with a anc[OF r] show "move_selects t n sp r" by (simp add: move_selects_def)
  qed
  have "moved t n np sp dp r = r\<lparr>ns_parent := (if ns_id r = n then Some np else ns_parent r),
          ns_path := dp @ [n] @ drop (length sp) (ns_path r), ns_epoch := ns_epoch r + 1\<rparr>"
    if "r \<in> set rows" "move_selects t n sp r" for r
    using that src ns_same_id[OF ok, of r src] by (auto simp: moved_def remap_def)
  then have "rows' = map (\<lambda>r. if (ns_id r, n) \<in> (parent_of rows)\<^sup>*
      then r\<lparr>ns_parent := (if ns_id r = n then Some np else ns_parent r),
             ns_path := ns_path dst @ [n] @ drop (length (ns_path src)) (ns_path r), ns_epoch := ns_epoch r + 1\<rparr> else r) rows"
    using sel dst src by (auto simp: rows' moved_def)
  moreover have "(np, n) \<notin> (parent_of rows)\<^sup>*" using anc[OF dst(1)] dst np by (simp add: under_def)
  ultimately show ?thesis using f by blast
qed

section \<open>Concrete namespaces\<close>

definition dir_row :: "uuid \<Rightarrow> uuid option \<Rightarrow> string \<Rightarrow> uuid list \<Rightarrow> ns_row" where
  "dir_row i p name path =
     \<lparr>ns_id = i, ns_tenant = [9], ns_parent = p, ns_name = name, ns_type = ''DIRECTORY'', ns_path = path, ns_epoch = 1, ns_deleted = False\<rparr>"

definition ns_example :: "ns_row list" where
  "ns_example =
     [dir_row [0] None ''root'' [[0]], dir_row [1] (Some [0]) ''a'' [[0], [1]], dir_row [2] (Some [0]) ''b'' [[0], [2]],
      dir_row [3] (Some [2]) ''d'' [[0], [2], [3]], dir_row [4] (Some [0]) ''x'' [[0], [4]]]"

definition ns_example_ops :: "ns_op list" where
  "ns_example_ops = map NsInsert (map (ns_path_update (\<lambda>_. [])) ns_example)"

lemma ns_example_ok: "ns_ok ns_example"
  by code_simp

lemma ns_example_built: "fold (ns_commit U [[9]]) ns_example_ops [] = ns_example"
  by code_simp

theorem namespace_stays_tree_witness:
  "under [[0], [2]] (dir_row [3] (Some [2]) ''d'' [[0], [2], [3]]) \<and> ([3], [2]) \<in> (parent_of ns_example)\<^sup>* \<and> acyclic (parent_of ns_example)"
proof -
  note tree = namespace_stays_tree[of undefined "[[9]]" ns_example_ops, unfolded ns_example_built]
  have "{ns_example ! 2, ns_example ! 3} \<subseteq> set ns_example" by (simp add: ns_example_def)
  then have "under (ns_path (ns_example ! 2)) (ns_example ! 3) = ((ns_id (ns_example ! 3), ns_id (ns_example ! 2)) \<in> (parent_of ns_example)\<^sup>*)"
    using tree by blast
  moreover have "under [[0], [2]] (dir_row [3] (Some [2]) ''d'' [[0], [2], [3]])" by code_simp
  ultimately show ?thesis using tree by (simp add: ns_example_def dir_row_def)
qed

definition ns_example_moved :: "ns_row list" where
  "ns_example_moved =
     [dir_row [0] None ''root'' [[0]], dir_row [1] (Some [0]) ''a'' [[0], [1]], (dir_row [2] (Some [1]) ''b'' [[0], [1], [2]])\<lparr>ns_epoch := 2\<rparr>,
      (dir_row [3] (Some [2]) ''d'' [[0], [1], [2], [3]])\<lparr>ns_epoch := 2\<rparr>, dir_row [4] (Some [0]) ''x'' [[0], [4]]]"

lemma ns_example_move: "move_directory [9] [2] [1] ns_example = Inr ns_example_moved"
  by code_simp

theorem move_directory_effect_witness:
  "move_directory [9] [2] [1] ns_example = Inr ns_example_moved \<and> ([1], [2]) \<notin> (parent_of ns_example)\<^sup>*"
  using move_directory_effect[OF ns_example_ok ns_example_move] ns_example_move by auto

section \<open>Two moves at once\<close>

text \<open>
  The client begins its transactions at the default isolation, READ COMMITTED: an \<^verbatim>\<open>UPDATE\<close> picks its rows on the
  snapshot \<open>snap\<close> taken when it starts, waits for the rows another transaction holds, and then updates those that are still
  selected in their committed version. When nothing was committed in between this is the procedure above.
\<close>

definition late_selects :: "uuid \<Rightarrow> uuid \<Rightarrow> uuid list \<Rightarrow> ns_row list \<Rightarrow> ns_row \<Rightarrow> bool" where
  "late_selects t n sp snap r \<longleftrightarrow> list_ex (\<lambda>s. ns_id s = ns_id r \<and> move_selects t n sp s) snap \<and> move_selects t n sp r"

definition move_after :: "uuid \<Rightarrow> uuid \<Rightarrow> uuid \<Rightarrow> ns_row list \<Rightarrow> ns_row list \<Rightarrow> ns_error + ns_row list" where
  "move_after t n np snap rows =
     bindE (move_check t n np snap)
       (\<lambda>(sp, dp). ns_update True (late_selects t n sp snap) (remap n np sp dp) rows)"

lemma guard_rows_cong:
  "(\<And>r. r \<in> set rows \<Longrightarrow> sel r = sel' r) \<Longrightarrow> guard_rows allow sel f seen rows = guard_rows allow sel' f seen rows"
  by (induction rows arbitrary: seen) (auto simp: bindE_def split: sum.splits)

lemma move_after_same: "move_after t n np rows rows = move_directory t n np rows"
proof -
  have "guard_rows True (late_selects t n sp rows) f [] rows = guard_rows True (move_selects t n sp) f [] rows" for sp f
    by (rule guard_rows_cong) (auto simp: late_selects_def list_ex_iff)
  moreover have "list_ex (move_selects t n sp) rows" if "move_check t n np rows = Inr (sp, dp)" for sp dp
    using that by (rule move_checkD) (auto simp: list_ex_iff move_selects_def)
  ultimately show ?thesis
    by (auto simp: move_after_def move_directory_def ns_update_def bindE_def split: sum.splits option.splits)
qed

text \<open>While \<^verbatim>\<open>x\<close> is being moved below \<^verbatim>\<open>d\<close>, moving the ancestor \<^verbatim>\<open>b\<close> of \<^verbatim>\<open>d\<close> misses \<^verbatim>\<open>x\<close>: locking the two end points does not keep the
  subtree from growing. Both moves succeed and the path of \<^verbatim>\<open>x\<close> still leads through the place \<^verbatim>\<open>b\<close> has left.\<close>

theorem concurrent_moves_break_lineage:
  "\<exists>rows1 rows2. move_directory [9] [4] [3] ns_example = Inr rows1 \<and> ns_ok rows1 \<and>
     move_after [9] [2] [1] ns_example rows1 = Inr rows2 \<and> \<not> ns_ok rows2 \<and>
     map ns_path rows2 = [[[0]], [[0], [1]], [[0], [1], [2]], [[0], [1], [2], [3]], [[0], [2], [3], [4]]]"
proof -
  let ?r1 = "projr (move_directory [9] [4] [3] ns_example)"
  let ?r2 = "projr (move_after [9] [2] [1] ns_example ?r1)"
  have "move_directory [9] [4] [3] ns_example = Inr ?r1" by code_simp
  moreover have "ns_ok ?r1" by code_simp
  moreover have "move_after [9] [2] [1] ns_example ?r1 = Inr ?r2" by code_simp
  moreover have "\<not> ns_ok ?r2" by code_simp
  moreover have "map ns_path ?r2 = [[[0]], [[0], [1]], [[0], [1], [2]], [[0], [1], [2], [3]], [[0], [2], [3], [4]]]" by code_simp
  ultimately show ?thesis by (intro exI[of _ ?r1] exI[of _ ?r2] conjI)
qed

text \<open>The tombstone suffix has thirteen characters: a node whose name has more than 242 cannot be deleted.\<close>

lemma long_names_not_deletable:
  assumes "ns_ok rows" "ns_find_in t n rows = Some r" "length (ns_name r) > 242" "\<And>i. length (u_str U i) \<ge> 8"
  shows "\<exists>e. soft_delete_node U t n rows = Inl e"
proof -
  let ?F = "\<lambda>x. if ns_tenant x = t \<and> ns_id x = n then tombstone U x else x"
  from ns_find_inD[OF assms(2)] have r: "r \<in> set rows" "ns_id r = n" "ns_tenant r = t" by auto
  have "row_check (?F r) \<noteq> None" using r assms(3) assms(4)[of n] by (simp add: row_check_def tombstone_def)
  with r(1) have "table_check (map ?F rows) \<noteq> None" by (rule table_check_map)
  then show ?thesis
    by (cases "soft_delete_node U t n rows") (auto simp: soft_delete_node_def ns_update_attrs bindE_Inr assms(2))
qed

section \<open>The client's move\<close>

lemma in_write_tx_cases:
  "in_write_tx flt stmt d = (None, d') \<longleftrightarrow> flt 0 = None \<and> flt 1 = None \<and> flt 2 = None \<and> stmt d = Inr d'"
  "in_write_tx flt stmt d = (Some e, d') \<Longrightarrow> d' = d"
  by (auto simp: in_write_tx_def split: option.splits sum.splits)

lemma MoveDirectory_failed: "MoveDirectory U cache flt T n p rows k = (Some e, rows', k') \<Longrightarrow> rows' = rows \<and> k' = k"
  by (auto simp: MoveDirectory_def bumpGenerationOnSuccess_def split: prod.splits dest: in_write_tx_cases(2))

lemma MoveDirectory_moved:
  assumes "MoveDirectory U (Some R) flt T n p rows k = (None, rows', k')"
  shows "\<exists>t i j. u_parse U T = Some t \<and> u_parse U n = Some i \<and> u_parse U p = Some j \<and> move_directory t i j rows = Inr rows'"
    and "k' = snd (BumpGeneration R T k)"
proof -
  let ?stmt = "\<lambda>d. case (u_parse U T, u_parse U n, u_parse U p) of
      (Some t, Some n, Some p) \<Rightarrow> move_directory t n p d | _ \<Rightarrow> Inl InvalidUUID"
  obtain e d where tx: "in_write_tx flt ?stmt rows = (e, d)" by (cases "in_write_tx flt ?stmt rows")
  with assms have e: "e = None" "d = rows'" and k': "k' = bumpGenerationOnSuccess (Some R) T e k"
    by (auto simp: MoveDirectory_def)
  from tx e have "?stmt rows = Inr rows'" by (simp add: in_write_tx_cases(1))
  then show "\<exists>t i j. u_parse U T = Some t \<and> u_parse U n = Some i \<and> u_parse U p = Some j \<and> move_directory t i j rows = Inr rows'"
    by (auto split: option.splits)
  from k' e show "k' = snd (BumpGeneration R T k)" by (simp add: bumpGenerationOnSuccess_def)
qed

lemma GetNodeMetadata_next_generation:
  assumes laws: "redis_laws R stored" and T: "CHR '':'' \<notin> set T" and live: "live (stored k) T G"
    and none: "\<And>n. stored k (nodeKey T (G + 1) n) = None" and bump: "BumpGeneration R T k = (Inr g, k')"
  shows "fst (GetNodeMetadata R J T n loaded c k') = loaded"
proof -
  note st = live_bump(2)[OF laws live bump]
  have lv: "live (stored k') T (G + 1)" by (simp add: live_def st)
  have "stored k' (nodeKey T (G + 1) n) = None" using none nodeKey_not_generationKey[OF T] by (simp add: st)
  then have "rd_Get R (nodeKey T (G + 1) n) k' = Inr v \<Longrightarrow> v = None" for v using redis_lawsD(1)[OF laws] by metis
  moreover have "generation R T k' = Inr gen \<Longrightarrow> gen = G + 1" for gen using generation_live[OF laws lv] .
  ultimately show ?thesis
    by (fastforce simp: GetNodeMetadata_def load_and_store_def Let_def split: sum.splits option.splits)
qed

text \<open>C30. When the client's move has returned without an error and the cache's generation was bumped, the next cached read of any
  node of the tenant gives what the metadata query reads from the moved table: no path from before the move is
  served. Entries of the next generation cannot exist before the bump; the cache's own invariant says so.\<close>

theorem moved_node_read_back:
  assumes laws: "redis_laws R stored" and T: "CHR '':'' \<notin> set T" and live: "live (stored k) T G"
    and none: "\<And>n. stored k (nodeKey T (G + 1) n) = None" and bump: "BumpGeneration R T k = (Inr g, kb)"
    and mv: "MoveDirectory U (Some R) flt T n p rows k = (None, rows', k')"
  shows "fst (GetNodeMetadataCached (Some (R, J)) T m (load_node U path_text None e t i rows') c k') = load_node U path_text None e t i rows' \<and>
    (\<exists>t i j. u_parse U T = Some t \<and> u_parse U n = Some i \<and> u_parse U p = Some j \<and> move_directory t i j rows = Inr rows')"
  using GetNodeMetadata_next_generation[OF laws T live none bump] MoveDirectory_moved[OF mv] bump
  by (simp add: GetNodeMetadataCached_def)

lemma demo_parses: "u_parse demo_U ''09'' = Some [9]" "u_parse demo_U ''02'' = Some [2]" "u_parse demo_U ''01'' = Some [1]"
  by code_simp+

lemma example_MoveDirectory:
  "MoveDirectory demo_U (Some map_redis) (\<lambda>_. None) ''09'' ''02'' ''01'' ns_example (\<lambda>_. None) =
     (None, ns_example_moved, snd (BumpGeneration map_redis ''09'' (\<lambda>_. None)))"
  by (simp add: MoveDirectory_def in_write_tx_def demo_parses ns_example_move bumpGenerationOnSuccess_def)

theorem moved_node_read_back_witness:
  "fst (GetNodeMetadataCached (Some (map_redis, demo_codec)) ''09'' ''02'' (load_node demo_U (\<lambda>_. ''p'') None ErrPoolTimeout [9] [2] ns_example_moved)
      \<lparr>nc_ttl = 1, nc_hits = 0, nc_misses = 0\<rparr> (snd (BumpGeneration map_redis ''09'' (\<lambda>_. None))))
   = load_node demo_U (\<lambda>_. ''p'') None ErrPoolTimeout [9] [2] ns_example_moved"
proof -
  have bump: "BumpGeneration map_redis ''09'' (\<lambda>_. None) = (Inr 1, (\<lambda>_. None)(generationKey ''09'' \<mapsto> format_nat 1))"
    by (simp add: BumpGeneration_def map_redis_def)
  show ?thesis
    using moved_node_read_back[OF map_redis_laws _ _ _ bump example_MoveDirectory, where G = 0] by (simp add: live_def)
qed

end
