(* ===== verification/GC.thy ===== *)
theory GC
  imports Registry Database Models
begin

text \<open>
  The garbage-collection pipeline of \<^verbatim>\<open>internal/gc\<close>: configuration, session cleanup, the orphan
  sweep with its rate limit, double check and dry run, the tombstone consumer and the leader's sweep;
  and the adapters of \<^verbatim>\<open>cmd/ingest/gc_adapter.go\<close> that run it on the metadata tables through the
  database client. The collector works on any \<open>'w GC_Store\<close> over a state \<open>'w\<close> of the world, as the Go code
  works on an interface; the laws it needs are the locale \<open>gc_backend\<close>. Between any two calls of the
  collector other sessions may act: the adapter's world carries a script of their turns.
\<close>

section \<open>Configuration and records\<close>

record GC_Config =
  SessionCleanupInterval :: duration
  BlockSweepInterval :: duration
  SafetyWindow :: duration
  BatchSize :: int
  MaxBlocksPerHour :: int
  DryRun :: bool

definition GC_applyDefaults :: "GC_Config \<Rightarrow> GC_Config" where
  "GC_applyDefaults c =
     c\<lparr>SessionCleanupInterval := (if SessionCleanupInterval c \<le> 0 then 1 * Hour else SessionCleanupInterval c),
       BlockSweepInterval := (if BlockSweepInterval c \<le> 0 then 24 * Hour else BlockSweepInterval c),
       SafetyWindow := (if SafetyWindow c \<le> 0 then 7 * 24 * Hour else SafetyWindow c),
       BatchSize := (if BatchSize c \<le> 0 then 1000 else BatchSize c),
       MaxBlocksPerHour := (if MaxBlocksPerHour c \<le> 0 then 5000 else MaxBlocksPerHour c)\<rparr>"

record SessionInfo =
  si_ID :: string
  si_TenantID :: string
  si_ExpiresAt :: instant

record GC_BlockInfo =
  gb_BlockHash :: string
  gb_TenantID :: string
  gb_SizeBytes :: int
  gb_RefCount :: int

datatype gc_error = GcDb db_error | GcScan | GcEncode | GcNoColumn | GcOther string

record 'w GC_Store =
  GetExpiredSessions :: "int \<Rightarrow> 'w \<Rightarrow> (gc_error + SessionInfo list) \<times> 'w"
  MarkSessionExpired :: "string \<Rightarrow> 'w \<Rightarrow> gc_error option \<times> 'w"
  FindOrphanedBlocks :: "duration \<Rightarrow> int \<Rightarrow> 'w \<Rightarrow> (gc_error + GC_BlockInfo list) \<times> 'w"
  DoubleCheckBlock :: "string \<Rightarrow> 'w \<Rightarrow> (gc_error + bool) \<times> 'w"
  HardDeleteBlocks :: "string list \<Rightarrow> 'w \<Rightarrow> (gc_error + int) \<times> 'w"

record TombstoneEvent =
  gt_BlockHash :: string
  gt_TenantID :: string
  gt_SizeBytes :: int
  gt_Timestamp :: instant
  gt_Reason :: string

record AuditEntry =
  ae_Timestamp :: instant
  ae_Action :: string
  ae_BlockHash :: string
  ae_SessionID :: string
  ae_TenantID :: string
  ae_SizeBytes :: int
  ae_Reason :: string
  ae_Detail :: string

text \<open>\<open>blob\<close> is absent when the collector was built with a nil deleter; \<open>clock\<close> reads the time.\<close>

record 'w GarbageCollector =
  gc_store :: "'w GC_Store"
  gc_publisher :: "string \<Rightarrow> TombstoneEvent \<Rightarrow> 'w \<Rightarrow> gc_error option \<times> 'w"
  gc_blob :: "(string \<Rightarrow> 'w \<Rightarrow> string option \<times> 'w) option"
  gc_clock :: "'w \<Rightarrow> instant"
  gc_cfg :: GC_Config
  gc_auditLog :: "AuditEntry list"
  gc_deletionCount :: int
  gc_rateResetAt :: instant

definition New ::
  "'w GC_Store \<Rightarrow> (string \<Rightarrow> TombstoneEvent \<Rightarrow> 'w \<Rightarrow> gc_error option \<times> 'w) \<Rightarrow>
   (string \<Rightarrow> 'w \<Rightarrow> string option \<times> 'w) option \<Rightarrow> ('w \<Rightarrow> instant) \<Rightarrow> GC_Config \<Rightarrow> 'w GarbageCollector" where
  "New store publisher blob clock cfg =
     \<lparr>gc_store = store, gc_publisher = publisher, gc_blob = blob, gc_clock = clock, gc_cfg = GC_applyDefaults cfg,
      gc_auditLog = [], gc_deletionCount = 0, gc_rateResetAt = - (2 ^ 62)\<rparr>"

section \<open>The collector\<close>

definition audit :: "AuditEntry \<Rightarrow> 'w GarbageCollector \<Rightarrow> 'w GarbageCollector" where
  "audit entry gc = gc\<lparr>gc_auditLog := gc_auditLog gc @ [entry]\<rparr>"

definition block_entry :: "instant \<Rightarrow> string \<Rightarrow> GC_BlockInfo \<Rightarrow> int \<Rightarrow> string \<Rightarrow> string \<Rightarrow> AuditEntry" where
  "block_entry now action b size' reason detail =
     \<lparr>ae_Timestamp = now, ae_Action = action, ae_BlockHash = gb_BlockHash b, ae_SessionID = '''',
      ae_TenantID = gb_TenantID b, ae_SizeBytes = size', ae_Reason = reason, ae_Detail = detail\<rparr>"

fun cleanup_loop :: "SessionInfo list \<Rightarrow> 'w GarbageCollector \<Rightarrow> 'w \<Rightarrow> 'w GarbageCollector \<times> 'w" where
  "cleanup_loop [] gc w = (gc, w)"
| "cleanup_loop (s # ss) gc w =
     (case MarkSessionExpired (gc_store gc) (si_ID s) w of
        (Some e, w1) \<Rightarrow> cleanup_loop ss gc w1
      | (None, w1) \<Rightarrow>
          cleanup_loop ss
            (audit \<lparr>ae_Timestamp = gc_clock gc w1, ae_Action = ''session_expired'', ae_BlockHash = '''',
                    ae_SessionID = si_ID s, ae_TenantID = si_TenantID s, ae_SizeBytes = 0,
                    ae_Reason = ''stale upload not committed within grace period'', ae_Detail = ''''\<rparr> gc) w1)"

definition cleanupExpiredSessions :: "'w GarbageCollector \<Rightarrow> 'w \<Rightarrow> 'w GarbageCollector \<times> 'w" where
  "cleanupExpiredSessions gc w =
     (case GetExpiredSessions (gc_store gc) (BatchSize (gc_cfg gc)) w of
        (Inl e, w1) \<Rightarrow> (gc, w1)
      | (Inr sessions, w1) \<Rightarrow> cleanup_loop sessions gc w1)"

text \<open>The end of an iteration of \<^verbatim>\<open>processBatch\<close>: the deletion of the row and its count. The count stays
  below the configured limit, so the atomic add does not wrap.\<close>

definition hard_delete_one :: "GC_BlockInfo \<Rightarrow> 'w GarbageCollector \<Rightarrow> 'w \<Rightarrow> 'w GarbageCollector \<times> 'w" where
  "hard_delete_one b gc w =
     (case HardDeleteBlocks (gc_store gc) [gb_BlockHash b] w of
        (Inl e, w') \<Rightarrow> (gc, w')
      | (Inr deleted, w') \<Rightarrow>
          (if deleted > 0 then gc\<lparr>gc_deletionCount := gc_deletionCount gc + 1\<rparr> else gc, w'))"

text \<open>The part of an iteration after the tombstone is out: the blob, then the row.\<close>

definition delete_block :: "GC_BlockInfo \<Rightarrow> 'w GarbageCollector \<Rightarrow> 'w \<Rightarrow> 'w GarbageCollector \<times> 'w" where
  "delete_block b gc w =
     (case gc_blob gc of
        None \<Rightarrow> hard_delete_one b gc w
      | Some del \<Rightarrow>
          (case del (gb_BlockHash b) w of
             (Some e, w1) \<Rightarrow> (audit (block_entry (gc_clock gc w1) ''blob_delete_failed'' b 0 '''' e) gc, w1)
           | (None, w1) \<Rightarrow>
               hard_delete_one b (audit (block_entry (gc_clock gc w1) ''blob_deleted'' b (gb_SizeBytes b) '''' '''') gc) w1))"

definition tombstone_for :: "instant \<Rightarrow> GC_BlockInfo \<Rightarrow> TombstoneEvent" where
  "tombstone_for now b =
     \<lparr>gt_BlockHash = gb_BlockHash b, gt_TenantID = gb_TenantID b, gt_SizeBytes = gb_SizeBytes b,
      gt_Timestamp = now, gt_Reason = ''orphan_gc''\<rparr>"

definition process_block :: "GC_BlockInfo \<Rightarrow> 'w GarbageCollector \<Rightarrow> 'w \<Rightarrow> 'w GarbageCollector \<times> 'w" where
  "process_block b gc w =
     (case DoubleCheckBlock (gc_store gc) (gb_BlockHash b) w of
        (Inl e, w1) \<Rightarrow> (gc, w1)
      | (Inr still, w1) \<Rightarrow>
          if \<not> still then
            (audit (block_entry (gc_clock gc w1) ''double_check_saved'' b 0 ''''
                      ''block re-referenced before deletion, skipping'') gc, w1)
          else if DryRun (gc_cfg gc) then
            (audit (block_entry (gc_clock gc w1) ''dry_run_tombstone'' b (gb_SizeBytes b) ''dry_run'' '''') gc, w1)
          else
            (case gc_publisher gc ''cas-tombstones'' (tombstone_for (gc_clock gc w1) b) w1 of
               (Some e, w2) \<Rightarrow> (gc, w2)
             | (None, w2) \<Rightarrow>
                 delete_block b
                   (audit (block_entry (gc_clock gc w2) ''tombstone_emitted'' b (gb_SizeBytes b) ''orphan_gc'' '''') gc) w2))"

fun processBatch :: "GC_BlockInfo list \<Rightarrow> 'w GarbageCollector \<Rightarrow> 'w \<Rightarrow> 'w GarbageCollector \<times> 'w" where
  "processBatch [] gc w = (gc, w)"
| "processBatch (b # bs) gc w =
     (if gc_deletionCount gc \<ge> MaxBlocksPerHour (gc_cfg gc) then (gc, w)
      else case process_block b gc w of (gc', w') \<Rightarrow> processBatch bs gc' w')"

text \<open>The loop over batches of \<open>n\<close> blocks; \<open>n\<close> is the batch size, which the defaults make positive.\<close>

function batches :: "nat \<Rightarrow> GC_BlockInfo list \<Rightarrow> 'w GarbageCollector \<Rightarrow> 'w \<Rightarrow> 'w GarbageCollector \<times> 'w" where
  "batches n bs gc w =
     (if bs = [] \<or> n = 0 then (gc, w)
      else case processBatch (take n bs) gc w of (gc', w') \<Rightarrow> batches n (drop n bs) gc' w')"
  by pat_completeness auto

termination
  by (relation "measure (\<lambda>(n, bs, gc, w). length bs)") auto

declare batches.simps [simp del]

definition reset_rate :: "'w GarbageCollector \<Rightarrow> 'w \<Rightarrow> 'w GarbageCollector" where
  "reset_rate gc w =
     (if gc_clock gc w - gc_rateResetAt gc > Hour
      then gc\<lparr>gc_deletionCount := 0, gc_rateResetAt := gc_clock gc w\<rparr> else gc)"

definition sweepOrphanedBlocks :: "'w GarbageCollector \<Rightarrow> 'w \<Rightarrow> 'w GarbageCollector \<times> 'w" where
  "sweepOrphanedBlocks gc w =
     (let gc = reset_rate gc w
      in case FindOrphanedBlocks (gc_store gc) (SafetyWindow (gc_cfg gc)) (BatchSize (gc_cfg gc)) w of
           (Inl e, w1) \<Rightarrow> (gc, w1)
         | (Inr blocks, w1) \<Rightarrow>
             if blocks = [] then (gc, w1) else batches (nat (BatchSize (gc_cfg gc))) blocks gc w1)"

section \<open>The tombstone consumer\<close>

text \<open>\<open>decode\<close> is \<^verbatim>\<open>UnmarshalTombstone\<close> on the message's value; \<open>tc_commit\<close> is \<^verbatim>\<open>CommitMessage\<close>.\<close>

record 'w TombstoneConsumer =
  tc_commit :: "string \<Rightarrow> 'w \<Rightarrow> gc_error option \<times> 'w"
  tc_blob :: "string \<Rightarrow> 'w \<Rightarrow> string option \<times> 'w"
  tc_store :: "'w GC_Store"
  tc_dryRun :: bool

definition processMessage ::
  "(string \<Rightarrow> TombstoneEvent option) \<Rightarrow> 'w TombstoneConsumer \<Rightarrow> string \<Rightarrow> 'w \<Rightarrow> 'w" where
  "processMessage decode tc msg w =
     (case decode msg of
        None \<Rightarrow> w
      | Some event \<Rightarrow>
          if tc_dryRun tc then snd (tc_commit tc msg w)
          else
            (case tc_blob tc (gt_BlockHash event) w of
               (Some e, w1) \<Rightarrow> w1
             | (None, w1) \<Rightarrow>
                 let w2 = snd (HardDeleteBlocks (tc_store tc) [gt_BlockHash event] w1)
                 in snd (tc_commit tc msg w2)))"

section \<open>The leader's sweep\<close>

text \<open>\<open>is_leader\<close> is absent without an elector. The locker's operations act on the world.\<close>

record 'w LeaderGCSweeper =
  ls_gc :: "'w GarbageCollector"
  ls_is_leader :: "('w \<Rightarrow> bool) option"
  ls_Acquire :: "string \<Rightarrow> duration \<Rightarrow> 'w \<Rightarrow> (gc_error + string) \<times> 'w"
  ls_Release :: "string \<Rightarrow> 'w \<Rightarrow> gc_error option \<times> 'w"

fun leader_loop :: "'w LeaderGCSweeper \<Rightarrow> GC_BlockInfo list \<Rightarrow> 'w \<Rightarrow> 'w" where
  "leader_loop s [] w = w"
| "leader_loop s (b # bs) w =
     (case ls_Acquire s (''gc:block:'' @ gb_BlockHash b) (10 * Second) w of
        (Inl e, w1) \<Rightarrow> leader_loop s bs w1
      | (Inr tok, w1) \<Rightarrow>
          let w3 =
            (case DoubleCheckBlock (gc_store (ls_gc s)) (gb_BlockHash b) w1 of
               (Inr True, w2) \<Rightarrow>
                 snd (HardDeleteBlocks (gc_store (ls_gc s)) [gb_BlockHash b]
                   (snd (gc_publisher (ls_gc s) ''cas-tombstones'' (tombstone_for (gc_clock (ls_gc s) w2) b) w2)))
             | (_, w2) \<Rightarrow> w2)
          in leader_loop s bs (snd (ls_Release s tok w3)))"

definition RunLeaderSweep :: "'w LeaderGCSweeper \<Rightarrow> 'w \<Rightarrow> gc_error option \<times> 'w" where
  "RunLeaderSweep s w =
     (if (case ls_is_leader s of None \<Rightarrow> False | Some f \<Rightarrow> \<not> f w) then (None, w)
      else case FindOrphanedBlocks (gc_store (ls_gc s)) (SafetyWindow (gc_cfg (ls_gc s))) (BatchSize (gc_cfg (ls_gc s))) w of
             (Inl e, w1) \<Rightarrow> (Some e, w1)
           | (Inr blocks, w1) \<Rightarrow> (None, leader_loop s blocks w1))"


section \<open>The adapters\<close>

text \<open>What the driver does to the columns: hashes are \<^verbatim>\<open>BYTEA\<close> and are scanned into and bound from Go
  strings, tenant and session identifiers are \<^verbatim>\<open>UUID\<close>s. \<open>px_id_column\<close> says whether the deployed
  \<^verbatim>\<open>upload_sessions\<close> has the column \<^verbatim>\<open>id\<close> that the statements name.\<close>

record pgx =
  px_scan_hash :: "bytes \<Rightarrow> string option"
  px_bind_hash :: "string \<Rightarrow> bytes option"
  px_scan_uuid :: "uuid \<Rightarrow> string option"
  px_bind_uuid :: "string \<Rightarrow> uuid option"
  px_id_column :: bool

text \<open>A turn is what happens at one call of the adapter: what the other sessions have done by then, the
  time, which pools fail to give a connection, whether the statement fails, and, for a query, the snapshot
  it reads (a replica may lag behind).\<close>

record turn =
  tu_others :: "db \<Rightarrow> db"
  tu_now :: instant
  tu_pool :: "pool \<Rightarrow> db_error option"
  tu_stmt :: "db_error option"
  tu_view :: "db \<Rightarrow> db"

text \<open>\<open>gw_deleted\<close> counts the rows that the collector's own statements removed; \<open>gw_ext\<close> is the state of
  everything else the collector talks to.\<close>

record 'x gc_world =
  gw_tables :: db
  gw_client :: DatabaseClient
  gw_script :: "turn list"
  gw_now :: instant
  gw_deleted :: int
  gw_ext :: 'x

definition quiet_turn :: "instant \<Rightarrow> turn" where
  "quiet_turn now = \<lparr>tu_others = id, tu_now = now, tu_pool = (\<lambda>_. None), tu_stmt = None, tu_view = id\<rparr>"

definition next_turn :: "'x gc_world \<Rightarrow> turn" where
  "next_turn w = (case gw_script w of [] \<Rightarrow> quiet_turn (gw_now w) | t # _ \<Rightarrow> t)"

definition take_turn :: "'x gc_world \<Rightarrow> 'x gc_world" where
  "take_turn w =
     (case gw_script w of
        [] \<Rightarrow> w
      | t # ts \<Rightarrow> w\<lparr>gw_tables := tu_others t (gw_tables w), gw_script := ts, gw_now := tu_now t\<rparr>)"

definition turn_driver :: "turn \<Rightarrow> db driver" where
  "turn_driver t = \<lparr>drv_Acquire = (\<lambda>p d. (tu_pool t p, d))\<rparr>"

definition gc_query :: "string \<Rightarrow> (instant \<Rightarrow> db \<Rightarrow> gc_error + 'r) \<Rightarrow> 'x gc_world \<Rightarrow> (gc_error + 'r) \<times> 'x gc_world" where
  "gc_query cls q w =
     (let t = next_turn w; w1 = take_turn w
      in case queryRouted (turn_driver t) (tu_now t) cls
                (\<lambda>p d. case tu_stmt t of Some e \<Rightarrow> (Inl e, d) | None \<Rightarrow> (Inr (q (tu_now t) (tu_view t d)), d))
                (gw_client w1) (gw_tables w1) of
           (Inl e, c, d) \<Rightarrow> (Inl (GcDb e), w1\<lparr>gw_client := c\<rparr>)
         | (Inr r, c, d) \<Rightarrow> (r, w1\<lparr>gw_client := c\<rparr>))"

definition gc_exec :: "string \<Rightarrow> (db \<Rightarrow> nat \<times> db) \<Rightarrow> 'x gc_world \<Rightarrow> (gc_error + nat) \<times> 'x gc_world" where
  "gc_exec cls x w =
     (let t = next_turn w; w1 = take_turn w
      in case ExecWithMetrics (turn_driver t) (tu_now t) cls
                (\<lambda>p d. case tu_stmt t of Some e \<Rightarrow> (Inl e, d) | None \<Rightarrow> (case x d of (n, d') \<Rightarrow> (Inr n, d')))
                (gw_client w1) (gw_tables w1) of
           (Inl e, c, d) \<Rightarrow> (Inl (GcDb e), w1\<lparr>gw_client := c, gw_tables := d\<rparr>)
         | (Inr n, c, d) \<Rightarrow> (Inr n, w1\<lparr>gw_client := c, gw_tables := d\<rparr>))"

fun scan_rows :: "('a \<Rightarrow> 'b option) \<Rightarrow> 'a list \<Rightarrow> gc_error + 'b list" where
  "scan_rows f [] = Inr []"
| "scan_rows f (x # xs) =
     (case f x of
        None \<Rightarrow> Inl GcScan
      | Some y \<Rightarrow> (case scan_rows f xs of Inl e \<Rightarrow> Inl e | Inr ys \<Rightarrow> Inr (y # ys)))"

definition scan_session :: "pgx \<Rightarrow> session_row \<Rightarrow> SessionInfo option" where
  "scan_session P s =
     (case px_scan_uuid P (us_id s) of None \<Rightarrow> None | Some i \<Rightarrow>
      case px_scan_uuid P (us_tenant s) of None \<Rightarrow> None | Some t \<Rightarrow>
        Some \<lparr>si_ID = i, si_TenantID = t, si_ExpiresAt = us_expires s\<rparr>)"

definition Ad_GetExpiredSessions :: "string \<Rightarrow> pgx \<Rightarrow> int \<Rightarrow> 'x gc_world \<Rightarrow> (gc_error + SessionInfo list) \<times> 'x gc_world" where
  "Ad_GetExpiredSessions cls P limit w =
     gc_query cls (\<lambda>now d.
       if \<not> px_id_column P then Inl GcNoColumn
       else scan_rows (scan_session P) (take (nat limit) (sort_key us_expires
              (filter (\<lambda>s. us_status s \<noteq> ''COMPLETED'' \<and> us_expires s < now) (session_rows d))))) w"

definition Ad_MarkSessionExpired :: "string \<Rightarrow> pgx \<Rightarrow> string \<Rightarrow> 'x gc_world \<Rightarrow> gc_error option \<times> 'x gc_world" where
  "Ad_MarkSessionExpired cls P sessionID w =
     (case px_bind_uuid P sessionID of
        None \<Rightarrow> (Some GcEncode, w)
      | Some i \<Rightarrow>
          if \<not> px_id_column P then (Some GcNoColumn, w)
          else
            (case gc_exec cls (\<lambda>d. (length (filter (\<lambda>s. us_id s = i) (session_rows d)),
                    d\<lparr>session_rows := update_where (\<lambda>s. us_id s = i) (\<lambda>s. s\<lparr>us_status := ''EXPIRED''\<rparr>) (session_rows d)\<rparr>)) w of
               (r, w') \<Rightarrow> (err_of r, w')))"

text \<open>\<^verbatim>\<open>int(safetyWindow.Seconds())\<close> is the number of whole seconds; the window is positive.\<close>

definition scan_block :: "pgx \<Rightarrow> cas_row \<Rightarrow> GC_BlockInfo option" where
  "scan_block P b =
     (case px_scan_hash P (cb_hash b) of None \<Rightarrow> None | Some h \<Rightarrow>
      case px_scan_uuid P (cb_tenant b) of None \<Rightarrow> None | Some t \<Rightarrow>
        Some \<lparr>gb_BlockHash = h, gb_TenantID = t, gb_SizeBytes = cb_size b, gb_RefCount = cb_refs b\<rparr>)"

definition Ad_FindOrphanedBlocks ::
  "string \<Rightarrow> pgx \<Rightarrow> duration \<Rightarrow> int \<Rightarrow> 'x gc_world \<Rightarrow> (gc_error + GC_BlockInfo list) \<times> 'x gc_world" where
  "Ad_FindOrphanedBlocks cls P safetyWindow batchSize w =
     gc_query cls (\<lambda>now d. scan_rows (scan_block P) (take (nat batchSize) (sort_key cb_created
       (filter (\<lambda>b. cb_refs b = 0 \<and> cb_created b < now - unix_seconds safetyWindow * Second) (cas_rows d))))) w"

definition Ad_DoubleCheckBlock :: "string \<Rightarrow> pgx \<Rightarrow> string \<Rightarrow> 'x gc_world \<Rightarrow> (gc_error + bool) \<times> 'x gc_world" where
  "Ad_DoubleCheckBlock cls P blockHash w =
     (case px_bind_hash P blockHash of
        None \<Rightarrow> (Inl GcEncode, w)
      | Some h \<Rightarrow>
          gc_query cls (\<lambda>now d.
            case filter (\<lambda>b. cb_hash b = h) (cas_rows d) of
              [] \<Rightarrow> Inr False
            | b # _ \<Rightarrow> Inr (cb_refs b = 0)) w)"

fun bind_hashes :: "pgx \<Rightarrow> string list \<Rightarrow> bytes list option" where
  "bind_hashes P [] = Some []"
| "bind_hashes P (s # ss) =
     (case px_bind_hash P s of None \<Rightarrow> None | Some h \<Rightarrow> map_option ((#) h) (bind_hashes P ss))"

definition Ad_HardDeleteBlocks :: "string \<Rightarrow> pgx \<Rightarrow> string list \<Rightarrow> 'x gc_world \<Rightarrow> (gc_error + int) \<times> 'x gc_world" where
  "Ad_HardDeleteBlocks cls P hashes w =
     (case bind_hashes P hashes of
        None \<Rightarrow> (Inl GcEncode, w)
      | Some hs \<Rightarrow>
          (case gc_exec cls (delete_unreferenced hs) w of
             (Inl e, w') \<Rightarrow> (Inl e, w')
           | (Inr n, w') \<Rightarrow> (Inr (int n), w'\<lparr>gw_deleted := gw_deleted w' + int n\<rparr>)))"

text \<open>The adapter for an operation class; the class the service passes is \<^verbatim>\<open>gc\<close>.\<close>

definition adapter_store :: "string \<Rightarrow> pgx \<Rightarrow> ('x gc_world) GC_Store" where
  "adapter_store cls P =
     \<lparr>GetExpiredSessions = Ad_GetExpiredSessions cls P, MarkSessionExpired = Ad_MarkSessionExpired cls P,
      FindOrphanedBlocks = Ad_FindOrphanedBlocks cls P, DoubleCheckBlock = Ad_DoubleCheckBlock cls P,
      HardDeleteBlocks = Ad_HardDeleteBlocks cls P\<rparr>"

definition gcStoreAdapter :: "pgx \<Rightarrow> ('x gc_world) GC_Store" where
  "gcStoreAdapter P = adapter_store ''gc'' P"

definition ext_call :: "('x \<Rightarrow> 'r \<times> 'x) \<Rightarrow> 'x gc_world \<Rightarrow> 'r \<times> 'x gc_world" where
  "ext_call f w = (case f (gw_ext w) of (r, x) \<Rightarrow> (r, w\<lparr>gw_ext := x\<rparr>))"

definition gcPublisherAdapter ::
  "(string \<Rightarrow> BlockTombstoneEvent \<Rightarrow> 'x \<Rightarrow> gc_error option \<times> 'x) \<Rightarrow> string \<Rightarrow> TombstoneEvent \<Rightarrow> 'x gc_world \<Rightarrow>
   gc_error option \<times> 'x gc_world" where
  "gcPublisherAdapter bus topic event w =
     ext_call (bus topic \<lparr>te_BlockHash = gt_BlockHash event, te_TenantID = gt_TenantID event,
       te_SizeBytes = gt_SizeBytes event, te_Timestamp = gt_Timestamp event, te_Reason = gt_Reason event\<rparr>) w"

definition blobDeleterAdapter :: "(string \<Rightarrow> 'x \<Rightarrow> string option \<times> 'x) \<Rightarrow> string \<Rightarrow> 'x gc_world \<Rightarrow> string option \<times> 'x gc_world" where
  "blobDeleterAdapter deleteFn blockHash w = ext_call (deleteFn blockHash) w"


section \<open>What the collector needs of its backend\<close>

text \<open>What a dry run may do to the collector itself: extend the audit log by entries of two kinds.\<close>

definition dry_logged :: "'w GarbageCollector \<Rightarrow> 'w GarbageCollector \<Rightarrow> bool" where
  "dry_logged gc gc' \<longleftrightarrow> (\<exists>es. gc' = gc\<lparr>gc_auditLog := gc_auditLog gc @ es\<rparr> \<and>
     (\<forall>e \<in> set es. ae_Action e = ''dry_run_tombstone'' \<or> ae_Action e = ''double_check_saved''))"

lemma dry_logged_refl [simp]: "dry_logged gc gc"
  unfolding dry_logged_def by (rule exI [of _ "[]"]) simp

lemma dry_logged_trans: "dry_logged a b \<Longrightarrow> dry_logged b c \<Longrightarrow> dry_logged a c"
  unfolding dry_logged_def
  by (elim exE conjE) (rule_tac x = "es @ esa" in exI, auto)

lemma dry_logged_audit:
  "ae_Action e = ''dry_run_tombstone'' \<or> ae_Action e = ''double_check_saved'' \<Longrightarrow> dry_logged gc (audit e gc)"
  unfolding dry_logged_def audit_def by (rule exI [of _ "[e]"]) auto

lemma dry_logged_frame:
  "dry_logged gc gc' \<Longrightarrow> gc_store gc' = gc_store gc \<and> gc_cfg gc' = gc_cfg gc \<and> gc_deletionCount gc' = gc_deletionCount gc"
  by (auto simp: dry_logged_def)

text \<open>\<open>Q\<close> relates the world before and after a call; the collector's reads stay in it.\<close>

locale gc_reads =
  fixes S :: "'w GC_Store" and Q :: "'w \<Rightarrow> 'w \<Rightarrow> bool"
  assumes Q_refl: "Q w w"
    and Q_trans: "Q u v \<Longrightarrow> Q v w \<Longrightarrow> Q u w"
    and Q_find: "Q w (snd (FindOrphanedBlocks S window n w))"
    and Q_check: "Q w (snd (DoubleCheckBlock S h w))"
begin

lemma dry_process_block:
  assumes "gc_store gc = S" and "DryRun (gc_cfg gc)" and "process_block b gc w = (gc', w')"
  shows "Q w w' \<and> dry_logged gc gc'"
proof -
  obtain r w1 where chk: "DoubleCheckBlock S (gb_BlockHash b) w = (r, w1)"
    by fastforce
  have "Q w w1"
    using Q_check [of w "gb_BlockHash b"] by (simp add: chk)
  then show ?thesis
    using assms chk
    by (cases r) (auto simp: process_block_def block_entry_def split: if_splits intro!: dry_logged_audit)
qed

lemma dry_processBatch:
  assumes "gc_store gc = S" and "DryRun (gc_cfg gc)" and "processBatch bs gc w = (gc', w')"
  shows "Q w w' \<and> dry_logged gc gc'"
  using assms
proof (induction bs arbitrary: gc w)
  case (Cons b bs)
  obtain gc1 w1 where p: "process_block b gc w = (gc1, w1)"
    by fastforce
  note first = dry_process_block [OF Cons.prems(1,2) p]
  have "Q w1 w' \<and> dry_logged gc1 gc'" if "processBatch bs gc1 w1 = (gc', w')"
    using Cons.IH [OF _ _ that] Cons.prems(1,2) dry_logged_frame first by metis
  then show ?case
    using Cons.prems(3) p first Q_trans dry_logged_trans by (auto simp: Q_refl split: if_splits)
qed (simp add: Q_refl)

lemma dry_batches:
  assumes "gc_store gc = S" and "DryRun (gc_cfg gc)" and "batches n bs gc w = (gc', w')"
  shows "Q w w' \<and> dry_logged gc gc'"
  using assms
proof (induction n bs gc w rule: batches.induct)
  case (1 n bs gc w)
  obtain gc1 w1 where p: "processBatch (take n bs) gc w = (gc1, w1)"
    by fastforce
  note first = dry_processBatch [OF "1.prems"(1,2) p]
  show ?case
  proof (cases "bs = [] \<or> n = 0")
    case False
    then have "batches n (drop n bs) gc1 w1 = (gc', w')"
      using "1.prems"(3) p by (simp add: batches.simps [of n bs])
    then have "Q w1 w' \<and> dry_logged gc1 gc'"
      using "1.IH" [OF False p [symmetric]] "1.prems"(1,2) dry_logged_frame first by metis
    then show ?thesis
      using first Q_trans dry_logged_trans by blast
  qed (use "1.prems" in \<open>auto simp: batches.simps [of n bs] Q_refl\<close>)
qed

lemma dry_sweep:
  assumes "gc_store gc = S" and "DryRun (gc_cfg gc)" and "sweepOrphanedBlocks gc w = (gc', w')"
  shows "Q w w' \<and> dry_logged (reset_rate gc w) gc'"
proof -
  have same: "gc_store (reset_rate gc w) = S" "gc_cfg (reset_rate gc w) = gc_cfg gc"
    using assms(1) by (simp_all add: reset_rate_def)
  obtain r w1 where find: "FindOrphanedBlocks S (SafetyWindow (gc_cfg gc)) (BatchSize (gc_cfg gc)) w = (r, w1)"
    by fastforce
  have q: "Q w w1"
    using Q_find [of w "SafetyWindow (gc_cfg gc)" "BatchSize (gc_cfg gc)"] by (simp add: find)
  have "Q w1 w' \<and> dry_logged (reset_rate gc w) gc'"
    if "batches (nat (BatchSize (gc_cfg gc))) blocks (reset_rate gc w) w1 = (gc', w')" for blocks
    using dry_batches [OF same(1) _ that] assms(2) same(2) by simp
  then show ?thesis
    using assms(3) q Q_trans same find by (auto simp: sweepOrphanedBlocks_def Let_def split: sum.splits if_splits)
qed

end


text \<open>The whole backend: every call of the collector stays in \<open>Q\<close>, \<open>Q\<close> keeps the invariant \<open>ok\<close>, and
  \<open>gone\<close>, the number of rows the collector removed, moves only with a guarded delete, by what it reports.\<close>

locale gc_backend = gc_reads S Q for S :: "'w GC_Store" and Q :: "'w \<Rightarrow> 'w \<Rightarrow> bool" +
  fixes ok :: "'w \<Rightarrow> bool" and gone :: "'w \<Rightarrow> int"
  assumes Q_ok: "Q u v \<Longrightarrow> ok u \<Longrightarrow> ok v"
    and Q_expired: "Q w (snd (GetExpiredSessions S n w))"
    and Q_mark: "Q w (snd (MarkSessionExpired S i w))"
    and Q_hard: "Q w (snd (HardDeleteBlocks S hs w))"
    and gone_find: "gone (snd (FindOrphanedBlocks S window n w)) = gone w"
    and gone_check: "gone (snd (DoubleCheckBlock S h w)) = gone w"
    and gone_hard_error: "HardDeleteBlocks S [h] w = (Inl e, w') \<Longrightarrow> gone w' = gone w"
    and gone_hard: "ok w \<Longrightarrow> HardDeleteBlocks S [h] w = (Inr n, w') \<Longrightarrow> gone w' = gone w + n \<and> 0 \<le> n \<and> n \<le> 1"
begin

text \<open>The collector's other partners: the publisher, the blob deleter, the locker.\<close>

definition partner :: "('w \<Rightarrow> 'r \<times> 'w) \<Rightarrow> bool" where
  "partner f \<longleftrightarrow> (\<forall>w. Q w (snd (f w)) \<and> gone (snd (f w)) = gone w)"

definition built :: "'w GarbageCollector \<Rightarrow> bool" where
  "built gc \<longleftrightarrow> gc_store gc = S \<and> (\<forall>topic e. partner (gc_publisher gc topic e)) \<and>
     (\<forall>del h. gc_blob gc = Some del \<longrightarrow> partner (del h))"

text \<open>One piece of a sweep: the world moves in \<open>Q\<close> and the count by the rows removed, each time by one
  and never beyond the limit.\<close>

definition counted :: "'w GarbageCollector \<Rightarrow> 'w \<Rightarrow> 'w GarbageCollector \<Rightarrow> 'w \<Rightarrow> bool" where
  "counted gc w gc' w' \<longleftrightarrow> Q w w' \<and> gc_store gc' = gc_store gc \<and> gc_publisher gc' = gc_publisher gc \<and>
     gc_blob gc' = gc_blob gc \<and> gc_cfg gc' = gc_cfg gc \<and>
     (ok w \<longrightarrow> gone w' - gone w = gc_deletionCount gc' - gc_deletionCount gc) \<and>
     gc_deletionCount gc' \<le> max (gc_deletionCount gc) (MaxBlocksPerHour (gc_cfg gc))"

lemma counted_refl [simp]: "counted gc w gc w"
  by (simp add: counted_def Q_refl)

lemma counted_trans:
  assumes "counted gc w gc1 w1" and "counted gc1 w1 gc' w'"
  shows "counted gc w gc' w'"
proof -
  have "Q w w'"
    using assms Q_trans unfolding counted_def by blast
  moreover have "ok w \<longrightarrow> ok w1"
    using assms(1) Q_ok unfolding counted_def by blast
  moreover have "gone w1 - gone w = gc_deletionCount gc1 - gc_deletionCount gc" if "ok w"
    using assms(1) that unfolding counted_def by blast
  moreover have "gone w' - gone w1 = gc_deletionCount gc' - gc_deletionCount gc1" if "ok w1"
    using assms(2) that unfolding counted_def by blast
  moreover have "gc_deletionCount gc' \<le> max (gc_deletionCount gc) (MaxBlocksPerHour (gc_cfg gc))"
    using assms unfolding counted_def by (metis max.absorb_iff2 max.bounded_iff max.cobounded2 max_def order.trans)
  moreover have "gc_store gc' = gc_store gc \<and> gc_publisher gc' = gc_publisher gc \<and> gc_blob gc' = gc_blob gc \<and>
      gc_cfg gc' = gc_cfg gc"
    using assms unfolding counted_def by metis
  ultimately show ?thesis
    unfolding counted_def by fastforce
qed

lemma counted_built: "counted gc w gc' w' \<Longrightarrow> built gc \<Longrightarrow> built gc'"
  by (simp add: counted_def built_def)

lemma counted_audit [simp]: "counted gc w (audit e gc) w' \<longleftrightarrow> counted gc w gc w'"
  "counted (audit e gc) w gc' w' \<longleftrightarrow> counted gc w gc' w'"
  by (auto simp: counted_def audit_def)

lemma built_audit [simp]: "built (audit e gc) \<longleftrightarrow> built gc"
  by (simp add: built_def audit_def)

lemma partner_counted:
  assumes "partner f" and "f w = (r, w')"
  shows "counted gc w gc w'"
  using assms unfolding partner_def counted_def by (metis diff_self max.cobounded1 snd_conv)

lemma hard_delete_one_counted:
  assumes "built gc" and "gc_deletionCount gc < MaxBlocksPerHour (gc_cfg gc)" and "hard_delete_one b gc w = (gc', w')"
  shows "counted gc w gc' w'"
proof -
  obtain r w1 where hard: "HardDeleteBlocks S [gb_BlockHash b] w = (r, w1)"
    by fastforce
  have q: "Q w w1"
    using Q_hard [of w "[gb_BlockHash b]"] by (simp add: hard)
  show ?thesis
  proof (cases r)
    case (Inl e)
    then show ?thesis
      using assms hard q gone_hard_error by (auto simp: hard_delete_one_def built_def counted_def)
  next
    case (Inr n)
    have "ok w \<longrightarrow> gone w1 = gone w + n \<and> 0 \<le> n \<and> n \<le> 1"
      using gone_hard hard Inr by blast
    then show ?thesis
      using assms hard q Inr by (auto simp: hard_delete_one_def built_def counted_def split: if_splits)
  qed
qed

lemma delete_block_counted:
  assumes "built gc" and "gc_deletionCount gc < MaxBlocksPerHour (gc_cfg gc)" and "delete_block b gc w = (gc', w')"
  shows "counted gc w gc' w'"
proof (cases "gc_blob gc")
  case None
  then show ?thesis
    using assms hard_delete_one_counted by (simp add: delete_block_def)
next
  case (Some del)
  obtain r w1 where del: "del (gb_BlockHash b) w = (r, w1)"
    by fastforce
  have first: "counted gc w gc w1"
    using assms(1) Some partner_counted [of "del (gb_BlockHash b)" w r w1 gc] del by (simp add: built_def)
  have "counted gc w1 gc' w'" if "hard_delete_one b (audit e gc) w1 = (gc', w')" for e
    using hard_delete_one_counted [OF _ _ that] assms(1,2) by (auto simp: audit_def built_def counted_def)
  then show ?thesis
    using assms(3) first counted_trans Some del by (auto simp: delete_block_def split: option.splits)
qed

lemma process_block_counted:
  assumes "built gc" and "gc_deletionCount gc < MaxBlocksPerHour (gc_cfg gc)" and "process_block b gc w = (gc', w')"
  shows "counted gc w gc' w'"
proof -
  obtain r w1 where chk: "DoubleCheckBlock S (gb_BlockHash b) w = (r, w1)"
    by fastforce
  have first: "counted gc w gc w1"
    using Q_check [of w "gb_BlockHash b"] gone_check [of "gb_BlockHash b" w] by (simp add: chk counted_def)
  obtain r2 w2 where pub: "gc_publisher gc ''cas-tombstones'' (tombstone_for (gc_clock gc w1) b) w1 = (r2, w2)"
    by fastforce
  have second: "counted gc w gc w2"
    using assms(1) counted_trans [OF first partner_counted [of "gc_publisher gc ''cas-tombstones'' (tombstone_for (gc_clock gc w1) b)" w1 r2 w2 gc]] pub
    by (simp add: built_def)
  have "counted gc w2 gc' w'" if "delete_block b (audit e gc) w2 = (gc', w')" for e
    using delete_block_counted [OF _ _ that] assms(1,2) by (auto simp: audit_def built_def counted_def)
  then have third: "counted gc w gc' w'" if "delete_block b (audit e gc) w2 = (gc', w')" for e
    using that second counted_trans by blast
  have S: "gc_store gc = S"
    using assms(1) by (simp add: built_def)
  show ?thesis
  proof (cases r)
    case (Inl e)
    then show ?thesis
      using assms(3) first chk by (simp add: process_block_def S)
  next
    case (Inr still)
    then show ?thesis
      using assms(3) first second third chk pub
      by (cases r2) (auto simp: process_block_def S split: if_splits)
  qed
qed

lemma processBatch_counted:
  assumes "built gc" and "processBatch bs gc w = (gc', w')"
  shows "counted gc w gc' w'"
  using assms
proof (induction bs arbitrary: gc w)
  case (Cons b bs)
  obtain gc1 w1 where p: "process_block b gc w = (gc1, w1)"
    by fastforce
  show ?case
  proof (cases "gc_deletionCount gc \<ge> MaxBlocksPerHour (gc_cfg gc)")
    case False
    then have first: "counted gc w gc1 w1"
      using process_block_counted [OF Cons.prems(1) _ p] by simp
    have "processBatch bs gc1 w1 = (gc', w')"
      using Cons.prems(2) False p by simp
    from Cons.IH [OF counted_built [OF first Cons.prems(1)] this] show ?thesis
      by (rule counted_trans [OF first])
  qed (use Cons.prems in simp)
qed simp

lemma batches_counted:
  assumes "built gc" and "batches n bs gc w = (gc', w')"
  shows "counted gc w gc' w'"
  using assms
proof (induction n bs gc w rule: batches.induct)
  case (1 n bs gc w)
  obtain gc1 w1 where p: "processBatch (take n bs) gc w = (gc1, w1)"
    by fastforce
  note first = processBatch_counted [OF "1.prems"(1) p]
  show ?case
  proof (cases "bs = [] \<or> n = 0")
    case False
    then have "batches n (drop n bs) gc1 w1 = (gc', w')"
      using "1.prems"(2) p by (simp add: batches.simps [of n bs])
    from "1.IH" [OF False p [symmetric] counted_built [OF first "1.prems"(1)] this] show ?thesis
      by (rule counted_trans [OF first])
  qed (use "1.prems" in \<open>auto simp: batches.simps [of n bs]\<close>)
qed

lemma sweep_counted:
  assumes "built gc" and "sweepOrphanedBlocks gc w = (gc', w')"
  shows "counted (reset_rate gc w) w gc' w'"
proof -
  let ?gc = "reset_rate gc w"
  have b: "built ?gc" and same: "gc_store ?gc = S"
    using assms(1) by (simp_all add: reset_rate_def built_def)
  obtain r w1 where find: "FindOrphanedBlocks S (SafetyWindow (gc_cfg ?gc)) (BatchSize (gc_cfg ?gc)) w = (r, w1)"
    by fastforce
  have first: "counted ?gc w ?gc w1"
    using Q_find [of w "SafetyWindow (gc_cfg ?gc)" "BatchSize (gc_cfg ?gc)"]
      gone_find [of "SafetyWindow (gc_cfg ?gc)" "BatchSize (gc_cfg ?gc)" w] by (simp add: find counted_def)
  then show ?thesis
    using assms(2) find batches_counted [OF b] counted_trans [OF first]
    by (auto simp: sweepOrphanedBlocks_def Let_def same split: sum.splits if_splits)
qed

lemma cleanup_Q:
  assumes "built gc"
  shows "Q w (snd (cleanupExpiredSessions gc w))"
proof -
  have loop: "Q w (snd (cleanup_loop ss gc w))" if "gc_store gc = S" for ss gc w
    using that
  proof (induction ss arbitrary: gc w)
    case (Cons s ss)
    obtain r w1 where m: "MarkSessionExpired S (si_ID s) w = (r, w1)"
      by fastforce
    then have "Q w w1"
      using Q_mark [of w "si_ID s"] by simp
    then show ?case
      using Cons m Q_trans by (cases r) (auto simp: audit_def)
  qed (simp add: Q_refl)
  obtain r w1 where g: "GetExpiredSessions S (BatchSize (gc_cfg gc)) w = (r, w1)"
    by fastforce
  then have "Q w w1"
    using Q_expired [of w "BatchSize (gc_cfg gc)"] by simp
  then show ?thesis
    using assms g loop Q_trans by (cases r) (auto simp: cleanupExpiredSessions_def built_def)
qed

lemma leader_Q:
  assumes "built (ls_gc s)" and "\<And>key ttl. partner (ls_Acquire s key ttl)" and "\<And>tok. partner (ls_Release s tok)"
  shows "Q w (snd (RunLeaderSweep s w))"
proof -
  have S: "gc_store (ls_gc s) = S" and pub: "\<And>topic e w. Q w (snd (gc_publisher (ls_gc s) topic e w))"
    using assms(1) by (simp_all add: built_def partner_def)
  have acq: "Q w (snd (ls_Acquire s key ttl w))" and rel: "Q w (snd (ls_Release s tok w))" for key ttl tok w
    using assms(2,3) by (auto simp: partner_def)
  have body: "Q w (case DoubleCheckBlock S h w of
       (Inr True, w2) \<Rightarrow> snd (HardDeleteBlocks S hs (snd (gc_publisher (ls_gc s) topic (e w2) w2)))
     | (_, w2) \<Rightarrow> w2)" for h hs topic e w
    using Q_check [of w h] Q_hard pub Q_trans by (auto split: prod.splits sum.splits bool.splits) (metis snd_conv)+
  have loop: "Q w (leader_loop s bs w)" for bs w
  proof (induction bs arbitrary: w)
    case (Cons b bs)
    obtain r w1 where a: "ls_Acquire s (''gc:block:'' @ gb_BlockHash b) (10 * Second) w = (r, w1)"
      by fastforce
    then have "Q w w1"
      using acq by (metis snd_conv)
    note step = Q_trans [OF this]
    show ?case
    proof (cases r)
      case (Inl e)
      then show ?thesis
        using step [OF Cons.IH] a by simp
    next
      case (Inr tok)
      note w3 = body [of w1 "[gb_BlockHash b]" "''cas-tombstones''"
          "\<lambda>w2. tombstone_for (gc_clock (ls_gc s) w2) b" "gb_BlockHash b"]
      show ?thesis
        using step [OF Q_trans [OF w3 Q_trans [OF rel [of _ tok] Cons.IH]]] a Inr
        unfolding leader_loop.simps S by (simp add: Let_def)
    qed
  qed (simp add: Q_refl)
  obtain r w1 where f: "FindOrphanedBlocks S (SafetyWindow (gc_cfg (ls_gc s))) (BatchSize (gc_cfg (ls_gc s))) w = (r, w1)"
    by fastforce
  then have "Q w w1"
    using Q_find by (metis snd_conv)
  then show ?thesis
    using f loop Q_trans Q_refl by (cases r) (auto simp: RunLeaderSweep_def S)
qed

lemma consumer_Q:
  assumes "tc_store tc = S" and "\<And>m. partner (tc_commit tc m)" and "\<And>h. partner (tc_blob tc h)"
  shows "Q w (processMessage decode tc msg w)"
proof -
  have parts: "Q w (snd (tc_commit tc msg w))" "Q w (snd (tc_blob tc h w))" for w h
    using assms(2,3) by (auto simp: partner_def)
  show ?thesis
  proof (cases "decode msg")
    case (Some ev)
    obtain r w1 where b: "tc_blob tc (gt_BlockHash ev) w = (r, w1)"
      by fastforce
    then have "Q w w1"
      using parts(2) by (metis snd_conv)
    then show ?thesis
      using Some b assms(1) parts(1) Q_hard Q_trans
      by (cases r) (auto simp: processMessage_def Let_def, metis)
  qed (simp add: processMessage_def Q_refl)
qed

end


section \<open>The adapter provides it\<close>

lemma ExecWithMetrics_turn:
  "(\<exists>e c'. ExecWithMetrics (turn_driver t) now cls stmt c d = (Inl e, c', d)) \<or>
   (\<exists>p c'. ExecWithMetrics (turn_driver t) now cls stmt c d = (fst (stmt p d), c', snd (stmt p d)))"
proof -
  obtain r c1 where pick: "acquire_pool now cls c = (r, c1)"
    by fastforce
  show ?thesis
  proof (cases r)
    case (Inl e)
    then show ?thesis
      by (simp add: ExecWithMetrics_def acquire_def pick)
  next
    case (Inr p)
    then show ?thesis
      by (cases "tu_pool t p")
        (auto simp: ExecWithMetrics_def acquire_def pick turn_driver_def split_beta)
  qed
qed

lemma gc_query_world: "\<exists>c. snd (gc_query cls q w) = (take_turn w)\<lparr>gw_client := c\<rparr>"
  by (auto simp: gc_query_def Let_def split: prod.splits sum.splits)

lemma gc_exec_cases:
  obtains (failed) e c where "gc_exec cls x w = (Inl e, (take_turn w)\<lparr>gw_client := c\<rparr>)"
  | (ran) c where "gc_exec cls x w =
      (Inr (fst (x (gw_tables (take_turn w)))), (take_turn w)\<lparr>gw_client := c, gw_tables := snd (x (gw_tables (take_turn w)))\<rparr>)"
proof -
  let ?t = "next_turn w"
  let ?w = "take_turn w"
  let ?stmt = "\<lambda>(p :: pool) d. case tu_stmt ?t of Some e \<Rightarrow> (Inl e, d) | None \<Rightarrow> (case x d of (n, d') \<Rightarrow> (Inr n, d'))"
  have same: "?w\<lparr>gw_client := c, gw_tables := gw_tables ?w\<rparr> = ?w\<lparr>gw_client := c\<rparr>" for c
    by simp
  from ExecWithMetrics_turn [of ?t "tu_now ?t" cls ?stmt "gw_client ?w" "gw_tables ?w"]
  have "(\<exists>e c. gc_exec cls x w = (Inl e, ?w\<lparr>gw_client := c\<rparr>)) \<or>
      (\<exists>c. gc_exec cls x w = (Inr (fst (x (gw_tables ?w))), ?w\<lparr>gw_client := c, gw_tables := snd (x (gw_tables ?w))\<rparr>))"
    by (cases "tu_stmt ?t") (auto simp: gc_exec_def Let_def same split_beta)
  then show ?thesis
    using failed ran by blast
qed

text \<open>The other sessions keep the reference-count protocol.\<close>

definition good_world :: "'x gc_world \<Rightarrow> bool" where
  "good_world w \<longleftrightarrow> refs_ok (gw_tables w) \<and> (\<forall>t \<in> set (gw_script w). \<forall>d. refs_ok d \<longrightarrow> refs_ok (tu_others t d))"

lemma good_take_turn: "good_world w \<Longrightarrow> good_world (take_turn w)"
  by (auto simp: good_world_def take_turn_def split: list.splits)

lemma good_world_update [simp]:
  "good_world (w\<lparr>gw_client := c\<rparr>) = good_world w" "good_world (w\<lparr>gw_deleted := n\<rparr>) = good_world w"
  "good_world (w\<lparr>gw_ext := e\<rparr>) = good_world w"
  by (simp_all add: good_world_def)

lemma good_tables: "good_world w \<Longrightarrow> refs_ok d \<Longrightarrow> good_world (w\<lparr>gw_tables := d\<rparr>)"
  by (simp add: good_world_def)

lemma deleted_frames [simp]:
  "gw_deleted (take_turn w) = gw_deleted w" "gw_ext (take_turn w) = gw_ext w"
  by (simp_all add: take_turn_def split: list.splits)

lemma gc_query_good: "good_world w \<Longrightarrow> good_world (snd (gc_query cls q w))"
  using gc_query_world [of cls q w] good_take_turn by fastforce

lemma gc_query_deleted [simp]: "gw_deleted (snd (gc_query cls q w)) = gw_deleted w"
  using gc_query_world [of cls q w] by fastforce

lemma gc_exec_good:
  assumes "good_world w" and "\<And>d. refs_ok d \<Longrightarrow> refs_ok (snd (x d))"
  shows "good_world (snd (gc_exec cls x w))"
proof (cases rule: gc_exec_cases [of cls x w])
  case (ran c)
  have "refs_ok (snd (x (gw_tables (take_turn w))))"
    using assms good_take_turn [OF assms(1)] by (simp add: good_world_def)
  then show ?thesis
    using ran good_take_turn [OF assms(1)] by (simp add: good_world_def)
qed (use good_take_turn [OF assms(1)] in simp)

lemma refs_ok_sessions: "refs_ok d \<Longrightarrow> refs_ok (d\<lparr>session_rows := ss\<rparr>)"
  by (simp add: refs_ok_def ref_of_def)

lemma delete_one_count:
  assumes "distinct (map cb_hash (cas_rows d))"
  shows "fst (delete_unreferenced [h] d) \<le> 1"
proof -
  let ?hs = "map cb_hash (filter (\<lambda>b. cb_hash b = h \<and> cb_refs b = 0) (cas_rows d))"
  have "length ?hs = card (set ?hs)"
    using assms by (intro distinct_card [symmetric] distinct_map_filter)
  also have "\<dots> \<le> card {h}"
    by (rule card_mono) auto
  finally show ?thesis
    by (simp add: delete_unreferenced_def Let_def)
qed

lemma Ad_HardDelete_good: "good_world w \<Longrightarrow> good_world (snd (Ad_HardDeleteBlocks cls P hs w))"
proof (cases "bind_hashes P hs")
  case (Some bs)
  assume "good_world w"
  then have "good_world (snd (gc_exec cls (delete_unreferenced bs) w))"
    by (rule gc_exec_good) (rule refs_ok_delete)
  then show ?thesis
    using Some by (auto simp: Ad_HardDeleteBlocks_def split: prod.splits sum.splits)
qed (simp add: Ad_HardDeleteBlocks_def)

lemma Ad_HardDelete_gone:
  assumes "Ad_HardDeleteBlocks cls P [h] w = (r, w')"
  shows "case r of Inl _ \<Rightarrow> gw_deleted w' = gw_deleted w
    | Inr n \<Rightarrow> gw_deleted w' = gw_deleted w + n \<and>
        (distinct (map cb_hash (cas_rows (gw_tables (take_turn w)))) \<longrightarrow> 0 \<le> n \<and> n \<le> 1)"
proof (cases "bind_hashes P [h]")
  case None
  then show ?thesis
    using assms by (auto simp: Ad_HardDeleteBlocks_def)
next
  case (Some hs)
  then obtain b where hs: "hs = [b]"
    by (auto split: option.splits)
  note small = delete_one_count [of "gw_tables (take_turn w)" b]
  show ?thesis
    using assms Some hs small
    by (cases rule: gc_exec_cases [of cls "delete_unreferenced [b]" w]) (auto simp: Ad_HardDeleteBlocks_def)
qed

interpretation adapter: gc_backend "adapter_store cls P" "\<lambda>w w'. good_world w \<longrightarrow> good_world w'" good_world gw_deleted
proof unfold_locales
  fix w i
  show "good_world w \<longrightarrow> good_world (snd (MarkSessionExpired (adapter_store cls P) i w))"
    by (auto simp: adapter_store_def Ad_MarkSessionExpired_def split_beta refs_ok_sessions
        split: option.splits intro!: gc_exec_good)
next
  fix w h e w'
  assume "HardDeleteBlocks (adapter_store cls P) [h] w = (Inl e, w')"
  then show "gw_deleted w' = gw_deleted w"
    using Ad_HardDelete_gone [of cls P h w "Inl e" w'] by (simp add: adapter_store_def)
next
  fix w h n w'
  assume "good_world w" and "HardDeleteBlocks (adapter_store cls P) [h] w = (Inr n, w')"
  then show "gw_deleted w' = gw_deleted w + n \<and> 0 \<le> n \<and> n \<le> 1"
    using Ad_HardDelete_gone [of cls P h w "Inr n" w'] good_take_turn [of w] refs_okD(1) [of "gw_tables (take_turn w)"]
    by (simp add: adapter_store_def good_world_def)
qed (auto simp: adapter_store_def Ad_FindOrphanedBlocks_def Ad_DoubleCheckBlock_def Ad_GetExpiredSessions_def
    Ad_HardDelete_good gc_query_good split: option.splits)


text \<open>A world that only the other sessions and the routing of queries moved.\<close>

definition only_others :: "'x gc_world \<Rightarrow> 'x gc_world \<Rightarrow> bool" where
  "only_others w w' \<longleftrightarrow> (\<exists>k. gw_tables w' = fold tu_others (take k (gw_script w)) (gw_tables w) \<and>
     gw_script w' = drop k (gw_script w)) \<and> gw_deleted w' = gw_deleted w \<and> gw_ext w' = gw_ext w"

lemma only_others_refl [simp]: "only_others w w"
  by (auto simp: only_others_def intro!: exI [of _ 0])

lemma only_others_trans:
  assumes "only_others u v" and "only_others v w"
  shows "only_others u w"
proof -
  obtain k l where "gw_tables v = fold tu_others (take k (gw_script u)) (gw_tables u)"
      "gw_script v = drop k (gw_script u)"
      "gw_tables w = fold tu_others (take l (gw_script v)) (gw_tables v)" "gw_script w = drop l (gw_script v)"
    using assms by (auto simp: only_others_def)
  then have "gw_tables w = fold tu_others (take (k + l) (gw_script u)) (gw_tables u) \<and>
      gw_script w = drop (k + l) (gw_script u)"
    by (simp add: take_add add.commute)
  then show ?thesis
    using assms by (auto simp: only_others_def)
qed

lemma only_others_turn: "only_others w ((take_turn w)\<lparr>gw_client := c\<rparr>)"
proof (cases "gw_script w")
  case Nil
  then show ?thesis
    by (auto simp: only_others_def take_turn_def intro!: exI [of _ 0])
next
  case (Cons t ts)
  then show ?thesis
    by (auto simp: only_others_def take_turn_def intro!: exI [of _ 1])
qed

lemma only_others_query: "only_others w (snd (gc_query cls q w))"
  using gc_query_world [of cls q w] only_others_turn by metis

interpretation dry: gc_reads "adapter_store cls P" only_others
proof unfold_locales
  fix u v w :: "'x gc_world"
  assume "only_others u v" and "only_others v w"
  then show "only_others u w"
    by (rule only_others_trans)
qed (auto simp: adapter_store_def Ad_FindOrphanedBlocks_def Ad_DoubleCheckBlock_def only_others_query split: option.splits)

section \<open>Properties\<close>

lemma partner_ext [simp]: "adapter.partner (ext_call f)"
  by (auto simp: adapter.partner_def ext_call_def split: prod.splits)

lemma partner_adapters [simp]:
  "adapter.partner (gcPublisherAdapter bus topic e)" "adapter.partner (blobDeleterAdapter del h)"
  by (auto simp: adapter.partner_def gcPublisherAdapter_def blobDeleterAdapter_def ext_call_def split: prod.splits)

lemma adapter_built:
  assumes "gc_store gc = adapter_store cls P" and "gc_publisher gc = gcPublisherAdapter bus"
    and "gc_blob gc = map_option blobDeleterAdapter del"
  shows "adapter.built cls P gc"
  using assms by (auto simp: adapter.built_def)

text \<open>C12. Whatever the other sessions do between the collector's calls, as long as they keep the
  reference-count protocol, and whatever connections, statements, brokers and blob stores fail: the session
  cleanup, the sweep, the leader's sweep and the tombstone consumer keep the protocol, so that no manifest
  ever names a row they removed.\<close>

theorem collector_keeps_references:
  assumes "refs_ok (gw_tables w)"
    and "\<And>t d. t \<in> set (gw_script w) \<Longrightarrow> refs_ok d \<Longrightarrow> refs_ok (tu_others t d)"
    and "gc_store gc = adapter_store cls P" and "gc_publisher gc = gcPublisherAdapter bus"
    and "gc_blob gc = map_option blobDeleterAdapter del"
    and "ls_gc s = gc" and "ls_Acquire s = (\<lambda>key ttl. ext_call (acq key ttl))" and "ls_Release s = (\<lambda>tok. ext_call (rel tok))"
    and "tc_store tc = adapter_store cls P" and "tc_commit tc = (\<lambda>m. ext_call (com m))" and "tc_blob tc = blobDeleterAdapter del'"
  shows "refs_ok (gw_tables (snd (cleanupExpiredSessions gc w))) \<and>
    refs_ok (gw_tables (snd (sweepOrphanedBlocks gc w))) \<and>
    refs_ok (gw_tables (snd (RunLeaderSweep s w))) \<and>
    refs_ok (gw_tables (processMessage decode tc msg w))"
proof -
  have good: "good_world w"
    using assms(1,2) by (simp add: good_world_def)
  have built: "adapter.built cls P gc"
    using assms(3-5) by (rule adapter_built)
  have "good_world (snd (cleanupExpiredSessions gc w))"
    using adapter.cleanup_Q [OF built] good by blast
  moreover have "good_world (snd (sweepOrphanedBlocks gc w))"
    using adapter.sweep_counted [OF built, of w] good by (metis adapter.counted_def surjective_pairing)
  moreover have "good_world (snd (RunLeaderSweep s w))"
    using adapter.leader_Q [of cls P s w] built assms(6-8) good by simp
  moreover have "good_world (processMessage decode tc msg w)"
    using adapter.consumer_Q [of tc cls P w decode msg] assms(9-11) good by simp
  ultimately show ?thesis
    by (simp add: good_world_def)
qed

text \<open>C38. The collector's counter is exactly the number of rows its sweeps removed since the hourly reset,
  and no sweep takes it beyond the configured limit, whatever happens between its calls.\<close>

theorem sweep_rate_limited:
  assumes "refs_ok (gw_tables w)"
    and "\<And>t d. t \<in> set (gw_script w) \<Longrightarrow> refs_ok d \<Longrightarrow> refs_ok (tu_others t d)"
    and "gc_store gc = adapter_store cls P" and "gc_publisher gc = gcPublisherAdapter bus"
    and "gc_blob gc = map_option blobDeleterAdapter del"
    and "sweepOrphanedBlocks gc w = (gc', w')"
  shows "gw_deleted w' - gw_deleted w = gc_deletionCount gc' - gc_deletionCount (reset_rate gc w) \<and>
    gc_deletionCount gc' \<le> max (gc_deletionCount (reset_rate gc w)) (MaxBlocksPerHour (gc_cfg gc))"
proof -
  have "good_world w"
    using assms(1,2) by (simp add: good_world_def)
  moreover have "gc_cfg (reset_rate gc w) = gc_cfg gc"
    by (simp add: reset_rate_def)
  ultimately show ?thesis
    using adapter.sweep_counted [OF adapter_built [OF assms(3-5)] assms(6)] by (simp add: adapter.counted_def)
qed

text \<open>In dry-run mode a sweep deletes nothing, publishes nothing and touches no blob: what happened to
  the tables is what the other sessions did, and the collector's only trace is in its audit log.\<close>

theorem sweep_dry_run:
  assumes "gc_store gc = adapter_store cls P" and "DryRun (gc_cfg gc)" and "sweepOrphanedBlocks gc w = (gc', w')"
  shows "only_others w w' \<and> dry_logged (reset_rate gc w) gc'"
  using assms by (rule dry.dry_sweep)


lemma gc_class_query: "gc_query ''gc'' q w = (Inl (GcDb ErrPrimaryUnavailable), (take_turn w)\<lparr>gw_client := gw_client (take_turn w)\<rparr>)"
  by (simp add: gc_query_def queryRouted_def pickPool_def op_class_defs Let_def)

lemma gc_class_exec:
  "gc_exec ''gc'' x w = (Inl (GcDb (UnknownOpClass ''gc'')), (take_turn w)\<lparr>gw_client := gw_client (take_turn w)\<rparr>)"
  by (simp add: gc_exec_def ExecWithMetrics_def acquire_def acquire_pool_def recordPrimaryOutcome_def op_class_defs Let_def)

text \<open>The adapter that the service installs passes the operation class gc, which the database client
  routes to no pool: every call fails before it reaches a server. The session cleanup expires nothing, the
  sweep collects nothing, and the leader's sweep reports the primary as unavailable, whatever the tables hold.\<close>

theorem gc_adapter_inert:
  assumes "gc_store gc = gcStoreAdapter P"
  shows "fst (cleanupExpiredSessions gc w) = gc \<and> only_others w (snd (cleanupExpiredSessions gc w)) \<and>
    fst (sweepOrphanedBlocks gc w) = reset_rate gc w \<and> only_others w (snd (sweepOrphanedBlocks gc w)) \<and>
    (ls_gc s = gc \<and> ls_is_leader s = None \<longrightarrow> fst (RunLeaderSweep s w) = Some (GcDb ErrPrimaryUnavailable))"
proof -
  have store: "gc_store (reset_rate gc w) = gcStoreAdapter P"
    using assms by (simp add: reset_rate_def)
  show ?thesis
    using assms store only_others_turn [of w "gw_client (take_turn w)"]
    by (simp add: cleanupExpiredSessions_def sweepOrphanedBlocks_def RunLeaderSweep_def gcStoreAdapter_def
        adapter_store_def Ad_GetExpiredSessions_def Ad_FindOrphanedBlocks_def gc_class_query Let_def)
qed

lemma leader_loop_config:
  "leader_loop (s\<lparr>ls_gc := (ls_gc s)\<lparr>gc_cfg := c, gc_blob := b\<rparr>\<rparr>) bs w = leader_loop s bs w"
proof (induction bs arbitrary: w)
  case (Cons x xs)
  obtain r w1 where acq: "ls_Acquire s (''gc:block:'' @ gb_BlockHash x) (10 * Second) w = (r, w1)"
    by fastforce
  then show ?case
    using Cons by (cases r) (auto simp: Let_def split: prod.split sum.split bool.split)
qed simp

text \<open>The leader's sweep does not look at the dry-run switch or the hourly limit, and it never deletes a
  blob: it does the same to the world under every setting of them.\<close>

theorem leader_sweep_ignores_limits:
  "RunLeaderSweep (s\<lparr>ls_gc := (ls_gc s)\<lparr>gc_cfg := (gc_cfg (ls_gc s))\<lparr>DryRun := x, MaxBlocksPerHour := n\<rparr>, gc_blob := b\<rparr>\<rparr>) w =
   RunLeaderSweep s w"
proof -
  obtain r w1 where "FindOrphanedBlocks (gc_store (ls_gc s)) (SafetyWindow (gc_cfg (ls_gc s))) (BatchSize (gc_cfg (ls_gc s))) w = (r, w1)"
    by fastforce
  then show ?thesis
    by (cases r) (simp_all add: RunLeaderSweep_def leader_loop_config)
qed

lemma stored_refs_delete:
  assumes "stored_refs d h = Some r" and "r \<noteq> 0"
  shows "stored_refs (snd (delete_unreferenced hs d)) h = Some r"
  using assms unfolding stored_refs_def delete_unreferenced_def Let_def
  by (auto intro!: map_of_filter_kept)

text \<open>The tombstone consumer deletes the blob without looking at the reference count: a block that was
  referenced again after its tombstone was published keeps its row and loses its blob, and the message is
  acknowledged.\<close>

theorem consumer_deletes_referenced_blob:
  assumes "decode msg = Some ev" and "\<not> tc_dryRun tc" and "tc_store tc = adapter_store cls P"
    and "tc_blob tc = blobDeleterAdapter (\<lambda>k (blobs, acks). (None, (blobs - {k}, acks)))"
    and "tc_commit tc = (\<lambda>m. ext_call (\<lambda>(blobs, acks). (None, (blobs, acks @ [m]))))"
    and "gw_script w = []" and "stored_refs (gw_tables w) h = Some r" and "r \<noteq> 0" and "gw_ext w = (blobs, acks)"
    and "w' = processMessage decode tc msg w"
  shows "stored_refs (gw_tables w') h = Some r \<and> gw_ext w' = (blobs - {gt_BlockHash ev}, acks @ [msg])"
proof -
  let ?w1 = "w\<lparr>gw_ext := (blobs - {gt_BlockHash ev}, acks)\<rparr>"
  let ?w2 = "snd (Ad_HardDeleteBlocks cls P [gt_BlockHash ev] ?w1)"
  have w': "w' = ?w2\<lparr>gw_ext := (fst (gw_ext ?w2), snd (gw_ext ?w2) @ [msg])\<rparr>"
    using assms(1-5,9,10)
    by (simp add: processMessage_def blobDeleterAdapter_def ext_call_def adapter_store_def Let_def split_beta)
  have quiet: "take_turn ?w1 = ?w1"
    using assms(6) by (simp add: take_turn_def)
  have "stored_refs (gw_tables ?w2) h = Some r \<and> gw_ext ?w2 = gw_ext ?w1"
  proof (cases "bind_hashes P [gt_BlockHash ev]")
    case None
    then show ?thesis
      using assms(7) by (simp add: Ad_HardDeleteBlocks_def)
  next
    case (Some hs)
    then show ?thesis
      using assms(7) stored_refs_delete [OF assms(7,8), of hs] quiet
      by (cases rule: gc_exec_cases [of cls "delete_unreferenced hs" ?w1]) (simp_all add: Ad_HardDeleteBlocks_def)
  qed
  then show ?thesis
    by (simp add: w')
qed

section \<open>A worked example of the collector\<close>

definition demo_pgx :: pgx where
  "demo_pgx = \<lparr>px_scan_hash = (\<lambda>h. Some (EncodeToString h)), px_bind_hash = DecodeString,
     px_scan_uuid = (\<lambda>u. Some (EncodeToString u)), px_bind_uuid = DecodeString, px_id_column = True\<rparr>"

definition demo_gc_world :: "'x \<Rightarrow> 'x gc_world" where
  "demo_gc_world x = \<lparr>gw_tables = demo_db, gw_client = demo_client, gw_script = [], gw_now = week_later,
     gw_deleted = 0, gw_ext = x\<rparr>"

definition demo_gc_cfg :: "bool \<Rightarrow> GC_Config" where
  "demo_gc_cfg d = \<lparr>SessionCleanupInterval = 0, BlockSweepInterval = 0, SafetyWindow = 0, BatchSize = 0,
     MaxBlocksPerHour = 0, DryRun = d\<rparr>"

definition demo_gc :: "string \<Rightarrow> bool \<Rightarrow> ('x gc_world) GarbageCollector" where
  "demo_gc cls d = New (adapter_store cls demo_pgx) (gcPublisherAdapter (\<lambda>topic e x. (None, x)))
     (Some (blobDeleterAdapter (\<lambda>k x. (None, x)))) gw_now (demo_gc_cfg d)"

definition demo_sweeper :: "(unit gc_world) LeaderGCSweeper" where
  "demo_sweeper = \<lparr>ls_gc = demo_gc OpWrite False, ls_is_leader = None,
     ls_Acquire = (\<lambda>key ttl. ext_call (\<lambda>x. (Inr key, x))), ls_Release = (\<lambda>tok. ext_call (\<lambda>x. (None, x)))\<rparr>"

definition demo_consumer :: "(unit gc_world) TombstoneConsumer" where
  "demo_consumer = \<lparr>tc_commit = (\<lambda>m. ext_call (\<lambda>x. (None, x))), tc_blob = blobDeleterAdapter (\<lambda>k x. (None, x)),
     tc_store = adapter_store OpWrite demo_pgx, tc_dryRun = False\<rparr>"

text \<open>While the collector works, another session references the orphan.\<close>

definition demo_turn :: turn where
  "demo_turn = (quiet_turn week_later)\<lparr>tu_others := demo_reference\<rparr>"

lemma demo_reference_ok: "refs_ok d \<Longrightarrow> refs_ok (demo_reference d)"
  using refs_ok_insert_manifest [of d 1 demo_manifest] by (simp add: demo_reference_def split: sum.splits)

lemma demo_gc_parts:
  "gc_store (demo_gc cls d) = adapter_store cls demo_pgx"
  "gc_publisher (demo_gc cls d) = gcPublisherAdapter (\<lambda>topic e x. (None, x))"
  "gc_blob (demo_gc cls d) = map_option blobDeleterAdapter (Some (\<lambda>k x. (None, x)))"
  "DryRun (gc_cfg (demo_gc cls d)) = d" "MaxBlocksPerHour (gc_cfg (demo_gc cls d)) = 5000"
  by (simp_all add: demo_gc_def New_def GC_applyDefaults_def demo_gc_cfg_def)

theorem collector_keeps_references_witness:
  "refs_ok (gw_tables (snd (sweepOrphanedBlocks (demo_gc OpWrite False)
     ((demo_gc_world ())\<lparr>gw_script := [quiet_turn week_later, demo_turn]\<rparr>))))"
proof -
  let ?w = "(demo_gc_world ())\<lparr>gw_script := [quiet_turn week_later, demo_turn]\<rparr>"
  have tables: "refs_ok (gw_tables ?w)"
    by (simp add: demo_gc_world_def demo_refs_ok)
  have turns: "refs_ok (tu_others t d)" if "t \<in> set (gw_script ?w)" and "refs_ok d" for t d
    using that by (auto simp: demo_turn_def quiet_turn_def demo_reference_ok)
  have "ls_gc demo_sweeper = demo_gc OpWrite False"
    and "ls_Acquire demo_sweeper = (\<lambda>key ttl. ext_call (\<lambda>x. (Inr key, x)))"
    and "ls_Release demo_sweeper = (\<lambda>tok. ext_call (\<lambda>x. (None, x)))"
    and "tc_store demo_consumer = adapter_store OpWrite demo_pgx"
    and "tc_commit demo_consumer = (\<lambda>m. ext_call (\<lambda>x. (None, x)))"
    and "tc_blob demo_consumer = blobDeleterAdapter (\<lambda>k x. (None, x))"
    by (simp_all add: demo_sweeper_def demo_consumer_def)
  from collector_keeps_references [OF tables turns demo_gc_parts(1-3) this] show ?thesis
    by blast
qed

theorem sweep_rate_limited_witness:
  "gc_deletionCount (fst (sweepOrphanedBlocks (demo_gc OpWrite False) (demo_gc_world ()))) \<le> 5000"
proof -
  obtain gc' w' where run: "sweepOrphanedBlocks (demo_gc OpWrite False) (demo_gc_world ()) = (gc', w')"
    by fastforce
  have "gc_deletionCount (reset_rate (demo_gc OpWrite False) (demo_gc_world ())) = 0"
    by (simp add: reset_rate_def demo_gc_def New_def)
  then show ?thesis
    using sweep_rate_limited [OF _ _ demo_gc_parts(1-3) run] demo_refs_ok run
    by (simp add: demo_gc_world_def demo_gc_parts)
qed

theorem sweep_dry_run_witness:
  "only_others (demo_gc_world ()) (snd (sweepOrphanedBlocks (demo_gc OpWrite True) (demo_gc_world ())))"
proof -
  obtain gc' w' where run: "sweepOrphanedBlocks (demo_gc OpWrite True) (demo_gc_world ()) = (gc', w')"
    by fastforce
  show ?thesis
    using sweep_dry_run [OF demo_gc_parts(1) _ run] run by (simp add: demo_gc_parts)
qed

theorem gc_adapter_inert_witness:
  "only_others (demo_gc_world ()) (snd (sweepOrphanedBlocks (demo_gc ''gc'' False) (demo_gc_world ())))"
  using gc_adapter_inert [of "demo_gc ''gc'' False" demo_pgx "demo_gc_world ()"]
  by (simp add: demo_gc_parts gcStoreAdapter_def)

definition demo_tombstone :: "string \<Rightarrow> TombstoneEvent option" where
  "demo_tombstone m = Some \<lparr>gt_BlockHash = m, gt_TenantID = ''t'', gt_SizeBytes = 10, gt_Timestamp = 0, gt_Reason = ''orphan_gc''\<rparr>"

definition demo_late_consumer :: "((string set \<times> string list) gc_world) TombstoneConsumer" where
  "demo_late_consumer =
     \<lparr>tc_commit = (\<lambda>m. ext_call (\<lambda>(blobs, acks). (None, (blobs, acks @ [m])))),
      tc_blob = blobDeleterAdapter (\<lambda>k (blobs, acks). (None, (blobs - {k}, acks))),
      tc_store = adapter_store OpWrite demo_pgx, tc_dryRun = False\<rparr>"

definition demo_late_world :: "(string set \<times> string list) gc_world" where
  "demo_late_world = (demo_gc_world ({''05''}, []))\<lparr>gw_tables := demo_reference demo_db\<rparr>"

theorem consumer_deletes_referenced_blob_witness:
  "stored_refs (gw_tables (processMessage demo_tombstone demo_late_consumer ''05'' demo_late_world)) demo_hash = Some 1 \<and>
   gw_ext (processMessage demo_tombstone demo_late_consumer ''05'' demo_late_world) = ({}, [''05''])"
proof -
  have refs: "stored_refs (gw_tables demo_late_world) demo_hash = Some 1"
    by (simp add: demo_late_world_def demo_reference_result stored_refs_def demo_orphan_def)
  have ext: "gw_ext demo_late_world = ({''05''}, [])" and script: "gw_script demo_late_world = []"
    by (simp_all add: demo_late_world_def demo_gc_world_def)
  have dec: "demo_tombstone ''05'' = Some \<lparr>gt_BlockHash = ''05'', gt_TenantID = ''t'', gt_SizeBytes = 10,
      gt_Timestamp = 0, gt_Reason = ''orphan_gc''\<rparr>"
    by (simp add: demo_tombstone_def)
  have parts: "\<not> tc_dryRun demo_late_consumer" "tc_store demo_late_consumer = adapter_store OpWrite demo_pgx"
    "tc_blob demo_late_consumer = blobDeleterAdapter (\<lambda>k (blobs, acks). (None, (blobs - {k}, acks)))"
    "tc_commit demo_late_consumer = (\<lambda>m. ext_call (\<lambda>(blobs, acks). (None, (blobs, acks @ [m]))))"
    by (simp_all add: demo_late_consumer_def)
  show ?thesis
    using consumer_deletes_referenced_blob [of demo_tombstone "''05''", OF dec parts script refs _ ext refl] by simp
qed

end
