(* ===== verification/Background.thy ===== *)
theory Background
  imports GC Ingress
begin

text \<open>
  The goroutines that run in the background: the two loops of the collection pipeline (internal/gc/gc.go: \<^verbatim>\<open>Start\<close>, \<^verbatim>\<open>Stop\<close>,
  \<^verbatim>\<open>sessionCleanupLoop\<close>, \<^verbatim>\<open>blockSweepLoop\<close>), the loop of the sweep worker (internal/cas/gc.go: \<^verbatim>\<open>Start\<close>, \<^verbatim>\<open>Stop\<close>), the session reaper
  (internal/ingress/server.go) and the tombstone consumer's \<^verbatim>\<open>Run\<close>. A loop waits in a \<^verbatim>\<open>select\<close> for its ticker, the stop channel
  and the context. The stop channel is unbuffered and \<^verbatim>\<open>Stop\<close> sends without waiting, so a signal reaches one loop that
  waits in its \<^verbatim>\<open>select\<close> or nobody. The work of one tick is one step; what the other sessions do to the tables meanwhile
  is in the world it runs in.
\<close>

section \<open>Loops\<close>

datatype loop_pc = Launched | Selecting | Working | Exited

text \<open>\<open>bg_loops\<close> has the job and position of every goroutine ever started.\<close>

record 's background =
  bg_loops :: "(nat \<times> loop_pc) list"
  bg_cancelled :: bool
  bg_state :: 's

datatype loop_event = EvReady nat | EvTick nat | EvWorked nat | EvSawCancel nat | EvStop "nat option" | EvCancel | EvStart

definition loop_at :: "'s background \<Rightarrow> nat \<Rightarrow> nat \<Rightarrow> loop_pc \<Rightarrow> bool" where
  "loop_at s i j pc \<longleftrightarrow> i < length (bg_loops s) \<and> bg_loops s ! i = (j, pc)"

definition move_to :: "nat \<Rightarrow> nat \<Rightarrow> loop_pc \<Rightarrow> 's background \<Rightarrow> 's background" where
  "move_to i j pc s = s\<lparr>bg_loops := (bg_loops s)[i := (j, pc)]\<rparr>"

definition start_loops :: "nat \<Rightarrow> 's background \<Rightarrow> 's background" where
  "start_loops jobs s = s\<lparr>bg_loops := bg_loops s @ map (\<lambda>j. (j, Launched)) [0..<jobs]\<rparr>"

inductive loop_step :: "nat \<Rightarrow> (nat \<Rightarrow> 's \<Rightarrow> 's \<Rightarrow> bool) \<Rightarrow> 's background \<Rightarrow> loop_event \<Rightarrow> 's background \<Rightarrow> bool"
  for jobs job where
  ready: "loop_at s i j Launched \<Longrightarrow> loop_step jobs job s (EvReady i) (move_to i j Selecting s)"
| tick: "loop_at s i j Selecting \<Longrightarrow> loop_step jobs job s (EvTick i) (move_to i j Working s)"
| worked: "loop_at s i j Working \<Longrightarrow> job j (bg_state s) x \<Longrightarrow> loop_step jobs job s (EvWorked i) (move_to i j Selecting (s\<lparr>bg_state := x\<rparr>))"
| saw_cancel: "loop_at s i j Selecting \<Longrightarrow> bg_cancelled s \<Longrightarrow> loop_step jobs job s (EvSawCancel i) (move_to i j Exited s)"
| stop_taken: "loop_at s i j Selecting \<Longrightarrow> loop_step jobs job s (EvStop (Some i)) (move_to i j Exited s)"
| stop_lost: "Selecting \<notin> snd ` set (bg_loops s) \<Longrightarrow> loop_step jobs job s (EvStop None) s"
| cancel: "loop_step jobs job s EvCancel (s\<lparr>bg_cancelled := True\<rparr>)"
| start: "loop_step jobs job s EvStart (start_loops jobs s)"

inductive loop_run :: "nat \<Rightarrow> (nat \<Rightarrow> 's \<Rightarrow> 's \<Rightarrow> bool) \<Rightarrow> 's background \<Rightarrow> loop_event list \<Rightarrow> 's background \<Rightarrow> bool"
  for jobs job where
  nil: "loop_run jobs job s [] s"
| snoc: "loop_run jobs job s es t \<Longrightarrow> loop_step jobs job t e u \<Longrightarrow> loop_run jobs job s (es @ [e]) u"

definition alive :: "'s background \<Rightarrow> nat" where
  "alive s = length (filter (\<lambda>(j, pc). pc \<noteq> Exited) (bg_loops s))"

definition stopped :: "'s \<Rightarrow> 's background" where
  "stopped x = \<lparr>bg_loops = [], bg_cancelled = False, bg_state = x\<rparr>"

section \<open>The jobs\<close>

text \<open>The pipeline: job 0 is the hourly session cleanup, job 1 the block sweep.\<close>

definition pipeline_job :: "nat \<Rightarrow> 'w GarbageCollector \<times> 'w \<Rightarrow> 'w GarbageCollector \<times> 'w \<Rightarrow> bool" where
  "pipeline_job j s s' \<longleftrightarrow> s' = (if j = 0 then case_prod cleanupExpiredSessions s else case_prod sweepOrphanedBlocks s)"

text \<open>The sweep worker's job, with what fails, the time it reads and what others do to the tables (\<open>mid\<close>) between its two statements.\<close>

definition worker_job :: "('b \<Rightarrow> string \<Rightarrow> 'b) option \<Rightarrow> GCConfig \<Rightarrow> nat \<Rightarrow> db \<times> 'b \<Rightarrow> db \<times> 'b \<Rightarrow> bool" where
  "worker_job bd conf j s s' \<longleftrightarrow>
     (\<exists>flt flt' now mid. (\<forall>d. refs_ok d \<longrightarrow> refs_ok (mid d)) \<and>
        s' = worker_sweep (\<lambda>n d. FindOrphans flt now n d) (DeleteBlocks flt') bd (gcc_batch (GCConfig_applyDefaults conf)) mid (fst s) (snd s))"

text \<open>The reaper's tick calls the store; \<open>E\<close> has the time and the faults of the call.\<close>

definition reaper_job :: "uuid_pkg \<Rightarrow> nat \<Rightarrow> db \<Rightarrow> db \<Rightarrow> bool" where
  "reaper_job U j d d' \<longleftrightarrow> (\<exists>E. d' = snd (s_ExpireStaleSessions (PgStore U E) d))"

definition reaper_interval :: "duration \<Rightarrow> duration" where
  "reaper_interval interval = (if interval \<le> 0 then 60 * Second else interval)"

text \<open>The tombstone consumer reads until its context is done: \<open>ReadFailed\<close> is logged and waited out.\<close>

datatype consumer_read = CtxDone | ReadFailed | ReadOk string

fun consumer_Run :: "(string \<Rightarrow> TombstoneEvent option) \<Rightarrow> 'w TombstoneConsumer \<Rightarrow> consumer_read list \<Rightarrow> 'w \<Rightarrow> 'w" where
  "consumer_Run decode tc [] w = w"
| "consumer_Run decode tc (CtxDone # rs) w = w"
| "consumer_Run decode tc (ReadFailed # rs) w = consumer_Run decode tc rs w"
| "consumer_Run decode tc (ReadOk msg # rs) w = consumer_Run decode tc rs (processMessage decode tc msg w)"

section \<open>What every group of loops promises\<close>

lemma move_to_simps [simp]:
  "bg_state (move_to i j pc s) = bg_state s" "bg_cancelled (move_to i j pc s) = bg_cancelled s"
  "bg_loops (move_to i j pc s) = (bg_loops s)[i := (j, pc)]"
  by (simp_all add: move_to_def)

definition jobs_ok :: "nat \<Rightarrow> 's background \<Rightarrow> bool" where
  "jobs_ok jobs s \<longleftrightarrow> (\<forall>(j, pc) \<in> set (bg_loops s). j < jobs)"

lemma jobs_ok_at: "jobs_ok jobs s \<Longrightarrow> loop_at s i j pc \<Longrightarrow> j < jobs"
  unfolding jobs_ok_def loop_at_def by (metis (mono_tags, lifting) case_prodD nth_mem)

lemma jobs_ok_move: "jobs_ok jobs s \<Longrightarrow> j < jobs \<Longrightarrow> jobs_ok jobs (move_to i j pc s)"
  unfolding jobs_ok_def using set_update_subset_insert[of "bg_loops s" i "(j, pc)"] by auto

lemma jobs_ok_state [simp]: "jobs_ok jobs (s\<lparr>bg_state := x\<rparr>) = jobs_ok jobs s" "jobs_ok jobs (s\<lparr>bg_cancelled := c\<rparr>) = jobs_ok jobs s"
  by (simp_all add: jobs_ok_def)

lemma jobs_ok_start: "jobs_ok jobs s \<Longrightarrow> jobs_ok jobs (start_loops jobs s)"
  by (auto simp: jobs_ok_def start_loops_def)

lemma loop_step_jobs_ok: "loop_step jobs job s e t \<Longrightarrow> jobs_ok jobs s \<Longrightarrow> jobs_ok jobs t"
  by (induction rule: loop_step.induct) (auto dest: jobs_ok_at intro!: jobs_ok_move jobs_ok_start)

locale background_jobs =
  fixes jobs :: nat and job :: "nat \<Rightarrow> 's \<Rightarrow> 's \<Rightarrow> bool" and keeps :: "'s \<Rightarrow> bool"
  assumes job_keeps: "j < jobs \<Longrightarrow> job j x y \<Longrightarrow> keeps x \<Longrightarrow> keeps y"
begin

lemma step_keeps: "loop_step jobs job s e t \<Longrightarrow> jobs_ok jobs s \<Longrightarrow> keeps (bg_state s) \<Longrightarrow> keeps (bg_state t)"
  by (induction rule: loop_step.induct) (auto simp: start_loops_def dest: jobs_ok_at job_keeps)

lemma run_keeps: "loop_run jobs job s es t \<Longrightarrow> jobs_ok jobs s \<Longrightarrow> keeps (bg_state s) \<Longrightarrow> jobs_ok jobs t \<and> keeps (bg_state t)"
  by (induction rule: loop_run.induct) (auto dest: step_keeps loop_step_jobs_ok)

lemma started_keeps: "loop_run jobs job (stopped x) es t \<Longrightarrow> keeps x \<Longrightarrow> keeps (bg_state t)"
  using run_keeps[of "stopped x" es t] by (simp add: stopped_def jobs_ok_def)

end

section \<open>The loops of the program\<close>

text \<open>The collector a job leaves behind is still the one that was built.\<close>

lemma cleanup_loop_frame:
  "gc_store (fst (cleanup_loop ss gc w)) = gc_store gc \<and> gc_publisher (fst (cleanup_loop ss gc w)) = gc_publisher gc \<and>
   gc_blob (fst (cleanup_loop ss gc w)) = gc_blob gc"
  by (induction ss gc w rule: cleanup_loop.induct) (auto simp: audit_def split: prod.splits option.splits)

lemma cleanup_frame:
  "gc_store (fst (cleanupExpiredSessions gc w)) = gc_store gc \<and> gc_publisher (fst (cleanupExpiredSessions gc w)) = gc_publisher gc \<and>
   gc_blob (fst (cleanupExpiredSessions gc w)) = gc_blob gc"
  by (simp add: cleanupExpiredSessions_def cleanup_loop_frame split: prod.splits sum.splits)

definition pipeline_ok :: "string \<Rightarrow> pgx \<Rightarrow> ('x gc_world) GarbageCollector \<times> 'x gc_world \<Rightarrow> bool" where
  "pipeline_ok cls P s \<longleftrightarrow> adapter.built cls P (fst s) \<and> good_world (snd s)"

interpretation pipeline: background_jobs 2 pipeline_job "pipeline_ok cls P"
proof
  fix j :: nat and x y :: "('x gc_world) GarbageCollector \<times> 'x gc_world"
  assume job: "pipeline_job j x y" and ok: "pipeline_ok cls P x"
  obtain gc w where x: "x = (gc, w)" by fastforce
  from ok x have b: "adapter.built cls P gc" and g: "good_world w" by (simp_all add: pipeline_ok_def)
  show "pipeline_ok cls P y"
  proof (cases "j = 0")
    case True
    with job x have y: "y = cleanupExpiredSessions gc w" by (simp add: pipeline_job_def)
    have "good_world (snd y)" using adapter.cleanup_Q[OF b, of w] g y by blast
    moreover have "adapter.built cls P (fst y)" using b cleanup_frame[of gc w] y by (simp add: adapter.built_def)
    ultimately show ?thesis by (simp add: pipeline_ok_def)
  next
    case False
    with job x have y: "sweepOrphanedBlocks gc w = (fst y, snd y)" by (simp add: pipeline_job_def)
    from adapter.sweep_counted[OF b y] b g show ?thesis
      by (simp add: pipeline_ok_def adapter.counted_def adapter.built_def reset_rate_def split: if_splits)
  qed
qed

lemma worker_sweep_refs_ok:
  assumes "refs_ok d" and "\<And>d. refs_ok d \<Longrightarrow> refs_ok (mid d)"
  shows "refs_ok (fst (worker_sweep (\<lambda>n d. FindOrphans flt now n d) (DeleteBlocks flt') bd n mid d blobs))"
  using assms refs_ok_delete[of "mid d"]
  by (auto simp: worker_sweep_def Let_def DeleteBlocks_def split_beta split: sum.splits option.splits)

interpretation worker: background_jobs 1 "worker_job bd conf" "\<lambda>s. refs_ok (fst s)"
  by unfold_locales (auto simp: worker_job_def intro!: worker_sweep_refs_ok)

lemma versions_ok_sessions: "versions_ok (d\<lparr>session_rows := ss\<rparr>) = versions_ok d"
  by (simp add: versions_ok_def node_versions_def del: upt_Suc)

interpretation reaper: background_jobs 1 "reaper_job U" "\<lambda>d. refs_ok d \<and> versions_ok d"
  by unfold_locales
    (auto simp: reaper_job_def PgStore_def Pg_ExpireStaleSessions_def expire_stale_upload_sessions_def versions_ok_sessions
      split: option.splits intro!: refs_ok_sessions)

section \<open>Stopping\<close>

definition taken :: "loop_event list \<Rightarrow> nat" where
  "taken es = length (filter (\<lambda>e. case e of EvStop (Some _) \<Rightarrow> True | _ \<Rightarrow> False) es)"

definition starts :: "loop_event list \<Rightarrow> nat" where
  "starts es = length (filter (\<lambda>e. e = EvStart) es)"

definition stops :: "loop_event list \<Rightarrow> nat" where
  "stops es = length (filter (\<lambda>e. case e of EvStop _ \<Rightarrow> True | _ \<Rightarrow> False) es)"

lemma alive_update:
  assumes "loop_at s i j pc" "pc \<noteq> Exited"
  shows "alive (move_to i j' pc' s) = (if pc' = Exited then alive s - 1 else alive s)" "0 < alive s"
proof -
  let ?P = "\<lambda>(j :: nat, pc). pc \<noteq> Exited" and ?l = "bg_loops s"
  have i: "i < length ?l" "?l ! i = (j, pc)" using assms(1) by (simp_all add: loop_at_def)
  have l: "?l = take i ?l @ (j, pc) # drop (Suc i) ?l" using i id_take_nth_drop by metis
  have a: "alive s = length (filter ?P (take i ?l)) + Suc (length (filter ?P (drop (Suc i) ?l)))"
    unfolding alive_def by (subst l) (use assms(2) in simp)
  then show "0 < alive s" by simp
  have "alive (move_to i j' pc' s) = length (filter ?P (take i ?l @ (j', pc') # drop (Suc i) ?l))"
    using i(1) by (simp add: alive_def upd_conv_take_nth_drop)
  with a show "alive (move_to i j' pc' s) = (if pc' = Exited then alive s - 1 else alive s)" by simp
qed

lemma loop_step_alive:
  "loop_step jobs job s e t \<Longrightarrow> \<not> bg_cancelled t \<Longrightarrow> alive t + taken [e] = alive s + jobs * starts [e] \<and> \<not> bg_cancelled s"
proof (induction rule: loop_step.induct)
  case (worked s i j x)
  then have "loop_at (s\<lparr>bg_state := x\<rparr>) i j Working" by (simp add: loop_at_def)
  from alive_update(1)[OF this, of j Selecting] worked show ?case by (simp add: taken_def starts_def alive_def)
next
  case (start s)
  have "filter (\<lambda>(j :: nat, pc). pc \<noteq> Exited) (map (\<lambda>j. (j, Launched)) [0..<jobs]) = map (\<lambda>j. (j, Launched)) [0..<jobs]"
    by (rule filter_True) auto
  with start show ?case by (simp add: taken_def starts_def alive_def start_loops_def)
qed (auto simp: taken_def starts_def alive_update dest: alive_update(2))

text \<open>C37. Without a cancelled context, every signal that ends a loop ends exactly one, and a signal sent while no loop waits in its
  select is lost: the loops that run are those started less the signals taken. So one call of Stop leaves at least one of
  the pipeline's two loops running.\<close>

theorem stop_ends_one_loop:
  assumes run: "loop_run jobs job s es t" and "\<not> bg_cancelled t"
  shows "alive t + taken es = alive s + jobs * starts es \<and> alive s + jobs * starts es \<le> alive t + stops es"
proof -
  have "taken es \<le> stops es" unfolding taken_def stops_def
    by (induction es) (auto split: loop_event.splits option.splits)
  moreover have "alive t + taken es = alive s + jobs * starts es" using assms
  proof (induction rule: loop_run.induct)
    case (snoc s es t e u)
    from loop_step_alive[OF snoc.hyps(2) snoc.prems] snoc.IH show ?case
      by (auto simp: taken_def starts_def algebra_simps)
  qed (simp add: taken_def starts_def)
  ultimately show ?thesis by simp
qed

definition demo_pipeline :: "(unit gc_world) GarbageCollector \<times> unit gc_world" where
  "demo_pipeline = (demo_gc ''read'' False, demo_gc_world ())"

text \<open>A pipeline that was started and stopped while both loops wait: the sweep loop still runs.\<close>

theorem stop_ends_one_loop_witness:
  "\<exists>t. loop_run 2 pipeline_job (stopped demo_pipeline) [EvStart, EvReady 0, EvReady 1, EvStop (Some 0)] t \<and> alive t = 1 \<and> loop_at t 1 1 Selecting"
proof -
  let ?s1 = "start_loops 2 (stopped demo_pipeline)"
  let ?s2 = "move_to 0 0 Selecting ?s1" let ?s3 = "move_to 1 1 Selecting ?s2" let ?s4 = "move_to 0 0 Exited ?s3"
  have l1: "bg_loops ?s1 = [(0, Launched), (1, Launched)]" by (simp add: start_loops_def stopped_def numeral_2_eq_2)
  have "loop_run 2 pipeline_job (stopped demo_pipeline) ([] @ [EvStart]) ?s1" by (rule loop_run.snoc[OF loop_run.nil loop_step.start])
  then have "loop_run 2 pipeline_job (stopped demo_pipeline) (([] @ [EvStart]) @ [EvReady 0]) ?s2"
    by (rule loop_run.snoc) (rule loop_step.ready, simp add: loop_at_def l1)
  then have "loop_run 2 pipeline_job (stopped demo_pipeline) ((([] @ [EvStart]) @ [EvReady 0]) @ [EvReady 1]) ?s3"
    by (rule loop_run.snoc) (rule loop_step.ready, simp add: loop_at_def l1)
  then have "loop_run 2 pipeline_job (stopped demo_pipeline) (((([] @ [EvStart]) @ [EvReady 0]) @ [EvReady 1]) @ [EvStop (Some 0)]) ?s4"
    by (rule loop_run.snoc) (rule loop_step.stop_taken, simp add: loop_at_def l1)
  then have run: "loop_run 2 pipeline_job (stopped demo_pipeline) [EvStart, EvReady 0, EvReady 1, EvStop (Some 0)] ?s4" by simp
  have "\<not> bg_cancelled ?s4" by (simp add: start_loops_def stopped_def)
  from stop_ends_one_loop[OF run this] have "alive ?s4 = 1" by (simp add: taken_def starts_def alive_def stopped_def)
  moreover have "loop_at ?s4 1 1 Selecting" by (simp add: loop_at_def l1)
  ultimately show ?thesis using run by blast
qed

text \<open>Once every loop has exited, only another start makes one work again.\<close>

lemma exited_stays:
  "loop_step jobs job s e t \<Longrightarrow> alive s = 0 \<Longrightarrow> e \<noteq> EvStart \<Longrightarrow> alive t = 0 \<and> bg_state t = bg_state s"
  by (induction rule: loop_step.induct) (auto simp: alive_def dest: alive_update(2)[unfolded alive_def])

section \<open>All background work\<close>

text \<open>However the background loops of the server tick, are stopped, cancelled and started again, and whatever fails in between: the
  collection pipeline, the sweep worker and the session reaper keep the protocol of reference counts (no manifest names a
  block row that is gone, and every count is exact), and the reaper keeps version numbers dense.\<close>

theorem background_keeps_references:
  assumes refs: "refs_ok (gw_tables w)" "\<And>t d. t \<in> set (gw_script w) \<Longrightarrow> refs_ok d \<Longrightarrow> refs_ok (tu_others t d)"
    and gc: "gc = New (adapter_store cls P) (gcPublisherAdapter bus) (map_option blobDeleterAdapter del) clock gcConf"
    and pipeline: "loop_run 2 pipeline_job (stopped (gc, w)) es t"
    and tables: "refs_ok d" "versions_ok d"
    and worker: "loop_run 1 (worker_job bd conf) (stopped (d, blobs)) es' t'"
    and reaper: "loop_run 1 (reaper_job U) (stopped d) es'' t''"
  shows "refs_ok (gw_tables (snd (bg_state t))) \<and> refs_ok (fst (bg_state t')) \<and> refs_ok (bg_state t'') \<and> versions_ok (bg_state t'')"
proof -
  have "adapter.built cls P gc" by (rule adapter_built) (simp_all add: gc New_def)
  with refs have "pipeline_ok cls P (gc, w)" by (simp add: pipeline_ok_def good_world_def)
  from pipeline.started_keeps[OF pipeline this] have "refs_ok (gw_tables (snd (bg_state t)))"
    by (simp add: pipeline_ok_def good_world_def)
  with worker.started_keeps[OF worker] reaper.started_keeps[OF reaper] tables show ?thesis by simp
qed

definition demo_collector :: "(unit gc_world) GarbageCollector" where
  "demo_collector = New (adapter_store ''read'' demo_pgx) (gcPublisherAdapter (\<lambda>topic e x. (None, x))) (map_option blobDeleterAdapter None) (\<lambda>w. 0) (demo_gc_cfg False)"

theorem background_keeps_references_witness:
  "refs_ok (gw_tables (snd (sweepOrphanedBlocks demo_collector (demo_gc_world ()))))"
proof -
  let ?x = "(demo_collector, demo_gc_world ())"
  let ?s1 = "start_loops 2 (stopped ?x)" let ?s2 = "move_to 1 1 Selecting ?s1" let ?s3 = "move_to 1 1 Working ?s2"
  let ?s4 = "move_to 1 1 Selecting (?s3\<lparr>bg_state := case_prod sweepOrphanedBlocks ?x\<rparr>)"
  have l1: "bg_loops ?s1 = [(0, Launched), (1, Launched)]" by (simp add: start_loops_def stopped_def numeral_2_eq_2)
  have "loop_run 2 pipeline_job (stopped ?x) ([] @ [EvStart]) ?s1" by (rule loop_run.snoc[OF loop_run.nil loop_step.start])
  then have "loop_run 2 pipeline_job (stopped ?x) (([] @ [EvStart]) @ [EvReady 1]) ?s2"
    by (rule loop_run.snoc) (rule loop_step.ready, simp add: loop_at_def l1)
  then have "loop_run 2 pipeline_job (stopped ?x) ((([] @ [EvStart]) @ [EvReady 1]) @ [EvTick 1]) ?s3"
    by (rule loop_run.snoc) (rule loop_step.tick, simp add: loop_at_def l1)
  then have run: "loop_run 2 pipeline_job (stopped ?x) (((([] @ [EvStart]) @ [EvReady 1]) @ [EvTick 1]) @ [EvWorked 1]) ?s4"
    by (rule loop_run.snoc) (rule loop_step.worked, simp_all add: loop_at_def l1 pipeline_job_def start_loops_def stopped_def)
  have empty: "refs_ok \<lparr>tenant_rows = [], node_rows = [], version_rows = [], cas_rows = [], manifest_rows = [], session_rows = []\<rparr>"
    "versions_ok \<lparr>tenant_rows = [], node_rows = [], version_rows = [], cas_rows = [], manifest_rows = [], session_rows = []\<rparr>"
    by (simp_all add: refs_ok_def versions_ok_def node_versions_def)
  from background_keeps_references[OF _ _ demo_collector_def run empty loop_run.nil[of 1 "worker_job None \<lparr>gcc_interval = 0, gcc_batch = 0\<rparr>" "stopped (_, ())"]
      loop_run.nil[of 1 "reaper_job demo_U"]] demo_refs_ok
  show ?thesis by (simp add: demo_gc_world_def)
qed

end
