(* ===== verification/Pools.thy ===== *)
theory Pools
  imports Database NsCache "HOL-Library.Multiset"
begin

text \<open>
  Construction, shutdown and observation of the database client (internal/database/client.go: \<^verbatim>\<open>NewDatabaseClient\<close>, \<^verbatim>\<open>newPool\<close>, \<^verbatim>\<open>Close\<close>,
  \<^verbatim>\<open>Stats\<close>, \<^verbatim>\<open>QueryWithMetrics\<close>; internal/database/metrics.go: the wait reservoir, the query metrics and the slow-query gate). The
  pool package is an argument: whether a connection string parses, and what creating and pinging the \<open>i\<close>-th pool gives.
  Which pools are open is the state.
\<close>

section \<open>Opening pools\<close>

record pool_conf =
  pc_DSN :: string
  pc_MinConns :: int
  pc_MaxConns :: int
  pc_MaxConnLifetime :: duration
  pc_MaxConnIdleTime :: duration
  pc_HealthCheckPeriod :: duration

record pgx_pools =
  px_ParseConfig :: "string \<Rightarrow> string option"
  px_New :: "nat \<Rightarrow> string option"
  px_Ping :: "nat \<Rightarrow> string option"

datatype start_error = PrimaryDSNRequired | ParseDSN string string | NewPool string | PoolPing string string
  | WritePoolErr start_error | MetadataPoolErr start_error | ReplicaErr nat start_error | AnalyticalPoolErr start_error

text \<open>\<open>ps_next\<close> numbers the pools ever created, \<open>ps_open\<close> lists those that are open.\<close>

record pools =
  ps_next :: nat
  ps_open :: "(nat \<times> pool_conf) list"

definition pool_Close :: "nat \<Rightarrow> pools \<Rightarrow> pools" where
  "pool_Close i s = s\<lparr>ps_open := filter (\<lambda>(j, _). j \<noteq> i) (ps_open s)\<rparr>"

definition pool_conf_of :: "Config \<Rightarrow> string \<Rightarrow> pool_conf" where
  "pool_conf_of c dsn =
     \<lparr>pc_DSN = dsn, pc_MinConns = MinConnsPerPool c, pc_MaxConns = pool_max c, pc_MaxConnLifetime = MaxConnLifetime c,
      pc_MaxConnIdleTime = MaxConnIdleTime c, pc_HealthCheckPeriod = HealthCheckInterval c\<rparr>"

definition newPool :: "pgx_pools \<Rightarrow> Config \<Rightarrow> string \<Rightarrow> string \<Rightarrow> pools \<Rightarrow> (start_error + nat) \<times> pools" where
  "newPool X c name dsn s =
     (case px_ParseConfig X dsn of
        Some e \<Rightarrow> (Inl (ParseDSN name e), s)
      | None \<Rightarrow>
          (let i = ps_next s;
               s1 = s\<lparr>ps_next := Suc i\<rparr>
           in case px_New X i of
                Some e \<Rightarrow> (Inl (NewPool e), s1)
              | None \<Rightarrow>
                  (let s2 = s1\<lparr>ps_open := ps_open s1 @ [(i, pool_conf_of c dsn)]\<rparr>
                   in if \<not> SkipStartupPing c
                      then (case px_Ping X i of Some e \<Rightarrow> (Inl (PoolPing name e), pool_Close i s2) | None \<Rightarrow> (Inr i, s2))
                      else (Inr i, s2))))"

record client_pools =
  cp_write :: nat
  cp_metadata :: nat
  cp_read :: "nat list"
  cp_analytical :: nat
  cp_cache :: "CacheConfig option"
  cp_health :: bool
  cp_closed :: bool

fun replica_pools :: "pgx_pools \<Rightarrow> Config \<Rightarrow> nat \<Rightarrow> string list \<Rightarrow> pools \<Rightarrow> (start_error + nat list) \<times> pools" where
  "replica_pools X c i [] s = (Inr [], s)"
| "replica_pools X c i (dsn # dsns) s =
     (case newPool X c ''read'' dsn s of
        (Inl e, s1) \<Rightarrow> (Inl (ReplicaErr i e), s1)
      | (Inr p, s1) \<Rightarrow>
          (case replica_pools X c (Suc i) dsns s1 of
             (Inl e, s2) \<Rightarrow> (Inl e, s2)
           | (Inr ps, s2) \<Rightarrow> (Inr (p # ps), s2)))"

definition analyticalDSN :: "Config \<Rightarrow> string" where
  "analyticalDSN c = (case ReplicaDSNs c of [] \<Rightarrow> PrimaryDSN c | d # _ \<Rightarrow> d)"

definition NewDatabaseClient :: "pgx_pools \<Rightarrow> int \<Rightarrow> Config \<Rightarrow> pools \<Rightarrow> (start_error + client_pools) \<times> pools" where
  "NewDatabaseClient X cpus conf s =
     (if PrimaryDSN conf = '''' then (Inl PrimaryDSNRequired, s)
      else
        (let c = Config_applyDefaults cpus conf
         in case newPool X c ''write'' (PrimaryDSN c) s of
              (Inl e, s1) \<Rightarrow> (Inl (WritePoolErr e), s1)
            | (Inr w, s1) \<Rightarrow>
                (case newPool X c ''metadata'' (MetadataDSN c) s1 of
                   (Inl e, s2) \<Rightarrow> (Inl (MetadataPoolErr e), s2)
                 | (Inr m, s2) \<Rightarrow>
                     (case replica_pools X c 0 (ReplicaDSNs c) s2 of
                        (Inl e, s3) \<Rightarrow> (Inl e, s3)
                      | (Inr rs, s3) \<Rightarrow>
                          (case newPool X c ''analytical'' (analyticalDSN c) s3 of
                             (Inl e, s4) \<Rightarrow> (Inl (AnalyticalPoolErr e), s4)
                           | (Inr a, s4) \<Rightarrow>
                               (Inr \<lparr>cp_write = w, cp_metadata = m, cp_read = rs, cp_analytical = a,
                                     cp_cache = (if cc_Enabled (Cache c) then Some (Cache c) else None),
                                     cp_health = True, cp_closed = False\<rparr>, s4))))))"

text \<open>\<^verbatim>\<open>Close\<close> runs its body once: it ends the health loop and closes every pool.\<close>

definition Close :: "client_pools \<Rightarrow> pools \<Rightarrow> client_pools \<times> pools" where
  "Close cp s =
     (if cp_closed cp then (cp, s)
      else (cp\<lparr>cp_closed := True, cp_health := False\<rparr>,
            pool_Close (cp_analytical cp) (fold pool_Close (cp_read cp) (pool_Close (cp_metadata cp) (pool_Close (cp_write cp) s)))))"

definition Stats_Pools :: "(nat \<Rightarrow> 's) \<Rightarrow> client_pools \<Rightarrow> (string \<rightharpoonup> 's)" where
  "Stats_Pools stat cp =
     [''write'' \<mapsto> stat (cp_write cp), ''metadata'' \<mapsto> stat (cp_metadata cp), ''analytical'' \<mapsto> stat (cp_analytical cp)] ++
     map_of (map (\<lambda>(i, p). (''read'' @ format_nat i, stat p)) (enumerate 0 (cp_read cp)))"

section \<open>Metrics\<close>

text \<open>The wait reservoir; \<open>wr_idx\<close> is a 64-bit counter.\<close>

definition reservoir_len :: nat where
  "reservoir_len = 1024"

record waitReservoir =
  wr_buf :: "duration list"
  wr_idx :: u64
  wr_full :: bool

definition new_reservoir :: waitReservoir where
  "new_reservoir = \<lparr>wr_buf = replicate reservoir_len 0, wr_idx = 0, wr_full = False\<rparr>"

definition reservoir_add :: "duration \<Rightarrow> waitReservoir \<Rightarrow> waitReservoir" where
  "reservoir_add d r =
     (let i = wr_idx r
      in r\<lparr>wr_idx := wr_idx r + 1,
           wr_buf := (wr_buf r)[unat (i mod word_of_nat (length (wr_buf r))) := d],
           wr_full := (wr_full r \<or> i + 1 \<ge> word_of_nat (length (wr_buf r)))\<rparr>)"

definition reservoir_p95 :: "waitReservoir \<Rightarrow> duration option" where
  "reservoir_p95 r =
     (let n = (if \<not> wr_full r then unat (wr_idx r) else length (wr_buf r))
      in if n = 0 then None
         else Some (sort (take n (wr_buf r)) ! ((n * 95 + 99) div 100 - 1)))"

text \<open>What the collectors count: the observed durations by class and operation, errors, slow queries.\<close>

record Metrics =
  mt_queryDuration :: "(string \<times> string \<times> duration) list"
  mt_errors :: "(string \<times> string) list"
  mt_slowQueries :: nat
  mt_acquireWait :: "duration list"
  mt_waitReservoir :: waitReservoir
  mt_waitTimeP95 :: duration

definition observeQuery :: "string \<Rightarrow> string \<Rightarrow> duration \<Rightarrow> db_error option \<Rightarrow> Metrics \<Rightarrow> Metrics" where
  "observeQuery pool op d err m =
     m\<lparr>mt_queryDuration := mt_queryDuration m @ [(pool, op, d)],
       mt_errors := (if err \<noteq> None then mt_errors m @ [(pool, op)] else mt_errors m)\<rparr>"

definition observeAcquire :: "duration \<Rightarrow> Metrics \<Rightarrow> Metrics" where
  "observeAcquire d m = m\<lparr>mt_acquireWait := mt_acquireWait m @ [d], mt_waitReservoir := reservoir_add d (mt_waitReservoir m)\<rparr>"

definition slowGate :: "Config \<Rightarrow> duration \<Rightarrow> Metrics \<Rightarrow> Metrics" where
  "slowGate conf d m = (if d < SlowQueryThreshold conf then m else m\<lparr>mt_slowQueries := mt_slowQueries m + 1\<rparr>)"

definition refreshWaitP95 :: "Metrics \<Rightarrow> Metrics" where
  "refreshWaitP95 m = (case reservoir_p95 (mt_waitReservoir m) of Some p \<Rightarrow> m\<lparr>mt_waitTimeP95 := p\<rparr> | None \<Rightarrow> m)"

definition WaitTimeP95 :: "Metrics \<Rightarrow> duration" where
  "WaitTimeP95 m = mt_waitTimeP95 m"

text \<open>\<open>dur\<close> is the measured time of the routed query.\<close>

definition QueryWithMetrics ::
  "'w driver \<Rightarrow> Config \<Rightarrow> instant \<Rightarrow> duration \<Rightarrow> string \<Rightarrow> string \<Rightarrow> (pool \<Rightarrow> 'w \<Rightarrow> (db_error + 'r) \<times> 'w) \<Rightarrow> DatabaseClient \<Rightarrow> Metrics \<Rightarrow> 'w \<Rightarrow>
   (db_error + 'r) \<times> DatabaseClient \<times> Metrics \<times> 'w" where
  "QueryWithMetrics D conf now dur cls operation stmt c m w =
     (case queryRouted D now cls stmt c w of
        (r, c', w') \<Rightarrow> (r, c', slowGate conf dur (observeQuery cls operation dur (err_of r) m), w'))"

section \<open>What a start opens and a close gives back\<close>

definition client_dsns :: "Config \<Rightarrow> string list" where
  "client_dsns c = PrimaryDSN c # MetadataDSN c # ReplicaDSNs c @ [analyticalDSN c]"

text \<open>\<open>opened c s dsns\<close> are the pools for \<open>dsns\<close>, numbered from the next free number of \<open>s\<close>.\<close>

definition opened :: "Config \<Rightarrow> pools \<Rightarrow> string list \<Rightarrow> (nat \<times> pool_conf) list" where
  "opened c s dsns = zip [ps_next s..<ps_next s + length dsns] (map (pool_conf_of c) dsns)"

definition pools_ok :: "pools \<Rightarrow> bool" where
  "pools_ok s \<longleftrightarrow> list_all (\<lambda>(i, _). i < ps_next s) (ps_open s)"

lemma opened_Nil [simp]: "opened c s [] = []"
  by (simp add: opened_def)

lemma opened_append:
  "ps_next s' = ps_next s + length xs \<Longrightarrow> opened c s (xs @ ys) = opened c s xs @ opened c s' ys"
  by (simp add: opened_def add.assoc[symmetric] upt_add_eq_append[OF le_add1] zip_append del: upt_Suc)

lemma newPool_Inr:
  assumes "newPool X c name dsn s = (Inr i, s')"
  shows "i = ps_next s \<and> ps_next s' = ps_next s + length [dsn] \<and> ps_open s' = ps_open s @ opened c s [dsn]"
  using assms by (auto simp: newPool_def opened_def Let_def split: option.splits if_splits)

lemma filter_below: "list_all (\<lambda>(i, _). i < (n :: nat)) xs \<Longrightarrow> n \<le> k \<Longrightarrow> filter (\<lambda>(j, _). j \<noteq> k) xs = xs"
  by (induction xs) auto

lemma newPool_Inl:
  assumes "newPool X c name dsn s = (Inl e, s')" and "pools_ok s"
  shows "ps_open s' = ps_open s"
  using assms
  by (auto simp: newPool_def Let_def pool_Close_def pools_ok_def filter_below split: option.splits if_splits)

lemma opened_below:
  "pools_ok s \<Longrightarrow> ps_next s' = ps_next s + length dsns \<Longrightarrow> ps_open s' = ps_open s @ opened c s dsns \<Longrightarrow> pools_ok s'"
  by (fastforce simp: pools_ok_def opened_def list_all_iff dest: set_zip_leftD)

lemma upt_next: "[n..<Suc (n + k)] = n # [Suc n..<Suc (n + k)]"
  by (rule upt_conv_Cons) simp

lemma replica_pools_Inr:
  "replica_pools X c i dsns s = (Inr ps, s') \<Longrightarrow>
   ps = [ps_next s..<ps_next s + length dsns] \<and> ps_next s' = ps_next s + length dsns \<and> ps_open s' = ps_open s @ opened c s dsns"
proof (induction dsns arbitrary: i s ps)
  case (Cons dsn dsns)
  then obtain p s1 qs where p: "newPool X c ''read'' dsn s = (Inr p, s1)"
    and qs: "replica_pools X c (Suc i) dsns s1 = (Inr qs, s')" "ps = p # qs"
    by (auto split: prod.splits sum.splits)
  note n = newPool_Inr[OF p]
  from Cons.IH[OF qs(1)] qs(2) n opened_append[of s1 s "[dsn]" c dsns] show ?case
    by (simp add: upt_next del: upt_Suc)
qed simp

lemma replica_pools_Inl:
  "replica_pools X c i dsns s = (Inl e, s') \<Longrightarrow> pools_ok s \<Longrightarrow> \<exists>k < length dsns. ps_open s' = ps_open s @ opened c s (take k dsns)"
proof (induction dsns arbitrary: i s)
  case (Cons dsn dsns)
  show ?case
  proof (cases "newPool X c ''read'' dsn s")
    case (Pair r s1)
    show ?thesis
    proof (cases r)
      case (Inl e')
      with Pair Cons.prems newPool_Inl[of X c "''read''" dsn s e' s1] show ?thesis by (intro exI[of _ 0]) simp
    next
      case (Inr p)
      with Pair Cons.prems have rest: "replica_pools X c (Suc i) dsns s1 = (Inl e, s')" by (auto split: prod.splits sum.splits)
      note n = newPool_Inr[OF Pair[unfolded Inr]]
      with Cons.prems(2) have "pools_ok s1" using opened_below[of s s1 "[dsn]"] by blast
      from Cons.IH[OF rest this] obtain k where "k < length dsns" "ps_open s' = ps_open s1 @ opened c s1 (take k dsns)" by blast
      with n opened_append[of s1 s "[dsn]" c "take k dsns"] show ?thesis by (intro exI[of _ "Suc k"]) simp
    qed
  qed
qed simp

lemma NewDatabaseClient_Inr:
  assumes "NewDatabaseClient X cpus conf s = (Inr cp, s')" and c: "c = Config_applyDefaults cpus conf"
  shows "ps_next s' = ps_next s + length (client_dsns c) \<and> ps_open s' = ps_open s @ opened c s (client_dsns c) \<and>
    cp_write cp # cp_metadata cp # cp_read cp @ [cp_analytical cp] = [ps_next s..<ps_next s'] \<and> \<not> cp_closed cp"
proof -
  obtain r1 s1 where w: "newPool X c ''write'' (PrimaryDSN c) s = (r1, s1)" by (rule prod.exhaust)
  obtain r2 s2 where m: "newPool X c ''metadata'' (MetadataDSN c) s1 = (r2, s2)" by (rule prod.exhaust)
  obtain r3 s3 where r: "replica_pools X c 0 (ReplicaDSNs c) s2 = (r3, s3)" by (rule prod.exhaust)
  obtain r4 s4 where a: "newPool X c ''analytical'' (analyticalDSN c) s3 = (r4, s4)" by (rule prod.exhaust)
  note new = assms(1)[unfolded NewDatabaseClient_def Let_def c[symmetric]]
  from new w obtain i1 where i1: "r1 = Inr i1" by (cases r1) (simp_all split: if_splits)
  from new w i1 m obtain i2 where i2: "r2 = Inr i2" by (cases r2) (simp_all split: if_splits)
  from new w i1 m i2 r obtain i3 where i3: "r3 = Inr i3" by (cases r3) (simp_all split: if_splits)
  from new w i1 m i2 r i3 a obtain i4 where i4: "r4 = Inr i4" by (cases r4) (simp_all split: if_splits)
  from new w i1 m i2 r i3 a i4 have cp: "cp_write cp = i1" "cp_metadata cp = i2" "cp_read cp = i3" "cp_analytical cp = i4" "\<not> cp_closed cp" "s' = s4"
    by (auto split: if_splits)
  note w = newPool_Inr[OF w[unfolded i1]] note m = newPool_Inr[OF m[unfolded i2]] note r = replica_pools_Inr[OF r[unfolded i3]]
  note a = newPool_Inr[OF a[unfolded i4]]
  have 1: "opened c s (client_dsns c) = opened c s [PrimaryDSN c] @ opened c s1 (MetadataDSN c # ReplicaDSNs c @ [analyticalDSN c])"
    using opened_append[of s1 s "[PrimaryDSN c]" c "MetadataDSN c # ReplicaDSNs c @ [analyticalDSN c]"] w by (simp add: client_dsns_def)
  have 2: "opened c s1 (MetadataDSN c # ReplicaDSNs c @ [analyticalDSN c]) = opened c s1 [MetadataDSN c] @ opened c s2 (ReplicaDSNs c @ [analyticalDSN c])"
    using opened_append[of s2 s1 "[MetadataDSN c]" c "ReplicaDSNs c @ [analyticalDSN c]"] m by simp
  have 3: "opened c s2 (ReplicaDSNs c @ [analyticalDSN c]) = opened c s2 (ReplicaDSNs c) @ opened c s3 [analyticalDSN c]"
    using opened_append[of s3 s2 "ReplicaDSNs c" c "[analyticalDSN c]"] r by simp
  have nx: "ps_next s' = ps_next s + length (client_dsns c)" using w m r a cp by (simp add: client_dsns_def)
  have "ps_open s' = ps_open s @ opened c s (client_dsns c)" unfolding 1 2 3 using w m r a cp by simp
  moreover have "[ps_next s..<ps_next s'] = i1 # i2 # i3 @ [i4]"
  proof -
    have "[ps_next s..<ps_next s'] = ps_next s # [Suc (ps_next s)..<ps_next s']" by (rule upt_conv_Cons) (simp add: nx client_dsns_def)
    also have "[Suc (ps_next s)..<ps_next s'] = Suc (ps_next s) # [ps_next s2..<ps_next s']"
      using w m by (subst upt_conv_Cons) (simp_all add: nx client_dsns_def del: upt_Suc)
    also have "[ps_next s2..<ps_next s'] = [ps_next s2..<ps_next s3] @ [ps_next s3]"
      using w m r a cp by simp
    finally show ?thesis using w m r a by simp
  qed
  ultimately show ?thesis using nx cp by simp
qed

text \<open>A client that started has opened exactly one pool for writes, metadata, each replica and reports, and closing it, however
  often, closes exactly these and ends the health loop; pools others opened before or meanwhile stay.\<close>

definition closes :: "nat list \<Rightarrow> pools \<Rightarrow> pools" where
  "closes is s = s\<lparr>ps_open := filter (\<lambda>(j, _). j \<notin> set is) (ps_open s)\<rparr>"

lemma fold_pool_Close: "fold pool_Close is s = closes is s"
proof (induction "is" arbitrary: s)
  case (Cons i "is")
  then show ?case by (auto simp: closes_def pool_Close_def intro!: arg_cong[where f = "\<lambda>x. ps_open_update x s"] filter_cong)
qed (simp add: closes_def)

lemma Close_closes:
  "\<not> cp_closed cp \<Longrightarrow> snd (Close cp s) = closes (cp_write cp # cp_metadata cp # cp_read cp @ [cp_analytical cp]) s"
  by (simp add: Close_def flip: fold_pool_Close)

theorem client_close_releases_all:
  assumes ok: "pools_ok s" and new: "NewDatabaseClient X cpus conf s = (Inr cp, s1)"
    and later: "ps_open s2 = ps_open s1 @ more_open" "list_all (\<lambda>(i, _). ps_next s1 \<le> i) more_open"
  shows "ps_open s1 = ps_open s @ opened (Config_applyDefaults cpus conf) s (client_dsns (Config_applyDefaults cpus conf)) \<and>
    ps_open (snd (Close cp s2)) = ps_open s @ more_open \<and> \<not> cp_health (fst (Close cp s2)) \<and>
    (case Close cp s2 of (cp', s') \<Rightarrow> Close cp' s' = (cp', s'))"
proof -
  note n = NewDatabaseClient_Inr[OF new refl]
  then have cl: "snd (Close cp s2) = closes [ps_next s..<ps_next s1] s2" using Close_closes by metis
  have "filter (\<lambda>(j, _). j \<notin> {ps_next s..<ps_next s1}) (ps_open s) = ps_open s"
    using ok by (intro filter_True) (auto simp: pools_ok_def list_all_iff)
  moreover have "filter (\<lambda>(j, _). j \<notin> {ps_next s..<ps_next s1}) more_open = more_open"
    using later(2) by (intro filter_True) (auto simp: list_all_iff)
  moreover have "filter (\<lambda>(j, _). j \<notin> {ps_next s..<ps_next s1}) (opened c s (client_dsns c)) = []"
    if "ps_next s1 = ps_next s + length (client_dsns c)" for c
    using that by (intro filter_False) (auto simp: opened_def dest: set_zip_leftD)
  ultimately have "ps_open (snd (Close cp s2)) = ps_open s @ more_open"
    using n by (simp add: cl closes_def later)
  with n show ?thesis by (auto simp: Close_def split: prod.splits)
qed

text \<open>A start that fails leaves the pools it had opened before open.\<close>

definition start_pkg :: pgx_pools where
  "start_pkg = \<lparr>px_ParseConfig = (\<lambda>d. if d = ''bad'' then Some ''syntax'' else None), px_New = (\<lambda>_. None), px_Ping = (\<lambda>_. None)\<rparr>"

definition start_conf :: Config where
  "start_conf = \<lparr>PrimaryDSN = ''db'', ReplicaDSNs = [''r0'', ''bad''], MetadataDSN = '''', MinConnsPerPool = 0, MaxConnsPerPool = 0, MaxTotalConns = 0,
     MaxConnLifetime = 0, MaxConnIdleTime = 0, AcquireTimeout = 0, HealthCheckInterval = 0, SlowQueryThreshold = 0, SkipStartupPing = False,
     Cache = \<lparr>cc_Enabled = False, cc_Addr = '''', cc_Password = '''', cc_TTL = 0\<rparr>\<rparr>"

lemma failed_start_leaks_pools:
  "map (pc_DSN \<circ> snd) (ps_open (snd (NewDatabaseClient start_pkg 4 start_conf \<lparr>ps_next = 0, ps_open = []\<rparr>))) = [''db'', ''db'', ''r0''] \<and>
   (\<exists>e. fst (NewDatabaseClient start_pkg 4 start_conf \<lparr>ps_next = 0, ps_open = []\<rparr>) = Inl e)"
proof
  show "map (pc_DSN \<circ> snd) (ps_open (snd (NewDatabaseClient start_pkg 4 start_conf \<lparr>ps_next = 0, ps_open = []\<rparr>))) = [''db'', ''db'', ''r0'']"
    by code_simp
  have "fst (NewDatabaseClient start_pkg 4 start_conf \<lparr>ps_next = 0, ps_open = []\<rparr>) = Inl (ReplicaErr 1 (ParseDSN ''read'' ''syntax''))"
    by code_simp
  then show "\<exists>e. fst (NewDatabaseClient start_pkg 4 start_conf \<lparr>ps_next = 0, ps_open = []\<rparr>) = Inl e" by blast
qed

text \<open>The connections all pools may hold together stay within the configured total for at most one replica; every further
  replica adds another quarter.\<close>

definition conn_budget :: "Config \<Rightarrow> int" where
  "conn_budget c = sum_list (map (pc_MaxConns \<circ> pool_conf_of c) (client_dsns c))"

lemma conn_budget_eq: "conn_budget c = (3 + int (length (ReplicaDSNs c))) * pool_max c"
proof -
  have "sum_list (map (pc_MaxConns \<circ> pool_conf_of c) ds) = int (length ds) * pool_max c" for ds
    by (induction ds) (simp_all add: pool_conf_of_def algebra_simps)
  from this[of "client_dsns c"] show ?thesis by (simp add: conn_budget_def client_dsns_def del: list.map map_append)
qed

lemma conn_budget_one_replica:
  assumes "length (ReplicaDSNs c) \<le> 1" "MaxTotalConns c div 4 \<ge> MinConnsPerPool c" "MaxTotalConns c \<ge> 0"
  shows "conn_budget c \<le> MaxTotalConns c"
proof -
  have m: "pool_max c \<le> MaxTotalConns c div 4" using assms(2) by (auto simp: pool_max_def Let_def)
  have "(3 + int (length (ReplicaDSNs c))) * pool_max c \<le> 4 * (MaxTotalConns c div 4)"
  proof (cases "pool_max c \<ge> 0")
    case True
    with assms(1) have "(3 + int (length (ReplicaDSNs c))) * pool_max c \<le> 4 * pool_max c" by (intro mult_right_mono) auto
    with m show ?thesis by linarith
  next
    case False
    then have "(3 + int (length (ReplicaDSNs c))) * pool_max c \<le> 0" by (intro mult_nonneg_nonpos) auto
    with assms(3) show ?thesis by (smt (verit) pos_imp_zdiv_nonneg_iff)
  qed
  then show ?thesis by (simp add: conn_budget_eq)
qed

lemma conn_budget_overrun:
  "conn_budget (Config_applyDefaults 8 (start_conf\<lparr>ReplicaDSNs := [''r0'', ''r1'', ''r2'']\<rparr>)) = 144 \<and>
   MaxTotalConns (Config_applyDefaults 8 (start_conf\<lparr>ReplicaDSNs := [''r0'', ''r1'', ''r2'']\<rparr>)) = 96"
  by code_simp

section \<open>The wait percentile\<close>

definition last_waits :: "duration list \<Rightarrow> duration list" where
  "last_waits xs = drop (length xs - reservoir_len) xs"

text \<open>What the ring holds after the waits \<open>xs\<close>.\<close>

definition ring :: "duration list \<Rightarrow> waitReservoir \<Rightarrow> bool" where
  "ring xs r \<longleftrightarrow> length (wr_buf r) = reservoir_len \<and> wr_idx r = word_of_nat (length xs) \<and> wr_full r = (reservoir_len \<le> length xs) \<and>
     (\<forall>j < length xs. length xs \<le> j + reservoir_len \<longrightarrow> wr_buf r ! (j mod reservoir_len) = xs ! j) \<and>
     mset (take (min (length xs) reservoir_len) (wr_buf r)) = mset (last_waits xs)"

lemma ring_new: "ring [] new_reservoir"
  by (simp add: ring_def new_reservoir_def last_waits_def reservoir_len_def)

lemma unat_u64: "n < 2 ^ 64 \<Longrightarrow> unat (word_of_nat n :: u64) = n"
  by (simp add: unat_of_nat take_bit_nat_eq_self)

lemma reservoir_add_ring_fields:
  assumes "ring xs r" "length xs + 1 < 2 ^ 64"
  shows "wr_buf (reservoir_add d r) = (wr_buf r)[length xs mod reservoir_len := d]"
    and "wr_idx (reservoir_add d r) = word_of_nat (length xs + 1)"
    and "wr_full (reservoir_add d r) = (reservoir_len \<le> length xs + 1)"
proof -
  have u: "unat (word_of_nat (length xs) :: u64) = length xs" "unat (word_of_nat (length xs + 1) :: u64) = length xs + 1"
    "unat (word_of_nat reservoir_len :: u64) = reservoir_len"
    using assms(2) unat_u64[of "length xs"] unat_u64[of "length xs + 1"] unat_u64[of reservoir_len] by (simp_all add: reservoir_len_def)
  show "wr_buf (reservoir_add d r) = (wr_buf r)[length xs mod reservoir_len := d]"
    using assms(1) u by (simp add: reservoir_add_def Let_def ring_def unat_mod)
  show "wr_idx (reservoir_add d r) = word_of_nat (length xs + 1)"
    using assms(1) by (simp add: reservoir_add_def Let_def ring_def)
  have "(word_of_nat reservoir_len :: u64) \<le> word_of_nat (length xs + 1) \<longleftrightarrow> reservoir_len \<le> length xs + 1"
    using u by (simp only: word_le_nat_alt)
  then show "wr_full (reservoir_add d r) = (reservoir_len \<le> length xs + 1)"
    using assms(1) by (auto simp: reservoir_add_def Let_def ring_def add.commute)
qed

lemma mod_ring_inj:
  assumes "j mod n = k mod n" "j \<le> k" "k < j + n" shows "j = (k :: nat)"
proof -
  have "n dvd k - j" using assms(1,2) mod_eq_dvd_iff_nat[of j k n] by simp
  then have "k - j = 0" using assms(2,3) nat_dvd_not_less[of "k - j" n] by linarith
  with assms(2) show ?thesis by simp
qed

lemma ring_add:
  assumes r: "ring xs r" and len: "length xs + 1 < 2 ^ 64"
  shows "ring (xs @ [d]) (reservoir_add d r)"
proof -
  let ?n = "length xs" and ?k = "length xs mod reservoir_len" and ?b = "wr_buf r"
  note f = reservoir_add_ring_fields[OF r len]
  have pos: "0 < reservoir_len" by (simp add: reservoir_len_def)
  have lb: "length ?b = reservoir_len" and at: "\<And>j. j < ?n \<Longrightarrow> ?n \<le> j + reservoir_len \<Longrightarrow> ?b ! (j mod reservoir_len) = xs ! j"
    and ms: "mset (take (min ?n reservoir_len) ?b) = mset (last_waits xs)" using r by (auto simp: ring_def)
  have k: "?k < length ?b" using pos lb by simp
  have nth: "?b[?k := d] ! (j mod reservoir_len) = (xs @ [d]) ! j" if "j < Suc ?n" "Suc ?n \<le> j + reservoir_len" for j
  proof (cases "j = ?n")
    case False
    with that have "j mod reservoir_len \<noteq> ?k" using mod_ring_inj[of j reservoir_len ?n] by auto
    with that False at[of j] show ?thesis by (simp add: nth_append)
  qed (use k in \<open>simp add: nth_append\<close>)
  have "mset (take (min (Suc ?n) reservoir_len) (?b[?k := d])) = mset (last_waits (xs @ [d]))"
  proof (cases "?n < reservoir_len")
    case True
    then have "?k = ?n" "last_waits xs = xs" "last_waits (xs @ [d]) = xs @ [d]" by (simp_all add: last_waits_def)
    with True lb ms show ?thesis by (simp add: take_Suc_conv_app_nth)
  next
    case False
    then have old: "?b ! ?k = xs ! (?n - reservoir_len)" using at[of "?n - reservoir_len"] pos
      by (simp add: mod_if[of ?n] le_mod_geq)
    have "last_waits xs = xs ! (?n - reservoir_len) # drop (Suc (?n - reservoir_len)) xs"
      using False pos by (simp add: last_waits_def Cons_nth_drop_Suc)
    moreover have "last_waits (xs @ [d]) = drop (Suc (?n - reservoir_len)) xs @ [d]"
      using False pos by (simp add: last_waits_def Suc_diff_le)
    ultimately have "mset (last_waits (xs @ [d])) = add_mset d (mset (last_waits xs) - {#?b ! ?k#})" using old by simp
    with ms False k lb show ?thesis by (simp add: mset_update)
  qed
  then show ?thesis using f lb nth by (simp add: ring_def)
qed

lemma ring_fold: "length xs < 2 ^ 64 \<Longrightarrow> ring xs (fold reservoir_add xs new_reservoir)"
proof (induction xs rule: rev_induct)
  case (snoc d xs)
  then show ?case using ring_add[of xs "fold reservoir_add xs new_reservoir" d] by simp
qed (simp add: ring_new)

lemma nearest_rank:
  assumes "n \<noteq> 0"
  shows "(n * 95 + 99) div 100 - 1 < n \<and> 95 * n \<le> 100 * ((n * 95 + 99) div 100 - 1 + 1) \<and> 100 * ((n * 95 + 99) div 100 - 1) < 95 * (n :: nat)"
proof -
  have d: "100 * ((n * 95 + 99) div 100) + (n * 95 + 99) mod 100 = n * 95 + 99" "(n * 95 + 99) mod 100 < (100 :: nat)"
    by simp_all
  with assms have "(n * 95 + 99) div 100 \<noteq> 0" by linarith
  then obtain q where "(n * 95 + 99) div 100 = Suc q" using not0_implies_Suc by blast
  with d assms show ?thesis by simp
qed

lemma sorted_rank:
  assumes "sorted s" "k < length (s :: 'a :: linorder list)"
  shows "length (filter (\<lambda>x. x \<le> s ! k) s) \<ge> k + 1" and "length (filter (\<lambda>x. x < s ! k) s) \<le> k"
proof -
  have s: "s = take (Suc k) s @ drop (Suc k) s" "s = take k s @ drop k s" by simp_all
  have "filter (\<lambda>x. x \<le> s ! k) (take (Suc k) s) = take (Suc k) s"
    using assms by (intro filter_True) (auto simp: in_set_conv_nth less_Suc_eq_le intro!: sorted_nth_mono)
  then have "length (filter (\<lambda>x. x \<le> s ! k) (take (Suc k) s)) = Suc k" using assms(2) by simp
  moreover have "length (filter P s) = length (filter P (take (Suc k) s)) + length (filter P (drop (Suc k) s))" for P
    by (metis s(1) filter_append length_append)
  ultimately show "length (filter (\<lambda>x. x \<le> s ! k) s) \<ge> k + 1" by simp
  have "filter (\<lambda>x. x < s ! k) (drop k s) = []"
    using assms by (intro filter_False) (auto simp: in_set_conv_nth not_less intro!: sorted_nth_mono)
  moreover have "length (filter P s) = length (filter P (take k s)) + length (filter P (drop k s))" for P
    by (metis s(2) filter_append length_append)
  ultimately show "length (filter (\<lambda>x. x < s ! k) s) \<le> k" using length_filter_le[of "\<lambda>x. x < s ! k" "take k s"] by simp
qed

text \<open>The reported acquire wait is the nearest-rank 95th percentile of the last 1024 waits (of all of them while there are fewer):
  it is one of these waits, at least 95 percent of them are no longer than it, and fewer than 95 percent are shorter.
  Before the first wait nothing is reported. The counter of waits is taken not to have wrapped around.\<close>

theorem p95_nearest_rank:
  assumes len: "length xs < 2 ^ 64" and r: "r = fold reservoir_add xs new_reservoir"
  shows "(reservoir_p95 r = None) = (xs = []) \<and>
    (\<forall>v. reservoir_p95 r = Some v \<longrightarrow> v \<in> set (last_waits xs) \<and>
       95 * length (last_waits xs) \<le> 100 * length (filter (\<lambda>w. w \<le> v) (last_waits xs)) \<and>
       100 * length (filter (\<lambda>w. w < v) (last_waits xs)) < 95 * length (last_waits xs))"
proof -
  let ?n = "min (length xs) reservoir_len" and ?s = "sort (take (min (length xs) reservoir_len) (wr_buf r))"
  note rg = ring_fold[OF len, folded r, unfolded ring_def]
  have u: "unat (wr_idx r) = length xs" using rg len by (simp add: unat_of_nat take_bit_nat_eq_self)
  have p: "reservoir_p95 r = (if ?n = 0 then None else Some (?s ! ((?n * 95 + 99) div 100 - 1)))"
    using rg u by (auto simp: reservoir_p95_def Let_def min_def)
  have ms: "mset ?s = mset (last_waits xs)" using rg by simp
  have ln: "length ?s = ?n" "length (last_waits xs) = ?n" using mset_eq_length[OF ms] rg by simp_all
  have cnt: "length (filter P ?s) = length (filter P (last_waits xs))" for P
    using ms by (metis mset_filter size_mset)
  have "?n = 0 \<longleftrightarrow> xs = []" by (auto simp: reservoir_len_def min_def)
  moreover have "v \<in> set (last_waits xs) \<and> 95 * ?n \<le> 100 * length (filter (\<lambda>w. w \<le> v) (last_waits xs)) \<and>
       100 * length (filter (\<lambda>w. w < v) (last_waits xs)) < 95 * ?n"
    if v: "v = ?s ! ((?n * 95 + 99) div 100 - 1)" "?n \<noteq> 0" for v
  proof -
    let ?k = "(?n * 95 + 99) div 100 - 1"
    have k: "?k < ?n" "95 * ?n \<le> 100 * (?k + 1)" "100 * ?k < 95 * ?n" using nearest_rank[OF v(2)] by blast+
    have "v \<in> set ?s" unfolding v(1) by (rule nth_mem) (use k ln in simp)
    then have "v \<in> set (last_waits xs)" using mset_eq_setD[OF ms] by blast
    moreover note sorted_rank[OF sorted_sort, of ?k "take ?n (wr_buf r)", unfolded cnt ln, OF k(1), folded v(1)]
    ultimately show ?thesis using k(2,3) by linarith
  qed
  ultimately show ?thesis using p ln by auto
qed

theorem p95_nearest_rank_witness:
  "reservoir_p95 (fold reservoir_add [5, 1, 9, 3] new_reservoir) = Some 9 \<and>
   100 * length (filter (\<lambda>w. w < (9 :: int)) (last_waits [5, 1, 9, 3])) < 95 * length (last_waits [5, 1, 9, 3])"
proof -
  have p: "reservoir_p95 (fold reservoir_add [5, 1, 9, 3] new_reservoir) = Some 9"
    by code_simp
  with p95_nearest_rank[of "[5, 1, 9, 3]", OF _ refl] show ?thesis by simp
qed

end
