(* ===== verification/Derivation.thy ===== *)
theory Derivation
  imports Models "HOL-Library.Multiset"
begin

text \<open>
  The derivation pipeline of \<^verbatim>\<open>internal/derivation\<close>: events, results and the result store
  (\<^verbatim>\<open>types.go\<close>, \<^verbatim>\<open>store.go\<close>), the classification of errors and the retry loop (\<^verbatim>\<open>retry.go\<close>), the dead
  letter queue (\<^verbatim>\<open>dlq.go\<close>), the worker pool (\<^verbatim>\<open>pool.go\<close>) and the bridge that feeds it
  (\<^verbatim>\<open>cmd/ingest/derivation_bridge.go\<close>). A worker is its three methods over a state \<open>'w\<close> of its own, the
  scanner or extractor behind it. An error is its message and the chain of errors it wraps. Clock readings
  and the moments at which a context is cancelled are arguments. The pool is modelled twice: as one
  goroutine after the other, and as the goroutines of an event interleaved at their critical sections.
\<close>

section \<open>Events and results\<close>

text \<open>\<^verbatim>\<open>CreatedAt\<close> is a formatted time; the empty string of a zero \<^verbatim>\<open>Event\<close> is \<^const>\<open>None\<close>.\<close>

record Event =
  ev_EventID :: string
  ev_EventType :: string
  ev_VersionID :: string
  ev_NodeID :: string
  ev_TenantID :: string
  ev_TotalSize :: int
  ev_MimeType :: string
  ev_ContentSHA256 :: string
  ev_CreatedAt :: "instant option"
  ev_Chunks :: "ChunkDetail list"

datatype json_value = JString string | JInt int | JStrings "string list"

text \<open>The results carry one of three statuses; the zero value of the Go struct has none, the empty string.\<close>

definition StatusSuccess :: string where "StatusSuccess = ''SUCCESS''"
definition StatusFailed :: string where "StatusFailed = ''FAILED''"
definition StatusSkipped :: string where "StatusSkipped = ''SKIPPED''"

record ProcessingResult =
  pr_ResultID :: string
  pr_VersionID :: string
  pr_WorkerName :: string
  pr_Status :: string
  pr_ResultData :: "(string \<times> json_value) list option"
  pr_Error :: string
  pr_CreatedAt :: instant

section \<open>Errors\<close>

datatype errno = ECONNRESET | ECONNREFUSED | EPIPE | ECONNABORTED | EHOSTUNREACH | OtherErrno nat

text \<open>One link of the chain that \<^verbatim>\<open>errors.As\<close> walks: a \<^verbatim>\<open>net.Error\<close>, a \<^verbatim>\<open>syscall.Errno\<close> (which has the
  methods of \<^verbatim>\<open>net.Error\<close> too), or anything else.\<close>

datatype err_link = NetError | Errno errno | PlainError

record go_error =
  ge_Error :: string
  ge_chain :: "err_link list"

definition as_netError :: "go_error \<Rightarrow> bool" where
  "as_netError e \<longleftrightarrow> list_ex (\<lambda>l. l \<noteq> PlainError) (ge_chain e)"

fun first_errno :: "err_link list \<Rightarrow> errno option" where
  "first_errno [] = None"
| "first_errno (Errno n # ls) = Some n"
| "first_errno (l # ls) = first_errno ls"

definition errorf :: "string \<Rightarrow> go_error" where
  "errorf msg = \<lparr>ge_Error = msg, ge_chain = [PlainError]\<rparr>"

text \<open>\<^verbatim>\<open>fmt.Errorf\<close> with \<^verbatim>\<open>%w\<close>.\<close>

definition wrapf :: "string \<Rightarrow> go_error \<Rightarrow> go_error" where
  "wrapf msg e = \<lparr>ge_Error = msg @ ge_Error e, ge_chain = PlainError # ge_chain e\<rparr>"

text \<open>\<^verbatim>\<open>strings.ToLower\<close> on the messages, which are ASCII, and \<^verbatim>\<open>strings.Contains\<close>.\<close>

definition ToLower :: "string \<Rightarrow> string" where
  "ToLower = map (\<lambda>c. if in_range CHR ''A'' CHR ''Z'' c then char_of (code c + 32) else c)"

fun Contains :: "string \<Rightarrow> string \<Rightarrow> bool" where
  "Contains s p = (take (length p) s = p \<or> (case s of [] \<Rightarrow> False | c # r \<Rightarrow> Contains r p))"

definition transientPatterns :: "string list" where
  "transientPatterns = [''timeout'', ''connection reset'', ''connection refused'', ''broken pipe'', ''no route to host'',
     ''network is unreachable'', ''temporary failure'', ''context deadline exceeded'', ''i/o timeout'', ''eof'']"

definition IsTransient :: "go_error option \<Rightarrow> bool" where
  "IsTransient err =
     (case err of
        None \<Rightarrow> False
      | Some e \<Rightarrow>
          as_netError e \<or>
          (case first_errno (ge_chain e) of
             Some n \<Rightarrow> n \<in> set [ECONNRESET, ECONNREFUSED, EPIPE, ECONNABORTED, EHOSTUNREACH]
           | None \<Rightarrow> False) \<or>
          list_ex (Contains (ToLower (ge_Error e))) transientPatterns)"

section \<open>Retries\<close>

record RetryConfig =
  rc_MaxAttempts :: int
  rc_BaseDelay :: duration
  rc_MaxDelay :: duration

definition Retry_applyDefaults :: "RetryConfig \<Rightarrow> RetryConfig" where
  "Retry_applyDefaults c =
     \<lparr>rc_MaxAttempts = (if rc_MaxAttempts c \<le> 0 then 5 else rc_MaxAttempts c),
      rc_BaseDelay = (if rc_BaseDelay c \<le> 0 then 1 * Second else rc_BaseDelay c),
      rc_MaxDelay = (if rc_MaxDelay c \<le> 0 then 16 * Second else rc_MaxDelay c)\<rparr>"

record RetryResult =
  rr_Attempts :: int
  rr_LastErr :: "go_error option"
  rr_Success :: bool

text \<open>The doubling loop, \<open>n\<close> rounds of it, on 64-bit durations.\<close>

primrec backoff_loop :: "nat \<Rightarrow> duration \<Rightarrow> duration \<Rightarrow> duration" where
  "backoff_loop 0 max' delay = delay"
| "backoff_loop (Suc n) max' delay =
     (let delay = wrap64 (delay * 2) in if delay > max' then max' else backoff_loop n max' delay)"

definition backoffDelay :: "int \<Rightarrow> duration \<Rightarrow> duration \<Rightarrow> duration" where
  "backoffDelay attempt base max' = backoff_loop (nat (attempt - 1)) max' base"

text \<open>\<open>cancelled attempt\<close> says that the context is done during the wait after that attempt and \<open>ctxErr\<close> is the error
  it then reports. The second component of the result is the list of waits.\<close>

function retry_loop ::
  "RetryConfig \<Rightarrow> (int \<Rightarrow> bool) \<Rightarrow> go_error \<Rightarrow> (int \<Rightarrow> 's \<Rightarrow> go_error option \<times> 's) \<Rightarrow> int \<Rightarrow> go_error option \<Rightarrow> 's \<Rightarrow>
   RetryResult \<times> duration list \<times> 's" where
  "retry_loop cfg cancelled ctxErr fn attempt lastErr s =
     (if attempt \<le> rc_MaxAttempts cfg then
        (case fn attempt s of
           (None, s1) \<Rightarrow> (\<lparr>rr_Attempts = attempt, rr_LastErr = None, rr_Success = True\<rparr>, [], s1)
         | (Some e, s1) \<Rightarrow>
             if \<not> IsTransient (Some e) then (\<lparr>rr_Attempts = attempt, rr_LastErr = Some e, rr_Success = False\<rparr>, [], s1)
             else if attempt < rc_MaxAttempts cfg then
               (if cancelled attempt then (\<lparr>rr_Attempts = attempt, rr_LastErr = Some ctxErr, rr_Success = False\<rparr>, [], s1)
                else
                  (case retry_loop cfg cancelled ctxErr fn (attempt + 1) (Some e) s1 of
                     (rr, waits, s2) \<Rightarrow> (rr, backoffDelay attempt (rc_BaseDelay cfg) (rc_MaxDelay cfg) # waits, s2)))
             else retry_loop cfg cancelled ctxErr fn (attempt + 1) (Some e) s1)
      else (\<lparr>rr_Attempts = rc_MaxAttempts cfg, rr_LastErr = lastErr, rr_Success = False\<rparr>, [], s))"
  by pat_completeness auto
termination
  by (relation "measure (\<lambda>(cfg, cancelled, ctxErr, fn, attempt, lastErr, s). nat (rc_MaxAttempts cfg + 1 - attempt))") auto

declare retry_loop.simps [simp del]

definition RetryWithBackoff ::
  "RetryConfig \<Rightarrow> (int \<Rightarrow> bool) \<Rightarrow> go_error \<Rightarrow> (int \<Rightarrow> 's \<Rightarrow> go_error option \<times> 's) \<Rightarrow> 's \<Rightarrow> RetryResult \<times> duration list \<times> 's" where
  "RetryWithBackoff cfg cancelled ctxErr fn s = retry_loop (Retry_applyDefaults cfg) cancelled ctxErr fn 1 None s"

section \<open>Results\<close>

definition NewSuccessResult :: "instant \<Rightarrow> string \<Rightarrow> string \<Rightarrow> (string \<times> json_value) list \<Rightarrow> ProcessingResult" where
  "NewSuccessResult now versionID workerName d =
     \<lparr>pr_ResultID = '''', pr_VersionID = versionID, pr_WorkerName = workerName, pr_Status = StatusSuccess,
      pr_ResultData = Some d, pr_Error = '''', pr_CreatedAt = now\<rparr>"

definition NewFailedResult :: "instant \<Rightarrow> string \<Rightarrow> string \<Rightarrow> go_error option \<Rightarrow> ProcessingResult" where
  "NewFailedResult now versionID workerName err =
     \<lparr>pr_ResultID = '''', pr_VersionID = versionID, pr_WorkerName = workerName, pr_Status = StatusFailed,
      pr_ResultData = None, pr_Error = (case err of None \<Rightarrow> '''' | Some e \<Rightarrow> ge_Error e), pr_CreatedAt = now\<rparr>"

definition NewSkippedResult :: "instant \<Rightarrow> string \<Rightarrow> string \<Rightarrow> ProcessingResult" where
  "NewSkippedResult now versionID workerName =
     \<lparr>pr_ResultID = '''', pr_VersionID = versionID, pr_WorkerName = workerName, pr_Status = StatusSkipped,
      pr_ResultData = None, pr_Error = '''', pr_CreatedAt = now\<rparr>"

definition ValidateResult :: "ProcessingResult \<Rightarrow> go_error option" where
  "ValidateResult r =
     (if pr_VersionID r = '''' then Some (errorf ''derivation: result missing version_id'')
      else if pr_WorkerName r = '''' then Some (errorf ''derivation: result missing worker_name'')
      else if pr_Status r = '''' then Some (errorf ''derivation: result missing status'')
      else None)"

record FakeResultStore =
  fs_results :: "ProcessingResult list"
  fs_saveErr :: "go_error option"

definition NewFakeResultStore :: FakeResultStore where
  "NewFakeResultStore = \<lparr>fs_results = [], fs_saveErr = None\<rparr>"

definition SetSaveError :: "go_error option \<Rightarrow> FakeResultStore \<Rightarrow> FakeResultStore" where
  "SetSaveError err f = f\<lparr>fs_saveErr := err\<rparr>"

definition SaveResult :: "ProcessingResult \<Rightarrow> FakeResultStore \<Rightarrow> go_error option \<times> FakeResultStore" where
  "SaveResult r f =
     (case fs_saveErr f of
        Some e \<Rightarrow> (Some e, f)
      | None \<Rightarrow> (None, f\<lparr>fs_results := fs_results f @ [r]\<rparr>))"

definition GetResultsByVersion :: "string \<Rightarrow> FakeResultStore \<Rightarrow> ProcessingResult list" where
  "GetResultsByVersion versionID f = filter (\<lambda>r. pr_VersionID r = versionID) (fs_results f)"

definition Results :: "FakeResultStore \<Rightarrow> ProcessingResult list" where
  "Results f = fs_results f"

definition Count :: "FakeResultStore \<Rightarrow> nat" where
  "Count f = length (fs_results f)"

section \<open>The dead letter queue\<close>

text \<open>The zero time is \<open>None\<close>.\<close>

record DeadLetterEntry =
  dl_Event :: Event
  dl_Worker :: string
  dl_Error :: string
  dl_Attempts :: int
  dl_CreatedAt :: "instant option"

record MemoryDLQ =
  mq_entries :: "DeadLetterEntry list"

definition NewMemoryDLQ :: MemoryDLQ where
  "NewMemoryDLQ = \<lparr>mq_entries = []\<rparr>"

definition stamped :: "instant \<Rightarrow> DeadLetterEntry \<Rightarrow> DeadLetterEntry" where
  "stamped now entry = (if dl_CreatedAt entry = None then entry\<lparr>dl_CreatedAt := Some now\<rparr> else entry)"

definition Enqueue :: "instant \<Rightarrow> DeadLetterEntry \<Rightarrow> MemoryDLQ \<Rightarrow> MemoryDLQ" where
  "Enqueue now entry q = q\<lparr>mq_entries := mq_entries q @ [stamped now entry]\<rparr>"

definition Drain :: "int \<Rightarrow> MemoryDLQ \<Rightarrow> DeadLetterEntry list \<times> MemoryDLQ" where
  "Drain limit q =
     (let n = (if limit \<le> 0 \<or> limit > int (length (mq_entries q)) then length (mq_entries q) else nat limit)
      in (take n (mq_entries q), q\<lparr>mq_entries := drop n (mq_entries q)\<rparr>))"

definition DLQ_Size :: "MemoryDLQ \<Rightarrow> nat" where
  "DLQ_Size q = length (mq_entries q)"

section \<open>The worker pool\<close>

record 'w Worker =
  wk_Name :: string
  wk_ShouldProcess :: "Event \<Rightarrow> bool"
  wk_Process :: "Event \<Rightarrow> 'w \<Rightarrow> (go_error + ProcessingResult) \<times> 'w"

text \<open>The pool's state, with the package's counter of result identifiers. The three counters only grow, from zero.\<close>

record WorkerPool =
  wp_store :: FakeResultStore
  wp_dlq :: MemoryDLQ
  wp_retry :: RetryConfig
  wp_eventsProcessed :: nat
  wp_resultsSaved :: nat
  wp_resultCounter :: nat

definition NewWorkerPool :: "RetryConfig \<Rightarrow> FakeResultStore option \<Rightarrow> MemoryDLQ option \<Rightarrow> nat \<Rightarrow> WorkerPool" where
  "NewWorkerPool cfg st q counter =
     \<lparr>wp_store = (case st of None \<Rightarrow> NewFakeResultStore | Some f \<Rightarrow> f),
      wp_dlq = (case q of None \<Rightarrow> NewMemoryDLQ | Some d \<Rightarrow> d),
      wp_retry = Retry_applyDefaults cfg, wp_eventsProcessed = 0, wp_resultsSaved = 0, wp_resultCounter = counter\<rparr>"

text \<open>\<^verbatim>\<open>Format("20060102150405")\<close> of an instant in UTC: the civil date of the proleptic Gregorian calendar, whose
  years are counted from March so that the leap day is the last of its year.\<close>

definition civil :: "int \<Rightarrow> int \<times> int \<times> int" where
  "civil days =
     (let z = days + 719468; era = z div 146097; doe = z mod 146097;
          yoe = (doe - doe div 1460 + doe div 36524 - doe div 146096) div 365;
          doy = doe - (365 * yoe + yoe div 4 - yoe div 100);
          mp = (5 * doy + 2) div 153;
          d = doy - (153 * mp + 2) div 5 + 1;
          m = (if mp < 10 then mp + 3 else mp - 9)
      in (yoe + era * 400 + (if m \<le> 2 then 1 else 0), m, d))"

definition padded :: "nat \<Rightarrow> int \<Rightarrow> string" where
  "padded n x = (let s = FormatInt x in replicate (n - length s) CHR ''0'' @ s)"

definition format_stamp :: "instant \<Rightarrow> string" where
  "format_stamp t =
     (let secs = unix_seconds t; sod = secs mod 86400
      in case civil (secs div 86400) of
           (y, m, d) \<Rightarrow> padded 4 y @ padded 2 m @ padded 2 d @
             padded 2 (sod div 3600) @ padded 2 (sod div 60 mod 60) @ padded 2 (sod mod 60))"

definition generateResultID :: "instant \<Rightarrow> nat \<Rightarrow> string \<times> nat" where
  "generateResultID now counter =
     (let c = counter + 1 in (format_stamp now @ ''-'' @ [char_of (65 + c mod 26)], c))"

text \<open>What one goroutine reads from outside: the cancellation of its context and the clock when a failed result is
  made, a letter is enqueued and an identifier is generated.\<close>

record ambient =
  am_cancelled :: "int \<Rightarrow> bool"
  am_ctxErr :: go_error
  am_failedAt :: instant
  am_enqueuedAt :: instant
  am_idAt :: instant

text \<open>The part of \<^verbatim>\<open>processWithRetry\<close> that touches only the worker: the retried attempts, after a success the second call
  for the result, and otherwise the letter for the queue.\<close>

definition attempt_fn :: "'w Worker \<Rightarrow> Event \<Rightarrow> int \<Rightarrow> 'w \<Rightarrow> go_error option \<times> 'w" where
  "attempt_fn w event attempt s = (case wk_Process w event s of (Inl e, s1) \<Rightarrow> (Some e, s1) | (Inr _, s1) \<Rightarrow> (None, s1))"

definition letter :: "'w Worker \<Rightarrow> Event \<Rightarrow> RetryResult \<Rightarrow> DeadLetterEntry" where
  "letter w event rr =
     \<lparr>dl_Event = event, dl_Worker = wk_Name w, dl_Error = (case rr_LastErr rr of None \<Rightarrow> '''' | Some e \<Rightarrow> ge_Error e),
      dl_Attempts = rr_Attempts rr, dl_CreatedAt = None\<rparr>"

definition worker_part :: "RetryConfig \<Rightarrow> ambient \<Rightarrow> 'w Worker \<Rightarrow> Event \<Rightarrow> 'w \<Rightarrow> (DeadLetterEntry option \<times> ProcessingResult) \<times> 'w" where
  "worker_part cfg am w event s =
     (case RetryWithBackoff cfg (am_cancelled am) (am_ctxErr am) (attempt_fn w event) s of
        (rr, _, s1) \<Rightarrow>
          if rr_Success rr then
            (case wk_Process w event s1 of
               (Inl e, s2) \<Rightarrow> ((None, NewFailedResult (am_failedAt am) (ev_VersionID event) (wk_Name w) (Some e)), s2)
             | (Inr r, s2) \<Rightarrow> ((None, r), s2))
          else ((Some (letter w event rr), NewFailedResult (am_failedAt am) (ev_VersionID event) (wk_Name w) (rr_LastErr rr)), s1))"

text \<open>The parts that touch the pool, one for each critical section.\<close>

definition dead_letter :: "ambient \<Rightarrow> DeadLetterEntry option \<Rightarrow> WorkerPool \<Rightarrow> WorkerPool" where
  "dead_letter am dl p = (case dl of None \<Rightarrow> p | Some e \<Rightarrow> p\<lparr>wp_dlq := Enqueue (am_enqueuedAt am) e (wp_dlq p)\<rparr>)"

definition number_result :: "ambient \<Rightarrow> ProcessingResult \<Rightarrow> WorkerPool \<Rightarrow> ProcessingResult \<times> WorkerPool" where
  "number_result am r p =
     (case generateResultID (am_idAt am) (wp_resultCounter p) of
        (i, c) \<Rightarrow> (r\<lparr>pr_ResultID := i\<rparr>, p\<lparr>wp_resultCounter := c\<rparr>))"

definition store_result :: "ProcessingResult \<Rightarrow> WorkerPool \<Rightarrow> bool \<times> WorkerPool" where
  "store_result r p = (case SaveResult r (wp_store p) of (err, f) \<Rightarrow> (err = None, p\<lparr>wp_store := f\<rparr>))"

definition count_saved :: "WorkerPool \<Rightarrow> WorkerPool" where
  "count_saved p = p\<lparr>wp_resultsSaved := wp_resultsSaved p + 1\<rparr>"

definition saveResult :: "ProcessingResult \<Rightarrow> WorkerPool \<Rightarrow> WorkerPool" where
  "saveResult r p = (case store_result r p of (ok, p1) \<Rightarrow> if ok then count_saved p1 else p1)"

definition processWithRetry :: "ambient \<Rightarrow> 'w Worker \<Rightarrow> Event \<Rightarrow> 'w \<Rightarrow> WorkerPool \<Rightarrow> ProcessingResult \<times> 'w \<times> WorkerPool" where
  "processWithRetry am w event s p =
     (case worker_part (wp_retry p) am w event s of
        ((dl, r), s1) \<Rightarrow>
          (case number_result am r (dead_letter am dl p) of
             (r1, p1) \<Rightarrow> (r1, s1, saveResult r1 p1)))"

text \<open>An event handled by one goroutine after the other. A job is an applicable worker with its state and its readings.\<close>

type_synonym 'w job = "'w Worker \<times> 'w \<times> ambient"

definition jobs :: "('w Worker \<times> 'w) list \<Rightarrow> (nat \<Rightarrow> ambient) \<Rightarrow> Event \<Rightarrow> 'w job list" where
  "jobs workers ams event =
     (let ws = filter (\<lambda>(w, s). wk_ShouldProcess w event) workers in map (\<lambda>i. (fst (ws ! i), snd (ws ! i), ams i)) [0..<length ws])"

fun process_all :: "'w job list \<Rightarrow> Event \<Rightarrow> WorkerPool \<Rightarrow> ProcessingResult list \<times> WorkerPool" where
  "process_all [] event p = ([], p)"
| "process_all ((w, s, am) # js) event p =
     (case processWithRetry am w event s p of
        (r, _, p1) \<Rightarrow> (case process_all js event p1 of (rs, p2) \<Rightarrow> (r # rs, p2)))"

definition count_event :: "WorkerPool \<Rightarrow> WorkerPool" where
  "count_event p = p\<lparr>wp_eventsProcessed := wp_eventsProcessed p + 1\<rparr>"

definition ProcessEvent :: "('w Worker \<times> 'w) list \<Rightarrow> (nat \<Rightarrow> ambient) \<Rightarrow> Event \<Rightarrow> WorkerPool \<Rightarrow> ProcessingResult list \<times> WorkerPool" where
  "ProcessEvent workers ams event p = process_all (jobs workers ams event) event (count_event p)"

definition Stats :: "WorkerPool \<Rightarrow> nat \<times> nat" where
  "Stats p = (wp_eventsProcessed p, wp_resultsSaved p)"

subsection \<open>Interleaved goroutines\<close>

text \<open>Where a goroutine stands between two critical sections: before its own work, before the letter, the identifier, the
  save, the counter and the append to the results, and returned. Its own work touches nothing shared, so it is taken
  with the step that begins it.\<close>

datatype phase =
    Spawned
  | Lettered "DeadLetterEntry option" ProcessingResult
  | Numbered ProcessingResult
  | Stored ProcessingResult
  | Counted ProcessingResult
  | Returned

record pool_run =
  run_pool :: WorkerPool
  run_phases :: "phase list"
  run_results :: "ProcessingResult list"

fun phase_step :: "'w job \<Rightarrow> Event \<Rightarrow> phase \<Rightarrow> WorkerPool \<Rightarrow> ProcessingResult list \<Rightarrow> phase \<times> WorkerPool \<times> ProcessingResult list" where
  "phase_step (w, s, am) event Spawned p rs =
     (case worker_part (wp_retry p) am w event s of ((dl, r), _) \<Rightarrow> (Lettered dl r, dead_letter am dl p, rs))"
| "phase_step (w, s, am) event (Lettered dl r) p rs = (case number_result am r p of (r1, p1) \<Rightarrow> (Numbered r1, p1, rs))"
| "phase_step (w, s, am) event (Numbered r) p rs =
     (case store_result r p of (ok, p1) \<Rightarrow> (if ok then Stored r else Counted r, p1, rs))"
| "phase_step (w, s, am) event (Stored r) p rs = (Counted r, count_saved p, rs)"
| "phase_step (w, s, am) event (Counted r) p rs = (Returned, p, rs @ [r])"
| "phase_step j event Returned p rs = (Returned, p, rs)"

inductive pool_step :: "'w job list \<Rightarrow> Event \<Rightarrow> pool_run \<Rightarrow> pool_run \<Rightarrow> bool" for js event where
  goroutine: "i < length js \<Longrightarrow> i < length (run_phases c) \<Longrightarrow> run_phases c ! i \<noteq> Returned \<Longrightarrow>
    phase_step (js ! i) event (run_phases c ! i) (run_pool c) (run_results c) = (ph, p, rs) \<Longrightarrow>
    pool_step js event c \<lparr>run_pool = p, run_phases = (run_phases c)[i := ph], run_results = rs\<rparr>"

definition spawn :: "'w job list \<Rightarrow> WorkerPool \<Rightarrow> pool_run" where
  "spawn js p = \<lparr>run_pool = p, run_phases = replicate (length js) Spawned, run_results = []\<rparr>"

definition all_returned :: "pool_run \<Rightarrow> bool" where
  "all_returned c \<longleftrightarrow> list_all (\<lambda>ph. ph = Returned) (run_phases c)"

section \<open>The bridge\<close>

text \<open>The channel holds up to 256 events; a full channel drops the event and still reports success.\<close>

record derivationBridge =
  db_events :: "Event list"

definition to_event :: "FileCommittedEvent \<Rightarrow> Event" where
  "to_event e =
     \<lparr>ev_EventID = fe_EventID e, ev_EventType = fe_EventType e, ev_VersionID = fe_VersionID e, ev_NodeID = fe_NodeID e,
      ev_TenantID = fe_TenantID e, ev_TotalSize = fe_TotalSize e, ev_MimeType = fe_MimeType e,
      ev_ContentSHA256 = fe_ContentSHA256 e, ev_CreatedAt = Some (fe_CreatedAt e), ev_Chunks = fe_Chunks e\<rparr>"

definition PublishFileCommitted :: "FileCommittedEvent \<Rightarrow> derivationBridge \<Rightarrow> derivationBridge" where
  "PublishFileCommitted e b =
     (if length (db_events b) < 256 then b\<lparr>db_events := db_events b @ [to_event e]\<rparr> else b)"

text \<open>One round of \<^verbatim>\<open>consume\<close>, and \<^verbatim>\<open>drain\<close>: the channel's events are processed in order until it is empty. \<open>ws\<close> gives the
  workers' states for an event and \<open>ams\<close> their readings.\<close>

definition consume_one :: "(Event \<Rightarrow> ('w Worker \<times> 'w) list) \<Rightarrow> (Event \<Rightarrow> nat \<Rightarrow> ambient) \<Rightarrow> derivationBridge \<Rightarrow> WorkerPool \<Rightarrow> derivationBridge \<times> WorkerPool" where
  "consume_one ws ams b p =
     (case db_events b of
        [] \<Rightarrow> (b, p)
      | e # es \<Rightarrow> (b\<lparr>db_events := es\<rparr>, snd (ProcessEvent (ws e) (ams e) e p)))"

fun drain_events :: "(Event \<Rightarrow> ('w Worker \<times> 'w) list) \<Rightarrow> (Event \<Rightarrow> nat \<Rightarrow> ambient) \<Rightarrow> Event list \<Rightarrow> WorkerPool \<Rightarrow> WorkerPool" where
  "drain_events ws ams [] p = p"
| "drain_events ws ams (e # es) p = drain_events ws ams es (snd (ProcessEvent (ws e) (ams e) e p))"

definition drain :: "(Event \<Rightarrow> ('w Worker \<times> 'w) list) \<Rightarrow> (Event \<Rightarrow> nat \<Rightarrow> ambient) \<Rightarrow> derivationBridge \<Rightarrow> WorkerPool \<Rightarrow> derivationBridge \<times> WorkerPool" where
  "drain ws ams b p = (b\<lparr>db_events := []\<rparr>, drain_events ws ams (db_events b) p)"

section \<open>Classification of errors\<close>

text \<open>Every system error number counts as transient: a \<^verbatim>\<open>syscall.Errno\<close> is a \<^verbatim>\<open>net.Error\<close>, so the list of five
  numbers that the function goes on to test is never decisive.\<close>

lemma errno_is_net: "first_errno ls = Some n \<Longrightarrow> list_ex (\<lambda>l. l \<noteq> PlainError) ls"
  by (induction ls rule: first_errno.induct) auto

lemma errno_always_transient: "first_errno (ge_chain e) = Some n \<Longrightarrow> IsTransient (Some e)"
  by (simp add: IsTransient_def as_netError_def errno_is_net)

lemma wrapf_transient: "as_netError e \<Longrightarrow> IsTransient (Some (wrapf msg e))"
  by (simp add: IsTransient_def as_netError_def wrapf_def)

section \<open>Waits double up to the cap\<close>

lemma backoff_loop_exact:
  assumes "0 < d" and "d < 2 ^ 62" and "m < 2 ^ 62"
  shows "backoff_loop n m d = (if n = 0 then d else min (d * 2 ^ n) m)"
  using assms(1,2)
proof (induction n arbitrary: d)
  case (Suc n)
  have wrap: "wrap64 (d * 2) = d * 2"
    using Suc.prems by (intro wrap64_id) (simp add: is_int64_def)
  show ?case
  proof (cases "d * 2 > m")
    case True
    have "d * 2 * 1 \<le> d * 2 * 2 ^ n"
      using Suc.prems by (intro mult_left_mono) auto
    with True show ?thesis
      by (simp add: wrap Let_def)
  next
    case False
    then show ?thesis
      using Suc.IH [of "d * 2"] Suc.prems assms(3) by (simp add: wrap Let_def mult.assoc)
  qed
qed simp

lemma backoffDelay_exact:
  assumes "0 < base" and "base < 2 ^ 62" and "m < 2 ^ 62" and "1 \<le> attempt"
  shows "backoffDelay attempt base m = (if attempt = 1 then base else min (base * 2 ^ nat (attempt - 1)) m)"
  using backoff_loop_exact [OF assms(1-3)] assms(4) by (simp add: backoffDelay_def)

section \<open>The retry loop\<close>

text \<open>The calls the loop makes, in order, and what they return.\<close>

primrec run_attempts :: "(int \<Rightarrow> 's \<Rightarrow> go_error option \<times> 's) \<Rightarrow> int \<Rightarrow> nat \<Rightarrow> 's \<Rightarrow> go_error option list \<times> 's" where
  "run_attempts fn a 0 s = ([], s)"
| "run_attempts fn a (Suc n) s = (case fn a s of (r, s1) \<Rightarrow> (case run_attempts fn (a + 1) n s1 of (rs, s2) \<Rightarrow> (r # rs, s2)))"

lemma run_attempts_length: "run_attempts fn a n s = (rs, s') \<Longrightarrow> length rs = n"
  by (induction n arbitrary: a s rs) (auto split: prod.splits)

text \<open>What the loop promises when it stands at attempt \<open>a\<close>, of the calls \<open>rs\<close>, the waits and the result.\<close>

definition retry_promise ::
  "RetryConfig \<Rightarrow> (int \<Rightarrow> bool) \<Rightarrow> go_error \<Rightarrow> int \<Rightarrow> go_error option list \<Rightarrow> RetryResult \<Rightarrow> duration list \<Rightarrow> bool" where
  "retry_promise cfg cancelled ctxErr a rs rr waits \<longleftrightarrow>
     length rs = Suc (length waits) \<and> rr_Attempts rr = a + int (length waits) \<and> rr_Attempts rr \<le> rc_MaxAttempts cfg \<and>
     waits = map (\<lambda>i. backoffDelay (a + int i) (rc_BaseDelay cfg) (rc_MaxDelay cfg)) [0..<length waits] \<and>
     list_all IsTransient (butlast rs) \<and>
     (rr_Success rr \<longleftrightarrow> last rs = None) \<and>
     (if rr_Success rr then rr_LastErr rr = None
      else if \<not> IsTransient (last rs) \<or> rr_Attempts rr = rc_MaxAttempts cfg then rr_LastErr rr = last rs
      else cancelled (rr_Attempts rr) \<and> rr_LastErr rr = Some ctxErr)"

lemma retry_promise_last:
  assumes "a \<le> rc_MaxAttempts cfg" and "rr_Attempts rr = a" and "rr_Success rr \<longleftrightarrow> r = None"
    and "if rr_Success rr then rr_LastErr rr = None
      else if \<not> IsTransient r \<or> a = rc_MaxAttempts cfg then rr_LastErr rr = r else cancelled a \<and> rr_LastErr rr = Some ctxErr"
  shows "retry_promise cfg cancelled ctxErr a [r] rr []"
  using assms by (simp add: retry_promise_def)

lemma retry_promise_wait:
  assumes "IsTransient r" and "retry_promise cfg cancelled ctxErr (a + 1) rs rr waits"
  shows "retry_promise cfg cancelled ctxErr a (r # rs) rr (backoffDelay a (rc_BaseDelay cfg) (rc_MaxDelay cfg) # waits)"
proof -
  let ?b = "\<lambda>i. backoffDelay i (rc_BaseDelay cfg) (rc_MaxDelay cfg)"
  have "waits = map (\<lambda>i. ?b (a + 1 + int i)) [0..<length waits]" and "rs \<noteq> []"
    using assms(2) unfolding retry_promise_def by auto
  then have "?b a # waits = map (\<lambda>i. ?b (a + int i)) (0 # map Suc [0..<length waits])"
    by (simp add: o_def add.commute add.left_commute)
  then have "?b a # waits = map (\<lambda>i. ?b (a + int i)) [0..<Suc (length waits)]"
    by (simp only: map_Suc_upt upt_conv_Cons [OF zero_less_Suc])
  then show ?thesis
    using assms \<open>rs \<noteq> []\<close> unfolding retry_promise_def by (auto simp: add.assoc split: if_splits)
qed

lemma retry_loop_promise:
  assumes "retry_loop cfg cancelled ctxErr fn a lastErr s = (rr, waits, s')" and "a \<le> rc_MaxAttempts cfg"
  shows "\<exists>rs. run_attempts fn a (Suc (length waits)) s = (rs, s') \<and> retry_promise cfg cancelled ctxErr a rs rr waits"
  using assms
proof (induction cfg cancelled ctxErr fn a lastErr s arbitrary: rr waits s' rule: retry_loop.induct)
  case (1 cfg cancelled ctxErr fn a lastErr s)
  obtain r s1 where fn: "fn a s = (r, s1)"
    by fastforce
  consider (ok) "r = None" | (perm) e where "r = Some e" "\<not> IsTransient r"
    | (stop) e where "r = Some e" "IsTransient r" "a < rc_MaxAttempts cfg" "cancelled a"
    | (wait) e where "r = Some e" "IsTransient r" "a < rc_MaxAttempts cfg" "\<not> cancelled a"
    | (limit) e where "r = Some e" "IsTransient r" "a = rc_MaxAttempts cfg"
    using "1.prems"(2) by fastforce
  then show ?case
  proof cases
    case wait
    obtain ws s2 where rest: "retry_loop cfg cancelled ctxErr fn (a + 1) (Some e) s1 = (rr, ws, s')"
        and waits: "waits = backoffDelay a (rc_BaseDelay cfg) (rc_MaxDelay cfg) # ws"
      using "1.prems" fn wait by (subst (asm) retry_loop.simps) (auto split: prod.splits)
    obtain rs where "run_attempts fn (a + 1) (Suc (length ws)) s1 = (rs, s')" "retry_promise cfg cancelled ctxErr (a + 1) rs rr ws"
      using "1.IH"(1) [OF "1.prems"(2) fn [symmetric] _ _ wait(3) wait(4) rest] wait by auto
    then show ?thesis
      using retry_promise_wait [OF wait(2)] fn by (auto simp: waits simp del: run_attempts.simps(1))
  next
    case limit
    then have "rr = \<lparr>rr_Attempts = a, rr_LastErr = r, rr_Success = False\<rparr>" "waits = []" "s' = s1"
      using "1.prems" fn
      by (auto simp: retry_loop.simps [of _ _ _ _ "rc_MaxAttempts cfg"] retry_loop.simps [of _ _ _ _ "rc_MaxAttempts cfg + 1"])
    then show ?thesis
      using fn limit by (auto intro!: retry_promise_last)
  next
    case ok
    then show ?thesis
      using "1.prems" fn by (subst (asm) retry_loop.simps) (auto intro!: retry_promise_last)
  next
    case perm
    then show ?thesis
      using "1.prems" fn by (subst (asm) retry_loop.simps) (auto intro!: retry_promise_last)
  next
    case stop
    then show ?thesis
      using "1.prems" fn by (subst (asm) retry_loop.simps) (auto intro!: retry_promise_last)
  qed
qed

section \<open>The goroutines of an event\<close>

text \<open>What a goroutine adds to the shared state, as a multiset of effects, with result identifiers erased: they depend on
  the order in which the counter is read.\<close>

datatype effect = EfLetter DeadLetterEntry | EfNumber | EfStore ProcessingResult | EfCount | EfResult ProcessingResult

definition erase_id :: "ProcessingResult \<Rightarrow> ProcessingResult" where
  "erase_id r = r\<lparr>pr_ResultID := ''''\<rparr>"

definition observed :: "WorkerPool \<Rightarrow> ProcessingResult list \<Rightarrow> effect multiset" where
  "observed p rs =
     image_mset EfLetter (mset (mq_entries (wp_dlq p))) + image_mset EfStore (mset (map erase_id (fs_results (wp_store p)))) +
     image_mset EfResult (mset (map erase_id rs)) + replicate_mset (wp_resultCounter p) EfNumber +
     replicate_mset (wp_resultsSaved p) EfCount"

definition saves :: "bool \<Rightarrow> ProcessingResult \<Rightarrow> effect multiset" where
  "saves ok r = (if ok then {#EfStore (erase_id r), EfCount#} else {#})"

fun remaining :: "RetryConfig \<Rightarrow> bool \<Rightarrow> Event \<Rightarrow> 'w job \<Rightarrow> phase \<Rightarrow> effect multiset" where
  "remaining cfg ok event (w, s, am) Spawned =
     (case worker_part cfg am w event s of
        ((dl, r), _) \<Rightarrow>
          (case dl of None \<Rightarrow> {#} | Some e \<Rightarrow> {#EfLetter (stamped (am_enqueuedAt am) e)#}) +
          {#EfNumber#} + saves ok r + {#EfResult (erase_id r)#})"
| "remaining cfg ok event j (Lettered dl r) = {#EfNumber#} + saves ok r + {#EfResult (erase_id r)#}"
| "remaining cfg ok event j (Numbered r) = saves ok r + {#EfResult (erase_id r)#}"
| "remaining cfg ok event j (Stored r) = {#EfCount#} + {#EfResult (erase_id r)#}"
| "remaining cfg ok event j (Counted r) = {#EfResult (erase_id r)#}"
| "remaining cfg ok event j Returned = {#}"

fun steps_left :: "phase \<Rightarrow> nat" where
  "steps_left Spawned = 5"
| "steps_left (Lettered dl r) = 4"
| "steps_left (Numbered r) = 3"
| "steps_left (Stored r) = 2"
| "steps_left (Counted r) = 1"
| "steps_left Returned = 0"

lemmas pool_parts = dead_letter_def number_result_def generateResultID_def store_result_def SaveResult_def count_saved_def Enqueue_def

lemma erase_id_upd [simp]: "erase_id (r\<lparr>pr_ResultID := i\<rparr>) = erase_id r"
  by (simp add: erase_id_def)

lemma phase_step_effects:
  assumes "phase_step j event ph p rs = (ph', p', rs')"
  shows "observed p' rs' + remaining (wp_retry p) (fs_saveErr (wp_store p) = None) event j ph' =
      observed p rs + remaining (wp_retry p) (fs_saveErr (wp_store p) = None) event j ph"
    and "wp_retry p' = wp_retry p" and "fs_saveErr (wp_store p') = fs_saveErr (wp_store p)"
    and "wp_eventsProcessed p' = wp_eventsProcessed p"
    and "ph \<noteq> Returned \<Longrightarrow> steps_left ph' < steps_left ph"
proof -
  obtain w s am where j: "j = (w, s, am)"
    by (cases j)
  show "observed p' rs' + remaining (wp_retry p) (fs_saveErr (wp_store p) = None) event j ph' =
      observed p rs + remaining (wp_retry p) (fs_saveErr (wp_store p) = None) event j ph"
    using assms by (cases ph) (auto simp: j observed_def saves_def pool_parts Let_def split: prod.splits option.splits)
  show "wp_retry p' = wp_retry p" "fs_saveErr (wp_store p') = fs_saveErr (wp_store p)" "wp_eventsProcessed p' = wp_eventsProcessed p"
    "ph \<noteq> Returned \<Longrightarrow> steps_left ph' < steps_left ph"
    using assms by (cases ph; auto simp: j pool_parts Let_def split: prod.splits option.splits if_splits)+
qed

lemma processWithRetry_effects:
  assumes "processWithRetry am w event s p = (r, s', p')"
  shows "observed p' (rs @ [r]) = observed p rs + remaining (wp_retry p) (fs_saveErr (wp_store p) = None) event (w, s, am) Spawned"
    and "wp_retry p' = wp_retry p" and "fs_saveErr (wp_store p') = fs_saveErr (wp_store p)"
    and "wp_eventsProcessed p' = wp_eventsProcessed p"
  using assms
  by (auto simp: processWithRetry_def saveResult_def observed_def saves_def pool_parts Let_def split: prod.splits option.splits)

lemma process_all_effects:
  assumes "process_all js event p = (rs, p')"
  shows "observed p' (acc @ rs) = observed p acc + (\<Sum>j\<leftarrow>js. remaining (wp_retry p) (fs_saveErr (wp_store p) = None) event j Spawned)"
    and "wp_eventsProcessed p' = wp_eventsProcessed p"
proof -
  have "observed p' (acc @ rs) = observed p acc + (\<Sum>j\<leftarrow>js. remaining (wp_retry p) (fs_saveErr (wp_store p) = None) event j Spawned) \<and>
      wp_eventsProcessed p' = wp_eventsProcessed p"
    using assms
  proof (induction js event p arbitrary: rs acc rule: process_all.induct)
    case (2 w s am js event p)
    obtain r s1 p1 rs1 where one: "processWithRetry am w event s p = (r, s1, p1)" and rest: "process_all js event p1 = (rs1, p')"
        and rs: "rs = r # rs1"
      using "2.prems" by (auto split: prod.splits)
    have "observed p' ((acc @ [r]) @ rs1) = observed p1 (acc @ [r]) +
        (\<Sum>j\<leftarrow>js. remaining (wp_retry p1) (fs_saveErr (wp_store p1) = None) event j Spawned) \<and>
        wp_eventsProcessed p' = wp_eventsProcessed p1"
      using one rest by (intro "2.IH") auto
    then show ?case
      using processWithRetry_effects(1) [OF one, of acc] processWithRetry_effects(2-4) [OF one]
      by (simp add: rs add.assoc)
  qed simp
  then show "observed p' (acc @ rs) = observed p acc + (\<Sum>j\<leftarrow>js. remaining (wp_retry p) (fs_saveErr (wp_store p) = None) event j Spawned)"
    and "wp_eventsProcessed p' = wp_eventsProcessed p"
    by blast+
qed

text \<open>An update of one position changes a sum over the positions by that position only.\<close>

lemma sum_nth_update:
  fixes f :: "nat \<Rightarrow> 'a \<Rightarrow> 'b::comm_monoid_add"
  assumes "i < n" and "length xs = n"
  shows "(\<Sum>k<n. f k (xs[i := y] ! k)) + f i (xs ! i) = (\<Sum>k<n. f k (xs ! k)) + f i y"
proof -
  have "(\<Sum>k<n. f k (zs ! k)) = f i (zs ! i) + (\<Sum>k\<in>{..<n} - {i}. f k (zs ! k))" for zs
    using assms(1) by (simp add: sum.remove)
  moreover have "(\<Sum>k\<in>{..<n} - {i}. f k (xs[i := y] ! k)) = (\<Sum>k\<in>{..<n} - {i}. f k (xs ! k))"
    by (intro sum.cong) auto
  ultimately show ?thesis
    using assms by (simp add: add.assoc add.commute add.left_commute)
qed

definition to_come :: "'w job list \<Rightarrow> Event \<Rightarrow> RetryConfig \<Rightarrow> bool \<Rightarrow> pool_run \<Rightarrow> effect multiset" where
  "to_come js event cfg ok c = (\<Sum>k<length js. remaining cfg ok event (js ! k) (run_phases c ! k))"

definition run_inv :: "'w job list \<Rightarrow> Event \<Rightarrow> WorkerPool \<Rightarrow> pool_run \<Rightarrow> bool" where
  "run_inv js event p0 c \<longleftrightarrow>
     length (run_phases c) = length js \<and> wp_retry (run_pool c) = wp_retry p0 \<and>
     fs_saveErr (wp_store (run_pool c)) = fs_saveErr (wp_store p0) \<and> wp_eventsProcessed (run_pool c) = wp_eventsProcessed p0 \<and>
     observed (run_pool c) (run_results c) + to_come js event (wp_retry p0) (fs_saveErr (wp_store p0) = None) c =
       observed p0 [] + (\<Sum>k<length js. remaining (wp_retry p0) (fs_saveErr (wp_store p0) = None) event (js ! k) Spawned)"

lemma run_inv_spawn: "run_inv js event p (spawn js p)"
  by (simp add: run_inv_def spawn_def to_come_def)

lemma run_inv_step:
  assumes "pool_step js event c c'" and inv: "run_inv js event p0 c"
  shows "run_inv js event p0 c'"
  using assms(1)
proof cases
  case (goroutine i ph p rs)
  let ?rem = "\<lambda>k. remaining (wp_retry p0) (fs_saveErr (wp_store p0) = None) event (js ! k)"
  have len: "length (run_phases c) = length js" and cfg: "wp_retry (run_pool c) = wp_retry p0"
    and ok: "fs_saveErr (wp_store (run_pool c)) = fs_saveErr (wp_store p0)"
    using inv by (simp_all add: run_inv_def)
  note eff = phase_step_effects(1) [OF goroutine(5), unfolded cfg ok] and frame = phase_step_effects(2-4) [OF goroutine(5)]
  have "(\<Sum>k<length js. ?rem k ((run_phases c)[i := ph] ! k)) + ?rem i (run_phases c ! i) =
      (\<Sum>k<length js. ?rem k (run_phases c ! k)) + ?rem i ph"
    by (rule sum_nth_update [OF goroutine(2) len])
  then have "observed p rs + (\<Sum>k<length js. ?rem k ((run_phases c)[i := ph] ! k)) + ?rem i (run_phases c ! i) =
      observed (run_pool c) (run_results c) + (\<Sum>k<length js. ?rem k (run_phases c ! k)) + ?rem i (run_phases c ! i)"
    using eff by (simp add: add.assoc add.commute add.left_commute)
  then have "observed p rs + (\<Sum>k<length js. ?rem k ((run_phases c)[i := ph] ! k)) =
      observed (run_pool c) (run_results c) + (\<Sum>k<length js. ?rem k (run_phases c ! k))"
    by simp
  then show ?thesis
    using inv frame by (simp add: run_inv_def goroutine(1) to_come_def)
qed

lemma run_inv_steps: "(pool_step js event)\<^sup>*\<^sup>* c c' \<Longrightarrow> run_inv js event p0 c \<Longrightarrow> run_inv js event p0 c'"
  by (induction rule: rtranclp_induct) (blast intro: run_inv_step)+

lemma run_inv_returned:
  assumes "run_inv js event p0 c" and "all_returned c"
  shows "observed (run_pool c) (run_results c) =
    observed p0 [] + (\<Sum>j\<leftarrow>js. remaining (wp_retry p0) (fs_saveErr (wp_store p0) = None) event j Spawned)"
proof -
  have "run_phases c ! k = Returned" if "k < length js" for k
    using assms that by (simp add: run_inv_def all_returned_def list_all_length)
  then have "to_come js event cfg ok c = {#}" for cfg ok
    by (simp add: to_come_def)
  then show ?thesis
    using assms(1) by (simp add: run_inv_def sum_list_sum_nth atLeast0LessThan)
qed

text \<open>The components of the shared state can be read off the effects.\<close>

lemma count_image_inj: "inj f \<Longrightarrow> count (image_mset f M) (f x) = count M x"
  by (induction M) (auto simp: inj_def)

lemma count_image_other: "x \<notin> range f \<Longrightarrow> count (image_mset f M) x = 0"
  by (auto simp: count_eq_zero_iff)

lemma observed_counts:
  "count (observed p rs) (EfLetter e) = count (mset (mq_entries (wp_dlq p))) e"
  "count (observed p rs) (EfStore r) = count (mset (map erase_id (fs_results (wp_store p)))) r"
  "count (observed p rs) (EfResult r) = count (mset (map erase_id rs)) r"
  "count (observed p rs) EfNumber = wp_resultCounter p"
  "count (observed p rs) EfCount = wp_resultsSaved p"
proof -
  have inj: "inj EfLetter" "inj EfStore" "inj EfResult"
    by (simp_all add: inj_def)
  show "count (observed p rs) (EfLetter e) = count (mset (mq_entries (wp_dlq p))) e"
    "count (observed p rs) (EfStore r) = count (mset (map erase_id (fs_results (wp_store p)))) r"
    "count (observed p rs) (EfResult r) = count (mset (map erase_id rs)) r"
    "count (observed p rs) EfNumber = wp_resultCounter p" "count (observed p rs) EfCount = wp_resultsSaved p"
    by (simp_all add: observed_def count_image_inj inj count_image_other image_iff del: mset_map)
qed

lemma observed_eq:
  assumes "observed p rs = observed p' rs'"
  shows "mset (map erase_id rs) = mset (map erase_id rs')"
    and "mset (map erase_id (fs_results (wp_store p))) = mset (map erase_id (fs_results (wp_store p')))"
    and "mset (mq_entries (wp_dlq p)) = mset (mq_entries (wp_dlq p'))"
    and "wp_resultCounter p = wp_resultCounter p'" and "wp_resultsSaved p = wp_resultsSaved p'"
  by (rule multiset_eqI, metis assms observed_counts(3), rule multiset_eqI, metis assms observed_counts(2),
      rule multiset_eqI, metis assms observed_counts(1), metis assms observed_counts(4), metis assms observed_counts(5))

text \<open>Every step of a goroutine brings it nearer to its end, and one that has not returned can step.\<close>

definition work_left :: "pool_run \<Rightarrow> nat" where
  "work_left c = (\<Sum>k<length (run_phases c). steps_left (run_phases c ! k))"

lemma pool_step_less:
  assumes "pool_step js event c c'"
  shows "work_left c' < work_left c \<and> length (run_phases c') = length (run_phases c)"
  using assms
proof cases
  case (goroutine i ph p rs)
  have "steps_left ph < steps_left (run_phases c ! i)"
    using phase_step_effects(5) [OF goroutine(5)] goroutine(4) by simp
  then show ?thesis
    using sum_nth_update [OF goroutine(3) refl, of "\<lambda>_. steps_left" ph] by (simp add: work_left_def goroutine(1))
qed

lemma pool_steps_bounded: "(pool_step js event ^^ k) c c' \<Longrightarrow> k + work_left c' \<le> work_left c"
proof (induction k arbitrary: c')
  case (Suc k)
  then obtain d where d: "(pool_step js event ^^ k) c d" "pool_step js event d c'"
    by auto
  show ?case
    using Suc.IH [OF d(1)] pool_step_less [OF d(2)] by linarith
qed simp

lemma pool_stuck_returned:
  assumes "\<nexists>c'. pool_step js event c c'" and "length (run_phases c) = length js"
  shows "all_returned c"
proof (rule ccontr)
  assume "\<not> all_returned c"
  then obtain i where i: "i < length (run_phases c)" "run_phases c ! i \<noteq> Returned"
    by (auto simp: all_returned_def list_all_length)
  obtain ph p rs where "phase_step (js ! i) event (run_phases c ! i) (run_pool c) (run_results c) = (ph, p, rs)"
    by (metis prod_cases3)
  then show False
    using assms i goroutine [of i js c event ph p rs] by auto
qed

lemma work_left_spawn: "work_left (spawn js p) = 5 * length js"
  by (simp add: work_left_def spawn_def)

lemma pool_step_length: "(pool_step js event)\<^sup>*\<^sup>* c c' \<Longrightarrow> length (run_phases c') = length (run_phases c)"
  by (induction rule: rtranclp_induct) (auto dest: pool_step_less)

lemma pool_completes:
  assumes "length (run_phases c) = length js"
  shows "\<exists>c'. (pool_step js event)\<^sup>*\<^sup>* c c' \<and> all_returned c'"
  using assms
proof (induction "work_left c" arbitrary: c rule: less_induct)
  case less
  show ?case
  proof (cases "\<exists>d. pool_step js event c d")
    case True
    then obtain d where d: "pool_step js event c d"
      by blast
    then obtain c' where "(pool_step js event)\<^sup>*\<^sup>* d c'" "all_returned c'"
      using less pool_step_less [OF d] by metis
    then show ?thesis
      using d by (blast intro: converse_rtranclp_into_rtranclp)
  next
    case False
    then show ?thesis
      using pool_stuck_returned less.prems by blast
  qed
qed

lemma process_all_length: "process_all js event p = (rs, p') \<Longrightarrow> length rs = length js"
  by (induction js event p arbitrary: rs rule: process_all.induct) (auto split: prod.splits)

text \<open>A complete interleaving leaves the effects of the sequential execution.\<close>

lemma interleaving_observed:
  assumes "(pool_step js event)\<^sup>*\<^sup>* (spawn js p) c" and "all_returned c" and "process_all js event p = (rs, p')"
  shows "observed (run_pool c) (run_results c) = observed p' rs" and "wp_eventsProcessed (run_pool c) = wp_eventsProcessed p'"
proof -
  have inv: "run_inv js event p c"
    by (rule run_inv_steps [OF assms(1) run_inv_spawn])
  show "observed (run_pool c) (run_results c) = observed p' rs"
    using run_inv_returned [OF inv assms(2)] process_all_effects(1) [OF assms(3), of "[]"] by simp
  show "wp_eventsProcessed (run_pool c) = wp_eventsProcessed p'"
    using inv process_all_effects(2) [OF assms(3)] by (simp add: run_inv_def)
qed

section \<open>Properties\<close>

text \<open>C28. The retry loop always returns. It calls the function once for each attempt from one on, at least once and at
  most as often as configured; every call but the last failed transiently; it reports success exactly when the last call
  succeeded, and otherwise a non-nil error: that of the last call if it was permanent or the attempts are used up, and
  the context's if a wait was cancelled. Between two calls it waits: the base delay first, then the doubled base
  delay up to the cap.\<close>

theorem retry_calls_bounded:
  assumes "c = Retry_applyDefaults cfg" and "rc_BaseDelay c < 2 ^ 62" and "rc_MaxDelay c < 2 ^ 62"
  shows "\<exists>rr waits s' rs. RetryWithBackoff cfg cancelled ctxErr fn s = (rr, waits, s') \<and>
    run_attempts fn 1 (nat (rr_Attempts rr)) s = (rs, s') \<and> 1 \<le> rr_Attempts rr \<and> rr_Attempts rr \<le> rc_MaxAttempts c \<and>
    list_all IsTransient (butlast rs) \<and> (rr_Success rr \<longleftrightarrow> last rs = None) \<and> (rr_Success rr \<longleftrightarrow> rr_LastErr rr = None) \<and>
    (\<not> rr_Success rr \<longrightarrow>
       (if IsTransient (last rs) \<and> rr_Attempts rr < rc_MaxAttempts c
        then cancelled (rr_Attempts rr) \<and> rr_LastErr rr = Some ctxErr else rr_LastErr rr = last rs)) \<and>
    waits = map (\<lambda>i. if i = 0 then rc_BaseDelay c else min (rc_BaseDelay c * 2 ^ i) (rc_MaxDelay c)) [0..<nat (rr_Attempts rr) - 1]"
proof -
  have pos: "1 \<le> rc_MaxAttempts c" "0 < rc_BaseDelay c"
    by (simp_all add: assms(1) Retry_applyDefaults_def Second_def)
  obtain rr waits s' where run: "RetryWithBackoff cfg cancelled ctxErr fn s = (rr, waits, s')"
    by (metis prod_cases3)
  then obtain rs where calls: "run_attempts fn 1 (Suc (length waits)) s = (rs, s')" and pr: "retry_promise c cancelled ctxErr 1 rs rr waits"
    using retry_loop_promise [of c cancelled ctxErr fn 1 None s rr waits s'] pos(1) by (auto simp: RetryWithBackoff_def assms(1))
  have att: "rr_Attempts rr = 1 + int (length waits)" "nat (rr_Attempts rr) = Suc (length waits)"
    using pr by (simp_all add: retry_promise_def)
  have "waits = map (\<lambda>i. backoffDelay (1 + int i) (rc_BaseDelay c) (rc_MaxDelay c)) [0..<length waits]"
    using pr by (simp add: retry_promise_def)
  also have "\<dots> = map (\<lambda>i. if i = 0 then rc_BaseDelay c else min (rc_BaseDelay c * 2 ^ i) (rc_MaxDelay c)) [0..<length waits]"
    using backoffDelay_exact [OF pos(2) assms(2,3)] by auto
  finally have "waits = map (\<lambda>i. if i = 0 then rc_BaseDelay c else min (rc_BaseDelay c * 2 ^ i) (rc_MaxDelay c)) [0..<nat (rr_Attempts rr) - 1]"
    by (simp only: att(2) diff_Suc_1)
  then show ?thesis
    using run calls pr att unfolding retry_promise_def
    by (intro exI [of _ rr] exI [of _ waits] exI [of _ s'] exI [of _ rs]) (auto split: if_splits)
qed

theorem retry_calls_bounded_witness:
  "\<exists>rr waits n rs. RetryWithBackoff \<lparr>rc_MaxAttempts = 0, rc_BaseDelay = 0, rc_MaxDelay = 0\<rparr> (\<lambda>_. False) (errorf ''context canceled'')
     (\<lambda>_ n. (Some (errorf ''i/o timeout''), Suc n)) 0 = (rr, waits, n) \<and> 1 \<le> rr_Attempts rr \<and> rr_Attempts rr \<le> 5"
  using retry_calls_bounded [of "\<lparr>rc_MaxAttempts = 5, rc_BaseDelay = Second, rc_MaxDelay = 16 * Second\<rparr>"
      "\<lparr>rc_MaxAttempts = 0, rc_BaseDelay = 0, rc_MaxDelay = 0\<rparr>" "\<lambda>_. False" "errorf ''context canceled''"
      "\<lambda>_ n. (Some (errorf ''i/o timeout''), Suc n)" 0]
  by (fastforce simp: Retry_applyDefaults_def Second_def)

text \<open>C10. However the goroutines of an event interleave, once all have returned the pool stands as if they had run one
  after the other: the returned results, the stored results and the dead letters are the same multisets, up to the
  identifiers drawn from the shared counter, and the counters are equal.\<close>

theorem pool_interleaving_refines:
  assumes "js = jobs workers ams event" and "(pool_step js event)\<^sup>*\<^sup>* (spawn js (count_event p)) c" and "all_returned c"
    and "ProcessEvent workers ams event p = (rs, p')"
  shows "mset (map erase_id (run_results c)) = mset (map erase_id rs) \<and>
    mset (map erase_id (fs_results (wp_store (run_pool c)))) = mset (map erase_id (fs_results (wp_store p'))) \<and>
    mset (mq_entries (wp_dlq (run_pool c))) = mset (mq_entries (wp_dlq p')) \<and>
    Stats (run_pool c) = Stats p' \<and> wp_resultCounter (run_pool c) = wp_resultCounter p'"
proof -
  have seq: "process_all js event (count_event p) = (rs, p')"
    using assms(1,4) by (simp add: ProcessEvent_def)
  show ?thesis
    using observed_eq [OF interleaving_observed(1) [OF assms(2,3) seq]] interleaving_observed(2) [OF assms(2,3) seq]
    by (simp add: Stats_def)
qed


subsection \<open>A pool of two workers\<close>

definition demo_event :: Event where
  "demo_event = \<lparr>ev_EventID = ''e'', ev_EventType = ''FileCommitted'', ev_VersionID = ''v'', ev_NodeID = ''n'', ev_TenantID = ''t'',
     ev_TotalSize = 1, ev_MimeType = ''text/plain'', ev_ContentSHA256 = '''', ev_CreatedAt = Some 0, ev_Chunks = []\<rparr>"

definition demo_workers :: "(unit Worker \<times> unit) list" where
  "demo_workers =
     [(\<lparr>wk_Name = ''good'', wk_ShouldProcess = (\<lambda>_. True), wk_Process = (\<lambda>e s. (Inr (NewSuccessResult 0 (ev_VersionID e) ''good'' []), s))\<rparr>, ()),
      (\<lparr>wk_Name = ''bad'', wk_ShouldProcess = (\<lambda>_. True), wk_Process = (\<lambda>e s. (Inl (errorf ''corrupt''), s))\<rparr>, ()),
      (\<lparr>wk_Name = ''idle'', wk_ShouldProcess = (\<lambda>_. False), wk_Process = (\<lambda>e s. (Inl (errorf ''never''), s))\<rparr>, ())]"

definition demo_ambient :: ambient where
  "demo_ambient = \<lparr>am_cancelled = (\<lambda>_. False), am_ctxErr = errorf ''context canceled'', am_failedAt = 0, am_enqueuedAt = 0, am_idAt = 0\<rparr>"

definition demo_pool :: WorkerPool where
  "demo_pool = NewWorkerPool \<lparr>rc_MaxAttempts = 0, rc_BaseDelay = 0, rc_MaxDelay = 0\<rparr> None None 0"

lemma demo_processed:
  "let (rs, p) = ProcessEvent demo_workers (\<lambda>_. demo_ambient) demo_event demo_pool
   in map pr_Status rs = [StatusSuccess, StatusFailed] \<and> map pr_ResultID rs = [''19700101000000-B'', ''19700101000000-C''] \<and>
      map dl_Worker (mq_entries (wp_dlq p)) = [''bad''] \<and> map dl_Attempts (mq_entries (wp_dlq p)) = [1] \<and> Stats p = (1, 2)"
  by code_simp

theorem pool_interleaving_refines_witness:
  "\<exists>c. (pool_step (jobs demo_workers (\<lambda>_. demo_ambient) demo_event) demo_event)\<^sup>*\<^sup>*
      (spawn (jobs demo_workers (\<lambda>_. demo_ambient) demo_event) (count_event demo_pool)) c \<and> all_returned c \<and> Stats (run_pool c) = (1, 2)"
proof -
  let ?js = "jobs demo_workers (\<lambda>_. demo_ambient) demo_event"
  obtain c where c: "(pool_step ?js demo_event)\<^sup>*\<^sup>* (spawn ?js (count_event demo_pool)) c" "all_returned c"
    using pool_completes [of "spawn ?js (count_event demo_pool)" ?js demo_event] by (auto simp: spawn_def)
  obtain rs p where seq: "ProcessEvent demo_workers (\<lambda>_. demo_ambient) demo_event demo_pool = (rs, p)"
    by fastforce
  then show ?thesis
    using pool_interleaving_refines [OF refl c seq] c demo_processed by auto
qed


section \<open>The queue and the bridge\<close>

text \<open>The queue is first in, first out: what two drains return is what one drain of their sum returns.\<close>

lemma Drain_all: "Drain 0 q = (mq_entries q, q\<lparr>mq_entries := []\<rparr>)"
  by (simp add: Drain_def)

lemma Drain_FIFO: "Drain n q = (out, q') \<Longrightarrow> out @ mq_entries q' = mq_entries q"
  by (auto simp: Drain_def Let_def)

lemma Drain_limit: "0 < n \<Longrightarrow> Drain n q = (out, q') \<Longrightarrow> int (length out) \<le> n"
  by (auto simp: Drain_def Let_def split: if_splits)

text \<open>The bridge never blocks the commit and holds at most 256 events; draining it handles every event it holds.\<close>

lemma PublishFileCommitted_bounded:
  "length (db_events b) \<le> 256 \<Longrightarrow> length (db_events (PublishFileCommitted e b)) \<le> 256"
  by (simp add: PublishFileCommitted_def)

lemma drain_events_processed: "wp_eventsProcessed (drain_events ws ams es p) = wp_eventsProcessed p + length es"
proof (induction es arbitrary: p)
  case (Cons e es)
  obtain rs p' where run: "process_all (jobs (ws e) (ams e) e) e (count_event p) = (rs, p')"
    by fastforce
  then have "snd (ProcessEvent (ws e) (ams e) e p) = p'"
    by (simp add: ProcessEvent_def)
  then show ?case
    using Cons process_all_effects(2) [OF run] by (simp add: count_event_def)
qed simp

end
