(* ===== verification/Client.thy ===== *)
theory Client
  imports FastCDC Ingress Derivation
begin

text \<open>
  The client SDK (\<^verbatim>\<open>aegis/client.go\<close>, \<^verbatim>\<open>aegis/upload.go\<close>, \<^verbatim>\<open>aegis/session.go\<close>) over a world \<open>'w\<close>, and its composition
  with the ingestion server of \<open>Ingress\<close> and an edge that stores blocks. What the SDK does to its surroundings is
  the record \<open>wire\<close>: opening a file, posting a request, checking a URL and putting a block. A file that opens is read to its
  end without an error. A reply of a successful request is the expected response or does not decode. Progress reports
  and the session file are left out.
\<close>

section \<open>The wire\<close>

datatype api_body = BodyInitiate InitiateRequest | BodyCommit CommitRequest

datatype api_reply = ReplyInitiate InitiateResponse | ReplyCommit CommitResponse | ReplyError string | ReplyUnreadable

text \<open>A reply has its status, the text of its status line and its body.\<close>

record 'w wire =
  wi_open :: "string \<Rightarrow> 'w \<Rightarrow> (go_error + bytes) \<times> 'w"
  wi_post :: "string \<Rightarrow> (string \<times> string) list \<Rightarrow> api_body \<Rightarrow> 'w \<Rightarrow> (go_error + nat \<times> string \<times> api_reply) \<times> 'w"
  wi_badURL :: "string \<Rightarrow> go_error option"
  wi_put :: "string \<Rightarrow> bytes \<Rightarrow> 'w \<Rightarrow> (go_error + nat) \<times> 'w"

record Client =
  cl_endpoint :: string
  cl_tenantID :: string
  cl_apiToken :: string

definition TrimRight :: "string \<Rightarrow> char \<Rightarrow> string" where
  "TrimRight s c = rev (dropWhile (\<lambda>x. x = c) (rev s))"

definition NewClient :: "string \<Rightarrow> string \<Rightarrow> string \<Rightarrow> Client" where
  "NewClient endpoint tenantID apiToken =
     \<lparr>cl_endpoint = TrimRight endpoint CHR ''/'', cl_tenantID = tenantID, cl_apiToken = apiToken\<rparr>"

record UploadOptions =
  uo_FilePath :: string
  uo_ParentID :: "string option"
  uo_NodeID :: "string option"
  uo_MimeType :: string

record UploadResult =
  ur_VersionID :: string
  ur_VersionNumber :: int
  ur_NodeID :: string
  ur_SessionID :: string
  ur_BytesUploaded :: int
  ur_Deduplicated :: int

text \<open>A call of the SDK returns, crashes with a panic, or never returns.\<close>

datatype 'a outcome = Finished 'a | Crashed | Hangs

section \<open>Requests\<close>

definition doJSON :: "'w wire \<Rightarrow> Client \<Rightarrow> string \<Rightarrow> api_body \<Rightarrow> 'w \<Rightarrow> (go_error + api_reply) \<times> 'w" where
  "doJSON W c path body s =
     (let url = cl_endpoint c @ path;
          hs = (''Content-Type'', ''application/json'') #
               (if cl_apiToken c \<noteq> '''' then [(''Authorization'', ''Bearer '' @ cl_apiToken c)] else [])
      in case wi_badURL W url of
           Some e \<Rightarrow> (Inl (wrapf ''create request: '' e), s)
         | None \<Rightarrow>
             (case wi_post W url hs body s of
                (Inl e, s1) \<Rightarrow> (Inl (wrapf ''http request: '' e), s1)
              | (Inr (status, line, reply), s1) \<Rightarrow>
                  if status \<ge> 400 then
                    (Inl (errorf (''HTTP '' @ Itoa (int status) @ '': '' @
                       (case reply of ReplyUnreadable \<Rightarrow> line | ReplyError m \<Rightarrow> m | _ \<Rightarrow> ''''))), s1)
                  else (Inr reply, s1)))"

definition initiateUpload :: "'w wire \<Rightarrow> Client \<Rightarrow> InitiateRequest \<Rightarrow> 'w \<Rightarrow> (go_error + InitiateResponse) \<times> 'w" where
  "initiateUpload W c req s =
     (case doJSON W c ''/api/v1/ingest/initiate'' (BodyInitiate req) s of
        (Inl e, s1) \<Rightarrow> (Inl e, s1)
      | (Inr (ReplyInitiate r), s1) \<Rightarrow> (Inr r, s1)
      | (Inr _, s1) \<Rightarrow> (Inl (errorf ''decode response''), s1))"

definition commitUpload :: "'w wire \<Rightarrow> Client \<Rightarrow> CommitRequest \<Rightarrow> 'w \<Rightarrow> (go_error + CommitResponse) \<times> 'w" where
  "commitUpload W c req s =
     (case doJSON W c ''/api/v1/ingest/commit'' (BodyCommit req) s of
        (Inl e, s1) \<Rightarrow> (Inl e, s1)
      | (Inr (ReplyCommit r), s1) \<Rightarrow> (Inr r, s1)
      | (Inr _, s1) \<Rightarrow> (Inl (errorf ''decode response''), s1))"

section \<open>Names and types of files\<close>

definition last_element :: "string \<Rightarrow> string" where
  "last_element p = rev (takeWhile (\<lambda>x. x \<noteq> CHR ''/'') (rev p))"

text \<open>\<^verbatim>\<open>filepath.Base\<close> and \<^verbatim>\<open>filepath.Ext\<close>.\<close>

definition Base :: "string \<Rightarrow> string" where
  "Base p = (if p = '''' then ''.'' else let q = TrimRight p CHR ''/'' in if q = '''' then ''/'' else last_element q)"

definition Ext :: "string \<Rightarrow> string" where
  "Ext p =
     (let e = last_element p
      in if CHR ''.'' \<in> set e then CHR ''.'' # rev (takeWhile (\<lambda>x. x \<noteq> CHR ''.'') (rev e)) else '''')"

text \<open>\<open>types\<close> is the system's table of types by extension, empty for an unknown one.\<close>

definition detectMIMEType :: "(string \<Rightarrow> string) \<Rightarrow> string \<Rightarrow> string" where
  "detectMIMEType types path =
     (if Ext path \<noteq> '''' \<and> types (Ext path) \<noteq> '''' then types (Ext path) else ''application/octet-stream'')"

section \<open>Uploading chunks\<close>

definition client_patterns :: "string list" where
  "client_patterns = [''timeout'', ''connection reset'', ''connection refused'', ''broken pipe'', ''EOF'', ''i/o timeout'',
     ''HTTP 502'', ''HTTP 503'', ''HTTP 504'']"

definition isTransientError :: "go_error \<Rightarrow> bool" where
  "isTransientError e \<longleftrightarrow> list_ex (\<lambda>p. Contains (ToLower (ge_Error e)) (ToLower p)) client_patterns"

definition defaultMaxRetries :: nat where "defaultMaxRetries = 5"

text \<open>The \<^verbatim>\<open>float64\<close> product of a second and a power of two is exact for the attempts below five.\<close>

definition client_backoffDelay :: "nat \<Rightarrow> duration" where
  "client_backoffDelay attempt = (let delay = 1 * Second * 2 ^ attempt in if delay > 16 * Second then 16 * Second else delay)"

definition putChunk :: "'w wire \<Rightarrow> string \<Rightarrow> bytes \<Rightarrow> 'w \<Rightarrow> go_error option \<times> 'w" where
  "putChunk W url d s =
     (case wi_badURL W url of
        Some e \<Rightarrow> (Some (wrapf ''create request: '' e), s)
      | None \<Rightarrow>
          (case wi_put W url d s of
             (Inl e, s1) \<Rightarrow> (Some (wrapf ''http put: '' e), s1)
           | (Inr status, s1) \<Rightarrow>
               if status \<ge> 300 then (Some (errorf (''HTTP '' @ Itoa (int status) @ '' uploading chunk'')), s1) else (None, s1)))"

text \<open>\<open>cancelled attempt\<close> says that the context is done during the wait after that attempt, \<open>ctxErr\<close> is its error. The wait
  also follows the last attempt.\<close>

fun put_loop ::
  "'w wire \<Rightarrow> (nat \<Rightarrow> bool) \<Rightarrow> go_error \<Rightarrow> string \<Rightarrow> bytes \<Rightarrow> nat \<Rightarrow> nat \<Rightarrow> go_error option \<Rightarrow> 'w \<Rightarrow> go_error option \<times> 'w" where
  "put_loop W cancelled ctxErr url d 0 attempt lastErr s =
     (Some (wrapf (''failed after '' @ Itoa (int defaultMaxRetries) @ '' retries: '') (case lastErr of Some e \<Rightarrow> e | None \<Rightarrow> errorf ''%!w(<nil>)'')), s)"
| "put_loop W cancelled ctxErr url d (Suc n) attempt lastErr s =
     (case putChunk W url d s of
        (None, s1) \<Rightarrow> (None, s1)
      | (Some e, s1) \<Rightarrow>
          if \<not> isTransientError e then (Some e, s1)
          else if cancelled attempt then (Some ctxErr, s1)
          else put_loop W cancelled ctxErr url d n (Suc attempt) (Some e) s1)"

definition uploadChunkWithRetry ::
  "'w wire \<Rightarrow> (nat \<Rightarrow> bool) \<Rightarrow> go_error \<Rightarrow> string \<Rightarrow> bytes \<Rightarrow> 'w \<Rightarrow> go_error option \<times> 'w" where
  "uploadChunkWithRetry W cancelled ctxErr url d s = put_loop W cancelled ctxErr url d defaultMaxRetries 0 None s"

text \<open>\<^verbatim>\<open>ReadAt\<close> on the content of the file: a negative offset is an error, a short read at the end is not.\<close>

definition readChunkFromFile :: "bytes \<Rightarrow> Chunk \<Rightarrow> go_error + bytes" where
  "readChunkFromFile content ch =
     (if Offset ch < 0 then
        Inl (wrapf (''ReadAt offset='' @ Itoa (Offset ch) @ '' size='' @ Itoa (int (Size ch)) @ '': '') (errorf ''negative offset''))
      else Inr (take (Size ch) (drop (nat (Offset ch)) content)))"

type_synonym url_map = "string \<Rightarrow> UploadURL option"

definition urlMap :: "UploadURL list \<Rightarrow> url_map" where
  "urlMap us = map_of (rev (map (\<lambda>u. (uu_BlockHash u, u)) us))"

definition work_items :: "url_map \<Rightarrow> Chunk list \<Rightarrow> (Chunk \<times> UploadURL) list" where
  "work_items m chs = List.map_filter (\<lambda>ch. map_option (\<lambda>u. (ch, u)) (m (HashHex ch))) chs"

text \<open>One goroutine: read, upload, report.\<close>

definition upload_item ::
  "'w wire \<Rightarrow> (nat \<Rightarrow> bool) \<Rightarrow> go_error \<Rightarrow> bytes \<Rightarrow> Chunk \<times> UploadURL \<Rightarrow> 'w \<Rightarrow> go_error option \<times> 'w" where
  "upload_item W cancelled ctxErr content item s =
     (let ch = fst item; pre = ''chunk '' @ take 12 (HashHex ch)
      in case readChunkFromFile content ch of
           Inl e \<Rightarrow> (Some (wrapf (pre @ '' read: '') e), s)
         | Inr d \<Rightarrow>
             (case uploadChunkWithRetry W cancelled ctxErr (uu_URL (snd item)) d s of
                (Some e, s1) \<Rightarrow> (Some (wrapf (pre @ '': '') e), s1)
              | (None, s1) \<Rightarrow> (None, s1)))"

text \<open>The goroutines in the order in which they complete: the result is the first error that arrives, or the sum of the sizes.
  Goroutines that are still running when the first error arrives go on, so after an error the world is that of a run in
  which they all end; the deferred close of the file may cut some of their reads short.\<close>

fun upload_items ::
  "'w wire \<Rightarrow> (nat \<Rightarrow> bool) \<Rightarrow> go_error \<Rightarrow> bytes \<Rightarrow> (Chunk \<times> UploadURL) list \<Rightarrow> 'w \<Rightarrow> (go_error + int) \<times> 'w" where
  "upload_items W cancelled ctxErr content [] s = (Inr 0, s)"
| "upload_items W cancelled ctxErr content (item # items) s =
     (case upload_item W cancelled ctxErr content item s of
        (err, s1) \<Rightarrow>
          (case upload_items W cancelled ctxErr content items s1 of
             (rest, s2) \<Rightarrow>
               (case err of
                  Some e \<Rightarrow> (Inl e, s2)
                | None \<Rightarrow> (bindE rest (\<lambda>n. Inr (int (Size (fst item)) + n)), s2))))"

text \<open>\<open>completion\<close> gives the order of completion, a permutation of the work.\<close>

definition uploadChunksParallel ::
  "'w wire \<Rightarrow> (nat \<Rightarrow> bool) \<Rightarrow> go_error \<Rightarrow> ((Chunk \<times> UploadURL) list \<Rightarrow> (Chunk \<times> UploadURL) list) \<Rightarrow> bytes \<Rightarrow> Chunk list \<Rightarrow> url_map \<Rightarrow> 'w \<Rightarrow>
   (go_error + int) \<times> 'w" where
  "uploadChunksParallel W cancelled ctxErr completion content allChunks m s =
     upload_items W cancelled ctxErr content (completion (work_items m allChunks)) s"

section \<open>Uploading a file\<close>

text \<open>What a call finds around it: the wire, the type table, the context and the order of completion.\<close>

record 'w surroundings =
  su_wire :: "'w wire"
  su_types :: "string \<Rightarrow> string"
  su_cancelled :: "nat \<Rightarrow> bool"
  su_ctxErr :: go_error
  su_completion :: "(Chunk \<times> UploadURL) list \<Rightarrow> (Chunk \<times> UploadURL) list"

definition chunk_file :: "bytes \<Rightarrow> (go_panic + Chunk list \<times> io_err option) option" where
  "chunk_file content = ChunkAll Sum256 byteReader_Read (New \<lparr>br_data = content, br_pos = 0\<rparr>)"

definition chunk_infos :: "Chunk list \<Rightarrow> ChunkInfo list" where
  "chunk_infos = map (\<lambda>ch. \<lparr>ci_BlockHash = HashHex ch, ci_SizeBytes = int (Size ch)\<rparr>)"

definition buildBlockMetas :: "Chunk list \<Rightarrow> BlockMeta list" where
  "buildBlockMetas chunks =
     map (\<lambda>(i, ch). \<lparr>bm_BlockHash = HashHex ch, bm_ChunkIndex = int i, bm_Offset = Offset ch, bm_SizeBytes = int (Size ch), bm_ETag = ''''\<rparr>)
       (enumerate 0 chunks)"

definition deduplicated :: "url_map \<Rightarrow> Chunk list \<Rightarrow> int" where
  "deduplicated m chunks = (\<Sum>ch\<leftarrow>chunks. if m (HashHex ch) = None then int (Size ch) else 0)"

definition io_error :: "io_err \<Rightarrow> go_error" where
  "io_error e = (case e of EOF \<Rightarrow> errorf ''EOF'' | ErrUnexpectedEOF \<Rightarrow> errorf ''unexpected EOF'' | ReaderErr m \<Rightarrow> errorf m)"

text \<open>Step 7: the missing chunks are uploaded from a second opening of the file.\<close>

definition upload_missing ::
  "'w surroundings \<Rightarrow> UploadOptions \<Rightarrow> Chunk list \<Rightarrow> UploadURL list \<Rightarrow> int \<Rightarrow> 'w \<Rightarrow> (go_error + int \<times> int) \<times> 'w" where
  "upload_missing R opts chunks urls totalSize s =
     (if urls = [] then (Inr (0, totalSize), s)
      else
        (case wi_open (su_wire R) (uo_FilePath opts) s of
           (Inl e, s1) \<Rightarrow> (Inl (wrapf ''aegis: reopen file for upload: '' e), s1)
         | (Inr content, s1) \<Rightarrow>
             (case uploadChunksParallel (su_wire R) (su_cancelled R) (su_ctxErr R) (su_completion R) content chunks (urlMap urls) s1 of
                (Inl e, s2) \<Rightarrow> (Inl (wrapf ''aegis: upload chunks: '' e), s2)
              | (Inr n, s2) \<Rightarrow> (Inr (n, deduplicated (urlMap urls) chunks), s2))))"

text \<open>Steps 8 to 10: the hash of a third opening, and the commit.\<close>

definition hash_and_commit ::
  "'w surroundings \<Rightarrow> Client \<Rightarrow> UploadOptions \<Rightarrow> Chunk list \<Rightarrow> InitiateResponse \<Rightarrow> string \<Rightarrow> int \<times> int \<Rightarrow> 'w \<Rightarrow> (go_error + UploadResult) \<times> 'w" where
  "hash_and_commit R c opts chunks initResp mimeType stats s =
     (case wi_open (su_wire R) (uo_FilePath opts) s of
        (Inl e, s1) \<Rightarrow> (Inl (wrapf ''aegis: reopen file for hash: '' e), s1)
      | (Inr content, s1) \<Rightarrow>
          (case commitUpload (su_wire R) c
                  \<lparr>cr_SessionID = ip_SessionID initResp, cr_ContentSHA256 = ComputeFileSHA256 content, cr_MimeType = mimeType,
                   cr_Blocks = buildBlockMetas chunks\<rparr> s1 of
             (Inl e, s2) \<Rightarrow> (Inl (wrapf ''aegis: commit: '' e), s2)
           | (Inr r, s2) \<Rightarrow>
               (Inr \<lparr>ur_VersionID = cp_VersionID r, ur_VersionNumber = cp_VersionNumber r, ur_NodeID = ip_NodeID initResp,
                     ur_SessionID = ip_SessionID initResp, ur_BytesUploaded = fst stats, ur_Deduplicated = snd stats\<rparr>, s2)))"

text \<open>Steps 4 to 10, for the chunks of the file.\<close>

definition upload_chunks_of ::
  "'w surroundings \<Rightarrow> Client \<Rightarrow> UploadOptions \<Rightarrow> int \<Rightarrow> Chunk list \<Rightarrow> 'w \<Rightarrow> (go_error + UploadResult) \<times> 'w" where
  "upload_chunks_of R c opts totalSize chunks s =
     (let mimeType = (if uo_MimeType opts = '''' then detectMIMEType (su_types R) (uo_FilePath opts) else uo_MimeType opts)
      in case initiateUpload (su_wire R) c
                \<lparr>ir_TenantID = cl_tenantID c, ir_FileName = Base (uo_FilePath opts), ir_ParentID = uo_ParentID opts,
                 ir_NodeID = uo_NodeID opts, ir_TotalSize = totalSize, ir_Chunks = chunk_infos chunks\<rparr> s of
           (Inl e, s1) \<Rightarrow> (Inl (wrapf ''aegis: initiate: '' e), s1)
         | (Inr initResp, s1) \<Rightarrow>
             (case upload_missing R opts chunks (ip_UploadURLs initResp) totalSize s1 of
                (Inl e, s2) \<Rightarrow> (Inl e, s2)
              | (Inr stats, s2) \<Rightarrow> hash_and_commit R c opts chunks initResp mimeType stats s2))"

definition UploadFile :: "'w surroundings \<Rightarrow> Client \<Rightarrow> UploadOptions \<Rightarrow> 'w \<Rightarrow> ((go_error + UploadResult) \<times> 'w) outcome" where
  "UploadFile R c opts s =
     (case wi_open (su_wire R) (uo_FilePath opts) s of
        (Inl e, s1) \<Rightarrow> Finished (Inl (wrapf ''aegis: open file: '' e), s1)
      | (Inr content, s1) \<Rightarrow>
          (case chunk_file content of
             None \<Rightarrow> Hangs
           | Some (Inl p) \<Rightarrow> Crashed
           | Some (Inr (chunks, Some e)) \<Rightarrow> Finished (Inl (wrapf ''aegis: chunk file: '' (io_error e)), s1)
           | Some (Inr (chunks, None)) \<Rightarrow>
               if chunks = [] then Finished (Inl (errorf ''aegis: file produced no chunks''), s1)
               else Finished (upload_chunks_of R c opts (int (length content)) chunks s1)))"

section \<open>Resuming an upload\<close>

record SessionState =
  ss_SessionID :: string
  ss_FilePath :: string
  ss_NodeID :: string
  ss_TotalSize :: int
  ss_MimeType :: string
  ss_Chunks :: "Chunk list"
  ss_Uploaded :: "string list"
  ss_CreatedAt :: int
  ss_ExpiresAt :: int

text \<open>The file system and the JSON codec the saved state goes through are arguments: \<open>dk_mkdirParent\<close> is \<^verbatim>\<open>MkdirAll\<close> of the directory
  of a path, \<open>dk_create\<close> creates or truncates a file, \<open>dk_write\<close> appends to a file that is open.\<close>

record 'w disk =
  dk_mkdirParent :: "string \<Rightarrow> 'w \<Rightarrow> go_error option \<times> 'w"
  dk_create :: "string \<Rightarrow> 'w \<Rightarrow> go_error option \<times> 'w"
  dk_write :: "string \<Rightarrow> bytes \<Rightarrow> 'w \<Rightarrow> go_error option \<times> 'w"
  dk_open :: "string \<Rightarrow> 'w \<Rightarrow> (go_error + bytes) \<times> 'w"

definition SaveSession :: "'w disk \<Rightarrow> (SessionState \<Rightarrow> go_error + bytes) \<Rightarrow> SessionState \<Rightarrow> string \<Rightarrow> 'w \<Rightarrow> go_error option \<times> 'w" where
  "SaveSession D enc state path s =
     (case dk_mkdirParent D path s of
        (Some e, s1) \<Rightarrow> (Some (wrapf ''create session dir: '' e), s1)
      | (None, s1) \<Rightarrow>
          (case dk_create D path s1 of
             (Some e, s2) \<Rightarrow> (Some (wrapf ''create session file: '' e), s2)
           | (None, s2) \<Rightarrow>
               (case enc state of
                  Inl e \<Rightarrow> (Some (wrapf ''encode session: '' e), s2)
                | Inr b \<Rightarrow>
                    (case dk_write D path b s2 of
                       (Some e, s3) \<Rightarrow> (Some (wrapf ''encode session: '' e), s3)
                     | (None, s3) \<Rightarrow> (None, s3)))))"

definition LoadSession :: "'w disk \<Rightarrow> (bytes \<Rightarrow> go_error + SessionState) \<Rightarrow> string \<Rightarrow> 'w \<Rightarrow> (go_error + SessionState) \<times> 'w" where
  "LoadSession D dec path s =
     (case dk_open D path s of
        (Inl e, s1) \<Rightarrow> (Inl (wrapf ''open session file: '' e), s1)
      | (Inr b, s1) \<Rightarrow>
          (case dec b of
             Inl e \<Rightarrow> (Inl (wrapf ''decode session: '' e), s1)
           | Inr state \<Rightarrow> (Inr state, s1)))"

text \<open>\<^verbatim>\<open>commitSession\<close>, when every chunk is already uploaded.\<close>

definition commitSession :: "'w surroundings \<Rightarrow> Client \<Rightarrow> SessionState \<Rightarrow> Chunk list \<Rightarrow> 'w \<Rightarrow> (go_error + UploadResult) \<times> 'w" where
  "commitSession R c state chunks s =
     (case wi_open (su_wire R) (ss_FilePath state) s of
        (Inl e, s1) \<Rightarrow> (Inl (wrapf ''aegis: open for hash: '' e), s1)
      | (Inr content, s1) \<Rightarrow>
          (case commitUpload (su_wire R) c
                  \<lparr>cr_SessionID = ss_SessionID state, cr_ContentSHA256 = ComputeFileSHA256 content, cr_MimeType = ss_MimeType state,
                   cr_Blocks = buildBlockMetas chunks\<rparr> s1 of
             (Inl e, s2) \<Rightarrow> (Inl (wrapf ''aegis: commit: '' e), s2)
           | (Inr r, s2) \<Rightarrow>
               (Inr \<lparr>ur_VersionID = cp_VersionID r, ur_VersionNumber = cp_VersionNumber r, ur_NodeID = ss_NodeID state,
                     ur_SessionID = ss_SessionID state, ur_BytesUploaded = 0, ur_Deduplicated = 0\<rparr>, s2)))"

text \<open>The rest of \<^verbatim>\<open>ResumeUpload\<close> once the server answered the initiate; the hash of the commit is left empty. The saved state is
  updated just before the commit.\<close>

definition resume_missing ::
  "'w surroundings \<Rightarrow> Client \<Rightarrow> SessionState \<Rightarrow> UploadOptions \<Rightarrow> Chunk list \<Rightarrow> Chunk list \<Rightarrow> InitiateResponse \<Rightarrow> 'w \<Rightarrow>
   (go_error + UploadResult) \<times> SessionState \<times> 'w" where
  "resume_missing R c state opts chunks missing initResp s =
     (case wi_open (su_wire R) (ss_FilePath state) s of
        (Inl e, s1) \<Rightarrow> (Inl (wrapf ''aegis: reopen file: '' e), state, s1)
      | (Inr content, s1) \<Rightarrow>
          (case (if ip_UploadURLs initResp = [] then (Inr 0, s1)
                 else uploadChunksParallel (su_wire R) (su_cancelled R) (su_ctxErr R) (su_completion R) content missing
                        (urlMap (ip_UploadURLs initResp)) s1) of
             (Inl e, s2) \<Rightarrow> (Inl (wrapf ''aegis: upload missing chunks: '' e), state, s2)
           | (Inr n, s2) \<Rightarrow>
               let state' = state\<lparr>ss_Uploaded := map HashHex chunks, ss_SessionID := ip_SessionID initResp,
                                  ss_FilePath := (if uo_FilePath opts \<noteq> '''' then uo_FilePath opts else ss_FilePath state)\<rparr>
               in (case commitUpload (su_wire R) c
                          \<lparr>cr_SessionID = ip_SessionID initResp, cr_ContentSHA256 = '''', cr_MimeType = ss_MimeType state,
                           cr_Blocks = buildBlockMetas chunks\<rparr> s2 of
                     (Inl e, s3) \<Rightarrow> (Inl (wrapf ''aegis: commit resume: '' e), state', s3)
                   | (Inr r, s3) \<Rightarrow>
                       (Inr \<lparr>ur_VersionID = cp_VersionID r, ur_VersionNumber = cp_VersionNumber r, ur_NodeID = ip_NodeID initResp,
                             ur_SessionID = ip_SessionID initResp, ur_BytesUploaded = n, ur_Deduplicated = 0\<rparr>, state', s3))))"

definition missing_chunks :: "SessionState \<Rightarrow> Chunk list \<Rightarrow> Chunk list" where
  "missing_chunks state chunks = filter (\<lambda>ch. HashHex ch \<notin> set (ss_Uploaded state)) chunks"

definition ResumeUpload ::
  "'w surroundings \<Rightarrow> Client \<Rightarrow> SessionState \<Rightarrow> UploadOptions \<Rightarrow> 'w \<Rightarrow> ((go_error + UploadResult) \<times> SessionState \<times> 'w) outcome" where
  "ResumeUpload R c state opts s =
     (case wi_open (su_wire R) (ss_FilePath state) s of
        (Inl e, s1) \<Rightarrow> Finished (Inl (wrapf ''aegis: open file: '' e), state, s1)
      | (Inr content, s1) \<Rightarrow>
          (case chunk_file content of
             None \<Rightarrow> Hangs
           | Some (Inl p) \<Rightarrow> Crashed
           | Some (Inr (chunks, Some e)) \<Rightarrow> Finished (Inl (wrapf ''aegis: re-chunk file: '' (io_error e)), state, s1)
           | Some (Inr (chunks, None)) \<Rightarrow>
               if chunks = [] then Finished (Inl (errorf ''aegis: file produced no chunks''), state, s1)
               else
                 let missing = missing_chunks state chunks
                 in if missing = [] then (case commitSession R c state chunks s1 of (r, s2) \<Rightarrow> Finished (r, state, s2))
                    else
                      (case initiateUpload (su_wire R) c
                              \<lparr>ir_TenantID = cl_tenantID c, ir_FileName = Base (ss_FilePath state), ir_ParentID = None,
                               ir_NodeID = Some (ss_NodeID state), ir_TotalSize = ss_TotalSize state, ir_Chunks = chunk_infos missing\<rparr> s1 of
                         (Inl e, s2) \<Rightarrow> Finished (Inl (wrapf ''aegis: initiate resume: '' e), state, s2)
                       | (Inr initResp, s2) \<Rightarrow> Finished (resume_missing R c state opts chunks missing initResp s2))))"

section \<open>The server and the edge\<close>

text \<open>The world of an undisturbed upload: the tables, the blocks the edge has stored under their hex hashes, the files of
  the client, and how many requests and puts were made. Each request meets a server of its own (fresh
  identifiers, faults and clock); each put has an outcome: a status, or a connection that breaks before or after
  the block was stored.\<close>

record aegis_world =
  aw_db :: db
  aw_blobs :: "string \<Rightarrow> bytes option"
  aw_files :: "string \<Rightarrow> bytes option"
  aw_requests :: nat
  aw_puts :: nat

datatype put_outcome = PutStatus nat | PutBroken bool go_error

record plant =
  pl_U :: uuid_pkg
  pl_server :: "nat \<Rightarrow> db IngressServer"
  pl_now :: "nat \<Rightarrow> instant"
  pl_eventID :: "nat \<Rightarrow> string"
  pl_put :: "nat \<Rightarrow> put_outcome"
  pl_urlHash :: "string \<Rightarrow> string option"
  pl_badURL :: "string \<Rightarrow> go_error option"

definition auth_header :: "(string \<times> string) list \<Rightarrow> string" where
  "auth_header hs = (case map_of hs ''Authorization'' of None \<Rightarrow> '''' | Some v \<Rightarrow> v)"

definition reply_of :: "('r \<Rightarrow> api_reply) \<Rightarrow> nat \<times> 'r option \<Rightarrow> nat \<times> string \<times> api_reply" where
  "reply_of f r = (fst r, '''', case snd r of None \<Rightarrow> ReplyError '''' | Some v \<Rightarrow> f v)"

definition serve :: "plant \<Rightarrow> (string \<times> string) list \<Rightarrow> api_body \<Rightarrow> aegis_world \<Rightarrow> (go_error + nat \<times> string \<times> api_reply) \<times> aegis_world" where
  "serve P hs body w =
     (let n = aw_requests w; s = pl_server P n; w1 = w\<lparr>aw_requests := Suc n\<rparr>
      in case body of
           BodyInitiate req \<Rightarrow>
             (case Ingress.wrap (srv_cfg s) (auth_header hs) 200 (handleInitiate (pl_U P) s (Some req) '''' ''ip'' ''ua'') (aw_db w) of
                (r, d) \<Rightarrow> (Inr (reply_of ReplyInitiate r), w1\<lparr>aw_db := d\<rparr>))
         | BodyCommit req \<Rightarrow>
             (case Ingress.wrap (srv_cfg s) (auth_header hs) 201
                     (\<lambda>d. case handleCommit (pl_U P) s (pl_now P n) (pl_eventID P n) (Some req) d of ((r, _), d') \<Rightarrow> (r, d')) (aw_db w) of
                (r, d) \<Rightarrow> (Inr (reply_of ReplyCommit r), w1\<lparr>aw_db := d\<rparr>)))"

definition store_block :: "plant \<Rightarrow> string \<Rightarrow> bytes \<Rightarrow> aegis_world \<Rightarrow> aegis_world" where
  "store_block P url d w = (case pl_urlHash P url of None \<Rightarrow> w | Some h \<Rightarrow> w\<lparr>aw_blobs := (aw_blobs w)(h \<mapsto> d)\<rparr>)"

definition edge_put :: "plant \<Rightarrow> string \<Rightarrow> bytes \<Rightarrow> aegis_world \<Rightarrow> (go_error + nat) \<times> aegis_world" where
  "edge_put P url d w =
     (let w1 = w\<lparr>aw_puts := Suc (aw_puts w)\<rparr>
      in case pl_put P (aw_puts w) of
           PutStatus st \<Rightarrow> (Inr st, if st < 300 then store_block P url d w1 else w1)
         | PutBroken stored e \<Rightarrow> (Inl e, if stored then store_block P url d w1 else w1))"

definition plant_wire :: "plant \<Rightarrow> aegis_world wire" where
  "plant_wire P =
     \<lparr>wi_open = (\<lambda>path w. (case aw_files w path of None \<Rightarrow> Inl (errorf ''no such file'') | Some c \<Rightarrow> Inr c, w)),
      wi_post = (\<lambda>url hs body w. serve P hs body w), wi_badURL = pl_badURL P, wi_put = edge_put P\<rparr>"

section \<open>The chunks of a file\<close>

definition chunk_bytes :: "bytes \<Rightarrow> Chunk \<Rightarrow> bytes" where
  "chunk_bytes content ch = take (Size ch) (drop (nat (Offset ch)) content)"

definition default_max :: int where
  "default_max = cfg_MaxChunk DefaultConfig"

lemma chunk_file_total:
  "\<exists>chs. chunk_file content = Some (Inr (chs, None)) \<and> tiles Sum256 default_max 0 content chs []"
  using bytes_reader.ChunkAll_tiles [OF wf_config_Default, of Sum256 "\<lparr>br_data = content, br_pos = 0\<rparr>"]
  by (auto simp: chunk_file_def New_def default_max_def)

lemma tiles_bytes:
  assumes "tiles Sum256 mx (int (length pre)) rest chs []"
  shows "map (chunk_bytes (pre @ rest)) chs = chunk_contents rest chs"
    and "ch \<in> set chs \<Longrightarrow> 0 \<le> Offset ch \<and> chunk_bytes (pre @ rest) ch \<noteq> [] \<and> HashHex ch = EncodeToString (Sum256 (chunk_bytes (pre @ rest) ch))"
proof -
  have "map (chunk_bytes (pre @ rest)) chs = chunk_contents rest chs \<and>
      (\<forall>ch \<in> set chs. 0 \<le> Offset ch \<and> chunk_bytes (pre @ rest) ch \<noteq> [] \<and> HashHex ch = EncodeToString (Sum256 (chunk_bytes (pre @ rest) ch)))"
    using assms
  proof (induction chs arbitrary: pre rest)
    case (Cons c chs)
    have "tiles Sum256 mx (int (length (pre @ take (Size c) rest))) (drop (Size c) rest) chs []"
      using Cons.prems by (simp add: min_absorb2)
    from Cons.IH [OF this] Cons.prems show ?case
      by (auto simp: chunk_bytes_def)
  qed simp
  then show "map (chunk_bytes (pre @ rest)) chs = chunk_contents rest chs"
    and "ch \<in> set chs \<Longrightarrow> 0 \<le> Offset ch \<and> chunk_bytes (pre @ rest) ch \<noteq> [] \<and> HashHex ch = EncodeToString (Sum256 (chunk_bytes (pre @ rest) ch))"
    by blast+
qed

text \<open>The chunks of a file, read back at their offsets, are the file, and each is named by its hash.\<close>

definition chunks_of :: "bytes \<Rightarrow> Chunk list \<Rightarrow> bool" where
  "chunks_of content chs \<longleftrightarrow> concat (map (chunk_bytes content) chs) = content \<and>
     (\<forall>ch \<in> set chs. 0 \<le> Offset ch \<and> chunk_bytes content ch \<noteq> [] \<and> HashHex ch = EncodeToString (Sum256 (chunk_bytes content ch)))"

lemma chunk_file_chunks: "\<exists>chs. chunk_file content = Some (Inr (chs, None)) \<and> chunks_of content chs"
proof -
  obtain chs where chs: "chunk_file content = Some (Inr (chs, None))" and t: "tiles Sum256 default_max 0 content chs []"
    using chunk_file_total by blast
  have "tiles Sum256 default_max (int (length [])) content chs []"
    using t by simp
  from tiles_bytes [OF this] tiles_concat [OF t] chs show ?thesis
    by (auto simp: chunks_of_def)
qed

text \<open>An upload always comes back.\<close>

lemma UploadFile_finishes: "\<exists>r. UploadFile R c opts s = Finished r"
proof (cases "wi_open (su_wire R) (uo_FilePath opts) s")
  case (Pair r s1)
  show ?thesis
  proof (cases r)
    case (Inl e)
    then show ?thesis
      by (simp add: UploadFile_def Pair)
  next
    case (Inr content)
    obtain chs where "chunk_file content = Some (Inr (chs, None))"
      using chunk_file_chunks by blast
    then show ?thesis
      by (simp add: UploadFile_def Pair Inr)
  qed
qed

section \<open>Puts\<close>

definition blobs_intact :: "aegis_world \<Rightarrow> bool" where
  "blobs_intact w \<longleftrightarrow> (\<forall>h d. aw_blobs w h = Some d \<longrightarrow> h = EncodeToString (Sum256 d))"

text \<open>What puts may do to the world: add blocks under their own hash.\<close>

definition puts_only :: "aegis_world \<Rightarrow> aegis_world \<Rightarrow> bool" where
  "puts_only w w' \<longleftrightarrow> aw_db w' = aw_db w \<and> aw_files w' = aw_files w \<and> aw_requests w' = aw_requests w \<and>
     dom (aw_blobs w) \<subseteq> dom (aw_blobs w') \<and> (blobs_intact w \<longrightarrow> blobs_intact w')"

lemma puts_only_refl [simp]: "puts_only w w"
  by (simp add: puts_only_def)

lemma puts_only_trans: "puts_only w w1 \<Longrightarrow> puts_only w1 w2 \<Longrightarrow> puts_only w w2"
  unfolding puts_only_def by (elim conjE, intro conjI) (auto simp del: domIff)

lemma puts_only_dom: "puts_only w w' \<Longrightarrow> h \<in> dom (aw_blobs w) \<Longrightarrow> h \<in> dom (aw_blobs w')"
  unfolding puts_only_def by blast

lemma edge_put_puts:
  assumes "edge_put P url d w = (r, w')" and "pl_urlHash P url = Some (EncodeToString (Sum256 d))"
  shows "puts_only w w'" and "r = Inr st \<Longrightarrow> st < 300 \<Longrightarrow> EncodeToString (Sum256 d) \<in> dom (aw_blobs w')"
  using assms by (auto simp: edge_put_def store_block_def puts_only_def blobs_intact_def Let_def split: put_outcome.splits if_splits)

lemma putChunk_puts:
  assumes "putChunk (plant_wire P) url d w = (r, w')" and "pl_urlHash P url = Some (EncodeToString (Sum256 d))"
  shows "puts_only w w'" and "r = None \<Longrightarrow> EncodeToString (Sum256 d) \<in> dom (aw_blobs w')"
proof -
  obtain r0 w0 where put: "edge_put P url d w = (r0, w0)"
    by fastforce
  show "puts_only w w'"
    using assms(1) put edge_put_puts(1) [OF put assms(2)]
    by (auto simp: putChunk_def plant_wire_def split: option.splits sum.splits if_splits)
  show "r = None \<Longrightarrow> EncodeToString (Sum256 d) \<in> dom (aw_blobs w')"
    using assms(1) put edge_put_puts(2) [OF put assms(2)]
    by (auto simp: putChunk_def plant_wire_def split: option.splits sum.splits if_splits)
qed

lemma put_loop_puts:
  assumes "put_loop (plant_wire P) cancelled ctxErr url d n a l w = (r, w')"
    and "pl_urlHash P url = Some (EncodeToString (Sum256 d))"
  shows "puts_only w w' \<and> (r = None \<longrightarrow> EncodeToString (Sum256 d) \<in> dom (aw_blobs w'))"
  using assms(1)
proof (induction n arbitrary: a l w)
  case (Suc n)
  obtain r0 w0 where put: "putChunk (plant_wire P) url d w = (r0, w0)"
    by fastforce
  note puts = putChunk_puts [OF put assms(2)]
  show ?case
  proof (cases "r0 = None \<or> \<not> isTransientError (the r0) \<or> cancelled a")
    case True
    then show ?thesis
      using Suc.prems put puts by (auto split: option.splits if_splits)
  next
    case False
    then have "put_loop (plant_wire P) cancelled ctxErr url d n (Suc a) r0 w0 = (r, w')"
      using Suc.prems put by (auto split: option.splits)
    from Suc.IH [OF this] show ?thesis
      using puts(1) puts_only_trans by blast
  qed
qed auto

definition item_ok :: "plant \<Rightarrow> bytes \<Rightarrow> Chunk \<times> UploadURL \<Rightarrow> bool" where
  "item_ok P content item \<longleftrightarrow> 0 \<le> Offset (fst item) \<and>
     HashHex (fst item) = EncodeToString (Sum256 (chunk_bytes content (fst item))) \<and>
     pl_urlHash P (uu_URL (snd item)) = Some (HashHex (fst item))"

lemma upload_item_puts:
  assumes "upload_item (plant_wire P) cancelled ctxErr content item w = (r, w')" and "item_ok P content item"
  shows "puts_only w w' \<and> (r = None \<longrightarrow> HashHex (fst item) \<in> dom (aw_blobs w'))"
proof -
  obtain r0 w0 where up: "uploadChunkWithRetry (plant_wire P) cancelled ctxErr (uu_URL (snd item)) (chunk_bytes content (fst item)) w = (r0, w0)"
    by fastforce
  have "w' = w0" "r = None \<longleftrightarrow> r0 = None"
    using assms up by (auto simp: upload_item_def item_ok_def readChunkFromFile_def chunk_bytes_def [symmetric] Let_def split: option.splits)
  then show ?thesis
    using put_loop_puts [OF up [unfolded uploadChunkWithRetry_def]] assms(2) by (simp add: item_ok_def)
qed

lemma upload_items_puts:
  assumes "upload_items (plant_wire P) cancelled ctxErr content items w = (r, w')" and "\<forall>item \<in> set items. item_ok P content item"
  shows "puts_only w w' \<and> (\<forall>n. r = Inr n \<longrightarrow> (\<forall>item \<in> set items. HashHex (fst item) \<in> dom (aw_blobs w')))"
  using assms
proof (induction items arbitrary: r w)
  case (Cons item items)
  obtain r1 w1 where one: "upload_item (plant_wire P) cancelled ctxErr content item w = (r1, w1)"
    by fastforce
  obtain r2 where rest: "upload_items (plant_wire P) cancelled ctxErr content items w1 = (r2, w')"
      and r: "r = (case r1 of Some e \<Rightarrow> Inl e | None \<Rightarrow> bindE r2 (\<lambda>n. Inr (int (Size (fst item)) + n)))"
    using Cons.prems(1) one by (auto split: prod.splits option.splits)
  note first = upload_item_puts [OF one] and others = Cons.IH [OF rest]
  have item: "item_ok P content item" and items: "\<forall>item \<in> set items. item_ok P content item"
    using Cons.prems(2) by simp_all
  have keep: "puts_only w1 w'"
    using others items by blast
  have "HashHex (fst item) \<in> dom (aw_blobs w')" if "r1 = None"
    using first [OF item] puts_only_dom [OF keep] that by blast
  moreover have "r1 = None \<and> (\<exists>m. r2 = Inr m)" if "r = Inr n" for n
    using that r by (cases r1; cases r2) auto
  ultimately show ?case
    using puts_only_trans keep first [OF item] others items by fastforce
qed simp

section \<open>Requests to the server\<close>

lemma initiateUpload_plant:
  assumes "initiateUpload (plant_wire P) c req w = (Inr resp, w')"
  shows "handleInitiate (pl_U P) (pl_server P (aw_requests w)) (Some req) '''' ''ip'' ''ua'' (aw_db w) = (Inr resp, aw_db w')"
    and "aw_blobs w' = aw_blobs w" and "aw_files w' = aw_files w"
  using assms
  by (auto simp: initiateUpload_def doJSON_def plant_wire_def serve_def Ingress.wrap_def reply_of_def Let_def
      split: option.splits prod.splits sum.splits if_splits api_reply.splits)

lemma commitUpload_plant:
  assumes "commitUpload (plant_wire P) c req w = (Inr resp, w')"
  shows "\<exists>events. handleCommit (pl_U P) (pl_server P (aw_requests w)) (pl_now P (aw_requests w)) (pl_eventID P (aw_requests w))
      (Some req) (aw_db w) = ((Inr resp, events), aw_db w')"
    and "aw_blobs w' = aw_blobs w" and "aw_files w' = aw_files w"
  using assms
  by (auto simp: commitUpload_def doJSON_def plant_wire_def serve_def Ingress.wrap_def reply_of_def Let_def
      split: option.splits prod.splits sum.splits if_splits api_reply.splits)

lemma urlMap_mem: "urlMap us h = Some u \<Longrightarrow> u \<in> set us \<and> uu_BlockHash u = h"
  by (auto simp: urlMap_def dest!: map_of_SomeD)

lemma urlMap_None: "urlMap us h = None \<longleftrightarrow> h \<notin> uu_BlockHash ` set us"
  by (auto simp: urlMap_def map_of_eq_None_iff image_image)

lemma work_items_mem: "(ch, u) \<in> set (work_items m chs) \<longleftrightarrow> ch \<in> set chs \<and> m (HashHex ch) = Some u"
  by (induction chs) (auto simp: work_items_def List.map_filter_def)

lemma mint_urls_minted:
  "mint_urls mint existing cs = Inr us \<Longrightarrow> u \<in> set us \<Longrightarrow> \<exists>n. mint (uu_BlockHash u) n = Some (uu_URL u)"
  by (induction cs arbitrary: us) (fastforce simp: bindE_Inr split: if_splits option.splits)+

text \<open>What the surroundings promise: every request meets the production store, and the URL minted for a block leads the edge to
  that block.\<close>

definition plant_ok :: "plant \<Rightarrow> bool" where
  "plant_ok P \<longleftrightarrow> (\<forall>n. \<exists>E. srv_store (pl_server P n) = PgStore (pl_U P) E) \<and>
     (\<forall>n tenant h size url. minter (pl_server P n) tenant h size = Some url \<longrightarrow> pl_urlHash P url = Some h)"

definition blocks_stored :: "aegis_world \<Rightarrow> bool" where
  "blocks_stored w \<longleftrightarrow> (\<forall>b \<in> set (cas_rows (aw_db w)). EncodeToString (cb_hash b) \<in> dom (aw_blobs w))"

lemma initiate_urls:
  assumes "handleInitiate (pl_U P) (pl_server P n) (Some req) ff ra ua d = (Inr resp, d')" and "plant_ok P"
    and "u \<in> set (ip_UploadURLs resp)"
  shows "pl_urlHash P (uu_URL u) = Some (uu_BlockHash u)"
  using assms(1)
proof (rule handleInitiate_Inr, goal_cases)
  case (1 req' tenant quota node st1 hashes existing sid exp)
  then show ?case
    using mint_urls_minted [OF 1(9) assms(3)] assms(2) unfolding plant_ok_def by blast
qed

lemma initiate_covers:
  assumes "handleInitiate (pl_U P) (pl_server P n) (Some req) ff ra ua d = (Inr resp, d')" and "plant_ok P"
    and "c \<in> set (ir_Chunks req)" and "ci_BlockHash c \<notin> uu_BlockHash ` set (ip_UploadURLs resp)"
  shows "\<exists>b \<in> set (cas_rows d). EncodeToString (cb_hash b) = ci_BlockHash c"
proof -
  obtain E where "srv_store (pl_server P n) = PgStore (pl_U P) E"
    using assms(2) unfolding plant_ok_def by blast
  from handleInitiate_effect [OF assms(1) this]
  have "map (\<lambda>u. (uu_BlockHash u, uu_SizeBytes u)) (ip_UploadURLs resp) =
      map (\<lambda>c. (ci_BlockHash c, ci_SizeBytes c)) (filter (\<lambda>c. \<not> known_block d c) (ir_Chunks req))"
    by auto
  then have "set (map (fst \<circ> (\<lambda>u. (uu_BlockHash u, uu_SizeBytes u))) (ip_UploadURLs resp)) =
      set (map (fst \<circ> (\<lambda>c. (ci_BlockHash c, ci_SizeBytes c))) (filter (\<lambda>c. \<not> known_block d c) (ir_Chunks req)))"
    by (metis map_map)
  then have "uu_BlockHash ` set (ip_UploadURLs resp) = ci_BlockHash ` {c \<in> set (ir_Chunks req). \<not> known_block d c}"
    by (simp add: comp_def)
  then have "known_block d c"
    using assms(3,4) by blast
  then show ?thesis
    using EncodeToString_DecodeString unfolding known_block_def by fastforce
qed

section \<open>Reading a version back\<close>

text \<open>The content of a version: the stored blocks of its manifest rows, in order.\<close>

fun read_back :: "(string \<Rightarrow> bytes option) \<Rightarrow> manifest_row list \<Rightarrow> bytes option" where
  "read_back blobs [] = Some []"
| "read_back blobs (m # ms) =
     (case blobs (EncodeToString (mf_hash m)) of
        None \<Rightarrow> None
      | Some d \<Rightarrow> map_option (\<lambda>r. d @ r) (read_back blobs ms))"

text \<open>No stored block collides with a non-empty piece of the file.\<close>

definition collision_free :: "aegis_world \<Rightarrow> bytes \<Rightarrow> bool" where
  "collision_free w content \<longleftrightarrow>
     (\<forall>d \<in> ran (aw_blobs w). \<forall>m n. take n (drop m content) \<noteq> [] \<longrightarrow> Sum256 d = Sum256 (take n (drop m content)) \<longrightarrow>
        d = take n (drop m content))"

lemma intact_content:
  assumes "blobs_intact w" and "collision_free w content" and "aw_blobs w (EncodeToString (Sum256 (chunk_bytes content ch))) = Some d"
    and "chunk_bytes content ch \<noteq> []"
  shows "d = chunk_bytes content ch"
proof -
  have "EncodeToString (Sum256 (chunk_bytes content ch)) = EncodeToString (Sum256 d)"
    using assms(1,3) unfolding blobs_intact_def by blast
  then have "Sum256 d = Sum256 (chunk_bytes content ch)"
    by (metis DecodeString_EncodeToString option.inject)
  then show ?thesis
    using assms(2-4) unfolding collision_free_def chunk_bytes_def by (blast intro: ranI)
qed

lemma read_back_chunks:
  assumes "blobs_intact w" and "collision_free w content"
    and "\<forall>ch \<in> set chs. HashHex ch = EncodeToString (Sum256 (chunk_bytes content ch)) \<and> HashHex ch \<in> dom (aw_blobs w) \<and> chunk_bytes content ch \<noteq> []"
    and "map mf_hash rows = map (\<lambda>ch. Sum256 (chunk_bytes content ch)) chs"
  shows "read_back (aw_blobs w) rows = Some (concat (map (chunk_bytes content) chs))"
  using assms(3,4)
proof (induction chs arbitrary: rows)
  case (Cons ch chs)
  obtain m ms where rows: "rows = m # ms"
    using Cons.prems(2) by auto
  obtain d where d: "aw_blobs w (EncodeToString (Sum256 (chunk_bytes content ch))) = Some d"
    using Cons.prems(1) by auto
  have "read_back (aw_blobs w) ms = Some (concat (map (chunk_bytes content) chs))"
    using Cons.prems by (intro Cons.IH) (auto simp: rows)
  then show ?case
    using Cons.prems d intact_content [OF assms(1,2) d] by (simp add: rows)
qed simp

lemma manifest_hashes:
  assumes "map (\<lambda>b. MustDecodeHash (bm_BlockHash b)) (buildBlockMetas chs) = map Some hashes"
    and "\<forall>ch \<in> set chs. HashHex ch = EncodeToString (Sum256 (chunk_bytes content ch))"
  shows "map mf_hash (manifest_of v (zip hashes (buildBlockMetas chs))) = map (\<lambda>ch. Sum256 (chunk_bytes content ch)) chs"
    and "map mf_index (manifest_of v (zip hashes (buildBlockMetas chs))) = map int [0..<length chs]"
proof -
  have len: "length hashes = length (buildBlockMetas chs)"
    using assms(1) by (metis length_map)
  have blocks: "map bm_BlockHash (buildBlockMetas chs) = map HashHex chs"
    by (rule nth_equalityI) (simp_all add: buildBlockMetas_def nth_enumerate_eq)
  have "map Some hashes = map MustDecodeHash (map bm_BlockHash (buildBlockMetas chs))"
    using assms(1) by (simp add: comp_def)
  also have "\<dots> = map Some (map (\<lambda>ch. Sum256 (chunk_bytes content ch)) chs)"
    using assms(2) by (simp add: blocks MustDecodeHash_def)
  finally have "hashes = map (\<lambda>ch. Sum256 (chunk_bytes content ch)) chs"
    by (metis inj_Some inj_map_eq_map)
  moreover have "map mf_hash (manifest_of v (zip hashes bs)) = hashes" if "length hashes = length bs" for bs
    using that by (induction hashes bs rule: list_induct2) (simp_all add: manifest_of_def)
  ultimately show "map mf_hash (manifest_of v (zip hashes (buildBlockMetas chs))) = map (\<lambda>ch. Sum256 (chunk_bytes content ch)) chs"
    using len by simp
  show "map mf_index (manifest_of v (zip hashes (buildBlockMetas chs))) = map int [0..<length chs]"
    using len by (intro nth_equalityI) (simp_all add: manifest_of_def buildBlockMetas_def nth_enumerate_eq)
qed

text \<open>After the upload of the missing chunks every chunk's block is stored.\<close>

lemma upload_missing_stores:
  assumes "upload_missing R opts chs urls sz w = (Inr stats, w')" and "su_wire R = plant_wire P"
    and "\<forall>xs. set (su_completion R xs) = set xs" and "aw_files w (uo_FilePath opts) = Some content" and "chunks_of content chs"
    and "\<forall>u \<in> set urls. pl_urlHash P (uu_URL u) = Some (uu_BlockHash u)"
  shows "puts_only w w'" and "ch \<in> set chs \<Longrightarrow> HashHex ch \<in> uu_BlockHash ` set urls \<Longrightarrow> HashHex ch \<in> dom (aw_blobs w')"
proof -
  let ?items = "su_completion R (work_items (urlMap urls) chs)"
  have ok: "\<forall>item \<in> set ?items. item_ok P content item"
  proof
    fix item
    assume "item \<in> set ?items"
    then obtain ch u where item: "item = (ch, u)" "ch \<in> set chs" "urlMap urls (HashHex ch) = Some u"
      using assms(3) work_items_mem by (metis surj_pair)
    then show "item_ok P content item"
      using urlMap_mem [OF item(3)] assms(5,6) by (auto simp: item_ok_def chunks_of_def)
  qed
  have run: "urls = [] \<and> w' = w \<or>
      (\<exists>n. upload_items (plant_wire P) (su_cancelled R) (su_ctxErr R) content ?items w = (Inr n, w'))"
    using assms(1,2,4)
    by (auto simp: upload_missing_def uploadChunksParallel_def plant_wire_def split: if_splits prod.splits sum.splits)
  then show "puts_only w w'"
    using upload_items_puts [OF _ ok] by fastforce
  assume ch: "ch \<in> set chs" "HashHex ch \<in> uu_BlockHash ` set urls"
  then obtain u where "urlMap urls (HashHex ch) = Some u"
    using urlMap_None by (metis not_None_eq)
  then have "(ch, u) \<in> set ?items"
    using ch assms(3) work_items_mem by metis
  then show "HashHex ch \<in> dom (aw_blobs w')"
    using run ch upload_items_puts [OF _ ok] by fastforce
qed

lemma upload_chunks_of_Inr:
  assumes "upload_chunks_of R c opts n chs w = (Inr res, w')"
  shows "\<exists>req mt initResp w1 stats w2. ir_Chunks req = chunk_infos chs \<and> initiateUpload (su_wire R) c req w = (Inr initResp, w1) \<and>
    upload_missing R opts chs (ip_UploadURLs initResp) n w1 = (Inr stats, w2) \<and>
    hash_and_commit R c opts chs initResp mt stats w2 = (Inr res, w')"
proof -
  let ?req = "\<lparr>ir_TenantID = cl_tenantID c, ir_FileName = Base (uo_FilePath opts), ir_ParentID = uo_ParentID opts,
    ir_NodeID = uo_NodeID opts, ir_TotalSize = n, ir_Chunks = chunk_infos chs\<rparr>"
  obtain initResp w1 where init: "initiateUpload (su_wire R) c ?req w = (Inr initResp, w1)"
    using assms by (auto simp: upload_chunks_of_def Let_def split: prod.splits sum.splits)
  obtain stats w2 where up: "upload_missing R opts chs (ip_UploadURLs initResp) n w1 = (Inr stats, w2)"
    using assms init by (auto simp: upload_chunks_of_def Let_def split: prod.splits sum.splits)
  show ?thesis
    using assms init up by (intro exI [of _ ?req] exI) (auto simp: upload_chunks_of_def Let_def)
qed

section \<open>Properties\<close>

text \<open>C2. An upload that reports success has stored the file: against the ingestion server and an edge, with puts that fail, break or
  are retried and complete in any order, and with any part of the file already stored, the upload adds manifest rows of one
  version, the one it reports, numbered from zero; the version's hash is that of the file; and the stored blocks of
  those rows, put together, are the file, provided no stored block collides with a piece of it.\<close>

theorem upload_stores_file:
  assumes "su_wire R = plant_wire P" and "plant_ok P" and "\<forall>xs. set (su_completion R xs) = set xs"
    and "aw_files w (uo_FilePath opts) = Some content" and "blobs_intact w" and "blocks_stored w"
    and "UploadFile R c opts w = Finished (Inr res, w')" and "collision_free w' content"
  shows "\<exists>v rows row. ur_VersionID res = u_str (pl_U P) v \<and> manifest_rows (aw_db w') = manifest_rows (aw_db w) @ rows \<and>
    (\<forall>m \<in> set rows. mf_version m = v) \<and> map mf_index rows = map int [0..<length rows] \<and>
    version_rows (aw_db w') = version_rows (aw_db w) @ [row] \<and> fv_id row = v \<and> fv_sha row = Sum256 content \<and>
    read_back (aw_blobs w') rows = Some content"
proof -
  obtain chs where cut: "chunk_file content = Some (Inr (chs, None))" and chs: "chunks_of content chs"
    using chunk_file_chunks by blast
  have run: "upload_chunks_of R c opts (int (length content)) chs w = (Inr res, w')"
    using assms(1,4,7) cut by (auto simp: UploadFile_def plant_wire_def split: if_splits)
  from upload_chunks_of_Inr [OF run, unfolded assms(1)]
  obtain req mt initResp w1 stats w2 where req: "ir_Chunks req = chunk_infos chs"
      and init: "initiateUpload (plant_wire P) c req w = (Inr initResp, w1)"
      and up: "upload_missing R opts chs (ip_UploadURLs initResp) (int (length content)) w1 = (Inr stats, w2)"
      and fin: "hash_and_commit R c opts chs initResp mt stats w2 = (Inr res, w')"
    by blast
  note init' = initiateUpload_plant [OF init]
  obtain E1 where E1: "srv_store (pl_server P (aw_requests w)) = PgStore (pl_U P) E1"
    using assms(2) unfolding plant_ok_def by blast
  have same: "same_content (aw_db w) (aw_db w1)"
    using handleInitiate_effect [OF init'(1) E1] by blast
  have urls: "\<forall>u \<in> set (ip_UploadURLs initResp). pl_urlHash P (uu_URL u) = Some (uu_BlockHash u)"
    using initiate_urls [OF init'(1) assms(2)] by blast
  have file1: "aw_files w1 (uo_FilePath opts) = Some content"
    using init'(3) assms(4) by simp
  note puts = upload_missing_stores [OF up assms(1,3) file1 chs urls]
  have stored: "HashHex ch \<in> dom (aw_blobs w2)" if "ch \<in> set chs" for ch
  proof (cases "HashHex ch \<in> uu_BlockHash ` set (ip_UploadURLs initResp)")
    case True
    then show ?thesis
      using puts(2) that by blast
  next
    case False
    then have "\<exists>b \<in> set (cas_rows (aw_db w)). EncodeToString (cb_hash b) = HashHex ch"
      using initiate_covers [OF init'(1) assms(2), of "\<lparr>ci_BlockHash = HashHex ch, ci_SizeBytes = int (Size ch)\<rparr>"] that
      by (auto simp: req chunk_infos_def)
    then obtain b where "b \<in> set (cas_rows (aw_db w))" and b: "EncodeToString (cb_hash b) = HashHex ch"
      by blast
    then have "EncodeToString (cb_hash b) \<in> dom (aw_blobs w)"
      using assms(6) unfolding blocks_stored_def by blast
    then have "HashHex ch \<in> dom (aw_blobs w1)"
      unfolding b init'(2) .
    then show ?thesis
      by (rule puts_only_dom [OF puts(1)])
  qed
  have "blobs_intact w1"
    using assms(5) init'(2) by (simp only: blobs_intact_def)
  then have db2: "aw_db w2 = aw_db w1" "aw_files w2 (uo_FilePath opts) = Some content" "blobs_intact w2"
    using puts(1) file1 by (simp_all add: puts_only_def)
  obtain resp where commit: "commitUpload (plant_wire P) c \<lparr>cr_SessionID = ip_SessionID initResp, cr_ContentSHA256 = ComputeFileSHA256 content,
        cr_MimeType = mt, cr_Blocks = buildBlockMetas chs\<rparr> w2 = (Inr resp, w')" and res: "ur_VersionID res = cp_VersionID resp"
    using fin db2(2) assms(1) by (auto simp: hash_and_commit_def plant_wire_def split: prod.splits sum.splits)
  note commit' = commitUpload_plant [OF commit]
  obtain E2 where E2: "srv_store (pl_server P (aw_requests w2)) = PgStore (pl_U P) E2"
    using assms(2) unfolding plant_ok_def by blast
  obtain events where hc: "handleCommit (pl_U P) (pl_server P (aw_requests w2)) (pl_now P (aw_requests w2)) (pl_eventID P (aw_requests w2))
      (Some \<lparr>cr_SessionID = ip_SessionID initResp, cr_ContentSHA256 = ComputeFileSHA256 content, cr_MimeType = mt,
        cr_Blocks = buildBlockMetas chs\<rparr>) (aw_db w2) = ((Inr resp, events), aw_db w')"
    using commit'(1) by blast
  have named: "\<forall>ch \<in> set chs. HashHex ch = EncodeToString (Sum256 (chunk_bytes content ch))"
    using chs by (simp add: chunks_of_def)
  have w': "blobs_intact w'" "\<And>ch. ch \<in> set chs \<Longrightarrow> HashHex ch \<in> dom (aw_blobs w')"
    using db2(3) stored commit'(2) by (simp_all only: blobs_intact_def)
  from hc E2 show ?thesis
  proof (rule handleCommit_effect, goal_cases)
    case (1 sha session tenant v hashes row)
    let ?rows = "manifest_of v (zip hashes (buildBlockMetas chs))"
    have "map (\<lambda>b. MustDecodeHash (bm_BlockHash b)) (buildBlockMetas chs) = map Some hashes"
      using 1(4) by simp
    note mh = manifest_hashes [OF this named, of v]
    have "read_back (aw_blobs w') ?rows = Some content"
      using read_back_chunks [OF w'(1) assms(8) _ mh(1)] named w'(2) chs by (simp add: chunks_of_def)
    moreover have "sha = Sum256 content"
      using 1(1) by (simp add: ComputeFileSHA256_def)
    moreover have "length ?rows = length chs"
      using mh(1) by (metis length_map)
    ultimately show ?case
      using 1 mh(2) res same db2(1)
      by (intro exI [of _ v] exI [of _ ?rows] exI [of _ row]) (auto simp: same_content_def manifest_of_def)
  qed
qed

text \<open>A session that was saved is loaded again unchanged, and a failed save is reported. The file system hands back what was written
  to a fresh file, and the codec reads what it wrote.\<close>

lemma saved_session_loads:
  assumes "\<And>w w1 w2 b p. dk_create D p w = (None, w1) \<Longrightarrow> dk_write D p b w1 = (None, w2) \<Longrightarrow> fst (dk_open D p w2) = Inr b"
    and "\<And>st b. enc st = Inr b \<Longrightarrow> dec b = Inr st"
    and "SaveSession D enc state path w = (None, w')"
  shows "fst (LoadSession D dec path w') = Inr state"
proof -
  obtain w1 w2 b where w: "dk_create D path w1 = (None, w2)" "enc state = Inr b" "dk_write D path b w2 = (None, w')"
    using assms(3) by (auto simp: SaveSession_def split: prod.splits option.splits sum.splits)
  then have "fst (dk_open D path w') = Inr b" and "dec b = Inr state"
    using assms(1,2) by blast+
  then show ?thesis
    by (auto simp: LoadSession_def split: prod.splits)
qed

text \<open>A resumed upload with a chunk still missing never succeeds: its commit carries an empty content hash, which the server
  refuses as malformed.\<close>

theorem resume_never_commits:
  assumes "su_wire R = plant_wire P" and "aw_files w (ss_FilePath state) = Some content"
    and "chunk_file content = Some (Inr (chs, None))" and "missing_chunks state chs \<noteq> []"
    and "ResumeUpload R c state opts w = Finished (r, state', w')"
  shows "\<exists>e. r = Inl e"
proof -
  have refused: "\<exists>e d'. commitUpload (plant_wire P) c \<lparr>cr_SessionID = sid, cr_ContentSHA256 = '''', cr_MimeType = mt, cr_Blocks = bs\<rparr> w2 = (Inl e, d')"
    for sid mt bs w2
  proof -
    obtain e where "CommitRequest_Validate \<lparr>cr_SessionID = sid, cr_ContentSHA256 = '''', cr_MimeType = mt, cr_Blocks = bs\<rparr> = Some e"
      by (auto simp: CommitRequest_Validate_def)
    then show ?thesis
      by (auto simp: commitUpload_def doJSON_def plant_wire_def serve_def Ingress.wrap_def reply_of_def handleCommit_def Let_def
          split: option.splits)
  qed
  have "\<exists>e st' w'. resume_missing R c state opts chs (missing_chunks state chs) initResp w1 = (Inl e, st', w')" for initResp w1
  proof (cases "wi_open (plant_wire P) (ss_FilePath state) w1")
    case (Pair r1 w2)
    then show ?thesis
      using refused
      by (auto simp: resume_missing_def assms(1) Let_def split: prod.splits sum.splits) (metis sum.distinct(1) prod.inject)+
  qed
  then show ?thesis
    using assms by (auto simp: ResumeUpload_def plant_wire_def Let_def split: prod.splits sum.splits if_splits) (metis prod.inject)
qed

subsection \<open>A worked upload\<close>

lemma tiles_single:
  assumes "tiles sha mx 0 [x] chs []"
  shows "chs = [\<lparr>HashHex = EncodeToString (sha [x]), Offset = 0, Size = 1\<rparr>]"
proof -
  obtain ch chs' where chs: "chs = ch # chs'"
    using assms by (cases chs) auto
  then have ch: "Size ch = 1" "Offset ch = 0" "HashHex ch = EncodeToString (sha [x])"
    using assms by auto
  then have "chs' = []"
    using assms chs by (cases chs') auto
  moreover have "ch = \<lparr>HashHex = EncodeToString (sha [x]), Offset = 0, Size = 1\<rparr>"
    using ch by (cases ch) simp
  ultimately show ?thesis
    by (simp add: chs)
qed

definition byte_hash :: bytes where
  "byte_hash = Sum256 [1]"

lemma byte_hash_length [simp]: "length byte_hash = 32"
  by (simp add: byte_hash_def)

lemma chunk_file_byte: "chunk_file [1] = Some (Inr ([\<lparr>HashHex = EncodeToString byte_hash, Offset = 0, Size = 1\<rparr>], None))"
  using chunk_file_total [of "[1]"] tiles_single [of Sum256 default_max 1] by (auto simp: byte_hash_def)

definition byte_session :: session_row where
  "byte_session = \<lparr>us_id = [77], us_tenant = [1], us_node = Some [8], us_status = ''INITIATED'', us_total = 1,
     us_expected = 1, us_received = 0, us_expires = 100, us_completed = False\<rparr>"

definition byte_tables :: db where
  "byte_tables = demo_tables\<lparr>session_rows := [demo_session, byte_session]\<rparr>"

definition byte_request :: InitiateRequest where
  "byte_request = \<lparr>ir_TenantID = EncodeToString [1], ir_FileName = ''f'', ir_ParentID = None,
     ir_NodeID = Some (EncodeToString [8]), ir_TotalSize = 1,
     ir_Chunks = [\<lparr>ci_BlockHash = EncodeToString byte_hash, ci_SizeBytes = 1\<rparr>]\<rparr>"

definition byte_response :: InitiateResponse where
  "byte_response = \<lparr>ip_SessionID = EncodeToString [77], ip_NodeID = EncodeToString [8], ip_ExpiresAt = 100,
     ip_UploadURLs = [\<lparr>uu_BlockHash = EncodeToString byte_hash, uu_URL = EncodeToString byte_hash, uu_SizeBytes = 1\<rparr>]\<rparr>"

lemma byte_initiate:
  "handleInitiate demo_U (demo_server (PgStore demo_U demo_env)) (Some byte_request) '''' ''ip'' ''ua'' demo_tables = (Inr byte_response, byte_tables)"
proof -
  have "EncodeToString [1] \<noteq> ''''"
    by (simp add: hextable_def)
  then have valid: "InitiateRequest_Validate byte_request = None"
    by (simp add: InitiateRequest_Validate_def byte_request_def del: EncodeToString.simps)
  have "u_parse demo_U (ir_TenantID byte_request) = Some [1]" "ir_NodeID byte_request = Some (EncodeToString [8])"
    "ir_TotalSize byte_request = 1"
    "ir_Chunks byte_request = [\<lparr>ci_BlockHash = EncodeToString byte_hash, ci_SizeBytes = 1\<rparr>]"
    by (simp_all add: byte_request_def del: EncodeToString.simps)
  moreover have "Pg_GetTenantQuota demo_env [1] demo_tables = Inr \<lparr>StorageQuotaBytes = 0, UsedBytes = 0\<rparr>"
    "Pg_ValidateFileNode demo_env [1] [8] demo_tables = None"
    "Pg_BatchQueryExistingCAS demo_env [byte_hash] demo_tables = Inr (\<lambda>k. False)"
    by (simp_all add: Pg_GetTenantQuota_def Pg_ValidateFileNode_def Pg_BatchQueryExistingCAS_def demo_env_def demo_tables_def)
  moreover have "Pg_CreateUploadSession demo_env [1] [8] 1 1 ''ip'' ''ua'' demo_tables = (Inr ([77], 100), byte_tables)"
    by (simp add: Pg_CreateUploadSession_def in_tx_def bindE_def exec_def insert_session_def demo_env_def
        demo_tables_def is_int32_def demo_session_def byte_tables_def byte_session_def)
  ultimately show ?thesis
    by (simp add: handleInitiate_def valid PgStore_def quota_exceeded_def resolve_node_def MustDecodeHash_def minter_def
        demo_server_def Let_def byte_response_def del: EncodeToString.simps)
qed

definition byte_block :: BlockMeta where
  "byte_block = \<lparr>bm_BlockHash = EncodeToString byte_hash, bm_ChunkIndex = 0, bm_Offset = 0, bm_SizeBytes = 1, bm_ETag = ''''\<rparr>"

definition byte_commit :: CommitRequest where
  "byte_commit = \<lparr>cr_SessionID = EncodeToString [77], cr_ContentSHA256 = EncodeToString byte_hash, cr_MimeType = ''m'', cr_Blocks = [byte_block]\<rparr>"

lemma byte_commit_result:
  "\<exists>d. Pg_CommitFile demo_U demo_env [1] [77] byte_hash [byte_block] byte_tables = (Inr (EncodeToString [77], 1), d)"
proof -
  have pre: "commit_preconditions demo_U demo_env [1] [77] [byte_block] byte_tables = Inr (session_record demo_U byte_session, [8])"
    unfolding commit_preconditions_Inr
    by (simp add: demo_env_def byte_tables_def find_session_def demo_session_def byte_session_def session_record_def demo_U_def
        del: EncodeToString.simps) (simp)
  show ?thesis
    unfolding Pg_CommitFile_def in_tx_Inr commit_body_def pre bindE_simps prod.case
    by (simp add: exec_def demo_env_def
        next_version_number_def node_versions_def insert_version_def write_blocks_def insert_each.simps
        insert_block_on_conflict_nothing_def insert_manifest_block_def manifest_block_added_def
        complete_session_def update_where_def MustDecodeHash_def byte_block_def byte_tables_def demo_tables_def
        is_int32_def Let_def demo_U_def session_record_def byte_session_def del: EncodeToString.simps)
qed

lemma byte_handleCommit:
  "\<exists>ev d. handleCommit demo_U (demo_server (PgStore demo_U demo_env)) 0 ''e'' (Some byte_commit) byte_tables =
     ((Inr \<lparr>cp_VersionID = EncodeToString [77], cp_VersionNumber = 1\<rparr>, [ev]), d)"
proof -
  have "EncodeToString [77] \<noteq> ''''"
    by (simp add: hextable_def)
  then have valid: "CommitRequest_Validate byte_commit = None"
    by (simp add: CommitRequest_Validate_def byte_commit_def byte_block_def del: EncodeToString.simps)
  have "Pg_GetSession demo_U demo_env [77] byte_tables = Inr (session_record demo_U byte_session)"
    by (simp add: Pg_GetSession_def demo_env_def byte_tables_def find_session_def demo_session_def byte_session_def)
  moreover have "u_parse demo_U (cr_SessionID byte_commit) = Some [77]"
    "DecodeString (cr_ContentSHA256 byte_commit) = Some byte_hash" "cr_Blocks byte_commit = [byte_block]"
    by (simp_all add: byte_commit_def del: EncodeToString.simps)
  moreover have "sr_Status (session_record demo_U byte_session) = ''INITIATED''"
    "sr_ExpiresAt (session_record demo_U byte_session) = 100"
    "u_parse demo_U (sr_TenantID (session_record demo_U byte_session)) = Some [1]"
    by (simp_all add: session_record_def byte_session_def del: EncodeToString.simps)
  ultimately show ?thesis
    using byte_commit_result by (auto simp: handleCommit_def valid PgStore_def Let_def)
qed

definition byte_plant :: plant where
  "byte_plant = \<lparr>pl_U = demo_U, pl_server = (\<lambda>_. demo_server (PgStore demo_U demo_env)), pl_now = (\<lambda>_. 0), pl_eventID = (\<lambda>_. ''e''),
     pl_put = (\<lambda>_. PutStatus 200), pl_urlHash = Some, pl_badURL = (\<lambda>_. None)\<rparr>"

definition byte_world :: aegis_world where
  "byte_world = \<lparr>aw_db = demo_tables, aw_blobs = (\<lambda>_. None), aw_files = (\<lambda>_. Some [1]), aw_requests = 0, aw_puts = 0\<rparr>"

definition byte_surroundings :: "aegis_world surroundings" where
  "byte_surroundings = \<lparr>su_wire = plant_wire byte_plant, su_types = (\<lambda>_. ''''), su_cancelled = (\<lambda>_. False),
     su_ctxErr = errorf ''context canceled'', su_completion = rev\<rparr>"

definition byte_client :: Client where
  "byte_client = NewClient ''https://aegis/'' (EncodeToString [1]) ''''"

definition byte_options :: UploadOptions where
  "byte_options = \<lparr>uo_FilePath = ''/f'', uo_ParentID = None, uo_NodeID = Some (EncodeToString [8]), uo_MimeType = ''m''\<rparr>"

lemma byte_initiateUpload:
  "initiateUpload (plant_wire byte_plant) byte_client byte_request byte_world =
     (Inr byte_response, byte_world\<lparr>aw_db := byte_tables, aw_requests := 1\<rparr>)"
  using byte_initiate
  by (simp add: initiateUpload_def doJSON_def plant_wire_def byte_plant_def serve_def Ingress.wrap_def reply_of_def byte_world_def
      authenticate_def demo_server_def demo_cfg_def byte_client_def NewClient_def Let_def auth_header_def)

lemma byte_put:
  "upload_missing byte_surroundings byte_options [\<lparr>HashHex = EncodeToString byte_hash, Offset = 0, Size = 1\<rparr>] (ip_UploadURLs byte_response) 1
     (byte_world\<lparr>aw_db := byte_tables, aw_requests := 1\<rparr>) =
   (Inr (1, 0), byte_world\<lparr>aw_db := byte_tables, aw_requests := 1, aw_puts := 1, aw_blobs := [EncodeToString byte_hash \<mapsto> [1]]\<rparr>)"
  by (simp add: upload_missing_def byte_response_def byte_surroundings_def plant_wire_def byte_plant_def byte_world_def uploadChunksParallel_def
      work_items_def List.map_filter_def urlMap_def upload_item_def readChunkFromFile_def uploadChunkWithRetry_def putChunk_def edge_put_def
      defaultMaxRetries_def store_block_def deduplicated_def Let_def numeral_eq_Suc del: EncodeToString.simps)

lemma byte_commitUpload:
  "\<exists>d. commitUpload (plant_wire byte_plant) byte_client byte_commit (w\<lparr>aw_db := byte_tables\<rparr>) =
     (Inr \<lparr>cp_VersionID = EncodeToString [77], cp_VersionNumber = 1\<rparr>, w\<lparr>aw_db := d, aw_requests := Suc (aw_requests w)\<rparr>)"
proof -
  obtain ev d where "handleCommit demo_U (demo_server (PgStore demo_U demo_env)) 0 ''e'' (Some byte_commit) byte_tables =
     ((Inr \<lparr>cp_VersionID = EncodeToString [77], cp_VersionNumber = 1\<rparr>, [ev]), d)"
    using byte_handleCommit by blast
  then show ?thesis
    by (simp add: commitUpload_def doJSON_def plant_wire_def byte_plant_def serve_def Ingress.wrap_def reply_of_def
        authenticate_def demo_server_def demo_cfg_def byte_client_def NewClient_def Let_def auth_header_def del: EncodeToString.simps)
      (intro exI, rule aegis_world.equality; simp)
qed

lemma byte_upload:
  "\<exists>res d. UploadFile byte_surroundings byte_client byte_options byte_world =
     Finished (Inr res, byte_world\<lparr>aw_db := d, aw_requests := 2, aw_puts := 1, aw_blobs := [EncodeToString byte_hash \<mapsto> [1]]\<rparr>)"
proof -
  let ?ch = "\<lparr>HashHex = EncodeToString byte_hash, Offset = 0, Size = 1\<rparr>"
  let ?w2 = "byte_world\<lparr>aw_db := byte_tables, aw_requests := 1, aw_puts := 1, aw_blobs := [EncodeToString byte_hash \<mapsto> [1]]\<rparr>"
  have w2: "?w2 = (byte_world\<lparr>aw_requests := 1, aw_puts := 1, aw_blobs := [EncodeToString byte_hash \<mapsto> [1]]\<rparr>)\<lparr>aw_db := byte_tables\<rparr>"
    by simp
  obtain d where commit: "commitUpload (plant_wire byte_plant) byte_client byte_commit ?w2 =
      (Inr \<lparr>cp_VersionID = EncodeToString [77], cp_VersionNumber = 1\<rparr>, ?w2\<lparr>aw_db := d, aw_requests := 2\<rparr>)"
    using byte_commitUpload [of "byte_world\<lparr>aw_requests := 1, aw_puts := 1, aw_blobs := [EncodeToString byte_hash \<mapsto> [1]]\<rparr>"]
    unfolding w2 by (auto simp: numeral_2_eq_2)
  have request: "\<lparr>ir_TenantID = cl_tenantID byte_client, ir_FileName = Base (uo_FilePath byte_options), ir_ParentID = uo_ParentID byte_options,
      ir_NodeID = uo_NodeID byte_options, ir_TotalSize = 1, ir_Chunks = chunk_infos [?ch]\<rparr> = byte_request"
    by (simp add: byte_request_def byte_client_def NewClient_def byte_options_def chunk_infos_def Base_def TrimRight_def last_element_def
        Let_def del: EncodeToString.simps One_nat_def)
  have creq: "\<lparr>cr_SessionID = ip_SessionID byte_response, cr_ContentSHA256 = ComputeFileSHA256 [1], cr_MimeType = ''m'',
      cr_Blocks = buildBlockMetas [?ch]\<rparr> = byte_commit"
    by (simp add: byte_commit_def byte_response_def ComputeFileSHA256_def byte_hash_def buildBlockMetas_def byte_block_def del: EncodeToString.simps One_nat_def)
  have fin: "hash_and_commit byte_surroundings byte_client byte_options [?ch] byte_response ''m'' (1, 0) ?w2 =
      (Inr \<lparr>ur_VersionID = EncodeToString [77], ur_VersionNumber = 1, ur_NodeID = ip_NodeID byte_response,
        ur_SessionID = ip_SessionID byte_response, ur_BytesUploaded = 1, ur_Deduplicated = 0\<rparr>, ?w2\<lparr>aw_db := d, aw_requests := 2\<rparr>)"
  proof -
    have "wi_open (su_wire byte_surroundings) (uo_FilePath byte_options) ?w2 = (Inr [1], ?w2)"
      by (simp add: byte_surroundings_def plant_wire_def byte_world_def)
    moreover have "su_wire byte_surroundings = plant_wire byte_plant"
      by (simp add: byte_surroundings_def)
    ultimately show ?thesis
      unfolding hash_and_commit_def by (simp add: creq commit del: EncodeToString.simps One_nat_def)
  qed
  have open': "wi_open (su_wire byte_surroundings) (uo_FilePath byte_options) byte_world = (Inr [1], byte_world)"
    by (simp add: byte_surroundings_def plant_wire_def byte_world_def)
  have "upload_chunks_of byte_surroundings byte_client byte_options 1 [?ch] byte_world =
      hash_and_commit byte_surroundings byte_client byte_options [?ch] byte_response ''m'' (1, 0) ?w2"
  proof -
    have "su_wire byte_surroundings = plant_wire byte_plant" "uo_MimeType byte_options = ''m''"
      by (simp_all add: byte_surroundings_def byte_options_def)
    then show ?thesis
      using byte_put unfolding upload_chunks_of_def request Let_def by (simp add: byte_initiateUpload del: EncodeToString.simps One_nat_def)
  qed
  then show ?thesis
    using open' chunk_file_byte fin by (simp add: UploadFile_def del: EncodeToString.simps One_nat_def) (rule exI [of _ d], simp)
qed

theorem upload_stores_file_witness:
  "\<exists>res w' rows. UploadFile byte_surroundings byte_client byte_options byte_world = Finished (Inr res, w') \<and>
     manifest_rows (aw_db w') = rows \<and> read_back (aw_blobs w') rows = Some [1]"
proof -
  obtain res d where run: "UploadFile byte_surroundings byte_client byte_options byte_world =
     Finished (Inr res, byte_world\<lparr>aw_db := d, aw_requests := 2, aw_puts := 1, aw_blobs := [EncodeToString byte_hash \<mapsto> [1]]\<rparr>)" (is "_ = Finished (_, ?w')")
    using byte_upload by blast
  have plant: "plant_ok byte_plant"
    by (auto simp: plant_ok_def byte_plant_def minter_def demo_server_def)
  have start: "aw_files byte_world (uo_FilePath byte_options) = Some [1]" "blobs_intact byte_world" "blocks_stored byte_world"
    by (simp_all add: byte_world_def blobs_intact_def blocks_stored_def demo_tables_def)
  have free: "collision_free ?w' [1]"
    by (auto simp: collision_free_def take_Cons' drop_Cons')
  have around: "su_wire byte_surroundings = plant_wire byte_plant" "\<forall>xs. set (su_completion byte_surroundings xs) = set xs"
    by (simp_all add: byte_surroundings_def)
  show ?thesis
    using upload_stores_file [OF around(1) plant around(2) start run free] run by (auto simp: byte_world_def demo_tables_def)
qed

end
