(* ===== verification/ObjectStorage.thy ===== *)
theory ObjectStorage
  imports Client
begin

text \<open>
  The object storage drivers (internal/objectstorage): the shared types and lifecycle policy (storage.go), the S3 driver (s3.go)
  and the MinIO driver (minio.go). The two packages are arguments, records of the calls the drivers make on a state \<open>'s\<close>; what
  a driver does with their answers is modelled call by call. The ingestion server uses either driver as its blob store.
\<close>

section \<open>Shared types\<close>

datatype storage_error =
    ErrBlockNotFound string
  | ErrETagMismatch string string
  | ErrUploadFailed string
  | ErrDeleteFailed string
  | BackendError string
  | ConfigError string

definition TierHot :: string where "TierHot = ''HOT''"
definition TierWarm :: string where "TierWarm = ''WARM''"
definition TierCold :: string where "TierCold = ''COLD''"

lemmas tier_defs = TierHot_def TierWarm_def TierCold_def

record BlockMetadata =
  md_BlockHash :: string
  md_ETag :: string
  md_SizeBytes :: int
  md_StorageTier :: string
  md_LastModified :: "instant option"
  md_IsVerified :: bool

record LifecycleRule =
  lr_ID :: string
  lr_Prefix :: string
  lr_TransitionDay :: int
  lr_TargetTier :: string

record LifecyclePolicy =
  lp_Rules :: "LifecycleRule list"
  lp_AbortIncompleteMultipartDays :: int
  lp_NoncurrentVersionExpirationDays :: int

definition DefaultLifecyclePolicy :: LifecyclePolicy where
  "DefaultLifecyclePolicy =
     \<lparr>lp_Rules = [\<lparr>lr_ID = ''tier-warm'', lr_Prefix = '''', lr_TransitionDay = 7, lr_TargetTier = TierWarm\<rparr>,
                  \<lparr>lr_ID = ''tier-cold'', lr_Prefix = '''', lr_TransitionDay = 30, lr_TargetTier = TierCold\<rparr>],
      lp_AbortIncompleteMultipartDays = 1, lp_NoncurrentVersionExpirationDays = 1\<rparr>"

text \<open>\<^verbatim>\<open>strings.Trim(s, "\"")\<close>, and the conversion to \<^verbatim>\<open>int32\<close>.\<close>

definition trim_quotes :: "string \<Rightarrow> string" where
  "trim_quotes s = rev (dropWhile (\<lambda>c. c = CHR 0x22) (rev (dropWhile (\<lambda>c. c = CHR 0x22) s)))"

definition wrap32 :: "int \<Rightarrow> int" where
  "wrap32 x = (x + 2 ^ 31) mod 2 ^ 32 - 2 ^ 31"

section \<open>The S3 driver\<close>

definition s3PresignTTL :: duration where "s3PresignTTL = 15 * Minute"
definition s3BlockKeyPrefix :: string where "s3BlockKeyPrefix = ''blocks/''"
definition s3LifecyclePrefix :: string where "s3LifecyclePrefix = ''blocks/''"

text \<open>An error of the package: whether \<^verbatim>\<open>types.NotFound\<close> is in its chain, and its text.\<close>

record s3_error =
  s3e_notFound :: bool
  s3e_Error :: string

record s3_put =
  sp_Bucket :: string
  sp_Key :: string
  sp_Tagging :: string
  sp_SSE :: string
  sp_KMSKeyId :: "string option"

record s3_head =
  hd_ETag :: "string option"
  hd_LastModified :: "instant option"
  hd_ContentLength :: "int option"
  hd_StorageClass :: string

record s3_rule =
  sl_ID :: string
  sl_Prefix :: string
  sl_Transition :: "(int \<times> string) option"
  sl_AbortDays :: "int option"

record 's s3_sdk =
  s3_PresignPutObject :: "s3_put \<Rightarrow> duration \<Rightarrow> 's \<Rightarrow> (string + string) \<times> 's"
  s3_HeadObject :: "string \<Rightarrow> string \<Rightarrow> 's \<Rightarrow> (s3_error + s3_head) \<times> 's"
  s3_GetObject :: "string \<Rightarrow> string \<Rightarrow> 's \<Rightarrow> (s3_error + bytes \<times> int option) \<times> 's"
  s3_DeleteObject :: "string \<Rightarrow> string \<Rightarrow> 's \<Rightarrow> string option \<times> 's"
  s3_PutLifecycle :: "string \<Rightarrow> s3_rule list \<Rightarrow> 's \<Rightarrow> string option \<times> 's"

record S3Client =
  s3_bucketName :: string
  s3_kmsKeyID :: string

record S3Config =
  sg_Endpoint :: string
  sg_Region :: string
  sg_BucketName :: string
  sg_KMSKeyID :: string
  sg_ForcePathStyle :: bool

text \<open>\<open>loaded\<close> is the outcome of loading the package's configuration for the region.\<close>

definition NewS3Client :: "(string \<Rightarrow> string option) \<Rightarrow> S3Config \<Rightarrow> storage_error + S3Client" where
  "NewS3Client loaded conf =
     (if sg_BucketName conf = '''' then Inl (ConfigError ''objectstorage: bucket name is required'')
      else
        (case loaded (sg_Region conf) of
           Some e \<Rightarrow> Inl (ConfigError (''objectstorage: load AWS config: '' @ e))
         | None \<Rightarrow> Inr \<lparr>s3_bucketName = sg_BucketName conf, s3_kmsKeyID = sg_KMSKeyID conf\<rparr>))"

definition S3_blockKey :: "string \<Rightarrow> string" where
  "S3_blockKey blockHash = s3BlockKeyPrefix @ blockHash"

definition isNotFound :: "s3_error \<Rightarrow> bool" where
  "isNotFound err \<longleftrightarrow> s3e_notFound err \<or> Contains (s3e_Error err) ''NoSuchKey'' \<or> Contains (s3e_Error err) ''NoSuchBucket'' \<or>
     Contains (s3e_Error err) ''NotFound'' \<or> Contains (s3e_Error err) ''404''"

definition S3_GenerateUploadURL :: "'s s3_sdk \<Rightarrow> S3Client \<Rightarrow> string \<Rightarrow> string \<Rightarrow> int \<Rightarrow> 's \<Rightarrow> (storage_error + string) \<times> 's" where
  "S3_GenerateUploadURL A c tenantID blockHash sizeBytes s =
     (let input = \<lparr>sp_Bucket = s3_bucketName c, sp_Key = S3_blockKey blockHash, sp_Tagging = ''tenant='' @ tenantID,
                   sp_SSE = (if s3_kmsKeyID c \<noteq> '''' then ''aws:kms'' else ''AES256''),
                   sp_KMSKeyId = (if s3_kmsKeyID c \<noteq> '''' then Some (s3_kmsKeyID c) else None)\<rparr>
      in case s3_PresignPutObject A input s3PresignTTL s of
           (Inl e, s1) \<Rightarrow> (Inl (ErrUploadFailed e), s1)
         | (Inr url, s1) \<Rightarrow> (Inr url, s1))"

definition s3_fail :: "string \<Rightarrow> s3_error \<Rightarrow> storage_error" where
  "s3_fail blockHash err = (if isNotFound err then ErrBlockNotFound blockHash else BackendError (s3e_Error err))"

definition S3_VerifyBlock :: "'s s3_sdk \<Rightarrow> S3Client \<Rightarrow> string \<Rightarrow> string \<Rightarrow> 's \<Rightarrow> storage_error option \<times> 's" where
  "S3_VerifyBlock A c blockHash expectedETag s =
     (case s3_HeadObject A (s3_bucketName c) (S3_blockKey blockHash) s of
        (Inl err, s1) \<Rightarrow> (Some (s3_fail blockHash err), s1)
      | (Inr h, s1) \<Rightarrow>
          let stored = trim_quotes (case hd_ETag h of None \<Rightarrow> '''' | Some t \<Rightarrow> t); expected = trim_quotes expectedETag
          in (if stored \<noteq> expected then Some (ErrETagMismatch stored expected) else None, s1))"

definition S3_tier :: "string \<Rightarrow> string" where
  "S3_tier cls =
     (if cls \<in> set [''STANDARD_IA'', ''ONEZONE_IA'', ''INTELLIGENT_TIERING''] then TierWarm
      else if cls \<in> set [''GLACIER'', ''DEEP_ARCHIVE'', ''GLACIER_IR''] then TierCold
      else TierHot)"

definition S3_GetBlockMetadata :: "'s s3_sdk \<Rightarrow> S3Client \<Rightarrow> string \<Rightarrow> 's \<Rightarrow> (storage_error + BlockMetadata) \<times> 's" where
  "S3_GetBlockMetadata A c blockHash s =
     (case s3_HeadObject A (s3_bucketName c) (S3_blockKey blockHash) s of
        (Inl err, s1) \<Rightarrow> (Inl (s3_fail blockHash err), s1)
      | (Inr h, s1) \<Rightarrow>
          (Inr \<lparr>md_BlockHash = blockHash, md_ETag = trim_quotes (case hd_ETag h of None \<Rightarrow> '''' | Some t \<Rightarrow> t),
                md_SizeBytes = (case hd_ContentLength h of None \<Rightarrow> 0 | Some n \<Rightarrow> n), md_StorageTier = S3_tier (hd_StorageClass h),
                md_LastModified = hd_LastModified h, md_IsVerified = False\<rparr>, s1))"

definition S3_GetBlockReader :: "'s s3_sdk \<Rightarrow> S3Client \<Rightarrow> string \<Rightarrow> 's \<Rightarrow> (storage_error + bytes \<times> int) \<times> 's" where
  "S3_GetBlockReader A c blockHash s =
     (case s3_GetObject A (s3_bucketName c) (S3_blockKey blockHash) s of
        (Inl err, s1) \<Rightarrow> (Inl (s3_fail blockHash err), s1)
      | (Inr (body, len), s1) \<Rightarrow> (Inr (body, case len of None \<Rightarrow> 0 | Some n \<Rightarrow> n), s1))"

definition S3_DeleteBlock :: "'s s3_sdk \<Rightarrow> S3Client \<Rightarrow> string \<Rightarrow> 's \<Rightarrow> storage_error option \<times> 's" where
  "S3_DeleteBlock A c blockHash s =
     (case s3_DeleteObject A (s3_bucketName c) (S3_blockKey blockHash) s of (e, s1) \<Rightarrow> (map_option ErrDeleteFailed e, s1))"

definition S3_rules :: "LifecyclePolicy \<Rightarrow> s3_rule list" where
  "S3_rules policy =
     map (\<lambda>r. \<lparr>sl_ID = lr_ID r, sl_Prefix = s3LifecyclePrefix, sl_Transition = Some (wrap32 (lr_TransitionDay r), lr_TargetTier r),
               sl_AbortDays = None\<rparr>) (lp_Rules policy) @
     (if lp_AbortIncompleteMultipartDays policy > 0
      then [\<lparr>sl_ID = ''abort-incomplete-multipart'', sl_Prefix = '''', sl_Transition = None,
             sl_AbortDays = Some (wrap32 (lp_AbortIncompleteMultipartDays policy))\<rparr>]
      else [])"

definition S3_ApplyLifecycle :: "'s s3_sdk \<Rightarrow> S3Client \<Rightarrow> LifecyclePolicy \<Rightarrow> 's \<Rightarrow> storage_error option \<times> 's" where
  "S3_ApplyLifecycle A c policy s =
     (case s3_PutLifecycle A (s3_bucketName c) (S3_rules policy) s of
        (e, s1) \<Rightarrow> (map_option (\<lambda>m. BackendError (''objectstorage: put lifecycle: '' @ m)) e, s1))"

section \<open>The MinIO driver\<close>

definition minioPresignTTL :: duration where "minioPresignTTL = 15 * Minute"
definition minioBlockPrefix :: string where "minioBlockPrefix = ''blocks/''"

text \<open>What \<^verbatim>\<open>minio.ToErrorResponse\<close> reads from an error, and its text.\<close>

record minio_error =
  me_Code :: string
  me_StatusCode :: int
  me_Error :: string

record minio_info =
  mi_ETag :: string
  mi_Size :: int
  mi_StorageClass :: string
  mi_LastModified :: instant

record post_policy =
  pp_Bucket :: string
  pp_Key :: string
  pp_Expires :: instant
  pp_ContentType :: string
  pp_Tagging :: string

text \<open>An object is opened lazily: the handle is asked for its information afterwards.\<close>

record ('h, 's) minio_sdk =
  mn_New :: "string \<Rightarrow> string \<Rightarrow> string \<Rightarrow> bool \<Rightarrow> string option"
  mn_BucketExists :: "string \<Rightarrow> 's \<Rightarrow> (string + bool) \<times> 's"
  mn_MakeBucket :: "string \<Rightarrow> 's \<Rightarrow> string option \<times> 's"
  mn_PresignedPostPolicy :: "post_policy \<Rightarrow> 's \<Rightarrow> string option \<times> 's"
  mn_EndpointURL :: string
  mn_StatObject :: "string \<Rightarrow> string \<Rightarrow> 's \<Rightarrow> (minio_error + minio_info) \<times> 's"
  mn_GetObject :: "string \<Rightarrow> string \<Rightarrow> 's \<Rightarrow> (minio_error + 'h) \<times> 's"
  mn_ObjectStat :: "'h \<Rightarrow> 's \<Rightarrow> (minio_error + minio_info) \<times> 's"
  mn_RemoveObject :: "string \<Rightarrow> string \<Rightarrow> 's \<Rightarrow> string option \<times> 's"
  mn_SetBucketLifecycle :: "string \<Rightarrow> s3_rule list \<Rightarrow> 's \<Rightarrow> string option \<times> 's"

record MinIOClient =
  mc_bucket :: string

record MinIOConfig =
  mg_Endpoint :: string
  mg_AccessKey :: string
  mg_SecretKey :: string
  mg_Bucket :: string
  mg_UseSSL :: bool

definition NewMinIOClient :: "('h, 's) minio_sdk \<Rightarrow> MinIOConfig \<Rightarrow> 's \<Rightarrow> (storage_error + MinIOClient) \<times> 's" where
  "NewMinIOClient M conf s =
     (if mg_Bucket conf = '''' then (Inl (ConfigError ''objectstorage: bucket name is required''), s)
      else if mg_Endpoint conf = '''' then (Inl (ConfigError ''objectstorage: endpoint is required''), s)
      else
        (case mn_New M (mg_Endpoint conf) (mg_AccessKey conf) (mg_SecretKey conf) (mg_UseSSL conf) of
           Some e \<Rightarrow> (Inl (ConfigError (''objectstorage: create minio client: '' @ e)), s)
         | None \<Rightarrow>
             (case mn_BucketExists M (mg_Bucket conf) s of
                (Inl e, s1) \<Rightarrow> (Inl (ConfigError (''objectstorage: check bucket: '' @ e)), s1)
              | (Inr True, s1) \<Rightarrow> (Inr \<lparr>mc_bucket = mg_Bucket conf\<rparr>, s1)
              | (Inr False, s1) \<Rightarrow>
                  (case mn_MakeBucket M (mg_Bucket conf) s1 of
                     (Some e, s2) \<Rightarrow> (Inl (ConfigError (''objectstorage: create bucket: '' @ e)), s2)
                   | (None, s2) \<Rightarrow> (Inr \<lparr>mc_bucket = mg_Bucket conf\<rparr>, s2)))))"

definition MinIO_blockKey :: "string \<Rightarrow> string" where
  "MinIO_blockKey blockHash = minioBlockPrefix @ blockHash"

text \<open>The signed form of the policy is computed and thrown away; the URL returned is the plain address of the object.\<close>

definition MinIO_GenerateUploadURL ::
  "('h, 's) minio_sdk \<Rightarrow> MinIOClient \<Rightarrow> instant \<Rightarrow> string \<Rightarrow> string \<Rightarrow> int \<Rightarrow> 's \<Rightarrow> (storage_error + string) \<times> 's" where
  "MinIO_GenerateUploadURL M c now tenantID blockHash sizeBytes s =
     (let key = MinIO_blockKey blockHash;
          policy = \<lparr>pp_Bucket = mc_bucket c, pp_Key = key, pp_Expires = now + minioPresignTTL,
                    pp_ContentType = ''application/octet-stream'', pp_Tagging = ''tenant='' @ tenantID\<rparr>
      in case mn_PresignedPostPolicy M policy s of
           (Some e, s1) \<Rightarrow> (Inl (ErrUploadFailed e), s1)
         | (None, s1) \<Rightarrow> (Inr (mn_EndpointURL M @ ''/'' @ mc_bucket c @ ''/'' @ key), s1))"

definition isMinioNotFound :: "minio_error \<Rightarrow> bool" where
  "isMinioNotFound err \<longleftrightarrow> me_Code err = ''NoSuchKey'' \<or> me_Code err = ''NoSuchBucket'' \<or> me_StatusCode err = 404"

definition minio_fail :: "string \<Rightarrow> minio_error \<Rightarrow> storage_error" where
  "minio_fail blockHash err = (if isMinioNotFound err then ErrBlockNotFound blockHash else BackendError (me_Error err))"

definition MinIO_VerifyBlock :: "('h, 's) minio_sdk \<Rightarrow> MinIOClient \<Rightarrow> string \<Rightarrow> string \<Rightarrow> 's \<Rightarrow> storage_error option \<times> 's" where
  "MinIO_VerifyBlock M c blockHash expectedETag s =
     (case mn_StatObject M (mc_bucket c) (MinIO_blockKey blockHash) s of
        (Inl err, s1) \<Rightarrow> (Some (minio_fail blockHash err), s1)
      | (Inr i, s1) \<Rightarrow>
          let stored = trim_quotes (mi_ETag i); expected = trim_quotes expectedETag
          in (if stored \<noteq> expected then Some (ErrETagMismatch stored expected) else None, s1))"

definition MinIO_tier :: "string \<Rightarrow> string" where
  "MinIO_tier cls =
     (if cls \<in> set [''STANDARD_IA'', ''ONEZONE_IA''] then TierWarm
      else if cls \<in> set [''GLACIER'', ''DEEP_ARCHIVE''] then TierCold
      else TierHot)"

definition MinIO_GetBlockMetadata :: "('h, 's) minio_sdk \<Rightarrow> MinIOClient \<Rightarrow> string \<Rightarrow> 's \<Rightarrow> (storage_error + BlockMetadata) \<times> 's" where
  "MinIO_GetBlockMetadata M c blockHash s =
     (case mn_StatObject M (mc_bucket c) (MinIO_blockKey blockHash) s of
        (Inl err, s1) \<Rightarrow> (Inl (minio_fail blockHash err), s1)
      | (Inr i, s1) \<Rightarrow>
          (Inr \<lparr>md_BlockHash = blockHash, md_ETag = trim_quotes (mi_ETag i), md_SizeBytes = mi_Size i,
                md_StorageTier = MinIO_tier (mi_StorageClass i), md_LastModified = Some (mi_LastModified i), md_IsVerified = False\<rparr>, s1))"

definition MinIO_GetBlockReader :: "('h, 's) minio_sdk \<Rightarrow> MinIOClient \<Rightarrow> string \<Rightarrow> 's \<Rightarrow> (storage_error + 'h \<times> int) \<times> 's" where
  "MinIO_GetBlockReader M c blockHash s =
     (case mn_GetObject M (mc_bucket c) (MinIO_blockKey blockHash) s of
        (Inl err, s1) \<Rightarrow> (Inl (minio_fail blockHash err), s1)
      | (Inr obj, s1) \<Rightarrow>
          (case mn_ObjectStat M obj s1 of
             (Inl err, s2) \<Rightarrow> (Inl (BackendError (me_Error err)), s2)
           | (Inr i, s2) \<Rightarrow> (Inr (obj, mi_Size i), s2)))"

definition MinIO_DeleteBlock :: "('h, 's) minio_sdk \<Rightarrow> MinIOClient \<Rightarrow> string \<Rightarrow> 's \<Rightarrow> storage_error option \<times> 's" where
  "MinIO_DeleteBlock M c blockHash s =
     (case mn_RemoveObject M (mc_bucket c) (MinIO_blockKey blockHash) s of (e, s1) \<Rightarrow> (map_option ErrDeleteFailed e, s1))"

definition MinIO_rules :: "LifecyclePolicy \<Rightarrow> s3_rule list" where
  "MinIO_rules policy =
     map (\<lambda>r. \<lparr>sl_ID = lr_ID r, sl_Prefix = minioBlockPrefix, sl_Transition = Some (lr_TransitionDay r, lr_TargetTier r),
               sl_AbortDays = None\<rparr>) (lp_Rules policy) @
     (if lp_AbortIncompleteMultipartDays policy > 0
      then [\<lparr>sl_ID = ''abort-incomplete-multipart'', sl_Prefix = '''', sl_Transition = None,
             sl_AbortDays = Some (lp_AbortIncompleteMultipartDays policy)\<rparr>]
      else [])"

definition MinIO_ApplyLifecycle :: "('h, 's) minio_sdk \<Rightarrow> MinIOClient \<Rightarrow> LifecyclePolicy \<Rightarrow> 's \<Rightarrow> storage_error option \<times> 's" where
  "MinIO_ApplyLifecycle M c policy s =
     (case mn_SetBucketLifecycle M (mc_bucket c) (MinIO_rules policy) s of
        (e, s1) \<Rightarrow> (map_option (\<lambda>m. BackendError (''objectstorage: set lifecycle: '' @ m)) e, s1))"

section \<open>Answers and errors\<close>

lemma Contains_iff: "Contains s p \<longleftrightarrow> (\<exists>a b. s = a @ p @ b)"
proof (induction s)
  case Nil
  then show ?case
    by (auto simp: Contains.simps [of "[]"])
next
  case (Cons c s)
  have "take (length p) (c # s) = p \<longleftrightarrow> (\<exists>b. c # s = p @ b)"
    by (metis append_eq_conv_conj append_take_drop_id)
  moreover have "(\<exists>a b. c # s = a @ p @ b) \<longleftrightarrow> (\<exists>b. c # s = p @ b) \<or> (\<exists>a b. s = a @ p @ b)"
    by (auto simp: Cons_eq_append_conv [of c s])
  ultimately show ?case
    using Contains.simps [of "c # s" p, unfolded list.case] Cons.IH by blast
qed

text \<open>A text that quotes the key of a block whose hash has the digits 404 counts as not found, whatever went wrong.\<close>

lemma hash_digits_not_found:
  assumes "Contains blockHash ''404''" and "s3e_Error err = a @ S3_blockKey blockHash @ b"
  shows "s3_fail blockHash err = ErrBlockNotFound blockHash"
proof -
  obtain x y where "blockHash = x @ ''404'' @ y"
    using assms(1) unfolding Contains_iff by blast
  then have "s3e_Error err = (a @ s3BlockKeyPrefix @ x) @ ''404'' @ (y @ b)"
    using assms(2) by (simp add: S3_blockKey_def)
  then have "isNotFound err"
    unfolding isNotFound_def Contains_iff by blast
  then show ?thesis
    by (simp add: s3_fail_def)
qed

text \<open>Quotes around a tag do not matter.\<close>

lemma trim_quotes_quoted: "trim_quotes (CHR 0x22 # t @ [CHR 0x22]) = trim_quotes t"
proof (cases "\<forall>c \<in> set t. c = CHR 0x22")
  case True
  then have "dropWhile (\<lambda>c. c = CHR 0x22) (CHR 0x22 # t @ [CHR 0x22]) = []" "dropWhile (\<lambda>c. c = CHR 0x22) t = []"
    unfolding dropWhile_eq_Nil_conv by auto
  then show ?thesis
    unfolding trim_quotes_def by (simp only:)
next
  case False
  then have "dropWhile (\<lambda>c. c = CHR 0x22) (t @ [CHR 0x22]) = dropWhile (\<lambda>c. c = CHR 0x22) t @ [CHR 0x22]"
    by (auto intro: dropWhile_append1)
  then show ?thesis
    by (simp add: trim_quotes_def)
qed

text \<open>A block passes verification exactly when its object is there with the expected tag.\<close>

lemma S3_VerifyBlock_None:
  "fst (S3_VerifyBlock A c blockHash expected s) = None \<longleftrightarrow>
     (\<exists>h s1. s3_HeadObject A (s3_bucketName c) (S3_blockKey blockHash) s = (Inr h, s1) \<and>
        trim_quotes (case hd_ETag h of None \<Rightarrow> '''' | Some t \<Rightarrow> t) = trim_quotes expected)"
  by (auto simp: S3_VerifyBlock_def Let_def split: prod.splits sum.splits)

section \<open>The two drivers implement one contract\<close>

text \<open>Two answers of the packages tell the same about an object.\<close>

definition same_answer :: "s3_error + s3_head \<Rightarrow> minio_error + minio_info \<Rightarrow> bool" where
  "same_answer a m \<longleftrightarrow>
     (case (a, m) of
        (Inl x, Inl y) \<Rightarrow> isNotFound x = isMinioNotFound y \<and> s3e_Error x = me_Error y
      | (Inr h, Inr i) \<Rightarrow>
          (case hd_ETag h of None \<Rightarrow> '''' | Some t \<Rightarrow> t) = mi_ETag i \<and> (case hd_ContentLength h of None \<Rightarrow> 0 | Some n \<Rightarrow> n) = mi_Size i \<and>
          hd_LastModified h = Some (mi_LastModified i) \<and> hd_StorageClass h = mi_StorageClass i
      | _ \<Rightarrow> False)"

lemma tiers_agree:
  "S3_tier cls = MinIO_tier cls \<longleftrightarrow> cls \<noteq> ''INTELLIGENT_TIERING'' \<and> cls \<noteq> ''GLACIER_IR''"
  by (auto simp: S3_tier_def MinIO_tier_def tier_defs)


text \<open>They submit the same lifecycle rules when the days fit 32 bits.\<close>

lemma rules_agree:
  assumes "\<forall>r \<in> set (lp_Rules p). - (2 ^ 31) \<le> lr_TransitionDay r \<and> lr_TransitionDay r < 2 ^ 31"
    and "lp_AbortIncompleteMultipartDays p < 2 ^ 31"
  shows "S3_rules p = MinIO_rules p"
proof -
  have "wrap32 n = n" if "- (2 ^ 31) \<le> n" "n < 2 ^ 31" for n
    using that by (simp add: wrap32_def)
  then show ?thesis
    using assms by (auto simp: S3_rules_def MinIO_rules_def s3LifecyclePrefix_def minioBlockPrefix_def)
qed

text \<open>The default policy moves blocks to classes that either driver then reads as the hot tier.\<close>

lemma default_tiers_unreadable:
  assumes "r \<in> set (S3_rules DefaultLifecyclePolicy)" and "sl_Transition r = Some (days, cls)"
  shows "S3_tier cls = TierHot" and "MinIO_tier cls = TierHot"
proof -
  have "cls = TierWarm \<or> cls = TierCold"
    using assms by (auto simp: S3_rules_def DefaultLifecyclePolicy_def)
  moreover have "S3_tier TierWarm = TierHot" "S3_tier TierCold = TierHot" "MinIO_tier TierWarm = TierHot" "MinIO_tier TierCold = TierHot"
    by (simp_all add: S3_tier_def MinIO_tier_def tier_defs)
  ultimately show "S3_tier cls = TierHot" and "MinIO_tier cls = TierHot"
    by (elim disjE; simp)+
qed

text \<open>Reading a missing block through MinIO, whose objects are opened lazily, never reports it as not found.\<close>

lemma MinIO_missing_block_error:
  assumes "mn_GetObject M (mc_bucket c) (MinIO_blockKey blockHash) s = (Inr obj, s1)"
  shows "fst (MinIO_GetBlockReader M c blockHash s) \<noteq> Inl (ErrBlockNotFound blockHash)"
  using assms by (auto simp: MinIO_GetBlockReader_def split: prod.splits sum.splits)

section \<open>The drivers behind the ingestion server\<close>

definition s3_blob :: "'s s3_sdk \<Rightarrow> S3Client \<Rightarrow> 's \<Rightarrow> BlobStore" where
  "s3_blob A c s =
     \<lparr>GenerateUploadURL = (\<lambda>t h n. case fst (S3_GenerateUploadURL A c t h n s) of Inl e \<Rightarrow> None | Inr url \<Rightarrow> Some url),
      VerifyBlock = (\<lambda>h e. fst (S3_VerifyBlock A c h e s) = None)\<rparr>"

definition tagged_objects :: "'s s3_sdk \<Rightarrow> S3Client \<Rightarrow> 's \<Rightarrow> bool" where
  "tagged_objects A c s \<longleftrightarrow>
     (\<forall>k h s1. s3_HeadObject A (s3_bucketName c) k s = (Inr h, s1) \<longrightarrow> trim_quotes (case hd_ETag h of None \<Rightarrow> '''' | Some t \<Rightarrow> t) \<noteq> '''')"

lemma untagged_never_verified:
  assumes "tagged_objects A c s"
  shows "\<not> VerifyBlock (s3_blob A c s) blockHash ''''"
proof -
  have "trim_quotes '''' = ''''"
    by (simp add: trim_quotes_def)
  then show ?thesis
    using assms unfolding s3_blob_def tagged_objects_def by (auto simp: S3_VerifyBlock_None)
qed

lemma untagged_loop:
  assumes "tagged_objects A c s" and "\<forall>b \<in> set bs. bm_ETag b = ''''"
  shows "verify_loop (s3_blob A c s) S bs st = st"
  using assms(2) by (induction bs arbitrary: st) (auto simp: untagged_never_verified [OF assms(1)])


text \<open>A manifest with the right tag would be marked.\<close>

lemma tagged_block_verified:
  assumes "s3_HeadObject A (s3_bucketName c) (S3_blockKey (bm_BlockHash b)) s = (Inr h, s1)" and "hd_ETag h = Some (bm_ETag b)"
    and "MustDecodeHash (bm_BlockHash b) = Some x"
  shows "verify_loop (s3_blob A c s) S [b] st = snd (s_MarkBlockVerified S x st)"
proof -
  have "VerifyBlock (s3_blob A c s) (bm_BlockHash b) (bm_ETag b)"
    using assms(1,2) unfolding s3_blob_def by (simp add: S3_VerifyBlock_None)
  then show ?thesis
    using assms(3) by simp
qed

subsection \<open>A bucket with one block\<close>

definition demo_s3 :: "unit s3_sdk" where
  "demo_s3 =
     \<lparr>s3_PresignPutObject = (\<lambda>i d s. (Inr (sp_Key i), s)),
      s3_HeadObject = (\<lambda>b k s. (if k = ''blocks/aa'' then Inr \<lparr>hd_ETag = Some [CHR 0x22, CHR ''e'', CHR 0x22], hd_LastModified = Some 5,
                                  hd_ContentLength = Some 3, hd_StorageClass = ''''\<rparr>
                                else Inl \<lparr>s3e_notFound = True, s3e_Error = ''no object''\<rparr>, s)),
      s3_GetObject = (\<lambda>b k s. (Inl \<lparr>s3e_notFound = True, s3e_Error = ''no object''\<rparr>, s)),
      s3_DeleteObject = (\<lambda>b k s. (None, s)), s3_PutLifecycle = (\<lambda>b r s. (None, s))\<rparr>"

definition demo_minio :: "(unit, unit) minio_sdk" where
  "demo_minio =
     \<lparr>mn_New = (\<lambda>_ _ _ _. None), mn_BucketExists = (\<lambda>b s. (Inr True, s)), mn_MakeBucket = (\<lambda>b s. (None, s)),
      mn_PresignedPostPolicy = (\<lambda>p s. (None, s)), mn_EndpointURL = ''http://minio'',
      mn_StatObject = (\<lambda>b k s. (if k = ''blocks/aa'' then Inr \<lparr>mi_ETag = [CHR 0x22, CHR ''e'', CHR 0x22], mi_Size = 3, mi_StorageClass = '''', mi_LastModified = 5\<rparr>
                                else Inl \<lparr>me_Code = ''NoSuchKey'', me_StatusCode = 404, me_Error = ''no object''\<rparr>, s)),
      mn_GetObject = (\<lambda>b k s. (Inr (), s)), mn_ObjectStat = (\<lambda>h s. (Inl \<lparr>me_Code = ''NoSuchKey'', me_StatusCode = 404, me_Error = ''no object''\<rparr>, s)),
      mn_RemoveObject = (\<lambda>b k s. (None, s)), mn_SetBucketLifecycle = (\<lambda>b r s. (None, s))\<rparr>"

definition demo_bucket :: S3Client where
  "demo_bucket = \<lparr>s3_bucketName = ''b'', s3_kmsKeyID = ''''\<rparr>"

lemma demo_head:
  "fst (s3_HeadObject demo_s3 (s3_bucketName demo_bucket) (S3_blockKey ''aa'') ()) =
     Inr \<lparr>hd_ETag = Some [CHR 0x22, CHR ''e'', CHR 0x22], hd_LastModified = Some 5, hd_ContentLength = Some 3, hd_StorageClass = ''''\<rparr>"
  by (simp add: demo_s3_def S3_blockKey_def s3BlockKeyPrefix_def)



end
