(* ===== verification/Workers.thy ===== *)
theory Workers
  imports Derivation Database
begin

text \<open>
  The derivation workers of \<^verbatim>\<open>internal/workers\<close> (malware scan, text extraction, video, embeddings) and the
  wiring of the ingestion server (\<^verbatim>\<open>cmd/ingest/derivation_helpers.go\<close>, \<^verbatim>\<open>cmd/ingest/main.go\<close>): its block reader
  over the database client and its placeholder tools. The tools and the block reader are arguments, functions of a
  state \<open>'s\<close>; the clock is an argument.
\<close>

section \<open>Interfaces\<close>

type_synonym 's BlockReader = "string \<Rightarrow> string \<Rightarrow> 's \<Rightarrow> (go_error + bytes) \<times> 's"

record ScanResult =
  sr_Status :: string
  sr_VirusName :: string

record VideoVariant =
  vv_Label :: string
  vv_MimeType :: string
  vv_Data :: bytes

type_synonym 's Scanner = "bytes \<Rightarrow> 's \<Rightarrow> (go_error + ScanResult) \<times> 's"
type_synonym 's TextExtractor = "bytes \<Rightarrow> 's \<Rightarrow> (go_error + string) \<times> 's"
type_synonym 's Embedder = "bytes \<Rightarrow> 's \<Rightarrow> (go_error + nat) \<times> 's"

text \<open>Of an embedding only its dimension is used.\<close>

record 's VideoProcessor =
  vp_GenerateThumbnail :: "bytes \<Rightarrow> 's \<Rightarrow> (go_error + bytes \<times> string) \<times> 's"
  vp_GenerateVariants :: "bytes \<Rightarrow> 's \<Rightarrow> (go_error + VideoVariant list) \<times> 's"

definition IsImageMimeType :: "string \<Rightarrow> bool" where
  "IsImageMimeType mime \<longleftrightarrow> mime \<in> set [''image/jpeg'', ''image/png'', ''image/gif'', ''image/webp'', ''image/tiff'', ''image/bmp'',
     ''image/svg+xml'', ''application/pdf'']"

definition IsVideoMimeType :: "string \<Rightarrow> bool" where
  "IsVideoMimeType mime \<longleftrightarrow> mime \<in> set [''video/mp4'', ''video/webm'', ''video/ogg'', ''video/quicktime'', ''video/x-msvideo'',
     ''video/x-matroska'', ''video/mpeg'']"

definition IsAudioMimeType :: "string \<Rightarrow> bool" where
  "IsAudioMimeType mime \<longleftrightarrow> mime \<in> set [''audio/mpeg'', ''audio/ogg'', ''audio/wav'', ''audio/webm'', ''audio/flac'', ''audio/aac'']"

definition IsEmbeddableMimeType :: "string \<Rightarrow> bool" where
  "IsEmbeddableMimeType mime \<longleftrightarrow> IsImageMimeType mime \<or> IsVideoMimeType mime \<or> IsAudioMimeType mime \<or>
     mime = ''application/pdf'' \<or> mime = ''text/plain'' \<or> mime = ''text/markdown''"

text \<open>A call that may fail, with the message that wraps its error.\<close>

definition tool :: "string \<Rightarrow> ('s \<Rightarrow> (go_error + 'a) \<times> 's) \<Rightarrow> ('a \<Rightarrow> 's \<Rightarrow> (go_error + 'b) \<times> 's) \<Rightarrow> 's \<Rightarrow> (go_error + 'b) \<times> 's" where
  "tool msg call k s = (case call s of (Inl e, s1) \<Rightarrow> (Inl (wrapf msg e), s1) | (Inr a, s1) \<Rightarrow> k a s1)"

lemma tool_simps:
  "call s = (Inl e, s1) \<Longrightarrow> tool msg call k s = (Inl (wrapf msg e), s1)"
  "call s = (Inr a, s1) \<Longrightarrow> tool msg call k s = k a s1"
  by (simp_all add: tool_def)

text \<open>The prologue the four workers share: an event with no chunks is an error, otherwise the first chunk is read.\<close>

definition first_chunk ::
  "string \<Rightarrow> 's BlockReader \<Rightarrow> Event \<Rightarrow> (bytes \<Rightarrow> 's \<Rightarrow> (go_error + 'b) \<times> 's) \<Rightarrow> 's \<Rightarrow> (go_error + 'b) \<times> 's" where
  "first_chunk name reader event k s =
     (case ev_Chunks event of
        [] \<Rightarrow> (Inl (errorf (name @ '': no chunks in event'')), s)
      | c # _ \<Rightarrow> tool (name @ '': read block: '') (reader (ev_TenantID event) (cd_BlockHash c)) k s)"

section \<open>Malware scan\<close>

definition ClamAV_Process :: "instant \<Rightarrow> 's Scanner \<Rightarrow> 's BlockReader \<Rightarrow> Event \<Rightarrow> 's \<Rightarrow> (go_error + ProcessingResult) \<times> 's" where
  "ClamAV_Process now scanner reader event =
     first_chunk ''clamav'' reader event (\<lambda>d.
       tool ''clamav: scan: '' (scanner d) (\<lambda>r s.
         (Inr (if sr_Status r = ''INFECTED''
               then NewFailedResult now (ev_VersionID event) ''clamav'' (Some (errorf (''malware detected: '' @ sr_VirusName r)))
               else NewSuccessResult now (ev_VersionID event) ''clamav''
                      [(''scan_status'', JString (sr_Status r)), (''scanned_bytes'', JInt (int (length d)))]), s)))"

fun scan_chunks ::
  "instant \<Rightarrow> 's Scanner \<Rightarrow> 's BlockReader \<Rightarrow> Event \<Rightarrow> ChunkDetail list \<Rightarrow> int \<Rightarrow> 's \<Rightarrow> (go_error + ProcessingResult) \<times> 's" where
  "scan_chunks now scanner reader event [] totalScanned s =
     (Inr (NewSuccessResult now (ev_VersionID event) ''clamav''
        [(''scan_status'', JString ''CLEAN''), (''chunks_scanned'', JInt (int (length (ev_Chunks event)))),
         (''total_bytes'', JInt totalScanned)]), s)"
| "scan_chunks now scanner reader event (c # cs) totalScanned s =
     tool (''clamav: read block '' @ cd_BlockHash c @ '': '') (reader (ev_TenantID event) (cd_BlockHash c)) (\<lambda>d.
       tool (''clamav: scan block '' @ cd_BlockHash c @ '': '') (scanner d) (\<lambda>r s.
         if sr_Status r = ''INFECTED''
         then (Inr (NewFailedResult now (ev_VersionID event) ''clamav''
                 (Some (errorf (''malware detected in chunk '' @ Itoa (cd_Index c) @ '': '' @ sr_VirusName r)))), s)
         else scan_chunks now scanner reader event cs (totalScanned + int (length d)) s)) s"

definition ScanAllChunks :: "instant \<Rightarrow> 's Scanner \<Rightarrow> 's BlockReader \<Rightarrow> Event \<Rightarrow> 's \<Rightarrow> (go_error + ProcessingResult) \<times> 's" where
  "ScanAllChunks now scanner reader event = scan_chunks now scanner reader event (ev_Chunks event) 0"

definition NewClamAVWorker :: "instant \<Rightarrow> 's Scanner \<Rightarrow> 's BlockReader \<Rightarrow> 's Worker" where
  "NewClamAVWorker now scanner reader =
     \<lparr>wk_Name = ''clamav'', wk_ShouldProcess = (\<lambda>_. True), wk_Process = ClamAV_Process now scanner reader\<rparr>"

section \<open>Text extraction\<close>

text \<open>The runes of a string, each as the bytes that encode it: a byte that begins no valid encoding is
  replaced by the encoding of U+FFFD, as a conversion to \<^verbatim>\<open>[]rune\<close> and back does.\<close>

definition replacement :: string where
  "replacement = [CHR 0xEF, CHR 0xBF, CHR 0xBD]"

definition between :: "nat \<Rightarrow> nat \<Rightarrow> char \<Rightarrow> bool" where
  "between a b c \<longleftrightarrow> a \<le> code c \<and> code c \<le> b"

definition rune_length :: "string \<Rightarrow> nat" where
  "rune_length s =
     (case s of
        [] \<Rightarrow> 0
      | b # r \<Rightarrow>
          if code b < 0x80 then 1
          else if between 0xC2 0xDF b \<and> r \<noteq> [] \<and> between 0x80 0xBF (r ! 0) then 2
          else if between 0xE0 0xEF b \<and> length r \<ge> 2 \<and>
                  between (if code b = 0xE0 then 0xA0 else 0x80) (if code b = 0xED then 0x9F else 0xBF) (r ! 0) \<and>
                  between 0x80 0xBF (r ! 1) then 3
          else if between 0xF0 0xF4 b \<and> length r \<ge> 3 \<and>
                  between (if code b = 0xF0 then 0x90 else 0x80) (if code b = 0xF4 then 0x8F else 0xBF) (r ! 0) \<and>
                  between 0x80 0xBF (r ! 1) \<and> between 0x80 0xBF (r ! 2) then 4
          else 0)"

function runes :: "string \<Rightarrow> string list" where
  "runes [] = []"
| "runes (b # r) =
     (let n = rune_length (b # r)
      in if n = 0 then replacement # runes r else take n (b # r) # runes (drop n (b # r)))"
  by pat_completeness auto
termination
  by (relation "measure length") auto

definition truncateText :: "string \<Rightarrow> nat \<Rightarrow> string" where
  "truncateText s n = (if length (runes s) \<le> n then s else concat (take n (runes s)) @ ''...'')"

definition OCR_Process :: "instant \<Rightarrow> 's TextExtractor \<Rightarrow> 's BlockReader \<Rightarrow> Event \<Rightarrow> 's \<Rightarrow> (go_error + ProcessingResult) \<times> 's" where
  "OCR_Process now extractor reader event =
     first_chunk ''ocr'' reader event (\<lambda>d.
       tool ''ocr: extract text: '' (extractor d) (\<lambda>t s.
         (Inr (NewSuccessResult now (ev_VersionID event) ''ocr''
            [(''extracted_text_length'', JInt (int (length t))), (''extracted_text_preview'', JString (truncateText t 500)),
             (''source_mime_type'', JString (ev_MimeType event))]), s)))"

definition NewOCRWorker :: "instant \<Rightarrow> 's TextExtractor \<Rightarrow> 's BlockReader \<Rightarrow> 's Worker" where
  "NewOCRWorker now extractor reader =
     \<lparr>wk_Name = ''ocr'', wk_ShouldProcess = (\<lambda>e. IsImageMimeType (ev_MimeType e)), wk_Process = OCR_Process now extractor reader\<rparr>"

section \<open>Video and embeddings\<close>

definition FFmpeg_Process :: "instant \<Rightarrow> 's VideoProcessor \<Rightarrow> 's BlockReader \<Rightarrow> Event \<Rightarrow> 's \<Rightarrow> (go_error + ProcessingResult) \<times> 's" where
  "FFmpeg_Process now processor reader event =
     first_chunk ''ffmpeg'' reader event (\<lambda>d.
       tool ''ffmpeg: thumbnail: '' (vp_GenerateThumbnail processor d) (\<lambda>(thumbData, thumbMime).
         tool ''ffmpeg: variants: '' (vp_GenerateVariants processor d) (\<lambda>variants s.
           (Inr (NewSuccessResult now (ev_VersionID event) ''ffmpeg''
              [(''thumbnail_size_bytes'', JInt (int (length thumbData))), (''thumbnail_mime_type'', JString thumbMime),
               (''variant_count'', JInt (int (length variants))), (''variant_labels'', JStrings (map vv_Label variants)),
               (''source_duration_hint'', JString ''unknown'')]), s))))"

definition NewFFmpegWorker :: "instant \<Rightarrow> 's VideoProcessor \<Rightarrow> 's BlockReader \<Rightarrow> 's Worker" where
  "NewFFmpegWorker now processor reader =
     \<lparr>wk_Name = ''ffmpeg'', wk_ShouldProcess = (\<lambda>e. IsVideoMimeType (ev_MimeType e)), wk_Process = FFmpeg_Process now processor reader\<rparr>"

definition VectorEmbed_Process :: "instant \<Rightarrow> 's Embedder \<Rightarrow> 's BlockReader \<Rightarrow> Event \<Rightarrow> 's \<Rightarrow> (go_error + ProcessingResult) \<times> 's" where
  "VectorEmbed_Process now embedder reader event =
     first_chunk ''vector-embed'' reader event (\<lambda>d.
       tool ''vector-embed: embed: '' (embedder d) (\<lambda>dim s.
         (Inr (NewSuccessResult now (ev_VersionID event) ''vector-embed''
            [(''embedding_dim'', JInt (int dim)), (''source_bytes'', JInt (int (length d))),
             (''source_mime_type'', JString (ev_MimeType event))]), s)))"

definition NewVectorEmbedWorker :: "instant \<Rightarrow> 's Embedder \<Rightarrow> 's BlockReader \<Rightarrow> 's Worker" where
  "NewVectorEmbedWorker now embedder reader =
     \<lparr>wk_Name = ''vector-embed'', wk_ShouldProcess = (\<lambda>e. IsEmbeddableMimeType (ev_MimeType e)), wk_Process = VectorEmbed_Process now embedder reader\<rparr>"

section \<open>The ingestion server's wiring\<close>

text \<open>The block reader asks the database for the size of the block, under the operation class \<open>derivation\<close>; the content is
  never fetched. \<open>sizes\<close> is the answer of the query, \<open>db_msg\<close> the text and chain of a database error.\<close>

type_synonym 'x db_state = "DatabaseClient \<times> 'x"

definition dbBlockReader_ReadBlock ::
  "'x driver \<Rightarrow> instant \<Rightarrow> (db_error \<Rightarrow> go_error) \<Rightarrow> (string \<Rightarrow> pool \<Rightarrow> 'x \<Rightarrow> (db_error + (db_error + int) list) \<times> 'x) \<Rightarrow> 'x db_state BlockReader" where
  "dbBlockReader_ReadBlock D now db_msg sizes tenantID blockHash st =
     (case queryRouted D now ''derivation'' (sizes blockHash) (fst st) (snd st) of
        (Inl e, c, x) \<Rightarrow> (Inl (wrapf ''read block: '' (db_msg e)), (c, x))
      | (Inr rows, c, x) \<Rightarrow>
          (case rows of
             [] \<Rightarrow> (Inl (errorf (''block not found: '' @ blockHash)), (c, x))
           | Inl e # _ \<Rightarrow> (Inl (wrapf ''scan block size: '' (db_msg e)), (c, x))
           | Inr sizeBytes # _ \<Rightarrow> (Inl (errorf ''block content not available via DB; use object storage reader''), (c, x))))"

definition noopScanner_Scan :: "'s Scanner" where
  "noopScanner_Scan d s = (Inr \<lparr>sr_Status = ''CLEAN'', sr_VirusName = ''''\<rparr>, s)"

definition noopTextExtractor_ExtractText :: "'s TextExtractor" where
  "noopTextExtractor_ExtractText d s = (Inr '''', s)"

definition noopVideoProcessor :: "'s VideoProcessor" where
  "noopVideoProcessor = \<lparr>vp_GenerateThumbnail = (\<lambda>d s. (Inr ([], ''image/jpeg''), s)), vp_GenerateVariants = (\<lambda>d s. (Inr [], s))\<rparr>"

definition noopEmbedder_Embed :: "'s Embedder" where
  "noopEmbedder_Embed d s = (Inr 0, s)"

definition derivationWorkers :: "instant \<Rightarrow> 's BlockReader \<Rightarrow> 's Worker list" where
  "derivationWorkers now blockReader =
     [NewClamAVWorker now noopScanner_Scan blockReader, NewOCRWorker now noopTextExtractor_ExtractText blockReader,
      NewFFmpegWorker now noopVideoProcessor blockReader, NewVectorEmbedWorker now noopEmbedder_Embed blockReader]"

section \<open>What a worker promises and what the pool makes of it\<close>

text \<open>A result is well formed for a worker and an event when it names both and has one of the two statuses a worker
  reports.\<close>

definition result_typed :: "string \<Rightarrow> Event \<Rightarrow> ProcessingResult \<Rightarrow> bool" where
  "result_typed name event r \<longleftrightarrow>
     pr_VersionID r = ev_VersionID event \<and> pr_WorkerName r = name \<and> pr_Status r \<in> {StatusSuccess, StatusFailed} \<and>
     (pr_Status r = StatusSuccess \<longleftrightarrow> pr_ResultData r \<noteq> None)"

lemma NewFailedResult_typed [simp]: "result_typed name event (NewFailedResult now (ev_VersionID event) name err)"
  by (simp add: result_typed_def NewFailedResult_def StatusFailed_def StatusSuccess_def)

lemma NewSuccessResult_typed [simp]: "result_typed name event (NewSuccessResult now (ev_VersionID event) name d)"
  by (simp add: result_typed_def NewSuccessResult_def)

lemma result_typed_erase [simp]: "result_typed name event (erase_id r) \<longleftrightarrow> result_typed name event r"
  by (simp add: result_typed_def erase_id_def)

lemma result_typed_id [simp]: "result_typed name event (r\<lparr>pr_ResultID := i\<rparr>) \<longleftrightarrow> result_typed name event r"
  by (simp add: result_typed_def)

lemma result_typed_valid:
  "result_typed name event r \<Longrightarrow> name \<noteq> '''' \<Longrightarrow> ev_VersionID event \<noteq> '''' \<Longrightarrow> ValidateResult r = None"
  by (auto simp: result_typed_def ValidateResult_def StatusSuccess_def StatusFailed_def)

locale derivation_worker =
  fixes w :: "'s Worker"
  assumes named: "wk_Name w \<noteq> ''''"
    and typed: "wk_Process w event s = (Inr r, s') \<Longrightarrow> result_typed (wk_Name w) event r"
begin

lemma part_typed: "worker_part cfg am w event s = ((dl, r), s') \<Longrightarrow> result_typed (wk_Name w) event r"
  using typed by (auto simp: worker_part_def split: prod.splits sum.splits if_splits)

lemma processed_typed: "processWithRetry am w event s p = (r, s', p') \<Longrightarrow> result_typed (wk_Name w) event r"
  using part_typed by (auto simp: processWithRetry_def number_result_def split: prod.splits)

end

text \<open>The four workers keep the contract, whatever tools and block reader they are given.\<close>

lemma first_chunk_Inr:
  "first_chunk name reader event k s = (Inr r, s') \<Longrightarrow> \<exists>d s1. k d s1 = (Inr r, s')"
  by (auto simp: first_chunk_def tool_def split: list.splits prod.splits sum.splits)

lemma tool_Inr: "tool msg call k s = (Inr r, s') \<Longrightarrow> \<exists>a s1. k a s1 = (Inr r, s')"
  by (auto simp: tool_def split: prod.splits sum.splits)

interpretation clamav: derivation_worker "NewClamAVWorker now scanner reader" for now scanner reader
  by unfold_locales (auto simp: NewClamAVWorker_def ClamAV_Process_def dest!: first_chunk_Inr tool_Inr)

interpretation ocr: derivation_worker "NewOCRWorker now extractor reader" for now extractor reader
  by unfold_locales (auto simp: NewOCRWorker_def OCR_Process_def dest!: first_chunk_Inr tool_Inr)

interpretation ffmpeg: derivation_worker "NewFFmpegWorker now processor reader" for now processor reader
  by unfold_locales
    (auto simp: NewFFmpegWorker_def FFmpeg_Process_def split_def dest!: first_chunk_Inr tool_Inr)

interpretation vector_embed: derivation_worker "NewVectorEmbedWorker now embedder reader" for now embedder reader
  by unfold_locales (auto simp: NewVectorEmbedWorker_def VectorEmbed_Process_def dest!: first_chunk_Inr tool_Inr)

lemma process_all_typed:
  assumes "process_all js event p = (rs, p')" and "\<And>w s am. (w, s, am) \<in> set js \<Longrightarrow> derivation_worker w"
  shows "list_all2 (\<lambda>j r. result_typed (wk_Name (fst j)) event r) js rs"
  using assms
proof (induction js event p arbitrary: rs rule: process_all.induct)
  case (2 w s am js event p)
  obtain r s1 p1 rs1 where one: "processWithRetry am w event s p = (r, s1, p1)" and rest: "process_all js event p1 = (rs1, p')"
      and rs: "rs = r # rs1"
    using "2.prems"(1) by (auto split: prod.splits)
  have "list_all2 (\<lambda>j r. result_typed (wk_Name (fst j)) event r) js rs1"
    using one rest "2.prems"(2) by (intro "2.IH") auto
  moreover have "result_typed (wk_Name w) event r"
    using derivation_worker.processed_typed [OF "2.prems"(2) [OF list.set_intros(1)] one] by simp
  ultimately show ?case
    by (simp add: rs)
qed simp

lemma jobs_mem: "(w, s, am) \<in> set (jobs ws ams event) \<Longrightarrow> (w, s) \<in> set ws \<and> wk_ShouldProcess w event"
proof -
  assume mem: "(w, s, am) \<in> set (jobs ws ams event)"
  let ?f = "filter (\<lambda>(w, s). wk_ShouldProcess w event) ws"
  obtain i where "i < length ?f" "(w, s) = ?f ! i"
    using mem by (auto simp: jobs_def Let_def)
  then have "(w, s) \<in> set ?f"
    by (metis nth_mem)
  then show ?thesis
    by simp
qed

text \<open>A worker whose \<^verbatim>\<open>Process\<close> always fails ends in the dead letter queue with a failed result.\<close>

definition always_fails :: "'s Worker \<Rightarrow> Event \<Rightarrow> bool" where
  "always_fails w event \<longleftrightarrow> (\<forall>s. \<exists>e s'. wk_Process w event s = (Inl e, s'))"

lemma run_attempts_fails:
  assumes "always_fails w event" and "run_attempts (attempt_fn w event) a n s = (rs, s')" and "r \<in> set rs"
  shows "r \<noteq> None"
  using assms(2,3)
proof (induction n arbitrary: a s rs)
  case (Suc n)
  obtain e s1 where "wk_Process w event s = (Inl e, s1)"
    using assms(1) unfolding always_fails_def by blast
  then have "attempt_fn w event a s = (Some e, s1)"
    by (simp add: attempt_fn_def)
  then show ?case
    using Suc by (auto split: prod.splits)
qed simp

lemma always_fails_part:
  assumes "always_fails w event" and "worker_part cfg am w event s = ((dl, r), s')"
  shows "pr_Status r = StatusFailed" and "dl \<noteq> None"
proof -
  obtain rr waits s1 where run: "RetryWithBackoff cfg (am_cancelled am) (am_ctxErr am) (attempt_fn w event) s = (rr, waits, s1)"
    by (metis prod_cases3)
  have "1 \<le> rc_MaxAttempts (Retry_applyDefaults cfg)"
    by (simp add: Retry_applyDefaults_def)
  then obtain rs where calls: "run_attempts (attempt_fn w event) 1 (Suc (length waits)) s = (rs, s1)"
      and pr: "retry_promise (Retry_applyDefaults cfg) (am_cancelled am) (am_ctxErr am) 1 rs rr waits"
    using retry_loop_promise [OF run [unfolded RetryWithBackoff_def]] by blast
  have "last rs \<in> set rs"
    using pr by (intro last_in_set) (auto simp: retry_promise_def)
  then have "\<not> rr_Success rr"
    using pr run_attempts_fails [OF assms(1) calls] by (simp add: retry_promise_def)
  then show "pr_Status r = StatusFailed" and "dl \<noteq> None"
    using assms(2) run by (auto simp: worker_part_def NewFailedResult_def)
qed

lemma always_fails_processed:
  assumes "always_fails w event" and "processWithRetry am w event s p = (r, s', p')"
  shows "pr_Status r = StatusFailed" and "length (mq_entries (wp_dlq p')) = Suc (length (mq_entries (wp_dlq p)))"
proof -
  obtain dl r0 s0 where part: "worker_part (wp_retry p) am w event s = ((dl, r0), s0)"
    by (metis prod.exhaust)
  note fails = always_fails_part [OF assms(1) part]
  show "pr_Status r = StatusFailed" and "length (mq_entries (wp_dlq p')) = Suc (length (mq_entries (wp_dlq p)))"
    using assms(2) part fails
    by (auto simp: processWithRetry_def saveResult_def pool_parts Let_def split: prod.splits option.splits)
qed

lemma process_all_fails:
  assumes "process_all js event p = (rs, p')" and "\<And>w s am. (w, s, am) \<in> set js \<Longrightarrow> always_fails w event"
  shows "list_all (\<lambda>r. pr_Status r = StatusFailed) rs \<and> length (mq_entries (wp_dlq p')) = length (mq_entries (wp_dlq p)) + length rs"
  using assms
proof (induction js event p arbitrary: rs rule: process_all.induct)
  case (2 w s am js event p)
  obtain r s1 p1 rs1 where one: "processWithRetry am w event s p = (r, s1, p1)" and rest: "process_all js event p1 = (rs1, p')"
      and rs: "rs = r # rs1"
    using "2.prems"(1) by (auto split: prod.splits)
  have "list_all (\<lambda>r. pr_Status r = StatusFailed) rs1 \<and> length (mq_entries (wp_dlq p')) = length (mq_entries (wp_dlq p1)) + length rs1"
    using one rest "2.prems"(2) by (intro "2.IH") auto
  then show ?case
    using always_fails_processed [OF "2.prems"(2) [OF list.set_intros(1)] one] by (simp add: rs)
qed simp

text \<open>A reader that always fails, without effect.\<close>

definition dead_reader :: "'s BlockReader \<Rightarrow> bool" where
  "dead_reader reader \<longleftrightarrow> (\<forall>t h s. \<exists>e. reader t h s = (Inl e, s))"

lemma first_chunk_fails:
  assumes "dead_reader reader"
  shows "\<exists>e s'. first_chunk name reader event k s = (Inl e, s')"
proof (cases "ev_Chunks event")
  case (Cons c cs)
  obtain e where "reader (ev_TenantID event) (cd_BlockHash c) s = (Inl e, s)"
    using assms unfolding dead_reader_def by blast
  then show ?thesis
    by (simp add: first_chunk_def Cons tool_def)
qed (simp add: first_chunk_def)

lemma derivationWorkers_fail:
  assumes "dead_reader reader" and "w \<in> set (derivationWorkers now reader)"
  shows "always_fails w event"
  using assms(2) first_chunk_fails [OF assms(1)]
  by (auto simp: always_fails_def derivationWorkers_def NewClamAVWorker_def ClamAV_Process_def NewOCRWorker_def OCR_Process_def
      NewFFmpegWorker_def FFmpeg_Process_def NewVectorEmbedWorker_def VectorEmbed_Process_def)

lemma dbBlockReader_dead: "dead_reader (dbBlockReader_ReadBlock D now db_msg sizes)"
  by (simp add: dead_reader_def dbBlockReader_ReadBlock_def queryRouted_def pickPool_def op_class_defs)

section \<open>Scan verdicts\<close>

lemma scan_chunks_verdict:
  assumes "reader = (\<lambda>t h s. (Inr (content h), s))" and "scanner = (\<lambda>d s. (Inr (verdict d), s))"
  shows "\<exists>r. scan_chunks now scanner reader event cs n s = (Inr r, s) \<and>
    (pr_Status r = StatusFailed \<longleftrightarrow> list_ex (\<lambda>c. sr_Status (verdict (content (cd_BlockHash c))) = ''INFECTED'') cs)"
  using assms
  by (induction cs arbitrary: n)
    (auto simp: tool_def NewFailedResult_def NewSuccessResult_def StatusFailed_def StatusSuccess_def)

section \<open>Properties\<close>

definition four_workers ::
  "instant \<Rightarrow> 's BlockReader \<Rightarrow> 's Scanner \<Rightarrow> 's TextExtractor \<Rightarrow> 's VideoProcessor \<Rightarrow> 's Embedder \<Rightarrow> 's Worker list" where
  "four_workers now reader scanner extractor processor embedder =
     [NewClamAVWorker now scanner reader, NewOCRWorker now extractor reader, NewFFmpegWorker now processor reader,
      NewVectorEmbedWorker now embedder reader]"

lemma four_workers_contract:
  "w \<in> set (four_workers now reader scanner extractor processor embedder) \<Longrightarrow>
     derivation_worker w \<and> wk_Name w \<in> {''clamav'', ''ocr'', ''ffmpeg'', ''vector-embed''}"
  using clamav.derivation_worker_axioms ocr.derivation_worker_axioms ffmpeg.derivation_worker_axioms vector_embed.derivation_worker_axioms
  by (auto simp: four_workers_def NewClamAVWorker_def NewOCRWorker_def NewFFmpegWorker_def NewVectorEmbedWorker_def)

text \<open>C35. However the goroutines interleave, and whatever the tools and the block reader do, every result that the pool of
  the four workers returns for an event names one of the workers and the event's version, is a success with data or a failure
  without, and passes the validation of results.\<close>

theorem pool_results_typed:
  assumes "js = jobs (map (\<lambda>w. (w, s0)) (four_workers now reader scanner extractor processor embedder)) ams event"
    and "(pool_step js event)\<^sup>*\<^sup>* (spawn js p) c" and "all_returned c" and "r \<in> set (run_results c)" and "ev_VersionID event \<noteq> ''''"
  shows "ValidateResult r = None \<and> pr_VersionID r = ev_VersionID event \<and>
    pr_WorkerName r \<in> {''clamav'', ''ocr'', ''ffmpeg'', ''vector-embed''} \<and> pr_Status r \<in> {StatusSuccess, StatusFailed} \<and>
    (pr_Status r = StatusSuccess \<longleftrightarrow> pr_ResultData r \<noteq> None)"
proof -
  obtain rs p' where seq: "process_all js event p = (rs, p')"
    by fastforce
  have contract: "derivation_worker w \<and> wk_Name w \<in> {''clamav'', ''ocr'', ''ffmpeg'', ''vector-embed''}" if "(w, s, am) \<in> set js" for w s am
    using jobs_mem [OF that [unfolded assms(1)]] by (intro four_workers_contract) auto
  have all: "list_all2 (\<lambda>j r. result_typed (wk_Name (fst j)) event r) js rs"
    using process_all_typed [OF seq] contract by blast
  have "erase_id r \<in> set (map erase_id (run_results c))"
    using assms(4) by simp
  also have "\<dots> = set (map erase_id rs)"
    using observed_eq(1) [OF interleaving_observed(1) [OF assms(2,3) seq]] by (metis set_mset_mset)
  finally obtain r' where "r' \<in> set rs" and same: "erase_id r = erase_id r'"
    by auto
  then obtain i where "i < length rs" "r' = rs ! i"
    by (metis in_set_conv_nth)
  then have "i < length js" "result_typed (wk_Name (fst (js ! i))) event r'"
    using all by (auto simp: list_all2_conv_all_nth)
  moreover have "(fst (js ! i), fst (snd (js ! i)), snd (snd (js ! i))) \<in> set js" if "i < length js"
    using that by simp
  ultimately have "result_typed (wk_Name (fst (js ! i))) event r" and "wk_Name (fst (js ! i)) \<in> {''clamav'', ''ocr'', ''ffmpeg'', ''vector-embed''}"
    using contract result_typed_erase same by metis+
  then show ?thesis
    using result_typed_valid [OF _ _ assms(5)] by (auto simp: result_typed_def)
qed

text \<open>With the block reader that the ingestion server installs, every derivation fails: for every event each applicable
  worker ends with a failed result and a dead letter, and there is at least one, because the reader queries the
  database under an operation class that is routed to no pool, and would not return content if it were.\<close>

theorem ingest_derivations_fail:
  assumes "ws = map (\<lambda>w. (w, s0)) (derivationWorkers now (dbBlockReader_ReadBlock D now' db_msg sizes))"
    and "ProcessEvent ws ams event p = (rs, p')"
  shows "rs \<noteq> [] \<and> (\<forall>r \<in> set rs. pr_Status r = StatusFailed) \<and>
    length (mq_entries (wp_dlq p')) = length (mq_entries (wp_dlq p)) + length rs"
proof -
  let ?js = "jobs ws ams event"
  have seq: "process_all ?js event (count_event p) = (rs, p')"
    using assms(2) by (simp add: ProcessEvent_def)
  have "always_fails w event" if "(w, s, am) \<in> set ?js" for w s am
    using jobs_mem [OF that] derivationWorkers_fail [OF dbBlockReader_dead] assms(1) by auto
  then have "list_all (\<lambda>r. pr_Status r = StatusFailed) rs \<and>
      length (mq_entries (wp_dlq p')) = length (mq_entries (wp_dlq (count_event p))) + length rs"
    using process_all_fails [OF seq] by blast
  moreover have "length rs = length ?js"
    by (rule process_all_length [OF seq])
  moreover have "?js \<noteq> []"
    by (simp add: assms(1) jobs_def derivationWorkers_def NewClamAVWorker_def Let_def)
  ultimately show ?thesis
    by (auto simp: list_all_iff count_event_def)
qed

text \<open>With tools that answer, the scan that the pool runs reports malware exactly when the first chunk is
  infected, and the scan of all chunks, which nothing calls, exactly when some chunk is.\<close>

theorem clamav_verdicts:
  assumes "reader = (\<lambda>t h s. (Inr (content h), s))" and "scanner = (\<lambda>d s. (Inr (verdict d), s))" and "ev_Chunks event = c # cs"
  shows "\<exists>r r'. wk_Process (NewClamAVWorker now scanner reader) event s = (Inr r, s) \<and> ScanAllChunks now scanner reader event s = (Inr r', s) \<and>
    (pr_Status r = StatusFailed \<longleftrightarrow> sr_Status (verdict (content (cd_BlockHash c))) = ''INFECTED'') \<and>
    (pr_Status r' = StatusFailed \<longleftrightarrow> (\<exists>c \<in> set (ev_Chunks event). sr_Status (verdict (content (cd_BlockHash c))) = ''INFECTED''))"
proof -
  obtain r' where "ScanAllChunks now scanner reader event s = (Inr r', s)"
    "pr_Status r' = StatusFailed \<longleftrightarrow> (\<exists>c \<in> set (ev_Chunks event). sr_Status (verdict (content (cd_BlockHash c))) = ''INFECTED'')"
    using scan_chunks_verdict [OF assms(1,2), of now event "ev_Chunks event" 0 s] by (auto simp: ScanAllChunks_def list_ex_iff)
  moreover have "\<exists>r. wk_Process (NewClamAVWorker now scanner reader) event s = (Inr r, s) \<and>
      (pr_Status r = StatusFailed \<longleftrightarrow> sr_Status (verdict (content (cd_BlockHash c))) = ''INFECTED'')"
    by (simp add: assms NewClamAVWorker_def ClamAV_Process_def first_chunk_def tool_def NewFailedResult_def NewSuccessResult_def
        StatusFailed_def StatusSuccess_def)
  ultimately show ?thesis
    by blast
qed

subsection \<open>Concrete runs\<close>

definition demo_chunk :: "string \<Rightarrow> ChunkDetail" where
  "demo_chunk h = \<lparr>cd_Index = 0, cd_BlockHash = h, cd_SizeBytes = 1, cd_OffsetBytes = 0\<rparr>"

definition scan_event :: Event where
  "scan_event = demo_event\<lparr>ev_Chunks := [demo_chunk ''good'', demo_chunk ''evil'']\<rparr>"

definition demo_content :: "string \<Rightarrow> bytes" where
  "demo_content h = (if h = ''evil'' then [1] else [0])"

definition demo_verdict :: "bytes \<Rightarrow> ScanResult" where
  "demo_verdict d = (if d = [1] then \<lparr>sr_Status = ''INFECTED'', sr_VirusName = ''eicar''\<rparr> else \<lparr>sr_Status = ''CLEAN'', sr_VirusName = ''''\<rparr>)"

theorem clamav_verdicts_witness:
  "\<exists>r r'. wk_Process (NewClamAVWorker 0 (\<lambda>d s. (Inr (demo_verdict d), s)) (\<lambda>t h s. (Inr (demo_content h), s))) scan_event () = (Inr r, ()) \<and>
     ScanAllChunks 0 (\<lambda>d s. (Inr (demo_verdict d), s)) (\<lambda>t h s. (Inr (demo_content h), s)) scan_event () = (Inr r', ()) \<and>
     pr_Status r \<noteq> StatusFailed \<and> pr_Status r' = StatusFailed"
proof -
  have "ev_Chunks scan_event = demo_chunk ''good'' # [demo_chunk ''evil'']"
    by (simp add: scan_event_def)
  from clamav_verdicts [OF refl refl this, of 0 demo_verdict demo_content "()"] show ?thesis
    by (simp add: demo_content_def demo_verdict_def demo_chunk_def scan_event_def)
qed

theorem ingest_derivations_fail_witness:
  "\<exists>rs p'. ProcessEvent (map (\<lambda>w. (w, (demo_client, ()))) (derivationWorkers 0 (dbBlockReader_ReadBlock demo_driver 0 (\<lambda>_. errorf ''down'')
       (\<lambda>h p s. (Inr [Inr 1], s))))) (\<lambda>_. demo_ambient) scan_event demo_pool = (rs, p') \<and> rs \<noteq> [] \<and> (\<forall>r \<in> set rs. pr_Status r = StatusFailed)"
proof -
  let ?ws = "map (\<lambda>w. (w, (demo_client, ()))) (derivationWorkers 0 (dbBlockReader_ReadBlock demo_driver 0 (\<lambda>_. errorf ''down'')
       (\<lambda>h p s. (Inr [Inr 1], s))))"
  obtain rs p' where run: "ProcessEvent ?ws (\<lambda>_. demo_ambient) scan_event demo_pool = (rs, p')"
    by fastforce
  then show ?thesis
    using ingest_derivations_fail [OF refl run] by simp
qed

theorem pool_results_typed_witness:
  "\<exists>c. (pool_step (jobs (map (\<lambda>w. (w, ())) (four_workers 0 (\<lambda>t h s. (Inr [], s)) noopScanner_Scan noopTextExtractor_ExtractText
        noopVideoProcessor noopEmbedder_Embed)) (\<lambda>_. demo_ambient) scan_event) scan_event)\<^sup>*\<^sup>*
      (spawn (jobs (map (\<lambda>w. (w, ())) (four_workers 0 (\<lambda>t h s. (Inr [], s)) noopScanner_Scan noopTextExtractor_ExtractText
        noopVideoProcessor noopEmbedder_Embed)) (\<lambda>_. demo_ambient) scan_event) demo_pool) c \<and>
      list_all (\<lambda>r. ValidateResult r = None) (run_results c)"
proof -
  let ?js = "jobs (map (\<lambda>w. (w, ())) (four_workers 0 (\<lambda>t h s. (Inr [], s)) noopScanner_Scan noopTextExtractor_ExtractText
        noopVideoProcessor noopEmbedder_Embed)) (\<lambda>_. demo_ambient) scan_event"
  obtain c where c: "(pool_step ?js scan_event)\<^sup>*\<^sup>* (spawn ?js demo_pool) c" "all_returned c"
    using pool_completes [of "spawn ?js demo_pool" ?js scan_event] by (auto simp: spawn_def)
  have "ev_VersionID scan_event \<noteq> ''''"
    by (simp add: scan_event_def demo_event_def)
  then have "ValidateResult r = None" if "r \<in> set (run_results c)" for r
    using pool_results_typed [OF refl c that] by simp
  then show ?thesis
    using c(1) by (auto simp: list_all_iff)
qed

end
