(* ===== verification/Fakes.thy ===== *)
theory Fakes
  imports Workers
begin

text \<open>
  The in-memory tools of internal/workers/fakes.go and the derivation worker service that is built on them
  (cmd/worker/main.go). The tools only read their configuration, so their state \<open>'s\<close> is left alone; a Go map that is iterated
  is the list of its entries in the order of iteration. Of an embedding vector only the length is kept.
\<close>

definition bytes_string :: "bytes \<Rightarrow> string" where
  "bytes_string = map (\<lambda>b. char_of (unat b))"

section \<open>The tools\<close>

record FakeScanner =
  fsc_Infected :: "(string \<times> string) list"
  fsc_ScanErr :: "go_error option"

definition NewFakeScanner :: FakeScanner where
  "NewFakeScanner = \<lparr>fsc_Infected = [], fsc_ScanErr = None\<rparr>"

definition eicar :: string where
  "eicar = ''X5O!P%@AP[4'' @ [CHR 0x5C] @ ''PZX54(P^)7CC)7}$EICAR''"

definition FakeScanner_Scan :: "FakeScanner \<Rightarrow> 's Scanner" where
  "FakeScanner_Scan f d s =
     (case fsc_ScanErr f of
        Some e \<Rightarrow> (Inl e, s)
      | None \<Rightarrow>
          let content = bytes_string d
          in if Contains content eicar then (Inr \<lparr>sr_Status = ''INFECTED'', sr_VirusName = ''EICAR-Test-File''\<rparr>, s)
             else (case List.find (\<lambda>(hash, _). Contains content hash) (fsc_Infected f) of
                     Some (_, virus) \<Rightarrow> (Inr \<lparr>sr_Status = ''INFECTED'', sr_VirusName = virus\<rparr>, s)
                   | None \<Rightarrow> (Inr \<lparr>sr_Status = ''CLEAN'', sr_VirusName = ''''\<rparr>, s)))"

record FakeTextExtractor =
  fte_Texts :: "string \<Rightarrow> string option"
  fte_ExtractErr :: "go_error option"

definition NewFakeTextExtractor :: FakeTextExtractor where
  "NewFakeTextExtractor = \<lparr>fte_Texts = Map.empty, fte_ExtractErr = None\<rparr>"

definition FakeTextExtractor_ExtractText :: "FakeTextExtractor \<Rightarrow> 's TextExtractor" where
  "FakeTextExtractor_ExtractText f d s =
     (case fte_ExtractErr f of
        Some e \<Rightarrow> (Inl e, s)
      | None \<Rightarrow>
          (case fte_Texts f (bytes_string d) of
             Some t \<Rightarrow> (Inr t, s)
           | None \<Rightarrow> (Inr (''extracted-text-from-'' @ Itoa (int (length d)) @ ''-bytes''), s)))"

record FakeVideoProcessor =
  fvp_Thumbnails :: "string \<Rightarrow> bytes option"
  fvp_Variants :: "string \<Rightarrow> VideoVariant list option"
  fvp_ProcessErr :: "go_error option"

definition NewFakeVideoProcessor :: FakeVideoProcessor where
  "NewFakeVideoProcessor = \<lparr>fvp_Thumbnails = Map.empty, fvp_Variants = Map.empty, fvp_ProcessErr = None\<rparr>"

definition Fake_GenerateThumbnail :: "FakeVideoProcessor \<Rightarrow> bytes \<Rightarrow> 's \<Rightarrow> (go_error + bytes \<times> string) \<times> 's" where
  "Fake_GenerateThumbnail f d s =
     (case fvp_ProcessErr f of
        Some e \<Rightarrow> (Inl e, s)
      | None \<Rightarrow>
          (case fvp_Thumbnails f (bytes_string d) of
             Some t \<Rightarrow> (Inr (t, ''image/jpeg''), s)
           | None \<Rightarrow> (Inr (string_bytes (''fake-thumbnail-thumb-'' @ Itoa (int (length d))), ''image/jpeg''), s)))"

definition Fake_GenerateVariants :: "FakeVideoProcessor \<Rightarrow> bytes \<Rightarrow> 's \<Rightarrow> (go_error + VideoVariant list) \<times> 's" where
  "Fake_GenerateVariants f d s =
     (case fvp_ProcessErr f of
        Some e \<Rightarrow> (Inl e, s)
      | None \<Rightarrow>
          (case fvp_Variants f (bytes_string d) of
             Some vs \<Rightarrow> (Inr vs, s)
           | None \<Rightarrow>
               let key = ''var-'' @ Itoa (int (length d))
               in (Inr [\<lparr>vv_Label = ''720p'', vv_MimeType = ''video/mp4'', vv_Data = string_bytes (''variant-720p-'' @ key)\<rparr>,
                        \<lparr>vv_Label = ''480p'', vv_MimeType = ''video/mp4'', vv_Data = string_bytes (''variant-480p-'' @ key)\<rparr>], s)))"

definition FakeVideoProcessor_tool :: "FakeVideoProcessor \<Rightarrow> 's VideoProcessor" where
  "FakeVideoProcessor_tool f =
     \<lparr>vp_GenerateThumbnail = Fake_GenerateThumbnail f, vp_GenerateVariants = Fake_GenerateVariants f\<rparr>"

record FakeEmbedder =
  fem_Vectors :: "string \<Rightarrow> nat option"
  fem_EmbedErr :: "go_error option"

definition NewFakeEmbedder :: FakeEmbedder where
  "NewFakeEmbedder = \<lparr>fem_Vectors = Map.empty, fem_EmbedErr = None\<rparr>"

definition FakeEmbedder_Embed :: "FakeEmbedder \<Rightarrow> 's Embedder" where
  "FakeEmbedder_Embed f d s =
     (case fem_EmbedErr f of
        Some e \<Rightarrow> (Inl e, s)
      | None \<Rightarrow> (case fem_Vectors f (bytes_string d) of Some n \<Rightarrow> (Inr n, s) | None \<Rightarrow> (Inr 5, s)))"

record FakeBlockReader =
  fbr_Blocks :: "string \<Rightarrow> bytes option"
  fbr_ReadErr :: "go_error option"

definition NewFakeBlockReader :: FakeBlockReader where
  "NewFakeBlockReader = \<lparr>fbr_Blocks = Map.empty, fbr_ReadErr = None\<rparr>"

definition FakeBlockReader_ReadBlock :: "FakeBlockReader \<Rightarrow> 's BlockReader" where
  "FakeBlockReader_ReadBlock f tenant blockHash s =
     (case fbr_ReadErr f of
        Some e \<Rightarrow> (Inl e, s)
      | None \<Rightarrow>
          (case fbr_Blocks f blockHash of
             None \<Rightarrow> (Inl (errorf (''block not found: '' @ blockHash)), s)
           | Some d \<Rightarrow> (Inr d, s)))"

definition PutBlock :: "string \<Rightarrow> bytes \<Rightarrow> FakeBlockReader \<Rightarrow> FakeBlockReader" where
  "PutBlock hash d f = f\<lparr>fbr_Blocks := (fbr_Blocks f)(hash \<mapsto> d)\<rparr>"

section \<open>The worker service\<close>

text \<open>\<^verbatim>\<open>main\<close> of the worker service: three workers over fresh fake tools and an empty fake block reader.\<close>

definition serviceWorkers :: "instant \<Rightarrow> 's Worker list" where
  "serviceWorkers now =
     (let reader = FakeBlockReader_ReadBlock NewFakeBlockReader
      in [NewClamAVWorker now (FakeScanner_Scan NewFakeScanner) reader,
          NewOCRWorker now (FakeTextExtractor_ExtractText NewFakeTextExtractor) reader,
          NewFFmpegWorker now (FakeVideoProcessor_tool NewFakeVideoProcessor) reader])"

lemma NewFakeBlockReader_dead: "dead_reader (FakeBlockReader_ReadBlock NewFakeBlockReader)"
  by (simp add: dead_reader_def FakeBlockReader_ReadBlock_def NewFakeBlockReader_def)

text \<open>No event can be processed by the service: the reader has no block, whatever the event names.\<close>

lemma serviceWorkers_fail: "w \<in> set (serviceWorkers now) \<Longrightarrow> always_fails w event"
  using first_chunk_fails [OF NewFakeBlockReader_dead]
  by (auto simp: always_fails_def serviceWorkers_def Let_def NewClamAVWorker_def ClamAV_Process_def NewOCRWorker_def OCR_Process_def
      NewFFmpegWorker_def FFmpeg_Process_def)

text \<open>The reader gives back what was put last, and the scan finds a marked or an EICAR content.\<close>

lemma ReadBlock_PutBlock:
  "fbr_ReadErr f = None \<Longrightarrow> FakeBlockReader_ReadBlock (PutBlock h d f) t h' s =
     (if h' = h then (Inr d, s) else FakeBlockReader_ReadBlock f t h' s)"
  by (simp add: FakeBlockReader_ReadBlock_def PutBlock_def)

lemma FakeScanner_verdict:
  assumes "fsc_ScanErr f = None"
  shows "\<exists>r. FakeScanner_Scan f d s = (Inr r, s) \<and>
    (sr_Status r = ''INFECTED'' \<longleftrightarrow> Contains (bytes_string d) eicar \<or> (\<exists>(h, v) \<in> set (fsc_Infected f). Contains (bytes_string d) h))"
proof (cases "List.find (\<lambda>(hash, _). Contains (bytes_string d) hash) (fsc_Infected f)")
  case None
  then have "\<not> (\<exists>(h, v) \<in> set (fsc_Infected f). Contains (bytes_string d) h)"
    by (auto simp: find_None_iff simp del: Contains.simps)
  then show ?thesis
    using assms None by (simp add: FakeScanner_Scan_def Let_def del: Contains.simps)
next
  case (Some x)
  then have "\<exists>(h, v) \<in> set (fsc_Infected f). Contains (bytes_string d) h"
    by (auto simp: find_Some_iff simp del: Contains.simps) (metis nth_mem split_conv)
  then show ?thesis
    using assms Some by (cases x) (auto simp: FakeScanner_Scan_def Let_def simp del: Contains.simps)
qed

end
