(* ===== verification/EventFlow.thy ===== *)
theory EventFlow
  imports Fakes
begin

text \<open>
  The event transport (internal/events) and the change-data router (internal/cdc): the Kafka publisher, the router that turns an
  inserted version row into a derivation task, and the consumer that runs the worker pool on a task and routes failures to
  a dead letter topic. The Kafka package is an argument, as are the JSON codec and the formatting of times. The
  loops of the two services run until their context ends, so a run is given by the circumstances of its iterations.
\<close>

section \<open>Topics and messages\<close>

definition TopicFileCommits :: string where "TopicFileCommits = ''aegis.file.commits''"
definition TopicDerivationTasks :: string where "TopicDerivationTasks = ''aegis.derivation.tasks''"
definition TopicGCTombstones :: string where "TopicGCTombstones = ''aegis.gc.tombstones''"
definition TopicAuditEvents :: string where "TopicAuditEvents = ''aegis.audit.events''"
definition TopicDerivationDLQ :: string where "TopicDerivationDLQ = ''aegis.derivation.dlq''"

record DerivationTaskEvent =
  dt_EventID :: string
  dt_TenantID :: string
  dt_VersionID :: string
  dt_NodeID :: string
  dt_BlockHash :: string
  dt_MimeType :: string
  dt_SizeBytes :: int
  dt_Timestamp :: string

record kafka_message =
  km_Key :: bytes
  km_Value :: bytes
  km_Offset :: int
  km_Time :: "instant option"

text \<open>The operations of the Kafka package on its state \<open>'k\<close>; the flag of a write is the writer's \<^verbatim>\<open>Async\<close>.\<close>

record 'k kafka =
  kf_fetch :: "'k \<Rightarrow> (go_error + kafka_message) \<times> 'k"
  kf_commit :: "kafka_message \<Rightarrow> 'k \<Rightarrow> go_error option \<times> 'k"
  kf_write :: "bool \<Rightarrow> string \<Rightarrow> kafka_message \<Rightarrow> 'k \<Rightarrow> go_error option \<times> 'k"
  kf_closeWriter :: "string \<Rightarrow> 'k \<Rightarrow> go_error option \<times> 'k"
  kf_closeReader :: "'k \<Rightarrow> go_error option \<times> 'k"

section \<open>The publisher\<close>

text \<open>A writer is known by its topic; the map holds its \<^verbatim>\<open>Async\<close> setting.\<close>

record KafkaBus =
  kb_brokers :: "string list"
  kb_writers :: "string \<Rightarrow> bool option"

definition NewKafkaBus :: "string list \<Rightarrow> go_error + KafkaBus" where
  "NewKafkaBus brokers =
     (if brokers = [] then Inl (errorf ''kafka brokers list cannot be empty'')
      else Inr \<lparr>kb_brokers = brokers,
                kb_writers = (\<lambda>t. if t \<in> set [TopicFileCommits, TopicDerivationTasks, TopicGCTombstones, TopicAuditEvents]
                                   then Some True else None)\<rparr>)"

definition Bus_PublishFileCommitted ::
  "'k kafka \<Rightarrow> (FileCommittedEvent \<Rightarrow> go_error + bytes) \<Rightarrow> instant \<Rightarrow> FileCommittedEvent \<Rightarrow> KafkaBus \<Rightarrow> 'k \<Rightarrow> go_error option \<times> 'k" where
  "Bus_PublishFileCommitted K marshal now event bus k =
     (case marshal event of
        Inl e \<Rightarrow> (Some (wrapf ''failed to marshal FileCommittedEvent: '' e), k)
      | Inr payload \<Rightarrow>
          (case kb_writers bus TopicFileCommits of
             None \<Rightarrow> (Some (errorf (''writer for topic '' @ TopicFileCommits @ '' not configured'')), k)
           | Some async \<Rightarrow>
               kf_write K async TopicFileCommits
                 \<lparr>km_Key = string_bytes (fe_TenantID event), km_Value = payload, km_Offset = 0, km_Time = Some now\<rparr> k))"

definition Bus_PublishBlockTombstone ::
  "'k kafka \<Rightarrow> (BlockTombstoneEvent \<Rightarrow> go_error + bytes) \<Rightarrow> instant \<Rightarrow> string \<Rightarrow> BlockTombstoneEvent \<Rightarrow> KafkaBus \<Rightarrow> 'k \<Rightarrow>
   go_error option \<times> KafkaBus \<times> 'k" where
  "Bus_PublishBlockTombstone K marshal now topic0 event bus k =
     (let topic = (if topic0 = '''' then TopicGCTombstones else topic0)
      in case marshal event of
           Inl e \<Rightarrow> (Some (wrapf ''failed to marshal BlockTombstoneEvent: '' e), bus, k)
         | Inr payload \<Rightarrow>
             let async = (case kb_writers bus topic of None \<Rightarrow> False | Some a \<Rightarrow> a);
                 bus1 = (if kb_writers bus topic = None then bus\<lparr>kb_writers := (kb_writers bus)(topic \<mapsto> False)\<rparr> else bus)
             in (case kf_write K async topic
                        \<lparr>km_Key = string_bytes (te_BlockHash event), km_Value = payload, km_Offset = 0, km_Time = Some now\<rparr> k of
                   (e, k1) \<Rightarrow> (e, bus1, k1)))"

text \<open>\<open>order\<close> lists the topics of the map in the order of iteration.\<close>

fun close_writers :: "'k kafka \<Rightarrow> string list \<Rightarrow> 'k \<Rightarrow> string list \<times> 'k" where
  "close_writers K [] k = ([], k)"
| "close_writers K (t # ts) k =
     (case kf_closeWriter K t k of
        (err, k1) \<Rightarrow>
          (case close_writers K ts k1 of
             (errs, k2) \<Rightarrow> ((case err of None \<Rightarrow> errs | Some e \<Rightarrow> (t @ '': '' @ ge_Error e) # errs), k2)))"

fun join_errors :: "string list \<Rightarrow> string" where
  "join_errors [] = ''''"
| "join_errors [e] = e"
| "join_errors (e # es) = e @ ''; '' @ join_errors es"

definition Bus_Close :: "'k kafka \<Rightarrow> string list \<Rightarrow> 'k \<Rightarrow> go_error option \<times> 'k" where
  "Bus_Close K order k =
     (case close_writers K order k of
        (errs, k1) \<Rightarrow> (if errs \<noteq> [] then Some (errorf (''errors closing kafka writers: '' @ join_errors errs)) else None, k1))"

section \<open>The change-data router\<close>

text \<open>A JSON value that the router reads is a string or not; a missing \<^verbatim>\<open>after\<close> is \<^const>\<open>None\<close>.\<close>

datatype cdc_value = CdcString string | CdcOther

record DebeziumPayloadEnvelope =
  de_After :: "(string \<Rightarrow> cdc_value option) option"
  de_Op :: string
  de_Timestamp :: int

record RouterConfig =
  rt_Brokers :: "string list"
  rt_GroupID :: string
  rt_InputTopic :: string
  rt_TargetTopic :: string

definition NewRouter :: "RouterConfig \<Rightarrow> go_error + RouterConfig" where
  "NewRouter cfg =
     (if rt_Brokers cfg = [] then Inl (errorf ''brokers list cannot be empty'')
      else Inr (cfg\<lparr>rt_InputTopic := (if rt_InputTopic cfg = '''' then ''aegis-db.public.file_versions'' else rt_InputTopic cfg),
                    rt_TargetTopic := (if rt_TargetTopic cfg = '''' then TopicDerivationTasks else rt_TargetTopic cfg)\<rparr>))"

definition after_string :: "(string \<Rightarrow> cdc_value option) \<Rightarrow> string \<Rightarrow> string" where
  "after_string after key = (case after key of Some (CdcString v) \<Rightarrow> v | _ \<Rightarrow> '''')"

definition row_tenant :: "(string \<Rightarrow> cdc_value option) \<Rightarrow> string" where
  "row_tenant after =
     (if after_string after ''tenant_id'' \<noteq> '''' then after_string after ''tenant_id''
      else if after_string after ''created_by'' \<noteq> '''' then after_string after ''created_by''
      else ''00000000-0000-0000-0000-000000000001'')"

text \<open>\<open>stamp\<close> is the formatting of a count of milliseconds.\<close>

definition row_task :: "(int \<Rightarrow> string) \<Rightarrow> int \<Rightarrow> (string \<Rightarrow> cdc_value option) \<Rightarrow> DerivationTaskEvent" where
  "row_task stamp ts after =
     \<lparr>dt_EventID = ''cdc-'' @ FormatInt ts, dt_TenantID = row_tenant after, dt_VersionID = after_string after ''version_id'',
      dt_NodeID = after_string after ''node_id'', dt_BlockHash = after_string after ''content_sha256'',
      dt_MimeType = after_string after ''mime_type'', dt_SizeBytes = 0, dt_Timestamp = stamp ts\<rparr>"

record task_codec =
  tk_envelope :: "bytes \<Rightarrow> go_error + DebeziumPayloadEnvelope"
  tk_marshal :: "DerivationTaskEvent \<Rightarrow> go_error + bytes"
  tk_unmarshal :: "bytes \<Rightarrow> go_error + DerivationTaskEvent"
  tk_stamp :: "int \<Rightarrow> string"

definition routeMessage :: "'k kafka \<Rightarrow> task_codec \<Rightarrow> RouterConfig \<Rightarrow> kafka_message \<Rightarrow> 'k \<Rightarrow> go_error option \<times> 'k" where
  "routeMessage K J r msg k =
     (case tk_envelope J (km_Value msg) of
        Inl e \<Rightarrow> (Some (wrapf ''unmarshal debezium envelope: '' e), k)
      | Inr env \<Rightarrow>
          (case de_After env of
             None \<Rightarrow> (None, k)
           | Some after \<Rightarrow>
               if de_Op env \<noteq> ''c'' then (None, k)
               else
                 (case tk_marshal J (row_task (tk_stamp J) (de_Timestamp env) after) of
                    Inl e \<Rightarrow> (Some (wrapf ''marshal task: '' e), k)
                  | Inr payload \<Rightarrow>
                      kf_write K False (rt_TargetTopic r)
                        \<lparr>km_Key = string_bytes (after_string after ''version_id''), km_Value = payload, km_Offset = 0, km_Time = None\<rparr> k)))"

text \<open>One iteration of a service: whether the context has ended when it is polled and when a fetch fails, and what the pool and
  the clock read. An iteration ends the loop (with the value returned) or yields a line of the service's log.\<close>

record iteration =
  it_cancelled :: bool
  it_fetchCancelled :: bool
  it_ams :: "nat \<Rightarrow> ambient"
  it_failedAt :: string

text \<open>The log line of a fetched message has the error of processing it, of the dead letter and of the commit.\<close>

datatype service_log = FetchFailed go_error | Handled kafka_message "go_error option" "go_error option" "go_error option"

fun router_loop ::
  "'k kafka \<Rightarrow> task_codec \<Rightarrow> RouterConfig \<Rightarrow> go_error \<Rightarrow> iteration list \<Rightarrow> 'k \<Rightarrow> service_log list \<times> go_error option option \<times> 'k" where
  "router_loop K J r ctxErr [] k = ([], None, k)"
| "router_loop K J r ctxErr (it # its) k =
     (if it_cancelled it then ([], Some (Some ctxErr), k)
      else
        (case kf_fetch K k of
           (Inl e, k1) \<Rightarrow>
             if it_fetchCancelled it then ([], Some None, k1)
             else (case router_loop K J r ctxErr its k1 of (l, res, k2) \<Rightarrow> (FetchFailed e # l, res, k2))
         | (Inr msg, k1) \<Rightarrow>
             (case routeMessage K J r msg k1 of
                (err, k2) \<Rightarrow>
                  (case kf_commit K msg k2 of
                     (cerr, k3) \<Rightarrow>
                       (case router_loop K J r ctxErr its k3 of (l, res, k4) \<Rightarrow> (Handled msg err None cerr # l, res, k4))))))"

definition Router_Close :: "'k kafka \<Rightarrow> RouterConfig \<Rightarrow> 'k \<Rightarrow> go_error option \<times> 'k" where
  "Router_Close K r k = kf_closeReader K (snd (kf_closeWriter K (rt_TargetTopic r) k))"

section \<open>The derivation consumer\<close>

record ConsumerConfig =
  cc_Brokers :: "string list"
  cc_GroupID :: string
  cc_Topic :: string
  cc_DLQTopic :: string

definition NewDerivationConsumer :: "ConsumerConfig \<Rightarrow> go_error + ConsumerConfig" where
  "NewDerivationConsumer cfg =
     (if cc_Brokers cfg = [] then Inl (errorf ''brokers list cannot be empty'')
      else Inr (cfg\<lparr>cc_Topic := (if cc_Topic cfg = '''' then TopicDerivationTasks else cc_Topic cfg),
                    cc_DLQTopic := (if cc_DLQTopic cfg = '''' then TopicDerivationDLQ else cc_DLQTopic cfg)\<rparr>))"

text \<open>Only three fields of the task reach the pool; the event has no chunks.\<close>

definition task_event :: "DerivationTaskEvent \<Rightarrow> Event" where
  "task_event task =
     \<lparr>ev_EventID = '''', ev_EventType = '''', ev_VersionID = dt_VersionID task, ev_NodeID = '''', ev_TenantID = dt_TenantID task,
      ev_TotalSize = 0, ev_MimeType = dt_MimeType task, ev_ContentSHA256 = '''', ev_CreatedAt = None, ev_Chunks = []\<rparr>"

definition first_failure :: "ProcessingResult list \<Rightarrow> go_error option" where
  "first_failure results =
     map_option (\<lambda>r. errorf (''worker '' @ pr_WorkerName r @ '' failed: '' @ pr_Error r))
       (List.find (\<lambda>r. pr_Status r = StatusFailed) results)"

definition processMessage ::
  "task_codec \<Rightarrow> ('w Worker \<times> 'w) list \<Rightarrow> (nat \<Rightarrow> ambient) \<Rightarrow> kafka_message \<Rightarrow> WorkerPool \<Rightarrow> go_error option \<times> WorkerPool" where
  "processMessage J workers ams msg p =
     (case tk_unmarshal J (km_Value msg) of
        Inl e \<Rightarrow> (Some (wrapf ''unmarshal error: '' e), p)
      | Inr task \<Rightarrow> (case ProcessEvent workers ams (task_event task) p of (results, p1) \<Rightarrow> (first_failure results, p1)))"

record dlq_payload =
  dq_OriginalPayload :: string
  dq_ErrorReason :: string
  dq_FailedAt :: string

definition dead_letter_of :: "(dlq_payload \<Rightarrow> bytes) \<Rightarrow> string \<Rightarrow> kafka_message \<Rightarrow> go_error \<Rightarrow> kafka_message" where
  "dead_letter_of marshal failedAt msg errReason =
     \<lparr>km_Key = km_Key msg,
      km_Value = marshal \<lparr>dq_OriginalPayload = bytes_string (km_Value msg), dq_ErrorReason = ge_Error errReason, dq_FailedAt = failedAt\<rparr>,
      km_Offset = 0, km_Time = None\<rparr>"

definition sendToDLQ ::
  "'k kafka \<Rightarrow> (dlq_payload \<Rightarrow> bytes) \<Rightarrow> ConsumerConfig \<Rightarrow> string \<Rightarrow> kafka_message \<Rightarrow> go_error \<Rightarrow> 'k \<Rightarrow> go_error option \<times> 'k" where
  "sendToDLQ K marshal c failedAt msg errReason k = kf_write K False (cc_DLQTopic c) (dead_letter_of marshal failedAt msg errReason) k"

definition handle_message ::
  "'k kafka \<Rightarrow> task_codec \<Rightarrow> (dlq_payload \<Rightarrow> bytes) \<Rightarrow> ConsumerConfig \<Rightarrow> ('w Worker \<times> 'w) list \<Rightarrow> iteration \<Rightarrow> kafka_message \<Rightarrow>
   WorkerPool \<Rightarrow> 'k \<Rightarrow> service_log \<times> WorkerPool \<times> 'k" where
  "handle_message K J marshal c workers it msg p k =
     (case processMessage J workers (it_ams it) msg p of
        (err, p1) \<Rightarrow>
          (case (case err of None \<Rightarrow> (None, k) | Some e \<Rightarrow> sendToDLQ K marshal c (it_failedAt it) msg e k) of
             (derr, k1) \<Rightarrow> (case kf_commit K msg k1 of (cerr, k2) \<Rightarrow> (Handled msg err derr cerr, p1, k2))))"

fun consumer_loop ::
  "'k kafka \<Rightarrow> task_codec \<Rightarrow> (dlq_payload \<Rightarrow> bytes) \<Rightarrow> ConsumerConfig \<Rightarrow> ('w Worker \<times> 'w) list \<Rightarrow> go_error \<Rightarrow> iteration list \<Rightarrow>
   WorkerPool \<Rightarrow> 'k \<Rightarrow> service_log list \<times> go_error option option \<times> WorkerPool \<times> 'k" where
  "consumer_loop K J marshal c workers ctxErr [] p k = ([], None, p, k)"
| "consumer_loop K J marshal c workers ctxErr (it # its) p k =
     (if it_cancelled it then ([], Some (Some ctxErr), p, k)
      else
        (case kf_fetch K k of
           (Inl e, k1) \<Rightarrow>
             if it_fetchCancelled it then ([], Some None, p, k1)
             else (case consumer_loop K J marshal c workers ctxErr its p k1 of (l, res, s) \<Rightarrow> (FetchFailed e # l, res, s))
         | (Inr msg, k1) \<Rightarrow>
             (case handle_message K J marshal c workers it msg p k1 of
                (line, p1, k2) \<Rightarrow> (case consumer_loop K J marshal c workers ctxErr its p1 k2 of (l, res, s) \<Rightarrow> (line # l, res, s)))))"

definition Consumer_Close :: "'k kafka \<Rightarrow> ConsumerConfig \<Rightarrow> 'k \<Rightarrow> go_error option \<times> 'k" where
  "Consumer_Close K c k = kf_closeReader K (snd (kf_closeWriter K (cc_DLQTopic c) k))"

section \<open>What the consumer does with a message\<close>

text \<open>What the code relies on of Kafka: no operation takes a message out of a topic, and a synchronous write that reports
  success has added its message.\<close>

definition kafka_keeps :: "'k kafka \<Rightarrow> ('k \<Rightarrow> string \<Rightarrow> kafka_message set) \<Rightarrow> bool" where
  "kafka_keeps K topic \<longleftrightarrow>
     (\<forall>k r k' t. kf_fetch K k = (r, k') \<longrightarrow> topic k t \<subseteq> topic k' t) \<and>
     (\<forall>m k r k' t. kf_commit K m k = (r, k') \<longrightarrow> topic k t \<subseteq> topic k' t) \<and>
     (\<forall>a t' m k r k' t. kf_write K a t' m k = (r, k') \<longrightarrow> topic k t \<subseteq> topic k' t) \<and>
     (\<forall>t m k k'. kf_write K False t m k = (None, k') \<longrightarrow> m \<in> topic k' t)"

lemma kafka_keepsD:
  assumes "kafka_keeps K topic"
  shows "kf_fetch K k = (r, k') \<Longrightarrow> topic k t \<subseteq> topic k' t"
    and "kf_commit K m k = (r', k') \<Longrightarrow> topic k t \<subseteq> topic k' t"
    and "kf_write K a t' m k = (r', k') \<Longrightarrow> topic k t \<subseteq> topic k' t"
    and "kf_write K False t m k = (None, k') \<Longrightarrow> m \<in> topic k' t"
  using assms by (simp_all add: kafka_keeps_def)

text \<open>A message is accounted for when it was processed with no failed result, or else its payload and the reason are in
  the dead letter topic, or the log has the error of that write.\<close>

definition processed_clean :: "task_codec \<Rightarrow> ('w Worker \<times> 'w) list \<Rightarrow> kafka_message \<Rightarrow> bool" where
  "processed_clean J workers msg \<longleftrightarrow>
     (\<exists>task ams p rs p'. tk_unmarshal J (km_Value msg) = Inr task \<and> ProcessEvent workers ams (task_event task) p = (rs, p') \<and>
        (\<forall>r \<in> set rs. pr_Status r \<noteq> StatusFailed))"

definition accounted ::
  "task_codec \<Rightarrow> (dlq_payload \<Rightarrow> bytes) \<Rightarrow> ('w Worker \<times> 'w) list \<Rightarrow> kafka_message set \<Rightarrow> service_log \<Rightarrow> bool" where
  "accounted J marshal workers letters line \<longleftrightarrow>
     (case line of
        FetchFailed e \<Rightarrow> True
      | Handled msg err derr cerr \<Rightarrow>
          (case err of
             None \<Rightarrow> processed_clean J workers msg
           | Some e \<Rightarrow> derr \<noteq> None \<or> (\<exists>failedAt. dead_letter_of marshal failedAt msg e \<in> letters)))"

lemma accounted_mono: "accounted J marshal workers A line \<Longrightarrow> A \<subseteq> B \<Longrightarrow> accounted J marshal workers B line"
  by (auto simp: accounted_def split: service_log.splits option.splits)

lemma first_failure_None: "first_failure rs = None \<longleftrightarrow> (\<forall>r \<in> set rs. pr_Status r \<noteq> StatusFailed)"
  by (auto simp: first_failure_def find_None_iff)

lemma processMessage_None: "processMessage J workers ams msg p = (None, p') \<Longrightarrow> processed_clean J workers msg"
  by (auto simp: processMessage_def processed_clean_def first_failure_None split: sum.splits prod.splits)

lemma handle_message_accounted:
  assumes "kafka_keeps K topic" and "handle_message K J marshal c workers it msg p k = (line, p', k')"
  shows "accounted J marshal workers (topic k' (cc_DLQTopic c)) line" and "topic k t \<subseteq> topic k' t"
proof -
  obtain err p1 where proc: "processMessage J workers (it_ams it) msg p = (err, p1)"
    by fastforce
  have "accounted J marshal workers (topic k' (cc_DLQTopic c)) line \<and> topic k t \<subseteq> topic k' t"
  proof (cases err)
    case None
    obtain cerr where "kf_commit K msg k = (cerr, k')" and line: "line = Handled msg None None cerr"
      using assms(2) proc by (auto simp: handle_message_def None split: prod.splits)
    then show ?thesis
      using kafka_keepsD(2) [OF assms(1)] processMessage_None proc by (simp add: accounted_def None)
  next
    case (Some e)
    let ?m = "dead_letter_of marshal (it_failedAt it) msg e"
    obtain derr k1 cerr where w: "kf_write K False (cc_DLQTopic c) ?m k = (derr, k1)" and co: "kf_commit K msg k1 = (cerr, k')"
        and line: "line = Handled msg (Some e) derr cerr"
      using assms(2) proc by (auto simp: handle_message_def sendToDLQ_def Some split: prod.splits)
    have sub: "topic k t \<subseteq> topic k' t"
      using kafka_keepsD(3) [OF assms(1) w] kafka_keepsD(2) [OF assms(1) co] by blast
    show ?thesis
    proof (cases derr)
      case None
      then have "?m \<in> topic k' (cc_DLQTopic c)"
        using kafka_keepsD(4) [OF assms(1)] w kafka_keepsD(2) [OF assms(1) co] by blast
      then show ?thesis
        using sub by (auto simp: accounted_def line)
    qed (use sub in \<open>simp add: accounted_def line\<close>)
  qed
  then show "accounted J marshal workers (topic k' (cc_DLQTopic c)) line" and "topic k t \<subseteq> topic k' t"
    by blast+
qed

lemma consumer_loop_keeps:
  assumes "kafka_keeps K topic" and "consumer_loop K J marshal c workers ctxErr its p k = (log, res, p', k')"
  shows "topic k t \<subseteq> topic k' t"
  using assms(2)
proof (induction its arbitrary: p k log)
  case (Cons it its)
  obtain r k1 where f: "kf_fetch K k = (r, k1)"
    by fastforce
  note keep = kafka_keepsD(1) [OF assms(1) f, of t]
  show ?case
  proof (cases r)
    case (Inl e)
    then show ?thesis
      using Cons f keep by (auto split: if_splits prod.splits) blast
  next
    case (Inr msg)
    obtain line p1 k2 where h: "handle_message K J marshal c workers it msg p k1 = (line, p1, k2)"
      by (metis prod_cases3)
    have "topic k1 t \<subseteq> topic k2 t"
      by (rule handle_message_accounted(2) [OF assms(1) h])
    then show ?thesis
      using Cons f keep Inr h by (auto split: if_splits prod.splits) blast
  qed
qed auto

lemma consumer_loop_accounted:
  assumes "kafka_keeps K topic" and "consumer_loop K J marshal c workers ctxErr its p k = (log, res, p', k')"
  shows "\<forall>line \<in> set log. accounted J marshal workers (topic k' (cc_DLQTopic c)) line"
  using assms(2)
proof (induction its arbitrary: p k log)
  case (Cons it its)
  show ?case
  proof (cases "it_cancelled it")
    case False
    obtain r k1 where f: "kf_fetch K k = (r, k1)"
      by fastforce
    show ?thesis
    proof (cases r)
      case (Inl e)
      show ?thesis
      proof (cases "it_fetchCancelled it")
        case True
        then show ?thesis
          using Cons.prems False f Inl by auto
      next
        case going: False
        obtain l where rest: "consumer_loop K J marshal c workers ctxErr its p k1 = (l, res, p', k')" and log: "log = FetchFailed e # l"
          using Cons.prems False going f Inl by (auto split: prod.splits)
        show ?thesis
          using Cons.IH [OF rest] by (simp add: log accounted_def)
      qed
    next
      case (Inr msg)
      obtain line p1 k2 where h: "handle_message K J marshal c workers it msg p k1 = (line, p1, k2)"
        by (metis prod_cases3)
      obtain l where rest: "consumer_loop K J marshal c workers ctxErr its p1 k2 = (l, res, p', k')" and log: "log = line # l"
        using Cons.prems False f Inr h by (auto split: prod.splits)
      have "accounted J marshal workers (topic k' (cc_DLQTopic c)) line"
        using accounted_mono [OF handle_message_accounted(1) [OF assms(1) h] consumer_loop_keeps [OF assms(1) rest]] .
      then show ?thesis
        using Cons.IH [OF rest] by (simp add: log)
    qed
  qed (use Cons.prems in auto)
qed auto


section \<open>From an inserted row to the pool\<close>

text \<open>An inserted version row reaches the worker pool: when the router reports success on an insert, it has written one message,
  and the consumer that reads it runs the pool on an event with the row's version, type and tenant (the creator, then a fixed
  tenant, stand in for a missing one). The JSON codec reads back the tasks it wrote.\<close>

theorem insert_reaches_pool:
  assumes "tk_envelope J (km_Value m) = Inr env" and "de_Op env = ''c''" and "de_After env = Some after"
    and "\<And>t b. tk_marshal J t = Inr b \<Longrightarrow> tk_unmarshal J b = Inr t"
    and "routeMessage K J r m k = (None, k')"
  shows "\<exists>out. kf_write K False (rt_TargetTopic r) out k = (None, k') \<and> km_Key out = string_bytes (after_string after ''version_id'') \<and>
    (\<exists>event. ev_VersionID event = after_string after ''version_id'' \<and> ev_TenantID event = row_tenant after \<and>
       ev_MimeType event = after_string after ''mime_type'' \<and>
       (\<forall>workers ams p. processMessage J workers ams out p =
          (case ProcessEvent workers ams event p of (rs, p1) \<Rightarrow> (first_failure rs, p1))))"
proof -
  let ?task = "row_task (tk_stamp J) (de_Timestamp env) after"
  obtain payload where payload: "tk_marshal J ?task = Inr payload"
    using assms(1-3,5) by (auto simp: routeMessage_def split: sum.splits)
  let ?out = "\<lparr>km_Key = string_bytes (after_string after ''version_id''), km_Value = payload, km_Offset = 0, km_Time = None\<rparr>"
  have "kf_write K False (rt_TargetTopic r) ?out k = (None, k')"
    using assms(1-3,5) payload by (simp add: routeMessage_def)
  moreover have "processMessage J workers ams ?out p =
      (case ProcessEvent workers ams (task_event ?task) p of (rs, p1) \<Rightarrow> (first_failure rs, p1))" for workers ams p
    using assms(4) [OF payload] by (simp add: processMessage_def)
  ultimately show ?thesis
    by (intro exI [of _ ?out] conjI exI [of _ "task_event ?task"] allI) (simp_all add: task_event_def row_task_def)
qed

text \<open>Rows that are updated or deleted, and inserts without a row, produce nothing.\<close>

lemma other_changes_ignored:
  assumes "tk_envelope J (km_Value m) = Inr env" and "de_Op env \<noteq> ''c'' \<or> de_After env = None"
  shows "routeMessage K J r m k = (None, k)"
  using assms by (auto simp: routeMessage_def split: option.splits)

text \<open>The router commits the offset of a message that it failed to route, and writes nothing for it.\<close>

lemma router_drops_undecodable:
  assumes "kf_fetch K k = (Inr m, k1)" and "tk_envelope J (km_Value m) = Inl e" and "kf_commit K m k1 = (None, k2)" and "\<not> it_cancelled it"
  shows "router_loop K J r ctxErr [it] k = ([Handled m (Some (wrapf ''unmarshal debezium envelope: '' e)) None None], None, k2)"
  using assms by (simp add: routeMessage_def)

section \<open>Tasks carry no chunks\<close>

text \<open>A worker of the library fails on an event without chunks, whatever its tools.\<close>

lemma no_chunks_fails:
  assumes "w \<in> set (four_workers now reader scanner extractor processor embedder)" and "ev_Chunks event = []"
  shows "always_fails w event"
  using assms
  by (auto simp: always_fails_def four_workers_def NewClamAVWorker_def ClamAV_Process_def NewOCRWorker_def OCR_Process_def
      NewFFmpegWorker_def FFmpeg_Process_def NewVectorEmbedWorker_def VectorEmbed_Process_def first_chunk_def)

text \<open>So no consumed task succeeds: with the malware scanner among the workers, every message is an error and goes to the dead letter
  topic, with any tools and any block reader, because the consumer builds its event without the chunks of the version.\<close>

theorem consumed_tasks_fail:
  assumes "set ws \<subseteq> set (four_workers now reader scanner extractor processor embedder)" and "NewClamAVWorker now scanner reader \<in> set ws"
    and "processMessage J (map (\<lambda>w. (w, s0)) ws) ams msg p = (err, p')"
  shows "err \<noteq> None"
proof (cases "tk_unmarshal J (km_Value msg)")
  case (Inr task)
  let ?js = "jobs (map (\<lambda>w. (w, s0)) ws) ams (task_event task)"
  obtain rs where run: "process_all ?js (task_event task) (count_event p) = (rs, p')" and err: "err = first_failure rs"
    using assms(3) Inr by (auto simp: processMessage_def ProcessEvent_def split: prod.splits)
  have "always_fails w (task_event task)" if "(w, s, am) \<in> set ?js" for w s am
  proof -
    have "w \<in> set ws"
      using jobs_mem [OF that] by auto
    then show ?thesis
      using assms(1) by (intro no_chunks_fails) (auto simp: task_event_def)
  qed
  then have fails: "list_all (\<lambda>r. pr_Status r = StatusFailed) rs"
    using process_all_fails [OF run] by blast
  have "filter (\<lambda>(w, s). wk_ShouldProcess w (task_event task)) (map (\<lambda>w. (w, s0)) ws) \<noteq> []"
    using assms(2) by (auto simp: filter_empty_conv NewClamAVWorker_def intro!: bexI [of _ "NewClamAVWorker now scanner reader"])
  then have "rs \<noteq> []"
    using process_all_length [OF run] by (auto simp: jobs_def Let_def filter_map)
  then obtain r where "r \<in> set rs"
    by (cases rs) auto
  then show ?thesis
    using fails unfolding err by (auto simp: first_failure_None list_all_iff)
qed (use assms(3) in \<open>auto simp: processMessage_def\<close>)

section \<open>A worked exchange\<close>

text \<open>A broker in memory: the input with the position of the reader, and the topics.\<close>

record demo_broker =
  bk_input :: "kafka_message list"
  bk_pos :: nat
  bk_topics :: "string \<Rightarrow> kafka_message list"

definition demo_kafka :: "demo_broker kafka" where
  "demo_kafka =
     \<lparr>kf_fetch = (\<lambda>b. if bk_pos b < length (bk_input b) then (Inr (bk_input b ! bk_pos b), b\<lparr>bk_pos := Suc (bk_pos b)\<rparr>)
                       else (Inl (errorf ''no message''), b)),
      kf_commit = (\<lambda>m b. (None, b)),
      kf_write = (\<lambda>a t m b. (None, b\<lparr>bk_topics := (bk_topics b)(t := bk_topics b t @ [m])\<rparr>)),
      kf_closeWriter = (\<lambda>t b. (None, b)), kf_closeReader = (\<lambda>b. (None, b))\<rparr>"

definition demo_topic :: "demo_broker \<Rightarrow> string \<Rightarrow> kafka_message set" where
  "demo_topic b t = set (bk_topics b t)"

lemma demo_kafka_keeps: "kafka_keeps demo_kafka demo_topic"
  by (auto simp: kafka_keeps_def demo_kafka_def demo_topic_def split: if_splits)

definition demo_row :: "string \<Rightarrow> cdc_value option" where
  "demo_row = [''version_id'' \<mapsto> CdcString ''v1'', ''mime_type'' \<mapsto> CdcString ''text/plain'', ''created_by'' \<mapsto> CdcString ''bob'']"

definition demo_codec :: task_codec where
  "demo_codec =
     \<lparr>tk_envelope = (\<lambda>b. Inr \<lparr>de_After = Some demo_row, de_Op = ''c'', de_Timestamp = 7\<rparr>),
      tk_marshal = (\<lambda>t. if t = row_task (\<lambda>_. '''') 7 demo_row then Inr [1] else Inl (errorf ''unsupported'')),
      tk_unmarshal = (\<lambda>b. if b = [1] then Inr (row_task (\<lambda>_. '''') 7 demo_row) else Inl (errorf ''invalid'')), tk_stamp = (\<lambda>_. '''')\<rparr>"

definition demo_message :: "bytes \<Rightarrow> kafka_message" where
  "demo_message v = \<lparr>km_Key = [], km_Value = v, km_Offset = 0, km_Time = None\<rparr>"

definition demo_consumer :: ConsumerConfig where
  "demo_consumer = \<lparr>cc_Brokers = [''b''], cc_GroupID = ''g'', cc_Topic = TopicDerivationTasks, cc_DLQTopic = TopicDerivationDLQ\<rparr>"

definition demo_iteration :: iteration where
  "demo_iteration = \<lparr>it_cancelled = False, it_fetchCancelled = False, it_ams = (\<lambda>_. demo_ambient), it_failedAt = ''now''\<rparr>"

definition demo_pool :: WorkerPool where
  "demo_pool = NewWorkerPool \<lparr>rc_MaxAttempts = 0, rc_BaseDelay = 0, rc_MaxDelay = 0\<rparr> None None 0"

definition demo_start :: demo_broker where
  "demo_start = \<lparr>bk_input = [demo_message [2]], bk_pos = 0, bk_topics = (\<lambda>_. [])\<rparr>"


theorem insert_reaches_pool_witness:
  "\<exists>out k'. routeMessage demo_kafka demo_codec \<lparr>rt_Brokers = [''b''], rt_GroupID = ''g'', rt_InputTopic = ''i'', rt_TargetTopic = ''t''\<rparr>
       (demo_message []) demo_start = (None, k') \<and>
     kf_write demo_kafka False ''t'' out demo_start = (None, k') \<and> km_Key out = string_bytes ''v1'' \<and>
     (\<exists>event. ev_VersionID event = ''v1'' \<and> ev_TenantID event = ''bob'' \<and>
        fst (processMessage demo_codec ([] :: (unit Worker \<times> unit) list) (\<lambda>_. demo_ambient) out demo_pool) =
        first_failure (fst (ProcessEvent ([] :: (unit Worker \<times> unit) list) (\<lambda>_. demo_ambient) event demo_pool)))"
proof -
  let ?r = "\<lparr>rt_Brokers = [''b''], rt_GroupID = ''g'', rt_InputTopic = ''i'', rt_TargetTopic = ''t''\<rparr>"
  obtain k' where route: "routeMessage demo_kafka demo_codec ?r (demo_message []) demo_start = (None, k')"
    by (simp add: routeMessage_def demo_kafka_def demo_codec_def)
  have env: "tk_envelope demo_codec (km_Value (demo_message [])) = Inr \<lparr>de_After = Some demo_row, de_Op = ''c'', de_Timestamp = 7\<rparr>"
    by (simp add: demo_codec_def)
  have law: "\<And>t b. tk_marshal demo_codec t = Inr b \<Longrightarrow> tk_unmarshal demo_codec b = Inr t"
    by (auto simp: demo_codec_def split: if_splits)
  have row: "after_string demo_row ''version_id'' = ''v1''" "row_tenant demo_row = ''bob''"
    by (simp_all add: demo_row_def after_string_def row_tenant_def)
  obtain out event where out: "kf_write demo_kafka False (rt_TargetTopic ?r) out demo_start = (None, k')"
      "km_Key out = string_bytes (after_string demo_row ''version_id'')" "ev_VersionID event = after_string demo_row ''version_id''"
      "ev_TenantID event = row_tenant demo_row"
      and pm: "\<And>workers ams p. processMessage demo_codec (workers :: (unit Worker \<times> unit) list) ams out p =
        (case ProcessEvent workers ams event p of (rs, p1) \<Rightarrow> (first_failure rs, p1))"
    using insert_reaches_pool [OF env _ _ law route, of demo_row] by fastforce
  show ?thesis
    using route out pm [of "[]" "\<lambda>_. demo_ambient" demo_pool] by (intro exI [of _ out] exI [of _ k']) (auto simp: row split: prod.splits)
qed

end
