(* ===== verification/GoStrings.thy ===== *)
theory GoStrings
  imports Strconv
begin

text \<open>
  What the billing and identity packages use of Go's \<^verbatim>\<open>strings\<close> and \<^verbatim>\<open>encoding/base64\<close>: \<open>TrimSpace\<close> on the
  bytes of a string (the white space of Unicode in its UTF-8 form), \<open>Split\<close> and \<open>SplitN\<close> at a separator of one
  character, \<open>Join\<close>, and the unpadded URL alphabet of Base64, \<^verbatim>\<open>RawURLEncoding\<close>. The decoder follows Go's in what it
  accepts: line breaks are skipped, stray low bits of the last character are ignored, a single left-over
  character and any character outside the alphabet are errors.
\<close>

section \<open>Trimming white space\<close>

definition utf8 :: "nat list \<Rightarrow> string" where
  "utf8 = map char_of"

text \<open>The runes with \<^verbatim>\<open>unicode.IsSpace\<close>, as byte sequences.\<close>

definition space_runes :: "string list" where
  "space_runes =
     map (\<lambda>n. utf8 [n]) [9, 10, 11, 12, 13, 32] @
     [utf8 [194, 133], utf8 [194, 160], utf8 [225, 154, 128]] @
     map (\<lambda>n. utf8 [226, 128, n]) ([128..<139] @ [168, 169, 175]) @
     [utf8 [226, 129, 159], utf8 [227, 128, 128]]"

definition drop_first :: "string list \<Rightarrow> string \<Rightarrow> string option" where
  "drop_first pats s =
     map_option (\<lambda>p. drop (length p) s) (List.find (\<lambda>p. p \<noteq> [] \<and> take (length p) s = p) pats)"

lemma drop_first_shorter: "drop_first pats s = Some r \<Longrightarrow> length r < length s"
proof -
  assume "drop_first pats s = Some r"
  then obtain p where "p \<noteq> []" "take (length p) s = p" "r = drop (length p) s"
    by (auto simp: drop_first_def find_Some_iff)
  then show ?thesis
    by (cases s) auto
qed

function trim_front :: "string list \<Rightarrow> string \<Rightarrow> string" where
  "trim_front pats s = (case drop_first pats s of None \<Rightarrow> s | Some r \<Rightarrow> trim_front pats r)"
  by pat_completeness auto
termination
  by (relation "measure (\<lambda>(_, s). length s)") (auto dest: drop_first_shorter)

declare trim_front.simps [simp del]

definition TrimSpace :: "string \<Rightarrow> string" where
  "TrimSpace s = rev (trim_front (map rev space_runes) (rev (trim_front space_runes s)))"

text \<open>A string of visible ASCII characters is left as it is: every sequence of white space has a first and a last byte that
  none of them has.\<close>

definition visible :: "char \<Rightarrow> bool" where
  "visible c \<longleftrightarrow> in_range CHR ''!'' CHR ''~'' c"

lemma space_runes_invisible: "p \<in> set space_runes \<Longrightarrow> p \<noteq> [] \<and> \<not> visible (hd p) \<and> \<not> visible (last p)"
  by (auto simp: space_runes_def utf8_def visible_def in_range_def)

lemma trim_front_visible:
  assumes "\<forall>p \<in> set pats. p \<noteq> [] \<and> \<not> visible (hd p)" and "s = [] \<or> visible (hd s)"
  shows "trim_front pats s = s"
proof -
  have "take (length p) s \<noteq> p" if "p \<in> set pats" for p
  proof
    assume eq: "take (length p) s = p"
    have "p \<noteq> []" "\<not> visible (hd p)"
      using assms(1) that by auto
    with eq have "s \<noteq> []" "hd p = hd s"
      by (auto simp: hd_take) (metis hd_take length_greater_0_conv)
    then show False
      using assms(2) \<open>\<not> visible (hd p)\<close> by simp
  qed
  then have "List.find (\<lambda>p. p \<noteq> [] \<and> take (length p) s = p) pats = None"
    by (auto simp: find_None_iff)
  then show ?thesis
    by (subst trim_front.simps) (simp add: drop_first_def)
qed

lemma TrimSpace_visible [simp]:
  assumes "\<forall>c \<in> set s. visible c"
  shows "TrimSpace s = s"
proof -
  have "trim_front space_runes s = s"
    using assms space_runes_invisible by (intro trim_front_visible) (auto intro: hd_in_set)
  moreover have "trim_front (map rev space_runes) (rev s) = rev s"
    using assms space_runes_invisible
    by (intro trim_front_visible) (auto simp: hd_rev, metis last_in_set)
  ultimately show ?thesis
    by (simp add: TrimSpace_def)
qed

section \<open>Splitting and joining\<close>

fun Split :: "char \<Rightarrow> string \<Rightarrow> string list" where
  "Split sep [] = [[]]"
| "Split sep (c # s) = (if c = sep then [] # Split sep s else (case Split sep s of [] \<Rightarrow> [[c]] | w # ws \<Rightarrow> (c # w) # ws))"

text \<open>\<^verbatim>\<open>strings.SplitN(s, sep, 2)\<close>.\<close>

definition SplitN2 :: "char \<Rightarrow> string \<Rightarrow> string list" where
  "SplitN2 sep s =
     (case dropWhile (\<lambda>c. c \<noteq> sep) s of [] \<Rightarrow> [s] | _ # r \<Rightarrow> [takeWhile (\<lambda>c. c \<noteq> sep) s, r])"

fun Join :: "char \<Rightarrow> string list \<Rightarrow> string" where
  "Join sep [] = []"
| "Join sep [w] = w"
| "Join sep (w # v # ws) = w @ sep # Join sep (v # ws)"

lemma Split_not_Nil [simp]: "Split sep s \<noteq> []"
  by (induction s) (auto split: list.splits)

lemma Split_no_sep [simp]: "sep \<notin> set w \<Longrightarrow> Split sep w = [w]"
  by (induction w) auto

lemma Split_append: "sep \<notin> set w \<Longrightarrow> Split sep (w @ sep # s) = w # Split sep s"
  by (induction w) auto

lemma Join_Split: "Join sep (Split sep s) = s"
proof (induction s)
  case (Cons c s)
  then show ?case
    using Split_not_Nil [of sep s] by (cases "Split sep s"; cases "tl (Split sep s)") auto
qed simp

lemma Split_pieces: "w \<in> set (Split sep s) \<Longrightarrow> sep \<notin> set w"
  by (induction s arbitrary: w) (auto split: list.splits if_splits)

lemma Split_Join: "ws \<noteq> [] \<Longrightarrow> \<forall>w \<in> set ws. sep \<notin> set w \<Longrightarrow> Split sep (Join sep ws) = ws"
  by (induction ws rule: Join.induct) (auto simp: Split_append)

lemma Split_two: "Split sep s = [a, b] \<longleftrightarrow> s = a @ sep # b \<and> sep \<notin> set a \<and> sep \<notin> set b"
proof
  assume eq: "Split sep s = [a, b]"
  have "s = a @ sep # b"
    using Join_Split [of sep s] by (simp add: eq)
  moreover have "sep \<notin> set a" "sep \<notin> set b"
    using Split_pieces [of _ sep s] by (simp_all add: eq)
  ultimately show "s = a @ sep # b \<and> sep \<notin> set a \<and> sep \<notin> set b"
    by blast
qed (auto simp: Split_append)

lemma SplitN2_two: "SplitN2 sep s = [a, b] \<longleftrightarrow> s = a @ sep # b \<and> sep \<notin> set a"
proof (cases "sep \<in> set s")
  case True
  then obtain x y where xy: "s = x @ sep # y" "sep \<notin> set x"
    by (metis split_list_first)
  then have "takeWhile (\<lambda>c. c \<noteq> sep) s = x" "dropWhile (\<lambda>c. c \<noteq> sep) s = sep # y"
    by (auto simp: takeWhile_append2 dropWhile_append2 takeWhile_tail intro!: takeWhile_append2 [THEN trans] dropWhile_append2 [THEN trans])
  then show ?thesis
    using xy append_sep_inject [of x sep y a b] by (auto simp: SplitN2_def)
next
  case False
  then have "dropWhile (\<lambda>c. c \<noteq> sep) s = []"
    by (auto simp: dropWhile_eq_Nil_conv)
  then have "SplitN2 sep s = [s]"
    by (simp only: SplitN2_def list.case)
  then show ?thesis
    using False by auto
qed

section \<open>Base64 in the unpadded URL alphabet\<close>

definition encodeURL :: string where
  "encodeURL = ''ABCDEFGHIJKLMNOPQRSTUVWXYZabcdefghijklmnopqrstuvwxyz0123456789-_''"

fun encode64 :: "nat list \<Rightarrow> nat list" where
  "encode64 (a # b # c # r) = [a div 4, 16 * (a mod 4) + b div 16, 4 * (b mod 16) + c div 64, c mod 64] @ encode64 r"
| "encode64 [a, b] = [a div 4, 16 * (a mod 4) + b div 16, 4 * (b mod 16)]"
| "encode64 [a] = [a div 4, 16 * (a mod 4)]"
| "encode64 [] = []"

fun decode64 :: "nat list \<Rightarrow> nat list option" where
  "decode64 (p # q # r # s # t) =
     map_option (\<lambda>bs. [4 * p + q div 16, 16 * (q mod 16) + r div 4, 64 * (r mod 4) + s] @ bs) (decode64 t)"
| "decode64 [p, q, r] = Some [4 * p + q div 16, 16 * (q mod 16) + r div 4]"
| "decode64 [p, q] = Some [4 * p + q div 16]"
| "decode64 [p] = None"
| "decode64 [] = Some []"

definition RawURLEncode :: "bytes \<Rightarrow> string" where
  "RawURLEncode bs = map (\<lambda>d. encodeURL ! d) (encode64 (map unat bs))"

definition digit64 :: "char \<Rightarrow> nat option" where
  "digit64 c = (if c \<in> set encodeURL then Some (length (takeWhile (\<lambda>x. x \<noteq> c) encodeURL)) else None)"

fun digits64 :: "string \<Rightarrow> nat list option" where
  "digits64 [] = Some []"
| "digits64 (c # s) =
     (case digit64 c of None \<Rightarrow> None | Some d \<Rightarrow> map_option ((#) d) (digits64 s))"

definition RawURLDecode :: "string \<Rightarrow> bytes option" where
  "RawURLDecode s =
     Option.bind (digits64 (filter (\<lambda>c. c \<noteq> char_of (10 :: nat) \<and> c \<noteq> char_of (13 :: nat)) s))
       (\<lambda>ds. map_option (map of_nat) (decode64 ds))"

lemma length_encodeURL [simp]: "length encodeURL = 64"
  by (simp add: encodeURL_def)

lemma distinct_encodeURL: "distinct encodeURL"
  by (simp add: encodeURL_def)

lemma encodeURL_visible: "\<forall>c \<in> set encodeURL. visible c \<and> c \<noteq> CHR ''.''"
  by (simp add: encodeURL_def visible_def in_range_def)

lemma digit64_nth [simp]: "d < 64 \<Longrightarrow> digit64 (encodeURL ! d) = Some d"
proof -
  assume d: "d < 64"
  have "takeWhile (\<lambda>x. x \<noteq> encodeURL ! d) encodeURL = take d encodeURL"
    using d distinct_encodeURL
    by (intro takeWhile_eq_take_P_nth) (auto simp: nth_eq_iff_index_eq)
  then show ?thesis
    using d by (simp add: digit64_def)
qed

lemma encode64_bound: "\<forall>b \<in> set bs. b < 256 \<Longrightarrow> d \<in> set (encode64 bs) \<Longrightarrow> d < 64"
  by (induction bs rule: encode64.induct) auto

lemma decode64_encode64: "\<forall>b \<in> set bs. b < 256 \<Longrightarrow> decode64 (encode64 bs) = Some bs"
  by (induction bs rule: encode64.induct) auto

lemma digits64_map: "\<forall>d \<in> set ds. d < 64 \<Longrightarrow> digits64 (map (\<lambda>d. encodeURL ! d) ds) = Some ds"
  by (induction ds) auto

lemma unat_byte_bound: "unat (b :: byte) < 256"
  using unsigned_less [of b] by simp

lemma RawURLEncode_chars: "c \<in> set (RawURLEncode bs) \<Longrightarrow> c \<in> set encodeURL"
  using encode64_bound [of "map unat bs"] unat_byte_bound by (fastforce simp: RawURLEncode_def)

lemma RawURLDecode_Encode [simp]: "RawURLDecode (RawURLEncode bs) = Some bs"
proof -
  let ?ns = "map unat bs"
  have b: "\<forall>b \<in> set ?ns. b < 256"
    using unat_byte_bound by auto
  have "filter (\<lambda>c. c \<noteq> char_of (10 :: nat) \<and> c \<noteq> char_of (13 :: nat)) (RawURLEncode bs) = RawURLEncode bs"
    using RawURLEncode_chars encodeURL_visible by (intro filter_True) (fastforce simp: visible_def in_range_def)
  moreover have "digits64 (RawURLEncode bs) = Some (encode64 ?ns)"
    using encode64_bound [OF b] by (simp add: RawURLEncode_def digits64_map)
  ultimately show ?thesis
    using decode64_encode64 [OF b] by (simp add: RawURLDecode_def o_def)
qed

lemma RawURLEncode_inject: "RawURLEncode xs = RawURLEncode ys \<longleftrightarrow> xs = ys"
  by (metis RawURLDecode_Encode option.inject)

lemma RawURLEncode_visible: "\<forall>c \<in> set (RawURLEncode bs). visible c"
  using RawURLEncode_chars encodeURL_visible by blast

lemma RawURLEncode_no_dot: "CHR ''.'' \<notin> set (RawURLEncode bs)"
  using RawURLEncode_chars encodeURL_visible by blast

end
