(* ===== verification/Throttle.thy ===== *)
theory Throttle
  imports Strconv Complex_Main
begin

text \<open>
  The HTTP middlewares of \<^verbatim>\<open>internal/ingress\<close> that stand before the handlers: the token bucket
  (\<^verbatim>\<open>ratelimit.go\<close>), the sliding window that a Lua script keeps in a Redis sorted set
  (\<^verbatim>\<open>redis_ratelimit.go\<close>), the idempotency engine (\<^verbatim>\<open>idempotency.go\<close>) and CORS (\<^verbatim>\<open>cors.go\<close>).
  A handler takes the state \<open>'w\<close> behind it to a response and a new state. \<^verbatim>\<open>float64\<close> values are
  rationals; the argument \<open>fl\<close> is the rounding that IEEE arithmetic applies to the exact result of
  every operation, of which the lemmas use that it is monotone and exact on small integers.
\<close>

section \<open>Requests and responses\<close>

type_synonym headers = "(string \<times> string) list"

text \<open>\<^verbatim>\<open>Header.Get\<close>: the empty string for an absent header.\<close>

definition header :: "headers \<Rightarrow> string \<Rightarrow> string" where
  "header hs k = (case map_of hs k of None \<Rightarrow> '''' | Some v \<Rightarrow> v)"

record request =
  rq_Method :: string
  rq_Header :: headers

record response =
  rs_Status :: nat
  rs_Header :: headers
  rs_Body :: string

type_synonym 'w handler = "request \<Rightarrow> 'w \<Rightarrow> response \<times> 'w"

definition with_headers :: "headers \<Rightarrow> response \<Rightarrow> response" where
  "with_headers hs r = r\<lparr>rs_Header := rs_Header r @ hs\<rparr>"

text \<open>\<^verbatim>\<open>http.Error\<close> with the headers set before it.\<close>

definition http_Error :: "headers \<Rightarrow> string \<Rightarrow> nat \<Rightarrow> response" where
  "http_Error hs msg code' = \<lparr>rs_Status = code',
     rs_Header = [(''Content-Type'', ''text/plain; charset=utf-8''), (''X-Content-Type-Options'', ''nosniff'')] @ hs,
     rs_Body = msg @ [CHR 0x0A]\<rparr>"

definition tenant_or :: "string \<Rightarrow> request \<Rightarrow> string" where
  "tenant_or d r = (let t = header (rq_Header r) ''X-Tenant-ID'' in if t = '''' then d else t)"

section \<open>The token bucket\<close>

record tokenBucket =
  tb_tokens :: rat
  tb_maxBurst :: rat
  tb_rps :: rat
  tb_lastTime :: instant

record RateLimiter =
  rl_buckets :: "string \<Rightarrow> tokenBucket option"
  rl_rps :: int
  rl_burst :: int

definition NewRateLimiter :: "int \<Rightarrow> int \<Rightarrow> RateLimiter" where
  "NewRateLimiter rps burst = \<lparr>rl_buckets = (\<lambda>_. None), rl_rps = rps, rl_burst = burst\<rparr>"

text \<open>\<^verbatim>\<open>Duration.Seconds\<close>: the whole seconds plus the nanoseconds over a billion.\<close>

definition Seconds :: "(rat \<Rightarrow> rat) \<Rightarrow> duration \<Rightarrow> rat" where
  "Seconds fl d =
     (let s = (\<lambda>d. fl (of_int (d div 1000000000) + fl (of_int (d mod 1000000000) / 1000000000)))
      in if d \<ge> 0 then s d else - s (- d))"

definition bucket_allow :: "(rat \<Rightarrow> rat) \<Rightarrow> instant \<Rightarrow> tokenBucket \<Rightarrow> bool \<times> tokenBucket" where
  "bucket_allow fl now tb =
     (let elapsed = Seconds fl (now - tb_lastTime tb);
          tb = (if elapsed > 0 then
                  (let t = fl (tb_tokens tb + fl (elapsed * tb_rps tb))
                   in tb\<lparr>tb_tokens := (if t > tb_maxBurst tb then tb_maxBurst tb else t), tb_lastTime := now\<rparr>)
                else tb)
      in if tb_tokens tb < 1 then (False, tb) else (True, tb\<lparr>tb_tokens := fl (tb_tokens tb - 1)\<rparr>))"

definition getBucket :: "(rat \<Rightarrow> rat) \<Rightarrow> instant \<Rightarrow> string \<Rightarrow> RateLimiter \<Rightarrow> tokenBucket" where
  "getBucket fl now tenantID rl =
     (case rl_buckets rl tenantID of
        Some b \<Rightarrow> b
      | None \<Rightarrow> \<lparr>tb_tokens = fl (of_int (rl_burst rl)), tb_maxBurst = fl (of_int (rl_burst rl)),
                 tb_rps = fl (of_int (rl_rps rl)), tb_lastTime = now\<rparr>)"

text \<open>The clock is read when a bucket is made and again for the check.\<close>

definition RateLimiter_Allow ::
  "(rat \<Rightarrow> rat) \<Rightarrow> instant \<Rightarrow> instant \<Rightarrow> string \<Rightarrow> RateLimiter \<Rightarrow> bool \<times> RateLimiter" where
  "RateLimiter_Allow fl made now tenantID rl =
     (case bucket_allow fl now (getBucket fl made tenantID rl) of
        (a, b) \<Rightarrow> (a, rl\<lparr>rl_buckets := (rl_buckets rl)(tenantID \<mapsto> b)\<rparr>))"

definition AllowHTTP ::
  "(rat \<Rightarrow> rat) \<Rightarrow> instant \<Rightarrow> instant \<Rightarrow> 'w handler \<Rightarrow> request \<Rightarrow> RateLimiter \<Rightarrow> 'w \<Rightarrow> response \<times> RateLimiter \<times> 'w" where
  "AllowHTTP fl made now next r rl w =
     (case RateLimiter_Allow fl made now (tenant_or ''default'' r) rl of
        (False, rl') \<Rightarrow>
          (\<lparr>rs_Status = 429, rs_Header = [(''Retry-After'', ''1''), (''Content-Type'', ''application/json'')],
            rs_Body = ''{\"error\":\"rate limit exceeded\"}''\<rparr>, rl', w)
      | (True, rl') \<Rightarrow> (case next r w of (resp, w') \<Rightarrow> (resp, rl', w')))"

definition RateLimiter_Reset :: "RateLimiter \<Rightarrow> RateLimiter" where
  "RateLimiter_Reset rl = rl\<lparr>rl_buckets := (\<lambda>_. None)\<rparr>"

section \<open>The sliding window\<close>

text \<open>The sorted set of a key, members with their scores, and the deadline that \<^verbatim>\<open>PEXPIRE\<close> set. Times are
  milliseconds.\<close>

record window_key =
  wk_set :: "(string \<times> int) list"
  wk_deadline :: "int option"

definition expired_key :: "int \<Rightarrow> window_key \<Rightarrow> window_key" where
  "expired_key now k =
     (case wk_deadline k of
        None \<Rightarrow> k
      | Some t \<Rightarrow> if t \<le> now then \<lparr>wk_set = [], wk_deadline = None\<rparr> else k)"

definition slidingWindowScript :: "int \<Rightarrow> int \<Rightarrow> int \<Rightarrow> string \<Rightarrow> window_key \<Rightarrow> (int \<times> int \<times> int) \<times> window_key" where
  "slidingWindowScript now window limit req_id k0 =
     (let k = expired_key now k0;
          clear_before = now - window;
          s = filter (\<lambda>(m, score). \<not> (0 \<le> score \<and> score \<le> clear_before)) (wk_set k);
          current_count = int (length s)
      in if current_count < limit
         then ((1, limit - current_count - 1, limit),
               \<lparr>wk_set = filter (\<lambda>(m, score). m \<noteq> req_id) s @ [(req_id, now)], wk_deadline = Some (now + window)\<rparr>)
         else ((0, 0, limit), k\<lparr>wk_set := s\<rparr>))"

record RedisSlidingRateLimiter =
  sl_windowSize :: duration
  sl_defaultLimit :: int

definition NewRedisSlidingRateLimiter :: "duration \<Rightarrow> int \<Rightarrow> RedisSlidingRateLimiter" where
  "NewRedisSlidingRateLimiter windowSize defaultLimit =
     \<lparr>sl_windowSize = (if windowSize \<le> 0 then 1 * Minute else windowSize),
      sl_defaultLimit = (if defaultLimit \<le> 0 then 1000 else defaultLimit)\<rparr>"

text \<open>\<open>fault\<close> is a Redis error; \<open>reqID\<close> the fresh identifier; the clock is read again, at \<open>later\<close>, for the reset time.
  The keys of other tenants are untouched.\<close>

definition Sliding_Middleware ::
  "RedisSlidingRateLimiter \<Rightarrow> bool \<Rightarrow> instant \<Rightarrow> instant \<Rightarrow> string \<Rightarrow> 'w handler \<Rightarrow> request \<Rightarrow> (string \<Rightarrow> window_key) \<Rightarrow> 'w \<Rightarrow>
   response \<times> (string \<Rightarrow> window_key) \<times> 'w" where
  "Sliding_Middleware rl fault now later reqID next r keys w =
     (let key = ''aegis:ratelimit:'' @ tenant_or ''global'' r
      in if fault then (case next r w of (resp, w') \<Rightarrow> (resp, keys, w'))
         else
           (case slidingWindowScript (now div 1000000) (sl_windowSize rl div 1000000) (sl_defaultLimit rl) reqID (keys key) of
              ((allowed, remaining, limit), k) \<Rightarrow>
                let hs = [(''X-RateLimit-Limit'', FormatInt limit), (''X-RateLimit-Remaining'', FormatInt remaining),
                          (''X-RateLimit-Reset'', FormatInt (unix_seconds (later + sl_windowSize rl)))]
                in if allowed \<noteq> 1 then
                     (http_Error (hs @ [(''Retry-After'', FormatInt (unix_seconds (sl_windowSize rl)))])
                        ''{\"error\":\"too_many_requests\",\"detail\":\"Rate limit exceeded\"}'' 429, keys(key := k), w)
                   else (case next r w of (resp, w') \<Rightarrow> (with_headers hs resp, keys(key := k), w'))))"

section \<open>Idempotency\<close>

record CachedResponse =
  cr_StatusCode :: nat
  cr_Body :: string

text \<open>The Redis commands over a server state; the codec is that of the cached response.\<close>

record 'k idem_redis =
  ir_SetNX :: "string \<Rightarrow> string \<Rightarrow> 'k \<Rightarrow> bool option \<times> 'k"
  ir_Get :: "string \<Rightarrow> 'k \<Rightarrow> string option"
  ir_Set :: "string \<Rightarrow> string \<Rightarrow> 'k \<Rightarrow> 'k"

record idem_codec =
  ic_marshal :: "CachedResponse \<Rightarrow> string"
  ic_unmarshal :: "string \<Rightarrow> CachedResponse option"

definition in_progress :: string where
  "in_progress = ''IN_PROGRESS''"

definition idem_key :: "request \<Rightarrow> string" where
  "idem_key r = ''aegis:idempotency:'' @ tenant_or ''global'' r @ '':'' @ header (rq_Header r) ''Idempotency-Key''"

datatype idem_decision = Bypass | Answer response | Proceed

definition idem_begin :: "'k idem_redis \<Rightarrow> idem_codec \<Rightarrow> request \<Rightarrow> 'k \<Rightarrow> idem_decision \<times> 'k" where
  "idem_begin R J r k =
     (if header (rq_Header r) ''Idempotency-Key'' = '''' then (Bypass, k)
      else
        (case ir_SetNX R (idem_key r) in_progress k of
           (None, k1) \<Rightarrow> (Bypass, k1)
         | (Some True, k1) \<Rightarrow> (Proceed, k1)
         | (Some False, k1) \<Rightarrow>
             let conflict = http_Error [(''Retry-After'', ''2'')]
                   ''{\"error\":\"idempotency_conflict\",\"detail\":\"Request in progress\"}'' 409
             in (case ir_Get R (idem_key r) k1 of
                   None \<Rightarrow> (Answer conflict, k1)
                 | Some v \<Rightarrow>
                     if v = in_progress then (Answer conflict, k1)
                     else
                       (case ic_unmarshal J v of
                          None \<Rightarrow> (Answer conflict, k1)
                        | Some c \<Rightarrow>
                            (Answer \<lparr>rs_Status = cr_StatusCode c,
                               rs_Header = [(''Content-Type'', ''application/json''), (''X-Cache-Lookup'', ''HIT-IDEMPOTENT'')],
                               rs_Body = cr_Body c\<rparr>, k1)))))"

definition idem_finish :: "'k idem_redis \<Rightarrow> idem_codec \<Rightarrow> request \<Rightarrow> response \<Rightarrow> 'k \<Rightarrow> 'k" where
  "idem_finish R J r resp k =
     ir_Set R (idem_key r) (ic_marshal J \<lparr>cr_StatusCode = rs_Status resp, cr_Body = rs_Body resp\<rparr>) k"

definition Idempotency_Middleware ::
  "'k idem_redis \<Rightarrow> idem_codec \<Rightarrow> 'w handler \<Rightarrow> request \<Rightarrow> 'k \<Rightarrow> 'w \<Rightarrow> response \<times> 'k \<times> 'w" where
  "Idempotency_Middleware R J next r k w =
     (case idem_begin R J r k of
        (Answer resp, k1) \<Rightarrow> (resp, k1, w)
      | (Bypass, k1) \<Rightarrow> (case next r w of (resp, w') \<Rightarrow> (resp, k1, w'))
      | (Proceed, k1) \<Rightarrow> (case next r w of (resp, w') \<Rightarrow> (resp, idem_finish R J r resp k1, w')))"

section \<open>CORS\<close>

record CORSConfig =
  AllowedOrigins :: "string list"
  AllowedMethods :: "string list"
  AllowedHeaders :: "string list"
  MaxAge :: int
  AllowCredentials :: bool

definition DefaultCORSConfig :: CORSConfig where
  "DefaultCORSConfig = \<lparr>AllowedOrigins = [],
     AllowedMethods = [''GET'', ''POST'', ''PUT'', ''DELETE'', ''OPTIONS''],
     AllowedHeaders = [''Authorization'', ''Content-Type'', ''X-Tenant-ID'', ''X-Request-ID''],
     MaxAge = 86400, AllowCredentials = False\<rparr>"

fun join :: "string \<Rightarrow> string list \<Rightarrow> string" where
  "join sep [] = ''''"
| "join sep [x] = x"
| "join sep (x # y # ys) = x @ sep @ join sep (y # ys)"

definition cors_headers :: "CORSConfig \<Rightarrow> string \<Rightarrow> headers" where
  "cors_headers cfg origin =
     [(''Access-Control-Allow-Origin'', origin), (''Access-Control-Allow-Methods'', join '', '' (AllowedMethods cfg)),
      (''Access-Control-Allow-Headers'', join '', '' (AllowedHeaders cfg)), (''Access-Control-Max-Age'', Itoa (MaxAge cfg))] @
     (if AllowCredentials cfg then [(''Access-Control-Allow-Credentials'', ''true'')] else [])"

definition CORSMiddleware :: "CORSConfig \<Rightarrow> 'w handler \<Rightarrow> 'w handler" where
  "CORSMiddleware cfg next r w =
     (if AllowedOrigins cfg = [] then next r w
      else
        (let origin = header (rq_Header r) ''Origin''
         in if origin = '''' \<or> origin \<notin> set (AllowedOrigins cfg) then next r w
            else if rq_Method r = ''OPTIONS'' then
              (\<lparr>rs_Status = 204, rs_Header = cors_headers cfg origin, rs_Body = ''''\<rparr>, w)
            else (case next r w of (resp, w') \<Rightarrow> (with_headers (cors_headers cfg origin) resp, w'))))"


section \<open>The token bucket is bounded\<close>

definition fl_ok :: "(rat \<Rightarrow> rat) \<Rightarrow> bool" where
  "fl_ok fl \<longleftrightarrow> mono fl \<and> (\<forall>n. \<bar>n\<bar> \<le> 2 ^ 53 \<longrightarrow> fl (of_int n) = of_int n)"

lemma fl_okD:
  assumes "fl_ok fl"
  shows "x \<le> y \<Longrightarrow> fl x \<le> fl y" and "\<bar>n\<bar> \<le> 2 ^ 53 \<Longrightarrow> fl (of_int n) = of_int n"
  using assms by (auto simp: fl_ok_def mono_def)

lemma fl_ok_zero: "fl_ok fl \<Longrightarrow> fl 0 = 0"
  using fl_okD(2) [of fl 0] by simp

lemma fl_nonneg: "fl_ok fl \<Longrightarrow> 0 \<le> x \<Longrightarrow> 0 \<le> fl x"
  using fl_okD(1) [of fl 0 x] fl_ok_zero [of fl] by simp

definition bucket_ok :: "int \<Rightarrow> tokenBucket \<Rightarrow> bool" where
  "bucket_ok burst tb \<longleftrightarrow> 0 \<le> tb_tokens tb \<and> tb_tokens tb \<le> tb_maxBurst tb \<and> tb_maxBurst tb = of_int burst \<and> 0 \<le> tb_rps tb"

fun bucket_run :: "(rat \<Rightarrow> rat) \<Rightarrow> instant list \<Rightarrow> tokenBucket \<Rightarrow> nat \<times> tokenBucket" where
  "bucket_run fl [] tb = (0, tb)"
| "bucket_run fl (t # ts) tb =
     (case bucket_allow fl t tb of (a, tb1) \<Rightarrow>
      case bucket_run fl ts tb1 of (n, tb2) \<Rightarrow> (if a then n + 1 else n, tb2))"

lemma Seconds_le_zero:
  assumes "fl_ok fl" and "d \<le> 0"
  shows "Seconds fl d \<le> 0"
proof (cases "d = 0")
  case True
  then show ?thesis
    using fl_ok_zero [OF assms(1)] by (simp add: Seconds_def)
next
  case False
  have "(0 :: rat) \<le> of_int (- d mod 1000000000) / 1000000000"
    by (intro divide_nonneg_nonneg) (simp_all only: of_int_0_le_iff pos_mod_sign zero_less_numeral zero_le_numeral)
  moreover have "(0 :: rat) \<le> of_int (- d div 1000000000)"
    using assms(2) by (simp only: of_int_0_le_iff pos_imp_zdiv_nonneg_iff zero_less_numeral)
  ultimately have "0 \<le> fl (of_int (- d div 1000000000) + fl (of_int (- d mod 1000000000) / 1000000000))"
    by (intro fl_nonneg [OF assms(1)] add_nonneg_nonneg)
  then show ?thesis
    using assms(2) False by (simp add: Seconds_def Let_def)
qed

lemma bucket_allow_cases:
  assumes "bucket_allow fl now tb = (a, tb')"
  obtains (kept) tb1 where "\<not> Seconds fl (now - tb_lastTime tb) > 0" and "tb1 = tb"
      and "a \<longleftrightarrow> \<not> tb_tokens tb1 < 1" and "tb' = (if a then tb1\<lparr>tb_tokens := fl (tb_tokens tb1 - 1)\<rparr> else tb1)"
  | (refilled) t tb1 where "Seconds fl (now - tb_lastTime tb) > 0"
      and "t = fl (tb_tokens tb + fl (Seconds fl (now - tb_lastTime tb) * tb_rps tb))"
      and "tb1 = tb\<lparr>tb_tokens := min t (tb_maxBurst tb), tb_lastTime := now\<rparr>"
      and "a \<longleftrightarrow> \<not> tb_tokens tb1 < 1" and "tb' = (if a then tb1\<lparr>tb_tokens := fl (tb_tokens tb1 - 1)\<rparr> else tb1)"
proof (cases "Seconds fl (now - tb_lastTime tb) > 0")
  case True
  have "(if t > m then m else t) = min t m" for t m :: rat
    by simp
  then show ?thesis
    using assms True by (intro refilled [OF True refl refl]) (auto simp: bucket_allow_def Let_def split: if_splits)
next
  case False
  then show ?thesis
    using assms by (intro kept [OF False refl]) (auto simp: bucket_allow_def Let_def split: if_splits)
qed

lemma bucket_take_ok:
  assumes "fl_ok fl" and "bucket_ok burst tb" and "\<bar>burst\<bar> \<le> 2 ^ 53" and "\<not> tb_tokens tb < 1"
  shows "bucket_ok burst (tb\<lparr>tb_tokens := fl (tb_tokens tb - 1)\<rparr>)"
proof -
  have "fl (tb_tokens tb - 1) \<le> fl (of_int burst)"
    using assms(2) by (intro fl_okD(1) [OF assms(1)]) (simp add: bucket_ok_def)
  then have "fl (tb_tokens tb - 1) \<le> of_int burst"
    unfolding fl_okD(2) [OF assms(1,3)] .
  moreover have "0 \<le> fl (tb_tokens tb - 1)"
    using assms(4) by (intro fl_nonneg [OF assms(1)]) simp
  ultimately show ?thesis
    using assms(2) by (simp add: bucket_ok_def)
qed

lemma bucket_refill_ok:
  assumes "fl_ok fl" and "bucket_ok burst tb" and "Seconds fl d > 0"
  shows "bucket_ok burst (tb\<lparr>tb_tokens := min (fl (tb_tokens tb + fl (Seconds fl d * tb_rps tb))) (tb_maxBurst tb), tb_lastTime := now\<rparr>)"
proof -
  have "0 \<le> Seconds fl d * tb_rps tb"
    using assms(2,3) by (intro mult_nonneg_nonneg) (simp_all add: bucket_ok_def)
  then have "0 \<le> fl (tb_tokens tb + fl (Seconds fl d * tb_rps tb))"
    using assms(2) by (intro fl_nonneg [OF assms(1)] add_nonneg_nonneg) (simp_all add: bucket_ok_def)
  then show ?thesis
    using assms(2) by (simp add: bucket_ok_def)
qed

lemma bucket_allow_ok:
  assumes "fl_ok fl" and "bucket_ok burst tb" and "\<bar>burst\<bar> \<le> 2 ^ 53" and "bucket_allow fl now tb = (a, tb')"
  shows "bucket_ok burst tb'"
  using assms(4)
proof (cases rule: bucket_allow_cases)
  case (kept tb1)
  then show ?thesis
    using bucket_take_ok [OF assms(1-3)] assms(2) by auto
next
  case (refilled t tb1)
  then have "bucket_ok burst tb1"
    using bucket_refill_ok [OF assms(1,2)] by simp
  then show ?thesis
    using bucket_take_ok [OF assms(1) _ assms(3), of tb1] refilled(4,5) by (cases a) simp_all
qed

lemma bucket_run_ok:
  assumes "fl_ok fl" and "bucket_ok burst tb" and "\<bar>burst\<bar> \<le> 2 ^ 53" and "bucket_run fl ts tb = (n, tb')"
  shows "bucket_ok burst tb'"
  using assms(2,4)
proof (induction ts arbitrary: tb n)
  case (Cons t ts)
  obtain a tb1 where step: "bucket_allow fl t tb = (a, tb1)"
    by fastforce
  obtain m tb2 where "bucket_run fl ts tb1 = (m, tb2)"
    by fastforce
  then show ?case
    using Cons.IH [OF bucket_allow_ok [OF assms(1) Cons.prems(1) assms(3) step]] Cons.prems(2) step by simp
qed simp

text \<open>Without time passing, tokens only go down, by one for each admission.\<close>

lemma bucket_run_burst:
  assumes fl: "fl_ok fl" and "tb_tokens tb \<le> of_int k" and "0 \<le> k" and "k \<le> 2 ^ 53"
    and "\<And>t. t \<in> set ts \<Longrightarrow> t \<le> tb_lastTime tb" and "bucket_run fl ts tb = (n, tb')"
  shows "int n \<le> k"
  using assms(2-6)
proof (induction ts arbitrary: tb k n)
  case (Cons t ts)
  obtain a tb1 where step: "bucket_allow fl t tb = (a, tb1)"
    by fastforce
  obtain m where rest: "bucket_run fl ts tb1 = (m, tb')" and n: "n = (if a then m + 1 else m)"
    using Cons.prems(5) step by (auto split: prod.splits)
  have no_time: "\<not> Seconds fl (t - tb_lastTime tb) > 0"
    using Seconds_le_zero [OF fl, of "t - tb_lastTime tb"] Cons.prems(4) [of t] by simp
  from step have tb1: "tb1 = (if a then tb\<lparr>tb_tokens := fl (tb_tokens tb - 1)\<rparr> else tb)" and a: "a \<longleftrightarrow> \<not> tb_tokens tb < 1"
    by (cases rule: bucket_allow_cases; use no_time in simp)+
  show ?case
  proof (cases a)
    case False
    then show ?thesis
      using Cons.IH [OF Cons.prems(1-3), of m] Cons.prems(4) rest tb1 n by simp
  next
    case True
    have ge: "1 \<le> tb_tokens tb"
      using a True by simp
    have k1: "1 \<le> k"
      using order.trans [OF ge Cons.prems(1)] by simp
    have "fl (tb_tokens tb - 1) \<le> fl (of_int (k - 1))"
      using Cons.prems(1) by (intro fl_okD(1) [OF fl]) simp
    then have "tb_tokens tb1 \<le> of_int (k - 1)"
      using fl_okD(2) [OF fl, of "k - 1"] k1 Cons.prems(3) tb1 True by simp
    then have "int m \<le> k - 1"
      using Cons.IH [OF _ _ _ _ rest, of "k - 1"] k1 Cons.prems(3,4) tb1 True by simp
    then show ?thesis
      using n True by simp
  qed
qed simp

lemma Seconds_exact: "Seconds (\<lambda>x. x) d = of_int d / 1000000000"
proof -
  have "of_int (e div 1000000000) + of_int (e mod 1000000000) / 1000000000 = (of_int e / 1000000000 :: rat)" for e
  proof -
    have "(of_int e :: rat) = of_int (1000000000 * (e div 1000000000) + e mod 1000000000)"
      by (simp only: mult_div_mod_eq)
    then have "(of_int e :: rat) = 1000000000 * of_int (e div 1000000000) + of_int (e mod 1000000000)"
      by (simp only: of_int_add of_int_mult of_int_numeral)
    then show ?thesis
      by (simp add: add_divide_distrib)
  qed
  note exact = this
  show ?thesis
    unfolding Seconds_def Let_def exact by simp
qed

lemma bucket_allow_exact:
  assumes "bucket_allow (\<lambda>x. x) now tb = (a, tb')"
  shows "tb_tokens tb' + (if a then 1 else 0) \<le> tb_tokens tb + tb_rps tb * of_int (tb_lastTime tb' - tb_lastTime tb) / 1000000000 \<and>
    tb_rps tb' = tb_rps tb \<and> tb_lastTime tb' = max (tb_lastTime tb) now"
  using assms
  by (cases rule: bucket_allow_cases) (auto simp: Seconds_exact mult.commute min_def)

lemma bucket_run_exact:
  assumes "bucket_run (\<lambda>x. x) ts tb = (n, tb')"
  shows "tb_tokens tb' + of_nat n \<le> tb_tokens tb + tb_rps tb * of_int (tb_lastTime tb' - tb_lastTime tb) / 1000000000 \<and>
    tb_rps tb' = tb_rps tb \<and> tb_lastTime tb' = fold max ts (tb_lastTime tb)"
  using assms
proof (induction ts arbitrary: tb n)
  case (Cons t ts)
  obtain a tb1 where step: "bucket_allow (\<lambda>x. x) t tb = (a, tb1)"
    by fastforce
  obtain m where rest: "bucket_run (\<lambda>x. x) ts tb1 = (m, tb')" and n: "n = (if a then m + 1 else m)"
    using Cons.prems step by (auto split: prod.splits)
  have split: "tb_rps tb * of_int (tb_lastTime tb' - tb_lastTime tb) / (1000000000 :: rat) =
      tb_rps tb * of_int (tb_lastTime tb' - tb_lastTime tb1) / 1000000000 +
      tb_rps tb * of_int (tb_lastTime tb1 - tb_lastTime tb) / 1000000000"
    by (simp add: algebra_simps flip: add_divide_distrib diff_divide_distrib)
  have "tb_rps tb1 = tb_rps tb"
    using bucket_allow_exact [OF step] by blast
  then have "tb_tokens tb' + of_nat m \<le> tb_tokens tb1 + tb_rps tb * of_int (tb_lastTime tb' - tb_lastTime tb1) / 1000000000"
    using Cons.IH [OF rest] by metis
  moreover have "tb_tokens tb1 + (if a then 1 else 0) \<le>
      tb_tokens tb + tb_rps tb * of_int (tb_lastTime tb1 - tb_lastTime tb) / 1000000000"
    using bucket_allow_exact [OF step] by blast
  moreover have "of_nat n = (of_nat m + (if a then 1 else 0) :: rat)"
    using n by simp
  ultimately have "tb_tokens tb' + of_nat n \<le> tb_tokens tb + tb_rps tb * of_int (tb_lastTime tb' - tb_lastTime tb) / 1000000000"
    unfolding split by linarith
  then show ?case
    using bucket_allow_exact [OF step] Cons.IH [OF rest] by (simp add: max.commute)
qed simp


text \<open>A new tenant's bucket never holds less than no token or more than the burst, under every IEEE
  rounding; as long as no time passes it admits at most \<open>burst\<close> requests; and with exact arithmetic any
  sequence of requests is admitted at most \<open>burst\<close> times plus \<open>rps\<close> times the seconds that passed.\<close>

theorem token_bucket_bounds:
  assumes "fl_ok fl" and "0 \<le> burst" and "burst \<le> 2 ^ 53" and "0 \<le> rps" and "rps \<le> 2 ^ 53"
    and "tb = getBucket fl t0 tenant (NewRateLimiter rps burst)" and "bucket_run fl ts tb = (n, tb')"
  shows "0 \<le> tb_tokens tb' \<and> tb_tokens tb' \<le> of_int burst \<and>
    ((\<forall>t \<in> set ts. t \<le> t0) \<longrightarrow> int n \<le> burst) \<and>
    (fl = (\<lambda>x. x) \<longrightarrow> of_nat n \<le> of_int burst + of_int rps * (of_int (fold max ts t0 - t0) :: rat) / 1000000000)"
proof -
  have tb: "tb = \<lparr>tb_tokens = of_int burst, tb_maxBurst = of_int burst, tb_rps = of_int rps, tb_lastTime = t0\<rparr>"
    using assms(2-6) fl_okD(2) [OF assms(1)] by (simp add: getBucket_def NewRateLimiter_def)
  then have "bucket_ok burst tb"
    using assms(2,4) by (simp add: bucket_ok_def)
  then have ok: "bucket_ok burst tb'"
    using bucket_run_ok [OF assms(1) _ _ assms(7)] assms(2,3) by simp
  have "int n \<le> burst" if "\<forall>t \<in> set ts. t \<le> t0"
    using bucket_run_burst [OF assms(1) _ assms(2,3) _ assms(7)] that by (simp add: tb)
  moreover have "of_nat n \<le> of_int burst + of_int rps * (of_int (fold max ts t0 - t0) :: rat) / 1000000000" if "fl = (\<lambda>x. x)"
  proof -
    have "0 \<le> tb_tokens tb'"
      using ok by (simp add: bucket_ok_def)
    then show ?thesis
      using bucket_run_exact [OF assms(7) [unfolded that]] by (elim conjE) (simp add: tb)
  qed
  ultimately show ?thesis
    using ok by (simp add: bucket_ok_def)
qed

lemma fl_ok_exact: "fl_ok (\<lambda>x. x)"
  by (simp add: fl_ok_def mono_def)

theorem token_bucket_bounds_witness:
  "int (fst (bucket_run (\<lambda>x. x) [0, 0, 0] (getBucket (\<lambda>x. x) 0 ''t'' (NewRateLimiter 1 2)))) \<le> 2"
proof -
  obtain n tb' where run: "bucket_run (\<lambda>x. x) [0, 0, 0] (getBucket (\<lambda>x. x) 0 ''t'' (NewRateLimiter 1 2)) = (n, tb')"
    by fastforce
  then show ?thesis
    using token_bucket_bounds [OF fl_ok_exact _ _ _ _ refl run] by simp
qed

section \<open>The sliding window keeps its limit\<close>

fun window_run :: "int \<Rightarrow> int \<Rightarrow> (int \<times> string) list \<Rightarrow> window_key \<Rightarrow> int list \<times> window_key" where
  "window_run window limit [] k = ([], k)"
| "window_run window limit ((now, i) # rs) k =
     (case slidingWindowScript now window limit i k of
        ((allowed, remaining, l), k1) \<Rightarrow>
          (case window_run window limit rs k1 of (ts, k2) \<Rightarrow> (if allowed = 1 then now # ts else ts, k2)))"

text \<open>\<open>A\<close> lists the requests admitted so far, the latest at \<open>T\<close> or before; the set still has those that
  a window ending now or later can see.\<close>

definition window_inv :: "int \<Rightarrow> (string \<times> int) list \<Rightarrow> int \<Rightarrow> window_key \<Rightarrow> bool" where
  "window_inv window A T k \<longleftrightarrow>
     distinct (map fst A) \<and> (\<forall>(i, t) \<in> set A. 0 \<le> t \<and> t \<le> T) \<and>
     set (wk_set k) \<subseteq> set A \<and> distinct (wk_set k) \<and>
     (\<forall>(i, t) \<in> set A. T - window < t \<longrightarrow> (i, t) \<in> set (wk_set k)) \<and>
     (\<forall>d. wk_deadline k = Some d \<longrightarrow> (\<forall>(i, t) \<in> set A. t + window \<le> d))"

definition in_window :: "int \<Rightarrow> int \<Rightarrow> (string \<times> int) list \<Rightarrow> nat" where
  "in_window window u A = length (filter (\<lambda>(i, t). u - window < t \<and> t \<le> u) A)"

lemma in_window_le:
  assumes "distinct A" and "\<And>i t. (i, t) \<in> set A \<Longrightarrow> u - window < t \<Longrightarrow> t \<le> u \<Longrightarrow> (i, t) \<in> set B"
  shows "in_window window u A \<le> length B"
proof -
  have "in_window window u A = card (set (filter (\<lambda>(i, t). u - window < t \<and> t \<le> u) A))"
    unfolding in_window_def using assms(1) by (intro distinct_card [symmetric] distinct_filter)
  also have "\<dots> \<le> card (set B)"
    using assms(2) by (intro card_mono) auto
  also have "\<dots> \<le> length B"
    by (rule card_length)
  finally show ?thesis .
qed

text \<open>The entries that the script counts.\<close>

definition counted_set :: "int \<Rightarrow> int \<Rightarrow> window_key \<Rightarrow> (string \<times> int) list" where
  "counted_set now window k = filter (\<lambda>(m, score). \<not> (0 \<le> score \<and> score \<le> now - window)) (wk_set (expired_key now k))"

lemma counted_set_complete:
  assumes inv: "window_inv window A T k" and "T \<le> now" and "(i, t) \<in> set A" and "now - window < t"
  shows "(i, t) \<in> set (counted_set now window k)"
proof -
  have "(i, t) \<in> set (wk_set k)"
    using assms by (fastforce simp: window_inv_def)
  moreover have "wk_deadline k = Some d \<Longrightarrow> now < d" for d
    using assms by (fastforce simp: window_inv_def)
  ultimately show ?thesis
    using assms(4) by (auto simp: counted_set_def expired_key_def split: option.splits)
qed

lemma counted_set_sub:
  assumes "window_inv window A T k"
  shows "set (counted_set now window k) \<subseteq> set A" and "distinct (counted_set now window k)"
  using assms by (auto simp: window_inv_def counted_set_def expired_key_def split: option.splits)

lemma script_counted:
  "slidingWindowScript now window limit i k =
     (if int (length (counted_set now window k)) < limit
      then ((1, limit - int (length (counted_set now window k)) - 1, limit),
            \<lparr>wk_set = filter (\<lambda>(m, score). m \<noteq> i) (counted_set now window k) @ [(i, now)], wk_deadline = Some (now + window)\<rparr>)
      else ((0, 0, limit), (expired_key now k)\<lparr>wk_set := counted_set now window k\<rparr>))"
  by (simp add: slidingWindowScript_def counted_set_def Let_def)

lemma window_inv_refused:
  assumes inv: "window_inv window A T k" and "T \<le> now"
  shows "window_inv window A now ((expired_key now k)\<lparr>wk_set := counted_set now window k\<rparr>)"
proof -
  have "wk_deadline (expired_key now k) = Some d \<Longrightarrow> wk_deadline k = Some d" for d
    by (auto simp: expired_key_def split: option.splits if_splits)
  then show ?thesis
    using inv assms(2) counted_set_sub [OF inv] counted_set_complete [OF inv assms(2)]
    by (fastforce simp: window_inv_def)
qed

lemma window_inv_admitted:
  assumes inv: "window_inv window A T k" and "T \<le> now" and "0 \<le> now" and new: "i \<notin> fst ` set A" and "0 < window"
  shows "window_inv window (A @ [(i, now)]) now
    \<lparr>wk_set = filter (\<lambda>(m, score). m \<noteq> i) (counted_set now window k) @ [(i, now)], wk_deadline = Some (now + window)\<rparr>"
proof -
  have keep: "filter (\<lambda>(m, score). m \<noteq> i) (counted_set now window k) = counted_set now window k"
    using counted_set_sub(1) [OF inv, of now] new by (intro filter_True) (auto intro: rev_image_eqI)
  have "(i, now) \<notin> set (counted_set now window k)"
    using counted_set_sub(1) [OF inv, of now] new by (auto intro: rev_image_eqI)
  moreover have "\<forall>(j, t) \<in> set A. 0 \<le> t \<and> t \<le> now"
    using inv assms(2) by (fastforce simp: window_inv_def)
  ultimately show ?thesis
    unfolding keep window_inv_def
    using inv assms(3) new counted_set_sub [OF inv, of now] counted_set_complete [OF inv assms(2)]
    by (auto simp: window_inv_def)
qed

lemma window_admission_limit:
  assumes inv: "window_inv window A T k" and "T \<le> now" and "int (length (counted_set now window k)) < limit"
    and "\<And>u. int (in_window window u A) \<le> limit"
  shows "int (in_window window u (A @ [(i, now)])) \<le> limit"
proof (cases "u - window < now \<and> now \<le> u")
  case True
  have "in_window window u A \<le> length (counted_set now window k)"
    using inv counted_set_complete [OF inv assms(2)] True
    by (intro in_window_le) (auto simp: window_inv_def distinct_map)
  then show ?thesis
    using True assms(3) by (simp add: in_window_def)
next
  case False
  then have "in_window window u (A @ [(i, now)]) = in_window window u A"
    by (auto simp: in_window_def)
  then show ?thesis
    using assms(4) by simp
qed


lemma window_run_limit:
  assumes "window_inv window A T k" and "\<And>u. int (in_window window u A) \<le> limit" and "0 < window"
    and "sorted (map fst rs)" and "\<And>r. r \<in> set rs \<Longrightarrow> T \<le> fst r \<and> 0 \<le> fst r"
    and "distinct (map snd rs)" and "snd ` set rs \<inter> fst ` set A = {}"
    and "window_run window limit rs k = (ts, k')"
  shows "\<exists>is. length is = length ts \<and> (\<forall>u. int (in_window window u (A @ zip is ts)) \<le> limit)"
  using assms
proof (induction rs arbitrary: A T k ts)
  case Nil
  then show ?case
    by simp
next
  case (Cons r rs)
  obtain now i where r: "r = (now, i)"
    by fastforce
  have T: "T \<le> now" and now: "0 \<le> now" and new: "i \<notin> fst ` set A"
    using Cons.prems(5) [of r] Cons.prems(7) r by auto
  have later: "now \<le> fst x \<and> 0 \<le> fst x" if "x \<in> set rs" for x
    using Cons.prems(4) Cons.prems(5) [of x] that r by auto
  show ?case
  proof (cases "int (length (counted_set now window k)) < limit")
    case True
    let ?k1 = "\<lparr>wk_set = filter (\<lambda>(m, score). m \<noteq> i) (counted_set now window k) @ [(i, now)], wk_deadline = Some (now + window)\<rparr>"
    obtain ts1 where rest: "window_run window limit rs ?k1 = (ts1, k')" and ts: "ts = now # ts1"
      using Cons.prems(8) True by (auto simp: r script_counted split: prod.splits)
    have "\<exists>is. length is = length ts1 \<and> (\<forall>u. int (in_window window u ((A @ [(i, now)]) @ zip is ts1)) \<le> limit)"
    proof (rule Cons.IH [OF window_inv_admitted [OF Cons.prems(1) T now new Cons.prems(3)] _ Cons.prems(3) _ later _ _ rest])
      show "int (in_window window u (A @ [(i, now)])) \<le> limit" for u
        by (rule window_admission_limit [OF Cons.prems(1) T True Cons.prems(2)])
    qed (use Cons.prems(4,6,7) r in auto)
    then obtain "is" where "length is = length ts1" "\<forall>u. int (in_window window u (A @ zip (i # is) ts)) \<le> limit"
      by (auto simp: ts)
    then show ?thesis
      by (intro exI [of _ "i # is"]) (simp add: ts)
  next
    case False
    let ?k1 = "(expired_key now k)\<lparr>wk_set := counted_set now window k\<rparr>"
    have rest: "window_run window limit rs ?k1 = (ts, k')"
      using Cons.prems(8) False by (auto simp: r script_counted split: prod.splits)
    show ?thesis
      by (rule Cons.IH [OF window_inv_refused [OF Cons.prems(1) T] Cons.prems(2,3) _ later _ _ rest])
        (use Cons.prems(4,6,7) r in auto)
  qed
qed

lemma in_window_times:
  "length is = length ts \<Longrightarrow> in_window window u (zip is ts) = length (filter (\<lambda>t. u - window < t \<and> t \<le> u) ts)"
  unfolding in_window_def by (induction "is" ts rule: list_induct2) auto


definition demo_requests :: "(int \<times> string) list" where
  "demo_requests = [(1, ''a''), (7, ''b''), (8, ''c''), (9, ''d'')]"



section \<open>Idempotency\<close>

text \<open>What Redis documents of the three commands, for a horizon in which the key does not expire.\<close>

definition setnx_law :: "('k \<Rightarrow> string \<Rightarrow> string option) \<Rightarrow> string \<Rightarrow> string \<Rightarrow> 'k \<Rightarrow> bool option \<times> 'k \<Rightarrow> bool" where
  "setnx_law stored key v k reply \<longleftrightarrow>
     (case reply of
        (Some True, k') \<Rightarrow> stored k key = None \<and> stored k' = (stored k)(key \<mapsto> v)
      | (Some False, k') \<Rightarrow> stored k key \<noteq> None \<and> stored k' = stored k
      | (None, k') \<Rightarrow> stored k' = stored k \<or> stored k key = None \<and> stored k' = (stored k)(key \<mapsto> v))"

definition idem_laws :: "'k idem_redis \<Rightarrow> ('k \<Rightarrow> string \<Rightarrow> string option) \<Rightarrow> bool" where
  "idem_laws R stored \<longleftrightarrow>
     (\<forall>key v k. setnx_law stored key v k (ir_SetNX R key v k)) \<and>
     (\<forall>key k v. ir_Get R key k = Some v \<longrightarrow> stored k key = Some v) \<and>
     (\<forall>key v k. stored (ir_Set R key v k) = stored k \<or> stored (ir_Set R key v k) = (stored k)(key \<mapsto> v))"

lemma idem_laws_SetNX:
  assumes "idem_laws R stored"
  shows "ir_SetNX R key v k = (Some True, k') \<Longrightarrow> stored k key = None \<and> stored k' = (stored k)(key \<mapsto> v)"
    and "ir_SetNX R key v k = (Some False, k') \<Longrightarrow> stored k key \<noteq> None \<and> stored k' = stored k"
    and "ir_SetNX R key v k = (None, k') \<Longrightarrow> stored k' = stored k \<or> stored k key = None \<and> stored k' = (stored k)(key \<mapsto> v)"
proof -
  have law: "setnx_law stored key v k (ir_SetNX R key v k)"
    using assms unfolding idem_laws_def by blast
  show "ir_SetNX R key v k = (Some True, k') \<Longrightarrow> stored k key = None \<and> stored k' = (stored k)(key \<mapsto> v)"
    and "ir_SetNX R key v k = (Some False, k') \<Longrightarrow> stored k key \<noteq> None \<and> stored k' = stored k"
    and "ir_SetNX R key v k = (None, k') \<Longrightarrow> stored k' = stored k \<or> stored k key = None \<and> stored k' = (stored k)(key \<mapsto> v)"
    using law by (simp_all add: setnx_law_def)
qed

lemma idem_laws_GetSet:
  assumes "idem_laws R stored"
  shows "ir_Get R key k = Some v \<Longrightarrow> stored k key = Some v"
    and "stored (ir_Set R key v k) = stored k \<or> stored (ir_Set R key v k) = (stored k)(key \<mapsto> v)"
  using assms unfolding idem_laws_def by blast+

text \<open>Requests interleave: a request begins, and if it may proceed its handler runs and it finishes later.\<close>

datatype idem_event = Begins request | Finishes request response

fun idem_run :: "'k idem_redis \<Rightarrow> idem_codec \<Rightarrow> idem_event list \<Rightarrow> 'k \<Rightarrow> (request \<times> idem_decision) list \<times> 'k" where
  "idem_run R J [] k = ([], k)"
| "idem_run R J (Begins r # es) k =
     (case idem_begin R J r k of (d, k1) \<Rightarrow> (case idem_run R J es k1 of (ds, k2) \<Rightarrow> ((r, d) # ds, k2)))"
| "idem_run R J (Finishes r resp # es) k = idem_run R J es (idem_finish R J r resp k)"

definition proceeded :: "string \<Rightarrow> (request \<times> idem_decision) list \<Rightarrow> nat" where
  "proceeded key ds = length (filter (\<lambda>(r, d). idem_key r = key \<and> d = Proceed) ds)"

lemma idem_begin_stored:
  assumes laws: "idem_laws R stored" and "idem_begin R J r k = (d, k')"
  shows "d = Proceed \<Longrightarrow> stored k (idem_key r) = None \<and> stored k' (idem_key r) \<noteq> None"
    and "stored k key \<noteq> None \<Longrightarrow> stored k' key \<noteq> None"
proof -
  obtain s k1 where nx: "ir_SetNX R (idem_key r) in_progress k = (s, k1)"
    by fastforce
  have "(d = Proceed \<longrightarrow> stored k (idem_key r) = None \<and> stored k' (idem_key r) \<noteq> None) \<and>
      (stored k key \<noteq> None \<longrightarrow> stored k' key \<noteq> None)"
  proof (cases s)
    case None
    then show ?thesis
      using assms(2) idem_laws_SetNX(3) [OF laws nx [unfolded None]] nx
      by (auto simp: idem_begin_def split: if_splits)
  next
    case (Some b)
    show ?thesis
    proof (cases b)
      case True
      then show ?thesis
        using assms(2) idem_laws_SetNX(1) [OF laws, of "idem_key r" in_progress k k1] nx Some
        by (auto simp: idem_begin_def split: if_splits)
    next
      case False
      then show ?thesis
        using assms(2) idem_laws_SetNX(2) [OF laws, of "idem_key r" in_progress k k1] nx Some
        by (auto simp: idem_begin_def Let_def split: if_splits option.splits)
    qed
  qed
  then show "d = Proceed \<Longrightarrow> stored k (idem_key r) = None \<and> stored k' (idem_key r) \<noteq> None"
    and "stored k key \<noteq> None \<Longrightarrow> stored k' key \<noteq> None"
    by blast+
qed

lemma idem_run_once:
  assumes laws: "idem_laws R stored" and "idem_run R J es k = (ds, k')"
  shows "proceeded key ds \<le> (if stored k key = None then 1 else 0)"
  using assms(2)
proof (induction es arbitrary: k ds)
  case Nil
  then show ?case
    by (simp add: proceeded_def)
next
  case (Cons e es)
  show ?case
  proof (cases e)
    case (Begins r)
    obtain d k1 where b: "idem_begin R J r k = (d, k1)"
      by fastforce
    obtain ds1 where rest: "idem_run R J es k1 = (ds1, k')" and ds: "ds = (r, d) # ds1"
      using Cons.prems Begins b by (auto split: prod.splits)
    have "proceeded key ds1 \<le> (if stored k1 key = None then 1 else 0)"
      by (rule Cons.IH [OF rest])
    then show ?thesis
      using idem_begin_stored(1) [OF laws b] idem_begin_stored(2) [OF laws b, of key]
      by (auto simp: ds proceeded_def split: if_splits)
  next
    case (Finishes r resp)
    have "stored (idem_finish R J r resp k) key = None \<Longrightarrow> stored k key = None"
      using idem_laws_GetSet(2) [OF laws, of "idem_key r" _ k] unfolding idem_finish_def
      by (metis fun_upd_apply option.distinct(1))
    then show ?thesis
      using Cons.IH [of "idem_finish R J r resp k" ds] Cons.prems Finishes by (auto split: if_splits)
  qed
qed

lemma idem_replay:
  assumes laws: "idem_laws R stored" and json: "\<And>c. ic_unmarshal J (ic_marshal J c) = Some c"
    and marker: "\<And>c. ic_marshal J c \<noteq> in_progress"
    and up: "\<And>key v k. fst (ir_SetNX R key v k) \<noteq> None" "\<And>key k. ir_Get R key k = stored k key"
    and cached: "stored k (idem_key r) = Some (ic_marshal J c)" and key: "header (rq_Header r) ''Idempotency-Key'' \<noteq> ''''"
  shows "\<exists>resp k'. Idempotency_Middleware R J next r k w = (resp, k', w) \<and>
    rs_Status resp = cr_StatusCode c \<and> rs_Body resp = cr_Body c \<and> stored k' = stored k"
proof -
  obtain s k1 where nx: "ir_SetNX R (idem_key r) in_progress k = (s, k1)"
    by fastforce
  have "s = Some False"
    using up(1) [of "idem_key r" in_progress k] idem_laws_SetNX(1) [OF laws, of "idem_key r" in_progress k k1] nx cached
    by (cases s) auto
  then have nx: "ir_SetNX R (idem_key r) in_progress k = (Some False, k1)" and k1: "stored k1 = stored k"
    using nx idem_laws_SetNX(2) [OF laws, of "idem_key r" in_progress k k1] by auto
  then show ?thesis
    using key cached json marker up(2)
    by (simp add: Idempotency_Middleware_def idem_begin_def Let_def)
qed


text \<open>The key of a request is the tenant header and the idempotency key with a colon between, and both
  may contain colons: two requests of different tenants can share the key, and then the second tenant is
  answered with the first tenant's cached response.\<close>

theorem idempotency_key_collision:
  "\<exists>r r'. tenant_or ''global'' r \<noteq> tenant_or ''global'' r' \<and> idem_key r = idem_key r' \<and>
     header (rq_Header r') ''Idempotency-Key'' \<noteq> '''' \<and>
     (\<forall>(R :: 'k idem_redis) J k. fst (idem_begin R J r k) = fst (idem_begin R J r' k))"
proof (intro exI conjI)
  let ?r = "\<lparr>rq_Method = ''POST'', rq_Header = [(''X-Tenant-ID'', ''a''), (''Idempotency-Key'', ''b:c'')]\<rparr>"
  let ?r' = "\<lparr>rq_Method = ''POST'', rq_Header = [(''X-Tenant-ID'', ''a:b''), (''Idempotency-Key'', ''c'')]\<rparr>"
  show "tenant_or ''global'' ?r \<noteq> tenant_or ''global'' ?r'"
    by (simp add: tenant_or_def header_def Let_def)
  show eq: "idem_key ?r = idem_key ?r'"
    by (simp add: idem_key_def tenant_or_def header_def Let_def)
  show "header (rq_Header ?r') ''Idempotency-Key'' \<noteq> ''''"
    by (simp add: header_def)
  show "\<forall>(R :: 'k idem_redis) J k. fst (idem_begin R J ?r k) = fst (idem_begin R J ?r' k)"
    unfolding idem_begin_def eq by (simp add: header_def)
qed


definition demo_idem_redis :: "(string \<Rightarrow> string option) idem_redis" where
  "demo_idem_redis = \<lparr>ir_SetNX = (\<lambda>key v k. if k key = None then (Some True, k(key \<mapsto> v)) else (Some False, k)),
     ir_Get = (\<lambda>key k. k key), ir_Set = (\<lambda>key v k. k(key \<mapsto> v))\<rparr>"

text \<open>A codec for the example: the status in decimal, a colon, the body.\<close>

definition demo_idem_codec :: idem_codec where
  "demo_idem_codec = \<lparr>ic_marshal = (\<lambda>c. format_nat (cr_StatusCode c) @ '':'' @ cr_Body c),
     ic_unmarshal = (\<lambda>s. let ds = takeWhile (\<lambda>c. c \<noteq> CHR '':'') s in
       map_option (\<lambda>n. \<lparr>cr_StatusCode = n, cr_Body = drop (length ds + 1) s\<rparr>) (parse_nat ds))\<rparr>"

lemma demo_idem_codec_roundtrip: "ic_unmarshal demo_idem_codec (ic_marshal demo_idem_codec c) = Some c"
proof -
  have "CHR '':'' \<notin> set (format_nat n)" for n
    using format_nat_digits is_digit_not_sign(3) by blast
  then have "takeWhile (\<lambda>c. c \<noteq> CHR '':'') (format_nat n @ CHR '':'' # q) = format_nat n" for n q
    by (subst takeWhile_append2) auto
  then show ?thesis
    by (simp add: demo_idem_codec_def Let_def)
qed

lemma demo_idem_codec_marker: "ic_marshal demo_idem_codec c \<noteq> in_progress"
proof
  assume "ic_marshal demo_idem_codec c = in_progress"
  then have "CHR '':'' \<in> set in_progress"
    by (auto simp: demo_idem_codec_def simp flip: set_append)
       (metis Un_iff list.set_intros(1) set_append)
  then show False
    by (simp add: in_progress_def)
qed

definition demo_idem_request :: request where
  "demo_idem_request = \<lparr>rq_Method = ''POST'', rq_Header = [(''X-Tenant-ID'', ''t''), (''Idempotency-Key'', ''k'')]\<rparr>"


section \<open>CORS\<close>

text \<open>The middleware adds the headers exactly for a configured origin, answers its preflight without the
  handler, and is transparent to everything else.\<close>

lemma CORS_transparent:
  assumes "header (rq_Header r) ''Origin'' \<notin> set (AllowedOrigins cfg) \<or> header (rq_Header r) ''Origin'' = ''''"
  shows "CORSMiddleware cfg next r w = next r w"
  using assms by (auto simp: CORSMiddleware_def Let_def)

lemma CORS_allowed:
  assumes "header (rq_Header r) ''Origin'' \<in> set (AllowedOrigins cfg)" and "header (rq_Header r) ''Origin'' \<noteq> ''''"
  shows "rq_Method r = ''OPTIONS'' \<Longrightarrow> snd (CORSMiddleware cfg next r w) = w"
    and "rq_Method r \<noteq> ''OPTIONS'' \<Longrightarrow> snd (CORSMiddleware cfg next r w) = snd (next r w)"
    and "set (cors_headers cfg (header (rq_Header r) ''Origin'')) \<subseteq> set (rs_Header (fst (CORSMiddleware cfg next r w)))"
  using assms by (auto simp: CORSMiddleware_def Let_def with_headers_def split: prod.splits)

end
