(* ===== verification/Lock.thy ===== *)
theory Lock
  imports Strconv
begin

unbundle bit_operations_syntax

text \<open>
  Distributed locking of \<^verbatim>\<open>internal/lock\<close>: the Redis lock with its two Lua scripts
  (\<^verbatim>\<open>redlock.go\<close>), the PostgreSQL advisory lock (\<^verbatim>\<open>advisory.go\<close>) and leader election over any
  locker (\<^verbatim>\<open>leader.go\<close>). The Redis server is a map from keys to values with an optional deadline, the
  state the scripts work on; PostgreSQL's advisory locks are owned by a session with a count, as its
  documentation says. Each call may lose its request or its reply.
\<close>

section \<open>Interface\<close>

datatype lock_error = ErrLockHeld | ErrLockExpired | LockQueryError

record LockToken =
  lt_resource :: string
  lt_id :: string
  lt_lockID :: int
  lt_ttl :: duration

record 's Locker =
  lk_Acquire :: "string \<Rightarrow> duration \<Rightarrow> 's \<Rightarrow> (lock_error + LockToken) \<times> 's"
  lk_Release :: "LockToken \<Rightarrow> 's \<Rightarrow> lock_error option \<times> 's"
  lk_Refresh :: "LockToken \<Rightarrow> duration \<Rightarrow> 's \<Rightarrow> lock_error option \<times> 's"

section \<open>The Redis lock\<close>

type_synonym redis_keys = "string \<Rightarrow> (string \<times> instant) option"

definition live_value :: "instant \<Rightarrow> redis_keys \<Rightarrow> string \<Rightarrow> string option" where
  "live_value now s key = (case s key of None \<Rightarrow> None | Some (v, deadline) \<Rightarrow> if now < deadline then Some v else None)"

text \<open>Deadlines are whole milliseconds, at least one for a new key. The durations in use are positive.\<close>

definition redis_setnx :: "instant \<Rightarrow> string \<Rightarrow> string \<Rightarrow> duration \<Rightarrow> redis_keys \<Rightarrow> bool \<times> redis_keys" where
  "redis_setnx now key v ttl s =
     (if live_value now s key \<noteq> None then (False, s)
      else (True, s(key \<mapsto> (v, now + max 1 (ttl div Millisecond) * Millisecond))))"

definition unlockScript :: "instant \<Rightarrow> string \<Rightarrow> string \<Rightarrow> redis_keys \<Rightarrow> int \<times> redis_keys" where
  "unlockScript now key i s = (if live_value now s key = Some i then (1, s(key := None)) else (0, s))"

definition refreshScript :: "instant \<Rightarrow> string \<Rightarrow> string \<Rightarrow> int \<Rightarrow> redis_keys \<Rightarrow> int \<times> redis_keys" where
  "refreshScript now key i ms s =
     (if live_value now s key = Some i then (1, s(key \<mapsto> (i, now + ms * Millisecond))) else (0, s))"

definition lock_key :: "string \<Rightarrow> string" where
  "lock_key resource = ''aegis:lock:'' @ resource"

datatype network = Fine | LostRequest | LostReply

definition over :: "network \<Rightarrow> ('s \<Rightarrow> ('e + 'r) \<times> 's) \<Rightarrow> 'e \<Rightarrow> 's \<Rightarrow> ('e + 'r) \<times> 's" where
  "over net call err s =
     (case net of
        Fine \<Rightarrow> call s
      | LostRequest \<Rightarrow> (Inl err, s)
      | LostReply \<Rightarrow> (Inl err, snd (call s)))"

definition Redis_Acquire ::
  "network \<Rightarrow> instant \<Rightarrow> string \<Rightarrow> string \<Rightarrow> duration \<Rightarrow> redis_keys \<Rightarrow> (lock_error + LockToken) \<times> redis_keys" where
  "Redis_Acquire net now tokenID resource ttl s =
     (case over net (\<lambda>s. case redis_setnx now (lock_key resource) tokenID ttl s of (ok, s') \<Rightarrow> (Inr ok, s')) LockQueryError s of
        (Inl e, s') \<Rightarrow> (Inl e, s')
      | (Inr False, s') \<Rightarrow> (Inl ErrLockHeld, s')
      | (Inr True, s') \<Rightarrow> (Inr \<lparr>lt_resource = resource, lt_id = tokenID, lt_lockID = 0, lt_ttl = ttl\<rparr>, s'))"

definition Redis_Release :: "network \<Rightarrow> instant \<Rightarrow> LockToken \<Rightarrow> redis_keys \<Rightarrow> lock_error option \<times> redis_keys" where
  "Redis_Release net now tok s =
     (case over net (\<lambda>s. case unlockScript now (lock_key (lt_resource tok)) (lt_id tok) s of (n, s') \<Rightarrow> (Inr n, s')) LockQueryError s of
        (Inl e, s') \<Rightarrow> (Some e, s')
      | (Inr n, s') \<Rightarrow> (if n = 0 then Some ErrLockExpired else None, s'))"

definition Redis_Refresh :: "network \<Rightarrow> instant \<Rightarrow> LockToken \<Rightarrow> duration \<Rightarrow> redis_keys \<Rightarrow> lock_error option \<times> redis_keys" where
  "Redis_Refresh net now tok ttl s =
     (case over net (\<lambda>s. case refreshScript now (lock_key (lt_resource tok)) (lt_id tok) (ttl div Millisecond) s of (n, s') \<Rightarrow> (Inr n, s')) LockQueryError s of
        (Inl e, s') \<Rightarrow> (Some e, s')
      | (Inr n, s') \<Rightarrow> (if n = 0 then Some ErrLockExpired else None, s'))"

definition RedisLocker :: "network \<Rightarrow> instant \<Rightarrow> string \<Rightarrow> redis_keys Locker" where
  "RedisLocker net now tokenID =
     \<lparr>lk_Acquire = Redis_Acquire net now tokenID, lk_Release = Redis_Release net now, lk_Refresh = Redis_Refresh net now\<rparr>"

section \<open>The advisory lock\<close>

text \<open>FNV-1a with 64 bits.\<close>

definition fnv1a :: "bytes \<Rightarrow> u64" where
  "fnv1a bs = foldl (\<lambda>h b. (h XOR ucast b) * 1099511628211) 14695981039346656037 bs"

definition hashKey :: "string \<Rightarrow> int" where
  "hashKey resource = sint (fnv1a (map (\<lambda>c. of_nat (of_char c)) resource))"

text \<open>Which session owns an advisory lock, and how many times it has locked it.\<close>

type_synonym advisory = "int \<Rightarrow> (nat \<times> nat) option"

definition pg_try_advisory_lock :: "nat \<Rightarrow> int \<Rightarrow> advisory \<Rightarrow> bool \<times> advisory" where
  "pg_try_advisory_lock session i a =
     (case a i of
        None \<Rightarrow> (True, a(i \<mapsto> (session, 1)))
      | Some (owner, n) \<Rightarrow> if owner = session then (True, a(i \<mapsto> (owner, n + 1))) else (False, a))"

definition pg_advisory_unlock :: "nat \<Rightarrow> int \<Rightarrow> advisory \<Rightarrow> bool \<times> advisory" where
  "pg_advisory_unlock session i a =
     (case a i of
        None \<Rightarrow> (False, a)
      | Some (owner, n) \<Rightarrow>
          if owner \<noteq> session then (False, a)
          else (True, a(i := (if n \<le> 1 then None else Some (owner, n - 1)))))"

text \<open>The pool hands every query some connection, \<open>conn\<close>.\<close>

definition Advisory_Acquire ::
  "network \<Rightarrow> nat \<Rightarrow> string \<Rightarrow> string \<Rightarrow> duration \<Rightarrow> advisory \<Rightarrow> (lock_error + LockToken) \<times> advisory" where
  "Advisory_Acquire net conn i resource ttl a =
     (let lockID = hashKey resource
      in case over net (\<lambda>a. case pg_try_advisory_lock conn lockID a of (ok, a') \<Rightarrow> (Inr ok, a')) LockQueryError a of
           (Inl e, a') \<Rightarrow> (Inl e, a')
         | (Inr False, a') \<Rightarrow> (Inl ErrLockHeld, a')
         | (Inr True, a') \<Rightarrow> (Inr \<lparr>lt_resource = resource, lt_id = i, lt_lockID = lockID, lt_ttl = ttl\<rparr>, a'))"

definition Advisory_Release :: "network \<Rightarrow> nat \<Rightarrow> LockToken \<Rightarrow> advisory \<Rightarrow> lock_error option \<times> advisory" where
  "Advisory_Release net conn tok a =
     (case over net (\<lambda>a. case pg_advisory_unlock conn (lt_lockID tok) a of (ok, a') \<Rightarrow> (Inr ok, a')) LockQueryError a of
        (Inl e, a') \<Rightarrow> (Some e, a')
      | (Inr released, a') \<Rightarrow> (if \<not> released then Some ErrLockExpired else None, a'))"

definition PostgresAdvisoryLocker :: "network \<Rightarrow> nat \<Rightarrow> string \<Rightarrow> advisory Locker" where
  "PostgresAdvisoryLocker net conn i =
     \<lparr>lk_Acquire = Advisory_Acquire net conn i, lk_Release = Advisory_Release net conn, lk_Refresh = (\<lambda>_ _ a. (None, a))\<rparr>"

section \<open>Leader election\<close>

record LeaderConfig =
  lc_Resource :: string
  lc_LeaseDuration :: duration
  lc_RenewInterval :: duration

record LeaderElection =
  le_cfg :: LeaderConfig
  le_isLeader :: bool
  le_activeTok :: "LockToken option"

definition NewLeaderElection :: "LeaderConfig \<Rightarrow> LeaderElection" where
  "NewLeaderElection cfg =
     \<lparr>le_cfg = \<lparr>lc_Resource = (if lc_Resource cfg = '''' then ''aegis:gc:leader'' else lc_Resource cfg),
        lc_LeaseDuration = (if lc_LeaseDuration cfg \<le> 0 then 15 * Second else lc_LeaseDuration cfg),
        lc_RenewInterval = (if lc_RenewInterval cfg \<le> 0 then 5 * Second else lc_RenewInterval cfg)\<rparr>,
      le_isLeader = False, le_activeTok = None\<rparr>"

definition IsLeader :: "LeaderElection \<Rightarrow> bool" where
  "IsLeader l \<longleftrightarrow> le_isLeader l"

definition leader_step :: "'s Locker \<Rightarrow> LeaderElection \<Rightarrow> 's \<Rightarrow> LeaderElection \<times> 's" where
  "leader_step L l s =
     (case (le_isLeader l, le_activeTok l) of
        (True, Some tok) \<Rightarrow>
          (case lk_Refresh L tok (lc_LeaseDuration (le_cfg l)) s of
             (None, s') \<Rightarrow> (l, s')
           | (Some e, s') \<Rightarrow> (l\<lparr>le_isLeader := False, le_activeTok := None\<rparr>, s'))
      | _ \<Rightarrow>
          (case lk_Acquire L (lc_Resource (le_cfg l)) (lc_LeaseDuration (le_cfg l)) s of
             (Inr tok, s') \<Rightarrow> (l\<lparr>le_isLeader := True, le_activeTok := Some tok\<rparr>, s')
           | (Inl e, s') \<Rightarrow> (l\<lparr>le_isLeader := False\<rparr>, s')))"

definition Resign :: "'s Locker \<Rightarrow> LeaderElection \<Rightarrow> 's \<Rightarrow> lock_error option \<times> LeaderElection \<times> 's" where
  "Resign L l s =
     (case (le_isLeader l, le_activeTok l) of
        (True, Some tok) \<Rightarrow>
          (case lk_Release L tok s of (e, s') \<Rightarrow> (e, l\<lparr>le_isLeader := False, le_activeTok := None\<rparr>, s'))
      | _ \<Rightarrow> (None, l, s))"


section \<open>A cluster of electors\<close>

text \<open>The nodes share a clock and a Redis server. \<open>cl_until i\<close> is the end of the lease that node \<open>i\<close> last
  obtained or renewed, \<open>cl_used\<close> the token identifiers drawn so far; identifiers are fresh.\<close>

record cluster =
  cl_now :: instant
  cl_keys :: redis_keys
  cl_node :: "nat \<Rightarrow> LeaderElection"
  cl_until :: "nat \<Rightarrow> instant"
  cl_used :: "string set"

inductive cluster_step :: "cluster \<Rightarrow> cluster \<Rightarrow> bool" where
  passes: "cl_now s \<le> t \<Longrightarrow> cluster_step s (s\<lparr>cl_now := t\<rparr>)"
| campaigns: "\<lbrakk>tid \<notin> cl_used s;
     leader_step (RedisLocker net (cl_now s) tid) (cl_node s i) (cl_keys s) = (l, k)\<rbrakk> \<Longrightarrow>
     cluster_step s (s\<lparr>cl_keys := k, cl_node := (cl_node s)(i := l),
       cl_until := (cl_until s)(i := (if le_isLeader l then cl_now s + lc_LeaseDuration (le_cfg l) else cl_until s i)),
       cl_used := insert tid (cl_used s)\<rparr>)"
| resigns: "Resign (RedisLocker net (cl_now s) tid) (cl_node s i) (cl_keys s) = (e, l, k) \<Longrightarrow>
     cluster_step s (s\<lparr>cl_keys := k, cl_node := (cl_node s)(i := l)\<rparr>)"

text \<open>What the lock's operations do to a key, whatever the network does.\<close>

lemma Redis_Acquire_cases:
  assumes "Redis_Acquire net now tid R ttl s = (r, s')"
  obtains (kept) "s' = s" and "\<not> (\<exists>tok. r = Inr tok)"
  | (taken) "live_value now s (lock_key R) = None"
      and "s' = s(lock_key R \<mapsto> (tid, now + max 1 (ttl div Millisecond) * Millisecond))"
      and "r = Inr \<lparr>lt_resource = R, lt_id = tid, lt_lockID = 0, lt_ttl = ttl\<rparr> \<or> (\<exists>e. r = Inl e)"
  using assms
  by (cases net; cases "live_value now s (lock_key R) = None")
    (auto simp: Redis_Acquire_def over_def redis_setnx_def split: if_splits)

lemma Redis_Refresh_cases:
  assumes "Redis_Refresh net now tok ttl s = (r, s')"
  obtains (kept) "s' = s" and "r \<noteq> None"
  | (renewed) "live_value now s (lock_key (lt_resource tok)) = Some (lt_id tok)"
      and "s' = s(lock_key (lt_resource tok) \<mapsto> (lt_id tok, now + ttl div Millisecond * Millisecond))"
  using assms
  by (cases net; cases "live_value now s (lock_key (lt_resource tok)) = Some (lt_id tok)")
    (auto simp: Redis_Refresh_def over_def refreshScript_def)

lemma Redis_Release_cases:
  assumes "Redis_Release net now tok s = (r, s')"
  obtains (kept) "s' = s"
  | (freed) "live_value now s (lock_key (lt_resource tok)) = Some (lt_id tok)" and "s' = s(lock_key (lt_resource tok) := None)"
  using assms
  by (cases net; cases "live_value now s (lock_key (lt_resource tok)) = Some (lt_id tok)")
    (auto simp: Redis_Release_def over_def unlockScript_def)

text \<open>Node \<open>i\<close> believes to lead with token identifier \<open>x\<close>.\<close>

definition leads_with :: "cluster \<Rightarrow> string \<Rightarrow> nat \<Rightarrow> string \<Rightarrow> bool" where
  "leads_with s R i x \<longleftrightarrow> le_isLeader (cl_node s i) \<and> (\<exists>tok. le_activeTok (cl_node s i) = Some tok \<and> lt_resource tok = R \<and> lt_id tok = x)"

definition cluster_inv :: "string \<Rightarrow> duration \<Rightarrow> cluster \<Rightarrow> bool" where
  "cluster_inv R lease s \<longleftrightarrow>
     (\<forall>i. lc_Resource (le_cfg (cl_node s i)) = R \<and> lc_LeaseDuration (le_cfg (cl_node s i)) = lease) \<and>
     (\<forall>i. le_isLeader (cl_node s i) \<longrightarrow> (\<exists>x. leads_with s R i x)) \<and>
     (\<forall>i x. leads_with s R i x \<longrightarrow> x \<in> cl_used s \<and>
        (cl_now s < cl_until s i \<longrightarrow> (\<exists>d. cl_keys s (lock_key R) = Some (x, d) \<and> cl_until s i \<le> d))) \<and>
     (\<forall>i j x. leads_with s R i x \<longrightarrow> leads_with s R j x \<longrightarrow> i = j)"

lemma leads_with_fun: "leads_with s R i x \<Longrightarrow> leads_with s R i y \<Longrightarrow> x = y"
  by (auto simp: leads_with_def)

lemma leads_with_upd:
  "leads_with (s\<lparr>cl_keys := k, cl_node := (cl_node s)(i := l), cl_until := u, cl_used := us\<rparr>) R j x \<longleftrightarrow>
     (if j = i then le_isLeader l \<and> (\<exists>tok. le_activeTok l = Some tok \<and> lt_resource tok = R \<and> lt_id tok = x) else leads_with s R j x)"
  by (simp add: leads_with_def)

text \<open>A node whose lease runs is the holder on the server.\<close>

lemma running_lease_live:
  assumes "cluster_inv R lease s" and "leads_with s R i x" and "cl_now s < cl_until s i"
  shows "live_value (cl_now s) (cl_keys s) (lock_key R) = Some x"
  using assms by (fastforce simp: cluster_inv_def live_value_def)

lemma cluster_inv_leads: "cluster_inv R lease s \<Longrightarrow> le_isLeader (cl_node s i) \<Longrightarrow> \<exists>x. leads_with s R i x"
  by (simp add: cluster_inv_def)

lemma cluster_inv_alone: "cluster_inv R lease s \<Longrightarrow> leads_with s R i x \<Longrightarrow> leads_with s R j x \<Longrightarrow> i = j"
  unfolding cluster_inv_def by blast

text \<open>After a step of node \<open>i\<close> the other nodes' leases run only if the key is untouched by it.\<close>

lemma cluster_inv_update:
  assumes inv: "cluster_inv R lease s"
    and cfg: "le_cfg l = le_cfg (cl_node s i)"
    and lead: "le_isLeader l \<Longrightarrow> \<exists>tok. le_activeTok l = Some tok \<and> lt_resource tok = R \<and>
      lt_id tok \<in> us \<and> (cl_now s < u \<longrightarrow> (\<exists>d. k (lock_key R) = Some (lt_id tok, d) \<and> u \<le> d)) \<and>
      (\<forall>j. j \<noteq> i \<longrightarrow> \<not> leads_with s R j (lt_id tok))"
    and others: "\<And>j x. j \<noteq> i \<Longrightarrow> leads_with s R j x \<Longrightarrow> cl_now s < cl_until s j \<Longrightarrow> k (lock_key R) = cl_keys s (lock_key R)"
    and us: "cl_used s \<subseteq> us"
  shows "cluster_inv R lease (s\<lparr>cl_keys := k, cl_node := (cl_node s)(i := l), cl_until := (cl_until s)(i := u), cl_used := us\<rparr>)"
proof -
  let ?s = "s\<lparr>cl_keys := k, cl_node := (cl_node s)(i := l), cl_until := (cl_until s)(i := u), cl_used := us\<rparr>"
  have old: "x \<in> us \<and> (cl_now s < cl_until s j \<longrightarrow> (\<exists>d. k (lock_key R) = Some (x, d) \<and> cl_until s j \<le> d))"
    if "j \<noteq> i" and "leads_with s R j x" for j x
  proof -
    have "x \<in> cl_used s" and "cl_now s < cl_until s j \<longrightarrow> (\<exists>d. cl_keys s (lock_key R) = Some (x, d) \<and> cl_until s j \<le> d)"
      using inv that(2) unfolding cluster_inv_def by blast+
    then show ?thesis
      using others [OF that] us by auto
  qed
  have new: "x \<in> us \<and> (cl_now s < u \<longrightarrow> (\<exists>d. k (lock_key R) = Some (x, d) \<and> u \<le> d)) \<and> (\<forall>j. j \<noteq> i \<longrightarrow> \<not> leads_with s R j x)"
    if "leads_with ?s R i x" for x
    using lead that by (auto simp: leads_with_upd)
  have other: "leads_with ?s R j x \<longleftrightarrow> leads_with s R j x" if "j \<noteq> i" for j x
    using that by (simp add: leads_with_upd)
  have "\<forall>j. lc_Resource (le_cfg (cl_node ?s j)) = R \<and> lc_LeaseDuration (le_cfg (cl_node ?s j)) = lease"
    using inv cfg by (simp add: cluster_inv_def)
  moreover have "\<forall>j. le_isLeader (cl_node ?s j) \<longrightarrow> (\<exists>x. leads_with ?s R j x)"
    using inv lead by (auto simp: cluster_inv_def leads_with_upd)
  moreover have "\<forall>j x. leads_with ?s R j x \<longrightarrow> x \<in> us \<and>
      (cl_now s < cl_until ?s j \<longrightarrow> (\<exists>d. k (lock_key R) = Some (x, d) \<and> cl_until ?s j \<le> d))"
  proof (intro allI impI)
    fix j x assume "leads_with ?s R j x"
    then show "x \<in> us \<and> (cl_now s < cl_until ?s j \<longrightarrow> (\<exists>d. k (lock_key R) = Some (x, d) \<and> cl_until ?s j \<le> d))"
      using old [of j x] new [of x] other [of j x] by (cases "j = i") auto
  qed
  moreover have "\<forall>j j' x. leads_with ?s R j x \<longrightarrow> leads_with ?s R j' x \<longrightarrow> j = j'"
  proof (intro allI impI)
    fix j j' x assume l: "leads_with ?s R j x" "leads_with ?s R j' x"
    have "leads_with s R j x \<Longrightarrow> leads_with s R j' x \<Longrightarrow> j = j'"
      using inv unfolding cluster_inv_def by blast
    then show "j = j'"
      using l new other by (cases "j = i"; cases "j' = i") blast+
  qed
  ultimately show ?thesis
    unfolding cluster_inv_def by simp
qed


lemma cluster_inv_campaign:
  assumes inv: "cluster_inv R lease s" and ms: "lease div Millisecond * Millisecond = lease" "0 < lease"
    and fresh: "tid \<notin> cl_used s"
    and step: "leader_step (RedisLocker net (cl_now s) tid) (cl_node s i) (cl_keys s) = (l, k)"
  shows "cluster_inv R lease (s\<lparr>cl_keys := k, cl_node := (cl_node s)(i := l),
       cl_until := (cl_until s)(i := (if le_isLeader l then cl_now s + lc_LeaseDuration (le_cfg l) else cl_until s i)),
       cl_used := insert tid (cl_used s)\<rparr>)"
proof -
  have cfg: "lc_Resource (le_cfg (cl_node s i)) = R" "lc_LeaseDuration (le_cfg (cl_node s i)) = lease"
    using inv by (simp_all add: cluster_inv_def)
  have span: "max 1 (lease div Millisecond) * Millisecond = lease"
    using ms by (cases "lease div Millisecond \<le> 0") (auto simp: max_def Millisecond_def)
  have unused: "\<not> leads_with s R j tid" for j
    using inv fresh unfolding cluster_inv_def by blast
  show ?thesis
  proof (cases "\<exists>x. leads_with s R i x")
    case True
    then obtain tok where tok: "le_isLeader (cl_node s i)" "le_activeTok (cl_node s i) = Some tok" "lt_resource tok = R"
        and lead: "leads_with s R i (lt_id tok)"
      by (auto simp: leads_with_def)
    obtain r s' where ref: "Redis_Refresh net (cl_now s) tok lease (cl_keys s) = (r, s')"
      by fastforce
    have l: "l = (if r = None then cl_node s i else (cl_node s i)\<lparr>le_isLeader := False, le_activeTok := None\<rparr>)" and k: "k = s'"
      using step tok ref cfg by (auto simp: leader_step_def RedisLocker_def split: option.splits)
    have alone: "j = i" if "leads_with s R j (lt_id tok)" for j
      using inv lead that unfolding cluster_inv_def by blast
    have used: "lt_id tok \<in> cl_used s"
      using inv lead unfolding cluster_inv_def by blast
    from ref show ?thesis
    proof (cases rule: Redis_Refresh_cases)
      case kept
      then show ?thesis
        using inv by (intro cluster_inv_update) (auto simp: l k)
    next
      case renewed
      have "j = i" if "leads_with s R j x" and "cl_now s < cl_until s j" for j x
        using running_lease_live [OF inv that] renewed(1) tok(3) alone that(1) by auto
      then show ?thesis
        using inv tok used alone cfg ms renewed(2) by (intro cluster_inv_update) (auto simp: l k split: if_splits)
    qed
  next
    case False
    then have not: "\<not> le_isLeader (cl_node s i)"
      using inv unfolding cluster_inv_def by blast
    obtain r s' where acq: "Redis_Acquire net (cl_now s) tid R lease (cl_keys s) = (r, s')"
      by fastforce
    have l: "l = (case r of Inr tok \<Rightarrow> (cl_node s i)\<lparr>le_isLeader := True, le_activeTok := Some tok\<rparr>
        | Inl e \<Rightarrow> (cl_node s i)\<lparr>le_isLeader := False\<rparr>)" and k: "k = s'"
      using step not acq cfg by (auto simp: leader_step_def RedisLocker_def split: sum.splits)
    from acq show ?thesis
    proof (cases rule: Redis_Acquire_cases)
      case kept
      then obtain e where "r = Inl e"
        by (cases r) auto
      with kept show ?thesis
        using inv by (intro cluster_inv_update) (auto simp: l k)
    next
      case taken
      have "False" if "leads_with s R j x" and "cl_now s < cl_until s j" for j x
        using running_lease_live [OF inv that] taken(1) by simp
      then show ?thesis
        using inv taken(2,3) unused cfg span
        by (intro cluster_inv_update) (auto simp: l k split: sum.splits)
    qed
  qed
qed

lemma cluster_inv_resign:
  assumes inv: "cluster_inv R lease s"
    and step: "Resign (RedisLocker net (cl_now s) tid) (cl_node s i) (cl_keys s) = (e, l, k)"
  shows "cluster_inv R lease (s\<lparr>cl_keys := k, cl_node := (cl_node s)(i := l)\<rparr>)"
proof -
  have same: "s\<lparr>cl_keys := k, cl_node := (cl_node s)(i := l)\<rparr> =
      s\<lparr>cl_keys := k, cl_node := (cl_node s)(i := l), cl_until := (cl_until s)(i := cl_until s i), cl_used := cl_used s\<rparr>"
    by simp
  show ?thesis
  proof (cases "\<exists>x. leads_with s R i x")
    case True
    then obtain tok where tok: "le_isLeader (cl_node s i)" "le_activeTok (cl_node s i) = Some tok" "lt_resource tok = R"
        and lead: "leads_with s R i (lt_id tok)"
      by (auto simp: leads_with_def)
    have rel: "Redis_Release net (cl_now s) tok (cl_keys s) = (e, k)" and l: "l = (cl_node s i)\<lparr>le_isLeader := False, le_activeTok := None\<rparr>"
      using step tok by (auto simp: Resign_def RedisLocker_def split: prod.splits)
    have alone: "j = i" if "leads_with s R j (lt_id tok)" for j
      using inv lead that unfolding cluster_inv_def by blast
    from rel show ?thesis
    proof (cases rule: Redis_Release_cases)
      case kept
      then show ?thesis
        using inv by (subst same, intro cluster_inv_update) (auto simp: l)
    next
      case freed
      have "j = i" if "leads_with s R j x" and "cl_now s < cl_until s j" for j x
        using running_lease_live [OF inv that] freed(1) tok(3) alone that(1) by auto
      then show ?thesis
        using inv by (subst same, intro cluster_inv_update) (auto simp: l)
    qed
  next
    case False
    then have "\<not> le_isLeader (cl_node s i)"
      using inv unfolding cluster_inv_def by blast
    then have "l = cl_node s i" and "k = cl_keys s"
      using step by (auto simp: Resign_def)
    then show ?thesis
      using inv by simp
  qed
qed

lemma cluster_inv_passes: "cluster_inv R lease s \<Longrightarrow> cl_now s \<le> t \<Longrightarrow> cluster_inv R lease (s\<lparr>cl_now := t\<rparr>)"
  by (auto simp: cluster_inv_def leads_with_def)

lemma cluster_steps_inv:
  assumes "cluster_step\<^sup>*\<^sup>* s s'" and "cluster_inv R lease s" and "lease div Millisecond * Millisecond = lease" and "0 < lease"
  shows "cluster_inv R lease s'"
  using assms(1,2)
proof induction
  case (step s' s'')
  then have inv: "cluster_inv R lease s'"
    by simp
  from step(2) show ?case
  proof cases
    case (passes t)
    then show ?thesis
      using cluster_inv_passes [OF inv] by simp
  next
    case (campaigns tid net i l k)
    then show ?thesis
      using cluster_inv_campaign [OF inv assms(3,4)] by simp
  next
    case (resigns net tid i e l k)
    then show ?thesis
      using cluster_inv_resign [OF inv] by simp
  qed
qed


section \<open>Properties\<close>

text \<open>A cluster at the start: no node leads, and all have the same configuration.\<close>

definition fresh_cluster :: "LeaderConfig \<Rightarrow> instant \<Rightarrow> redis_keys \<Rightarrow> cluster" where
  "fresh_cluster cfg now keys = \<lparr>cl_now = now, cl_keys = keys, cl_node = (\<lambda>_. NewLeaderElection cfg), cl_until = (\<lambda>_. now), cl_used = {}\<rparr>"

lemma fresh_cluster_inv:
  "cluster_inv (lc_Resource (le_cfg (NewLeaderElection cfg))) (lc_LeaseDuration (le_cfg (NewLeaderElection cfg))) (fresh_cluster cfg now keys)"
  by (simp add: cluster_inv_def fresh_cluster_def leads_with_def NewLeaderElection_def)

text \<open>C8. In every run of any number of electors over the Redis lock, with requests and replies lost at will,
  at most one node leads within its lease: two nodes that both report leadership while the lease they last
  obtained or renewed runs are the same node.\<close>

theorem leader_lease_unique:
  assumes "lease = lc_LeaseDuration (le_cfg (NewLeaderElection cfg))" and "lease div Millisecond * Millisecond = lease"
    and "cluster_step\<^sup>*\<^sup>* (fresh_cluster cfg now keys) s"
    and "IsLeader (cl_node s i)" and "cl_now s < cl_until s i" and "IsLeader (cl_node s j)" and "cl_now s < cl_until s j"
  shows "i = j"
proof -
  let ?R = "lc_Resource (le_cfg (NewLeaderElection cfg))"
  have "0 < lease"
    using assms(1) by (simp add: NewLeaderElection_def Second_def)
  then have inv: "cluster_inv ?R lease s"
    using cluster_steps_inv [OF assms(3) _ assms(2)] fresh_cluster_inv [of cfg now keys] assms(1) by simp
  obtain x where x: "leads_with s ?R i x"
    using cluster_inv_leads [OF inv] assms(4) by (auto simp: IsLeader_def)
  obtain y where y: "leads_with s ?R j y"
    using cluster_inv_leads [OF inv] assms(6) by (auto simp: IsLeader_def)
  have "x = y"
    using running_lease_live [OF inv x assms(5)] running_lease_live [OF inv y assms(7)] by simp
  then show ?thesis
    using cluster_inv_alone [OF inv x] y by simp
qed

definition demo_election :: LeaderConfig where
  "demo_election = \<lparr>lc_Resource = '''', lc_LeaseDuration = 0, lc_RenewInterval = 0\<rparr>"

lemma demo_election_defaults:
  "NewLeaderElection demo_election = \<lparr>le_cfg = \<lparr>lc_Resource = ''aegis:gc:leader'', lc_LeaseDuration = 15 * Second,
     lc_RenewInterval = 5 * Second\<rparr>, le_isLeader = False, le_activeTok = None\<rparr>"
  by (simp add: NewLeaderElection_def demo_election_def)

text \<open>Node \<open>i\<close> takes the free lock at time \<open>now\<close> under the identifier \<open>x\<close>.\<close>

definition demo_leader :: "string \<Rightarrow> LeaderElection" where
  "demo_leader x = (NewLeaderElection demo_election)\<lparr>le_isLeader := True,
     le_activeTok := Some \<lparr>lt_resource = ''aegis:gc:leader'', lt_id = x, lt_lockID = 0, lt_ttl = 15 * Second\<rparr>\<rparr>"

lemma demo_takes:
  assumes "live_value now keys (lock_key ''aegis:gc:leader'') = None"
  shows "leader_step (RedisLocker Fine now x) (NewLeaderElection demo_election) keys =
    (demo_leader x, keys(lock_key ''aegis:gc:leader'' \<mapsto> (x, now + 15 * Second)))"
  using assms
  by (simp add: leader_step_def RedisLocker_def demo_leader_def demo_election_defaults Redis_Acquire_def over_def
      redis_setnx_def Second_def Millisecond_def)

lemma demo_overlap:
  "\<exists>s. cluster_step\<^sup>*\<^sup>* (fresh_cluster demo_election 0 (\<lambda>_. None)) s \<and> cl_now s = 15 * Second \<and>
     IsLeader (cl_node s 0) \<and> IsLeader (cl_node s 1) \<and> cl_until s 1 = 30 * Second"
proof -
  let ?key = "lock_key ''aegis:gc:leader''"
  let ?s0 = "fresh_cluster demo_election 0 (\<lambda>_. None)"
  let ?k1 = "(\<lambda>_. None)(?key \<mapsto> (''a'', 15 * Second))"
  let ?s1 = "?s0\<lparr>cl_keys := ?k1, cl_node := (cl_node ?s0)(0 := demo_leader ''a''),
    cl_until := (cl_until ?s0)(0 := cl_now ?s0 + lc_LeaseDuration (le_cfg (demo_leader ''a''))), cl_used := insert ''a'' (cl_used ?s0)\<rparr>"
  let ?s2 = "?s1\<lparr>cl_now := 15 * Second\<rparr>"
  let ?k3 = "?k1(?key \<mapsto> (''b'', 30 * Second))"
  let ?s3 = "?s2\<lparr>cl_keys := ?k3, cl_node := (cl_node ?s2)(1 := demo_leader ''b''),
    cl_until := (cl_until ?s2)(1 := cl_now ?s2 + lc_LeaseDuration (le_cfg (demo_leader ''b''))), cl_used := insert ''b'' (cl_used ?s2)\<rparr>"
  have lead: "le_isLeader (demo_leader x)" "lc_LeaseDuration (le_cfg (demo_leader x)) = 15 * Second" for x
    by (simp_all add: demo_leader_def demo_election_defaults)
  have "cluster_step ?s0 ?s1"
    using campaigns [of "''a''" ?s0 Fine 0 "demo_leader ''a''" ?k1] demo_takes [of 0 "\<lambda>_. None" "''a''"] lead
    by (simp add: fresh_cluster_def live_value_def)
  moreover have "cluster_step ?s1 ?s2"
    by (rule passes) (simp add: fresh_cluster_def Second_def)
  moreover have "cluster_step ?s2 ?s3"
    using campaigns [of "''b''" ?s2 Fine 1 "demo_leader ''b''" ?k3] demo_takes [of "15 * Second" ?k1 "''b''"] lead
    by (simp add: fresh_cluster_def live_value_def)
  ultimately have "cluster_step\<^sup>*\<^sup>* ?s0 ?s3"
    by (meson converse_rtranclp_into_rtranclp r_into_rtranclp)
  then show ?thesis
    using lead by (intro exI [of _ ?s3]) (simp add: IsLeader_def fresh_cluster_def)
qed

theorem leader_lease_unique_witness:
  "\<exists>s. cluster_step\<^sup>*\<^sup>* (fresh_cluster demo_election 0 (\<lambda>_. None)) s \<and> IsLeader (cl_node s 1) \<and> cl_now s < cl_until s 1 \<and>
     (\<forall>j. IsLeader (cl_node s j) \<and> cl_now s < cl_until s j \<longrightarrow> j = 1)"
proof -
  obtain s where s: "cluster_step\<^sup>*\<^sup>* (fresh_cluster demo_election 0 (\<lambda>_. None)) s" "cl_now s = 15 * Second"
    "IsLeader (cl_node s 1)" "cl_until s 1 = 30 * Second"
    using demo_overlap by blast
  have lease: "15 * Second = lc_LeaseDuration (le_cfg (NewLeaderElection demo_election))"
    and ms: "15 * Second div Millisecond * Millisecond = 15 * Second"
    by (simp_all add: demo_election_defaults Second_def Millisecond_def)
  have runs: "cl_now s < cl_until s 1"
    using s by (simp add: Second_def)
  show ?thesis
    using s(1,3) runs leader_lease_unique [OF lease ms s(1) _ _ s(3) runs] by blast
qed

text \<open>The leadership flag is not bound to the lease: a node that was paused past its lease still reports
  that it leads although another node has obtained the lock, so two nodes report leadership at once.\<close>

theorem stale_leader_overlap:
  "\<exists>s i j. cluster_step\<^sup>*\<^sup>* (fresh_cluster demo_election 0 (\<lambda>_. None)) s \<and> i \<noteq> j \<and> IsLeader (cl_node s i) \<and> IsLeader (cl_node s j)"
proof -
  obtain s where "cluster_step\<^sup>*\<^sup>* (fresh_cluster demo_election 0 (\<lambda>_. None)) s" "IsLeader (cl_node s 0)" "IsLeader (cl_node s 1)"
    using demo_overlap by blast
  then show ?thesis
    by (intro exI [of _ s] exI [of _ 0] exI [of _ 1]) simp
qed

text \<open>The advisory lock excludes sessions, not callers: two acquisitions of one resource that the pool
  serves on the same connection both succeed, and a release that the pool serves on another connection than
  the acquisition fails and leaves the lock held.\<close>

theorem advisory_lock_per_connection:
  assumes "a (hashKey R) = None" and "Advisory_Acquire Fine c i R ttl a = (r, a1)" and "Advisory_Acquire Fine c i' R ttl a1 = (r', a2)"
    and "c' \<noteq> c" and "r = Inr tok"
  shows "r' \<noteq> Inl ErrLockHeld \<and> (\<exists>tok'. r' = Inr tok') \<and>
    Advisory_Release Fine c' tok a1 = (Some ErrLockExpired, a1) \<and> a1 (hashKey R) \<noteq> None"
  using assms
  by (auto simp: Advisory_Acquire_def Advisory_Release_def over_def pg_try_advisory_lock_def pg_advisory_unlock_def Let_def)

theorem advisory_lock_per_connection_witness:
  "\<exists>tok a1. Advisory_Acquire Fine 0 ''i'' ''r'' 1 (\<lambda>_. None) = (Inr tok, a1) \<and>
     Advisory_Release Fine 1 tok a1 = (Some ErrLockExpired, a1)"
proof -
  obtain tok a1 where acq: "Advisory_Acquire Fine 0 ''i'' ''r'' 1 (\<lambda>_. None) = (Inr tok, a1)"
    by (simp add: Advisory_Acquire_def over_def pg_try_advisory_lock_def Let_def)
  obtain r' a2 where acq': "Advisory_Acquire Fine 0 ''j'' ''r'' 1 a1 = (r', a2)"
    by fastforce
  show ?thesis
    using advisory_lock_per_connection [OF refl acq acq' one_neq_zero refl] acq by blast
qed

end
