(* ===== verification/Billing.thy ===== *)
theory Billing
  imports GoStrings Sha256
begin

text \<open>
  The billing package (internal/billing): plans and records (types.go), API keys (apikey.go), signed enterprise licences
  (license.go), usage metering with quotas (metering.go) and the Stripe webhook (stripe.go). Clock readings, random bytes
  and the JSON codec of the licence payload are arguments; SHA-256, HMAC, hexadecimal and Base64 are computed.
\<close>

section \<open>Plans and records\<close>

definition PlanFree :: string where "PlanFree = ''FREE''"
definition PlanPro :: string where "PlanPro = ''PRO''"
definition PlanEnterprise :: string where "PlanEnterprise = ''ENTERPRISE''"

definition MeterStorageBytes :: string where "MeterStorageBytes = ''STORAGE_BYTES''"
definition MeterBandwidthBytes :: string where "MeterBandwidthBytes = ''BANDWIDTH_BYTES''"
definition MeterWorkerCredits :: string where "MeterWorkerCredits = ''WORKER_CREDITS''"

text \<open>The zero value of \<^verbatim>\<open>time.Time\<close>, midnight of the first of January of year one.\<close>

definition zero_time :: instant where
  "zero_time = - (62135596800 * Second)"

record SubscriptionRecord =
  sr_SubscriptionID :: string
  sr_TenantID :: string
  sr_PlanTier :: string
  sr_StripeCustomerID :: string
  sr_StripeSubscriptionID :: string
  sr_Status :: string
  sr_CurrentPeriodStart :: instant
  sr_CurrentPeriodEnd :: instant

record APIKeyRecord =
  ak_KeyID :: string
  ak_TenantID :: string
  ak_KeyPrefix :: string
  ak_KeyHash :: string
  ak_Name :: string
  ak_Scopes :: string
  ak_ExpiresAt :: "instant option"
  ak_CreatedAt :: instant

datatype billing_error =
    RandomFailed string
  | KeyRecordNil
  | KeyExpired string instant
  | ScopeMissing string string
  | PayloadNil
  | MarshalFailed string
  | LicenseFormat
  | LicenseSignature
  | LicenseBase64
  | LicenseJSON string
  | LicenseExpired int
  | QuotaExceeded string string int int
  | SignatureHeader
  | SignatureTimestamp
  | TimestampTooOld
  | SignatureMismatch
  | EventNil
  | CallbackError string

section \<open>API keys\<close>

definition APIKeyPrefixLive :: string where "APIKeyPrefixLive = ''aegis_live_sk_''"
definition APIKeyPrefixTest :: string where "APIKeyPrefixTest = ''aegis_test_sk_''"

definition HashAPIKey :: "string \<Rightarrow> string" where
  "HashAPIKey rawKey = EncodeToString (Sum256 (string_bytes (TrimSpace rawKey)))"

text \<open>\<open>random\<close> is what the system's random source gave for the 24 bytes, \<open>now\<close> the clock.\<close>

definition GenerateAPIKey ::
  "string + bytes \<Rightarrow> instant \<Rightarrow> string \<Rightarrow> string \<Rightarrow> bool \<Rightarrow> string list \<Rightarrow> instant option \<Rightarrow> billing_error + APIKeyRecord \<times> string" where
  "GenerateAPIKey random now tenantID name isTest scopes expiresAt =
     (case random of
        Inl e \<Rightarrow> Inl (RandomFailed e)
      | Inr secret \<Rightarrow>
          let rawKey = (if isTest then APIKeyPrefixTest else APIKeyPrefixLive) @ EncodeToString secret;
              scopes' = (if scopes = [] then [''read'', ''write''] else scopes)
          in Inr (\<lparr>ak_KeyID = ''key_'' @ EncodeToString (take 8 secret), ak_TenantID = tenantID,
                   ak_KeyPrefix = take 16 rawKey @ ''...'', ak_KeyHash = HashAPIKey rawKey, ak_Name = name,
                   ak_Scopes = Join CHR '','' scopes', ak_ExpiresAt = expiresAt, ak_CreatedAt = now\<rparr>, rawKey))"

definition scope_grants :: "string \<Rightarrow> string \<Rightarrow> bool" where
  "scope_grants requiredScope scope \<longleftrightarrow> (let s = TrimSpace scope in s = requiredScope \<or> s = ''admin'' \<or> s = ''*'')"

definition key_expired :: "instant \<Rightarrow> APIKeyRecord \<Rightarrow> bool" where
  "key_expired now k \<longleftrightarrow> (case ak_ExpiresAt k of None \<Rightarrow> False | Some t \<Rightarrow> now > t)"

definition ValidateAPIKey :: "instant \<Rightarrow> APIKeyRecord option \<Rightarrow> string \<Rightarrow> billing_error option" where
  "ValidateAPIKey now keyRecord requiredScope =
     (case keyRecord of
        None \<Rightarrow> Some KeyRecordNil
      | Some k \<Rightarrow>
          if key_expired now k then Some (KeyExpired (ak_KeyID k) (the (ak_ExpiresAt k)))
          else if requiredScope \<noteq> '''' \<and> \<not> list_ex (scope_grants requiredScope) (Split CHR '','' (ak_Scopes k))
          then Some (ScopeMissing (ak_KeyID k) requiredScope)
          else None)"

section \<open>Enterprise licences\<close>

record EnterpriseLicensePayload =
  el_LicenseID :: string
  el_TenantID :: string
  el_CustomerName :: string
  el_PlanTier :: string
  el_MaxStorageTB :: int
  el_MaxNodes :: int
  el_Features :: "string list"
  el_IssuedAt :: int
  el_ExpiresAt :: int
  el_Metadata :: "string \<Rightarrow> string option"

record LicenseVerifier =
  lv_secretKey :: bytes

definition NewLicenseVerifier :: "bytes \<Rightarrow> LicenseVerifier" where
  "NewLicenseVerifier secretKey = \<lparr>lv_secretKey = secretKey\<rparr>"

definition computeSignature :: "LicenseVerifier \<Rightarrow> string \<Rightarrow> string" where
  "computeSignature v encodedPayload = EncodeToString (hmac_sha256 (lv_secretKey v) (string_bytes encodedPayload))"

definition IssueLicense ::
  "LicenseVerifier \<Rightarrow> (EnterpriseLicensePayload \<Rightarrow> string + bytes) \<Rightarrow> EnterpriseLicensePayload option \<Rightarrow> billing_error + string" where
  "IssueLicense v marshal payload =
     (case payload of
        None \<Rightarrow> Inl PayloadNil
      | Some p \<Rightarrow>
          (case marshal p of
             Inl e \<Rightarrow> Inl (MarshalFailed e)
           | Inr payloadBytes \<Rightarrow>
               let encodedPayload = RawURLEncode payloadBytes
               in Inr (encodedPayload @ CHR ''.'' # computeSignature v encodedPayload)))"

definition VerifyLicense ::
  "LicenseVerifier \<Rightarrow> (bytes \<Rightarrow> string + EnterpriseLicensePayload) \<Rightarrow> instant \<Rightarrow> string \<Rightarrow> billing_error + EnterpriseLicensePayload" where
  "VerifyLicense v unmarshal now licenseKey =
     (case Split CHR ''.'' (TrimSpace licenseKey) of
        [encodedPayload, providedSig] \<Rightarrow>
          if providedSig \<noteq> computeSignature v encodedPayload then Inl LicenseSignature
          else
            (case RawURLDecode encodedPayload of
               None \<Rightarrow> Inl LicenseBase64
             | Some payloadBytes \<Rightarrow>
                 (case unmarshal payloadBytes of
                    Inl e \<Rightarrow> Inl (LicenseJSON e)
                  | Inr payload \<Rightarrow>
                      if el_ExpiresAt payload > 0 \<and> unix_seconds now > el_ExpiresAt payload then Inl (LicenseExpired (el_ExpiresAt payload))
                      else Inr payload))
      | _ \<Rightarrow> Inl LicenseFormat)"

section \<open>Metering\<close>

record UsageEvent =
  ue_TenantID :: string
  ue_MeterType :: string
  ue_Quantity :: int
  ue_Timestamp :: instant
  ue_Attributes :: "string \<Rightarrow> string option"

text \<open>A two-level Go map; reading through a missing tenant reads the zero value.\<close>

type_synonym meters = "string \<Rightarrow> (string \<Rightarrow> int option) option"

definition meter_get :: "meters \<Rightarrow> string \<Rightarrow> string \<Rightarrow> int option" where
  "meter_get m t k = Option.bind (m t) (\<lambda>inner. inner k)"

definition meter_set :: "string \<Rightarrow> string \<Rightarrow> int \<Rightarrow> meters \<Rightarrow> meters" where
  "meter_set t k v m = m(t \<mapsto> (case m t of None \<Rightarrow> Map.empty | Some inner \<Rightarrow> inner)(k \<mapsto> v))"

record InMemMeterStore =
  ms_totals :: meters
  ms_limits :: meters

definition NewInMemMeterStore :: InMemMeterStore where
  "NewInMemMeterStore = \<lparr>ms_totals = Map.empty, ms_limits = Map.empty\<rparr>"

definition SetQuotaLimit :: "string \<Rightarrow> string \<Rightarrow> int \<Rightarrow> InMemMeterStore \<Rightarrow> InMemMeterStore" where
  "SetQuotaLimit tenantID meterType lmt s = s\<lparr>ms_limits := meter_set tenantID meterType lmt (ms_limits s)\<rparr>"

definition RecordUsage :: "UsageEvent \<Rightarrow> InMemMeterStore \<Rightarrow> billing_error option \<times> InMemMeterStore" where
  "RecordUsage evt s =
     (let t = ue_TenantID evt; k = ue_MeterType evt;
          s1 = (if ms_totals s t = None then s\<lparr>ms_totals := (ms_totals s)(t \<mapsto> Map.empty)\<rparr> else s);
          current = (case meter_get (ms_totals s1) t k of None \<Rightarrow> 0 | Some v \<Rightarrow> v);
          next_total = wrap64 (current + ue_Quantity evt)
      in case meter_get (ms_limits s1) t k of
           Some lmt \<Rightarrow>
             if lmt > 0 \<and> next_total > lmt then (Some (QuotaExceeded t k lmt next_total), s1)
             else (None, s1\<lparr>ms_totals := meter_set t k next_total (ms_totals s1)\<rparr>)
         | None \<Rightarrow> (None, s1\<lparr>ms_totals := meter_set t k next_total (ms_totals s1)\<rparr>))"

definition GetUsage :: "InMemMeterStore \<Rightarrow> string \<Rightarrow> string \<Rightarrow> int" where
  "GetUsage s tenantID meterType =
     (case ms_totals s tenantID of
        None \<Rightarrow> 0
      | Some tenantMeters \<Rightarrow> (case tenantMeters meterType of None \<Rightarrow> 0 | Some v \<Rightarrow> v))"

definition ResetUsage :: "string \<Rightarrow> InMemMeterStore \<Rightarrow> InMemMeterStore" where
  "ResetUsage tenantID s = s\<lparr>ms_totals := (ms_totals s)(tenantID := None)\<rparr>"

section \<open>The Stripe webhook\<close>

text \<open>A value of the event's object is a string or something else; \<^verbatim>\<open>v, _ := obj[k].(string)\<close> reads the empty string from anything else.\<close>

datatype stripe_value = StripeString string | StripeOther

record StripeWebhookEvent =
  se_ID :: string
  se_Type :: string
  se_Created :: int
  se_Object :: "string \<Rightarrow> stripe_value option"
  se_LiveMode :: bool

record 's StripeWebhookHandler =
  sh_webhookSecret :: string
  sh_onSubUpdated :: "(SubscriptionRecord \<Rightarrow> 's \<Rightarrow> string option \<times> 's) option"

definition NewStripeWebhookHandler ::
  "string \<Rightarrow> (SubscriptionRecord \<Rightarrow> 's \<Rightarrow> string option \<times> 's) option \<Rightarrow> 's StripeWebhookHandler" where
  "NewStripeWebhookHandler webhookSecret onSubUpdated = \<lparr>sh_webhookSecret = webhookSecret, sh_onSubUpdated = onSubUpdated\<rparr>"

definition signature_part :: "string \<Rightarrow> string \<times> string list \<Rightarrow> string \<times> string list" where
  "signature_part part acc =
     (case SplitN2 CHR ''='' (TrimSpace part) of
        [k, v] \<Rightarrow> if k = ''t'' then (v, snd acc) else if k = ''v1'' then (fst acc, snd acc @ [v]) else acc
      | _ \<Rightarrow> acc)"

definition VerifyHeader :: "'s StripeWebhookHandler \<Rightarrow> instant \<Rightarrow> bytes \<Rightarrow> string \<Rightarrow> billing_error option" where
  "VerifyHeader h now payload sigHeader =
     (if sh_webhookSecret h = '''' then None
      else
        (case fold signature_part (Split CHR '','' sigHeader) ('''', []) of
           (timestampStr, signatures) \<Rightarrow>
             if timestampStr = '''' \<or> signatures = [] then Some SignatureHeader
             else
               (case ParseInt timestampStr of
                  None \<Rightarrow> Some SignatureTimestamp
                | Some ts \<Rightarrow>
                    if wrap64 (unix_seconds now - ts) > 300 then Some TimestampTooOld
                    else
                      let expectedSig = EncodeToString (hmac_sha256 (string_bytes (sh_webhookSecret h))
                                          (string_bytes timestampStr @ string_bytes ''.'' @ payload))
                      in if list_ex (\<lambda>sig. sig = expectedSig) signatures then None else Some SignatureMismatch)))"

definition obj_string :: "(string \<Rightarrow> stripe_value option) \<Rightarrow> string \<Rightarrow> string" where
  "obj_string obj k = (case obj k of Some (StripeString v) \<Rightarrow> v | _ \<Rightarrow> '''')"

definition subscription_of :: "(string \<Rightarrow> stripe_value option) \<Rightarrow> string \<Rightarrow> string \<Rightarrow> SubscriptionRecord" where
  "subscription_of obj tier status =
     \<lparr>sr_SubscriptionID = obj_string obj ''id'', sr_TenantID = obj_string obj ''customer'', sr_PlanTier = tier,
      sr_StripeCustomerID = obj_string obj ''customer'', sr_StripeSubscriptionID = obj_string obj ''id'', sr_Status = status,
      sr_CurrentPeriodStart = zero_time, sr_CurrentPeriodEnd = zero_time\<rparr>"

definition notify :: "'s StripeWebhookHandler \<Rightarrow> SubscriptionRecord \<Rightarrow> 's \<Rightarrow> billing_error option \<times> 's" where
  "notify h rec s =
     (case sh_onSubUpdated h of
        None \<Rightarrow> (None, s)
      | Some f \<Rightarrow> (case f rec s of (e, s1) \<Rightarrow> (map_option CallbackError e, s1)))"

definition HandleEvent :: "'s StripeWebhookHandler \<Rightarrow> StripeWebhookEvent option \<Rightarrow> 's \<Rightarrow> billing_error option \<times> 's" where
  "HandleEvent h event s =
     (case event of
        None \<Rightarrow> (Some EventNil, s)
      | Some e \<Rightarrow>
          if se_Type e = ''customer.subscription.created'' \<or> se_Type e = ''customer.subscription.updated'' then
            notify h (subscription_of (se_Object e) PlanEnterprise (obj_string (se_Object e) ''status'')) s
          else if se_Type e = ''customer.subscription.deleted'' then
            notify h (subscription_of (se_Object e) PlanFree ''CANCELED'') s
          else (None, s))"

section \<open>API keys: what a generated key is good for\<close>

lemma hex_visible: "\<forall>c \<in> set (EncodeToString bs). visible c \<and> c \<noteq> CHR ''.''"
proof -
  have "lower_hex_char c \<Longrightarrow> visible c \<and> c \<noteq> CHR ''.''" for c
    by (auto simp: lower_hex_char_def visible_def in_range_def)
  then show ?thesis
    using isLowerHex_EncodeToString [of bs] by (simp add: isLowerHex_iff)
qed

lemma raw_key_visible: "\<forall>c \<in> set ((if isTest then APIKeyPrefixTest else APIKeyPrefixLive) @ EncodeToString secret). visible c"
  using hex_visible [of secret] by (auto simp: APIKeyPrefixLive_def APIKeyPrefixTest_def visible_def in_range_def)

text \<open>The record stores the hash of the key the user is shown, also when the key comes back with white space around it removed, and
  different secrets are different keys.\<close>

lemma generated_key_hash:
  assumes "GenerateAPIKey (Inr secret) now t n isTest scopes e = Inr (rec, raw)"
  shows "ak_KeyHash rec = EncodeToString (Sum256 (string_bytes raw))" and "ak_KeyHash rec = HashAPIKey raw"
  using assms raw_key_visible [of isTest secret] by (auto simp: GenerateAPIKey_def Let_def HashAPIKey_def)

lemma generated_key_secret:
  assumes "GenerateAPIKey (Inr secret) now t n isTest scopes e = Inr (rec, raw)"
    and "GenerateAPIKey (Inr secret') now' t' n' isTest scopes' e' = Inr (rec', raw)"
  shows "secret = secret'"
  using assms by (auto simp: GenerateAPIKey_def Let_def)

text \<open>The identifier and the prefix stored in clear give away eight of the 24 secret bytes.\<close>

lemma key_id_reveals_secret:
  assumes "GenerateAPIKey (Inr secret) now t n isTest scopes e = Inr (rec, raw)"
  shows "DecodeString (drop 4 (ak_KeyID rec)) = Some (take 8 secret)"
  using assms by (auto simp: GenerateAPIKey_def Let_def)

lemma scope_grants_visible:
  "\<forall>c \<in> set w. visible c \<Longrightarrow> scope_grants r w \<longleftrightarrow> w = r \<or> w = ''admin'' \<or> w = ''*''"
  by (simp add: scope_grants_def Let_def)

definition granted_scopes :: "string list \<Rightarrow> string list" where
  "granted_scopes scopes = (if scopes = [] then [''read'', ''write''] else scopes)"

text \<open>A generated API key validates for a scope exactly until it expires and exactly for the scopes it was generated with:
  for the empty scope, for a listed one, and for every scope when the list has admin or the star; an empty list means read and write.\<close>

theorem generated_key_validates:
  assumes "GenerateAPIKey (Inr secret) now t n isTest scopes e = Inr (rec, raw)"
    and "\<forall>w \<in> set scopes. \<forall>c \<in> set w. visible c \<and> c \<noteq> CHR '',''"
  shows "ValidateAPIKey later (Some rec) r = None \<longleftrightarrow>
    (\<forall>x. e = Some x \<longrightarrow> later \<le> x) \<and>
    (r = '''' \<or> r \<in> set (granted_scopes scopes) \<or> ''admin'' \<in> set (granted_scopes scopes) \<or> ''*'' \<in> set (granted_scopes scopes))"
proof -
  let ?ws = "granted_scopes scopes"
  have ws: "\<forall>w \<in> set ?ws. \<forall>c \<in> set w. visible c \<and> c \<noteq> CHR '',''" "?ws \<noteq> []"
    using assms(2) by (auto simp: granted_scopes_def visible_def in_range_def)
  have rec: "ak_Scopes rec = Join CHR '','' ?ws" "ak_ExpiresAt rec = e"
    using assms(1) by (auto simp: GenerateAPIKey_def Let_def granted_scopes_def)
  have "\<forall>w \<in> set ?ws. CHR '','' \<notin> set w"
    using ws(1) by blast
  then have "Split CHR '','' (ak_Scopes rec) = ?ws"
    using Split_Join [OF ws(2)] by (simp add: rec)
  moreover have "list_ex (scope_grants r) ?ws \<longleftrightarrow> r \<in> set ?ws \<or> ''admin'' \<in> set ?ws \<or> ''*'' \<in> set ?ws"
    using ws(1) scope_grants_visible [of _ r] by (auto simp: list_ex_iff)
  ultimately show ?thesis
    by (auto simp: ValidateAPIKey_def key_expired_def rec(2) split: option.splits)
qed

theorem generated_key_validates_witness:
  "\<exists>rec raw. GenerateAPIKey (Inr (replicate 24 7)) 0 ''t1'' ''ci'' True [''read'', ''audit''] (Some 1000) = Inr (rec, raw) \<and>
     ValidateAPIKey 1000 (Some rec) ''audit'' = None \<and> ValidateAPIKey 1001 (Some rec) ''audit'' \<noteq> None \<and>
     ValidateAPIKey 5 (Some rec) ''write'' \<noteq> None"
proof -
  obtain rec raw where gen: "GenerateAPIKey (Inr (replicate 24 7)) 0 ''t1'' ''ci'' True [''read'', ''audit''] (Some 1000) = Inr (rec, raw)"
    by (auto simp: GenerateAPIKey_def Let_def)
  have "\<forall>w \<in> set [''read'', ''audit'']. \<forall>c \<in> set w. visible c \<and> c \<noteq> CHR '',''"
    by (simp add: visible_def in_range_def)
  note iff = generated_key_validates [OF gen this]
  show ?thesis
    using gen iff [of 1000 "''audit''"] iff [of 1001 "''audit''"] iff [of 5 "''write''"] by (auto simp: granted_scopes_def)
qed

section \<open>Licences\<close>

text \<open>A licence key is accepted exactly when, after trimming, it is a payload without a dot, a dot and the HMAC signature of that
  payload under the verifier's secret, the payload decodes to a licence, and the licence has no expiry or is not past it.\<close>

theorem license_accepted_iff:
  "VerifyLicense v unmarshal now key = Inr p \<longleftrightarrow>
     (\<exists>enc b. TrimSpace key = enc @ CHR ''.'' # computeSignature v enc \<and> CHR ''.'' \<notin> set enc \<and>
        RawURLDecode enc = Some b \<and> unmarshal b = Inr p \<and> (el_ExpiresAt p \<le> 0 \<or> unix_seconds now \<le> el_ExpiresAt p))"
proof -
  have sig: "CHR ''.'' \<notin> set (computeSignature v enc)" for enc
    using hex_visible by (auto simp: computeSignature_def)
  have "VerifyLicense v unmarshal now key = Inr p \<longleftrightarrow>
     (\<exists>enc b. Split CHR ''.'' (TrimSpace key) = [enc, computeSignature v enc] \<and>
        RawURLDecode enc = Some b \<and> unmarshal b = Inr p \<and> (el_ExpiresAt p \<le> 0 \<or> unix_seconds now \<le> el_ExpiresAt p))"
    by (auto simp: VerifyLicense_def split: list.splits option.splits sum.splits if_splits)
  then show ?thesis
    using sig by (simp add: Split_two)
qed

text \<open>An issued licence verifies under the secret it was issued with and yields the payload it was issued for, until it expires
  (an expiry of zero or less never comes); afterwards it is refused as expired. The JSON codec reads back what it wrote.\<close>

theorem license_roundtrip:
  assumes "IssueLicense v marshal (Some p) = Inr key" and "\<And>b. marshal p = Inr b \<Longrightarrow> unmarshal b = Inr p"
  shows "VerifyLicense v unmarshal now key =
    (if el_ExpiresAt p > 0 \<and> unix_seconds now > el_ExpiresAt p then Inl (LicenseExpired (el_ExpiresAt p)) else Inr p)"
proof -
  obtain b where b: "marshal p = Inr b" and key: "key = RawURLEncode b @ CHR ''.'' # computeSignature v (RawURLEncode b)"
    using assms(1) by (auto simp: IssueLicense_def Let_def split: sum.splits)
  have sig: "\<forall>c \<in> set (computeSignature v (RawURLEncode b)). visible c \<and> c \<noteq> CHR ''.''"
    using hex_visible by (simp add: computeSignature_def)
  then have "\<forall>c \<in> set key. visible c"
    using RawURLEncode_visible [of b] by (auto simp: key visible_def in_range_def)
  then have "TrimSpace key = key"
    by simp
  moreover have "Split CHR ''.'' key = [RawURLEncode b, computeSignature v (RawURLEncode b)]"
    unfolding Split_two using key RawURLEncode_no_dot sig by auto
  ultimately show ?thesis
    using assms(2) [OF b] by (simp add: VerifyLicense_def)
qed

text \<open>A licence of one secret passes under another only if the two signatures of its payload agree.\<close>

lemma license_other_secret:
  assumes "IssueLicense v marshal (Some p) = Inr key" and "VerifyLicense w unmarshal now key = Inr q"
  shows "\<exists>enc. computeSignature w enc = computeSignature v enc \<and> key = enc @ CHR ''.'' # computeSignature v enc"
proof -
  obtain b where key: "key = RawURLEncode b @ CHR ''.'' # computeSignature v (RawURLEncode b)"
    using assms(1) by (auto simp: IssueLicense_def Let_def split: sum.splits)
  have vis: "\<forall>c \<in> set key. visible c"
    using RawURLEncode_visible [of b] hex_visible by (auto simp: key computeSignature_def visible_def in_range_def)
  from assms(2) obtain enc where "TrimSpace key = enc @ CHR ''.'' # computeSignature w enc" "CHR ''.'' \<notin> set enc"
    by (auto simp: VerifyLicense_def Split_two split: list.splits option.splits sum.splits if_splits)
  then have "enc = RawURLEncode b \<and> computeSignature w enc = computeSignature v (RawURLEncode b)"
    using vis RawURLEncode_no_dot by (intro append_sep_inject) (simp_all add: key)
  then show ?thesis
    using key by auto
qed

definition trial_license :: EnterpriseLicensePayload where
  "trial_license = \<lparr>el_LicenseID = ''L1'', el_TenantID = ''t1'', el_CustomerName = ''Acme'', el_PlanTier = PlanEnterprise,
     el_MaxStorageTB = 5, el_MaxNodes = 3, el_Features = [''sso''], el_IssuedAt = 0, el_ExpiresAt = 100, el_Metadata = Map.empty\<rparr>"

theorem license_roundtrip_witness:
  "\<exists>key. IssueLicense (NewLicenseVerifier [1, 2]) (\<lambda>_. Inr [123, 125]) (Some trial_license) = Inr key \<and>
     VerifyLicense (NewLicenseVerifier [1, 2]) (\<lambda>_. Inr trial_license) (100 * Second) key = Inr trial_license \<and>
     VerifyLicense (NewLicenseVerifier [1, 2]) (\<lambda>_. Inr trial_license) (101 * Second) key = Inl (LicenseExpired 100)"
proof -
  let ?v = "NewLicenseVerifier [1, 2]"
  obtain key where key: "IssueLicense ?v (\<lambda>_. Inr [123, 125]) (Some trial_license) = Inr key"
    by (simp add: IssueLicense_def Let_def)
  have "VerifyLicense ?v (\<lambda>_. Inr trial_license) now key =
      (if 0 < el_ExpiresAt trial_license \<and> el_ExpiresAt trial_license < unix_seconds now
       then Inl (LicenseExpired (el_ExpiresAt trial_license)) else Inr trial_license)" for now
    by (rule license_roundtrip [OF key]) simp
  then show ?thesis
    using key by (simp add: trial_license_def unix_seconds_def Second_def)
qed

section \<open>Metering\<close>

datatype meter_op = MeterUsage UsageEvent | MeterLimit string string int | MeterReset string

fun meter_step :: "meter_op \<Rightarrow> InMemMeterStore \<Rightarrow> InMemMeterStore" where
  "meter_step (MeterUsage e) s = snd (RecordUsage e s)"
| "meter_step (MeterLimit t k l) s = SetQuotaLimit t k l s"
| "meter_step (MeterReset t) s = ResetUsage t s"

text \<open>The specification is a ledger: the quantities of a meter that were accepted since the tenant's last reset.\<close>

fun ledger_step :: "string \<Rightarrow> string \<Rightarrow> meter_op \<Rightarrow> InMemMeterStore \<Rightarrow> int list \<Rightarrow> int list" where
  "ledger_step t k (MeterUsage e) s l =
     (if ue_TenantID e = t \<and> ue_MeterType e = k \<and> fst (RecordUsage e s) = None then l @ [ue_Quantity e] else l)"
| "ledger_step t k (MeterLimit t' k' x) s l = l"
| "ledger_step t k (MeterReset t') s l = (if t' = t then [] else l)"

fun meter_run :: "string \<Rightarrow> string \<Rightarrow> meter_op list \<Rightarrow> InMemMeterStore \<times> int list \<Rightarrow> InMemMeterStore \<times> int list" where
  "meter_run t k [] sl = sl"
| "meter_run t k (x # xs) sl = meter_run t k xs (meter_step x (fst sl), ledger_step t k x (fst sl) (snd sl))"

definition quota_of :: "InMemMeterStore \<Rightarrow> string \<Rightarrow> string \<Rightarrow> int option" where
  "quota_of s t k = meter_get (ms_limits s) t k"

lemma GetUsage_meter: "GetUsage s t k = (case meter_get (ms_totals s) t k of None \<Rightarrow> 0 | Some v \<Rightarrow> v)"
  by (simp add: GetUsage_def meter_get_def split: option.splits)

lemma meter_get_set [simp]: "meter_get (meter_set t k v m) t' k' = (if t' = t \<and> k' = k then Some v else meter_get m t' k')"
  by (auto simp: meter_get_def meter_set_def split: option.splits)

text \<open>An operation on a meter: a usage is refused exactly when the new total would pass a positive quota, and then nothing
  is counted; otherwise the total of that meter alone moves.\<close>

definition refused :: "InMemMeterStore \<Rightarrow> UsageEvent \<Rightarrow> bool" where
  "refused s e \<longleftrightarrow> (\<exists>l. quota_of s (ue_TenantID e) (ue_MeterType e) = Some l \<and> 0 < l \<and>
     l < wrap64 (GetUsage s (ue_TenantID e) (ue_MeterType e) + ue_Quantity e))"

lemma RecordUsage_total:
  "fst (RecordUsage e s) = None \<longleftrightarrow> \<not> refused s e"
  "GetUsage (snd (RecordUsage e s)) t k =
     (if t = ue_TenantID e \<and> k = ue_MeterType e \<and> \<not> refused s e then wrap64 (GetUsage s t k + ue_Quantity e) else GetUsage s t k)"
  "quota_of (snd (RecordUsage e s)) t k = quota_of s t k"
  by (auto simp: RecordUsage_def Let_def refused_def quota_of_def GetUsage_meter meter_get_def [of "ms_totals s"]
      meter_get_def [of "(ms_totals s)(x \<mapsto> y)" for x y] split: option.splits)

lemma SetQuotaLimit_total [simp]:
  "GetUsage (SetQuotaLimit t' k' l s) t k = GetUsage s t k"
  "quota_of (SetQuotaLimit t' k' l s) t k = (if t = t' \<and> k = k' then Some l else quota_of s t k)"
  by (simp_all add: SetQuotaLimit_def GetUsage_def quota_of_def)

lemma ResetUsage_total [simp]:
  "GetUsage (ResetUsage t' s) t k = (if t = t' then 0 else GetUsage s t k)"
  "quota_of (ResetUsage t' s) t k = quota_of s t k"
  by (simp_all add: ResetUsage_def GetUsage_def quota_of_def)

text \<open>What a caller must respect for the totals to be sums: no negative quantity on the meter, and none so large that it wraps
  past the quota.\<close>

fun metered_by :: "string \<Rightarrow> string \<Rightarrow> int \<Rightarrow> meter_op \<Rightarrow> bool" where
  "metered_by t k l (MeterUsage e) \<longleftrightarrow> ue_TenantID e = t \<and> ue_MeterType e = k \<longrightarrow> 0 \<le> ue_Quantity e \<and> ue_Quantity e + l < 2 ^ 63"
| "metered_by t k l (MeterLimit t' k' x) \<longleftrightarrow> \<not> (t' = t \<and> k' = k)"
| "metered_by t k l (MeterReset t') \<longleftrightarrow> True"

definition ledger_agrees :: "string \<Rightarrow> string \<Rightarrow> int \<Rightarrow> InMemMeterStore \<times> int list \<Rightarrow> bool" where
  "ledger_agrees t k l sl \<longleftrightarrow> quota_of (fst sl) t k = Some l \<and> GetUsage (fst sl) t k = sum_list (snd sl) \<and>
     0 \<le> sum_list (snd sl) \<and> sum_list (snd sl) \<le> l"

lemma ledger_agrees_step:
  assumes "ledger_agrees t k l (s, q)" and "metered_by t k l x" and "0 < l"
  shows "ledger_agrees t k l (meter_step x s, ledger_step t k x s q)"
proof (cases x)
  case (MeterUsage e)
  have "wrap64 (sum_list q + ue_Quantity e) = sum_list q + ue_Quantity e" if "ue_TenantID e = t" "ue_MeterType e = k"
    using assms that by (intro wrap64_id) (auto simp: MeterUsage ledger_agrees_def is_int64_def)
  then show ?thesis
    using assms by (auto simp: MeterUsage ledger_agrees_def RecordUsage_total refused_def)
qed (use assms in \<open>auto simp: ledger_agrees_def\<close>)

lemma ledger_agrees_run:
  assumes "ledger_agrees t k l sl" and "\<forall>x \<in> set xs. metered_by t k l x" and "0 < l"
  shows "ledger_agrees t k l (meter_run t k xs sl)"
  using assms
proof (induction xs arbitrary: sl)
  case (Cons x xs)
  then show ?case
    using ledger_agrees_step [of t k l "fst sl" "snd sl" x] by (simp add: case_prod_beta)
qed simp


definition usage_event :: "string \<Rightarrow> int \<Rightarrow> UsageEvent" where
  "usage_event t q = \<lparr>ue_TenantID = t, ue_MeterType = MeterStorageBytes, ue_Quantity = q, ue_Timestamp = 0, ue_Attributes = Map.empty\<rparr>"

definition metering_example :: "meter_op list" where
  "metering_example = [MeterUsage (usage_event ''t'' 60), MeterUsage (usage_event ''t'' 50), MeterUsage (usage_event ''u'' 900),
     MeterLimit ''u'' MeterStorageBytes 7, MeterUsage (usage_event ''t'' 40)]"

lemma metering_example_run:
  "snd (meter_run ''t'' MeterStorageBytes metering_example (SetQuotaLimit ''t'' MeterStorageBytes 100 NewInMemMeterStore, [])) = [60, 40]"
  by (simp add: metering_example_def usage_event_def RecordUsage_def Let_def SetQuotaLimit_def NewInMemMeterStore_def meter_get_def
      meter_set_def MeterStorageBytes_def wrap64_def)


text \<open>Beyond those bounds the quota is no limit: a quantity that makes the sum wrap is accepted and leaves a negative total.\<close>

lemma huge_usage_wraps:
  assumes "quota_of s t MeterStorageBytes = Some l" and "0 < l" and "GetUsage s t MeterStorageBytes = 1"
  shows "fst (RecordUsage (usage_event t (2 ^ 63 - 1)) s) = None \<and>
    GetUsage (snd (RecordUsage (usage_event t (2 ^ 63 - 1)) s)) t MeterStorageBytes = - (2 ^ 63)"
proof -
  have "wrap64 (1 + (2 ^ 63 - 1)) = - (2 ^ 63)"
    by (simp add: wrap64_def)
  then show ?thesis
    using assms by (simp add: RecordUsage_total refused_def usage_event_def)
qed

section \<open>The Stripe webhook\<close>

lemma FormatInt_chars: "\<forall>c \<in> set (FormatInt n). visible c \<and> c \<noteq> CHR '',''"
proof -
  have "is_digit c \<Longrightarrow> visible c \<and> c \<noteq> CHR '',''" for c
    by (auto simp: is_digit_def visible_def in_range_def)
  then show ?thesis
    using format_nat_digits by (auto simp: FormatInt_def visible_def in_range_def)
qed

lemma FormatInt_not_Nil: "FormatInt n \<noteq> []"
  by (simp add: FormatInt_def)

lemma signature_part_t:
  assumes "\<forall>c \<in> set v. visible c"
  shows "signature_part (''t='' @ v) acc = (v, snd acc)"
proof -
  have "TrimSpace (''t='' @ v) = ''t='' @ v"
    using assms by (intro TrimSpace_visible) (auto simp: visible_def in_range_def)
  moreover have "SplitN2 CHR ''='' (''t='' @ v) = [''t'', v]"
    by (simp add: SplitN2_two)
  ultimately show ?thesis
    by (simp add: signature_part_def)
qed

lemma signature_part_v1:
  assumes "\<forall>c \<in> set v. visible c"
  shows "signature_part (''v1='' @ v) acc = (fst acc, snd acc @ [v])"
proof -
  have "TrimSpace (''v1='' @ v) = ''v1='' @ v"
    using assms by (intro TrimSpace_visible) (auto simp: visible_def in_range_def)
  moreover have "SplitN2 CHR ''='' (''v1='' @ v) = [''v1'', v]"
    by (simp add: SplitN2_two)
  ultimately show ?thesis
    by (simp add: signature_part_def)
qed

lemma signature_parts:
  "\<forall>s \<in> set sigs. \<forall>c \<in> set s. visible c \<Longrightarrow> fold signature_part (map (\<lambda>s. ''v1='' @ s) sigs) (t, xs) = (t, xs @ sigs)"
proof (induction sigs arbitrary: xs)
  case (Cons s sigs)
  then show ?case
    using signature_part_v1 [of s "(t, xs)"] by simp
qed simp

text \<open>The header Stripe sends: a time stamp and one or more signatures.\<close>

definition stripe_header :: "int \<Rightarrow> string list \<Rightarrow> string" where
  "stripe_header ts sigs = Join CHR '','' ((''t='' @ FormatInt ts) # map (\<lambda>s. ''v1='' @ s) sigs)"

definition stripe_signature :: "string \<Rightarrow> int \<Rightarrow> bytes \<Rightarrow> string" where
  "stripe_signature secret ts payload = EncodeToString (hmac_sha256 (string_bytes secret) (string_bytes (FormatInt ts @ ''.'') @ payload))"

text \<open>With a secret configured, a webhook call with the header of time stamp \<open>ts\<close> and signatures \<open>sigs\<close> passes verification exactly
  when the stamp is at most five minutes old in 64-bit arithmetic and one of the signatures is the HMAC of stamp, dot and
  payload under the secret; without a secret every call passes.\<close>

theorem stripe_header_accepted_iff:
  assumes "is_int64 ts" and "\<forall>s \<in> set sigs. \<forall>c \<in> set s. visible c \<and> c \<noteq> CHR '',''"
  shows "VerifyHeader h now payload (stripe_header ts sigs) = None \<longleftrightarrow>
    sh_webhookSecret h = '''' \<or>
    (wrap64 (unix_seconds now - ts) \<le> 300 \<and> stripe_signature (sh_webhookSecret h) ts payload \<in> set sigs)"
proof -
  have "Split CHR '','' (stripe_header ts sigs) = (''t='' @ FormatInt ts) # map (\<lambda>s. ''v1='' @ s) sigs"
    unfolding stripe_header_def
    by (rule Split_Join) (use assms(2) FormatInt_chars [of ts] in auto)
  moreover have "signature_part (''t='' @ FormatInt ts) ('''', []) = (FormatInt ts, [])"
    using FormatInt_chars [of ts] signature_part_t [of "FormatInt ts" "('''', [])"] by simp
  ultimately have "fold signature_part (Split CHR '','' (stripe_header ts sigs)) ('''', []) = (FormatInt ts, sigs)"
    using assms(2) signature_parts [of sigs "FormatInt ts" "[]"] by simp
  then show ?thesis
    using assms(1) FormatInt_not_Nil [of ts]
    by (auto simp: VerifyHeader_def Let_def list_ex_iff stripe_signature_def string_bytes_def)
qed

theorem stripe_header_accepted_iff_witness:
  "VerifyHeader (NewStripeWebhookHandler ''whsec'' None :: unit StripeWebhookHandler) (300 * Second) [1, 2]
     (stripe_header 0 [''00'', stripe_signature ''whsec'' 0 [1, 2]]) = None"
proof -
  have vis: "\<forall>s \<in> set [''00'', stripe_signature ''whsec'' 0 [1, 2]]. \<forall>c \<in> set s. visible c \<and> c \<noteq> CHR '',''"
  proof -
    have "lower_hex_char c \<Longrightarrow> visible c \<and> c \<noteq> CHR '',''" for c
      by (auto simp: lower_hex_char_def visible_def in_range_def)
    then have "\<forall>c \<in> set (stripe_signature ''whsec'' 0 [1, 2]). visible c \<and> c \<noteq> CHR '',''"
      unfolding stripe_signature_def using isLowerHex_EncodeToString by (auto simp: isLowerHex_iff simp del: EncodeToString.simps)
    then show ?thesis
      by (simp add: visible_def in_range_def)
  qed
  have "wrap64 300 = 300"
    by (simp add: is_int64_def)
  then show ?thesis
    using stripe_header_accepted_iff [of 0 "[''00'', stripe_signature ''whsec'' 0 [1, 2]]"
        "NewStripeWebhookHandler ''whsec'' None :: unit StripeWebhookHandler" "300 * Second" "[1, 2]"] vis
    by (simp add: NewStripeWebhookHandler_def unix_seconds_def Second_def is_int64_def)
qed

text \<open>A stamp in the future is never too old, whatever its distance.\<close>

lemma future_stamp_accepted:
  assumes "is_int64 ts" and "unix_seconds now \<le> ts" and "0 \<le> unix_seconds now"
    and "\<forall>c \<in> set (stripe_signature secret ts payload). visible c \<and> c \<noteq> CHR '',''"
  shows "VerifyHeader (NewStripeWebhookHandler secret f) now payload (stripe_header ts [stripe_signature secret ts payload]) = None"
proof -
  have "wrap64 (unix_seconds now - ts) = unix_seconds now - ts"
    using assms(1-3) by (intro wrap64_id) (auto simp: is_int64_def)
  moreover have "Split CHR '','' (stripe_header ts [stripe_signature secret ts payload]) =
      [''t='' @ FormatInt ts, ''v1='' @ stripe_signature secret ts payload]"
    unfolding stripe_header_def using assms(4) FormatInt_chars [of ts] by (subst Split_Join) auto
  ultimately show ?thesis
    using assms FormatInt_not_Nil [of ts] FormatInt_chars [of ts]
      signature_part_t [of "FormatInt ts" "('''', [])"]
      signature_part_v1 [of "stripe_signature secret ts payload" "(FormatInt ts, [])"]
    by (simp add: VerifyHeader_def NewStripeWebhookHandler_def Let_def stripe_signature_def string_bytes_def)
qed

text \<open>Only the three subscription events reach the callback; a deletion reports the free plan, the others the enterprise plan,
  whatever plan was bought.\<close>

lemma HandleEvent_callback:
  assumes "sh_onSubUpdated h = Some (\<lambda>rec s. (None, s @ [rec]))"
  shows "HandleEvent h (Some e) s =
    (None, s @ (if se_Type e = ''customer.subscription.deleted'' then [subscription_of (se_Object e) PlanFree ''CANCELED'']
                else if se_Type e \<in> {''customer.subscription.created'', ''customer.subscription.updated''}
                then [subscription_of (se_Object e) PlanEnterprise (obj_string (se_Object e) ''status'')] else []))"
  using assms by (auto simp: HandleEvent_def notify_def)

end
