(* ===== verification/Identity.thy ===== *)
theory Identity
  imports GoStrings Derivation
begin

text \<open>
  Identity providers and provisioned users (internal/auth/sso.go and scim.go). The registry maps the lower-case domain of a tenant to
  its identity provider; the SCIM server keeps the users that a provider created. The result of decoding a request body, the
  fresh UUID, the formatted clock and the order in which Go iterates over a map are arguments. \<open>ToLower\<close> is exact on ASCII domains.
\<close>

section \<open>The registry of identity providers\<close>

definition ProviderOIDC :: string where "ProviderOIDC = ''OIDC''"
definition ProviderSAML :: string where "ProviderSAML = ''SAML2''"

record TenantSSOConfig =
  tc_TenantID :: string
  tc_Domain :: string
  tc_ProviderType :: string
  tc_IssuerURL :: string
  tc_ClientID :: string
  tc_ClientSecret :: string
  tc_SAMLMetadata :: string

record SSORegistry =
  sso_configs :: "string \<Rightarrow> TenantSSOConfig option"

datatype sso_error = TenantAndDomainRequired | InvalidEmail | NoIdPForDomain string

definition NewSSORegistry :: SSORegistry where
  "NewSSORegistry = \<lparr>sso_configs = Map.empty\<rparr>"

definition RegisterTenantIdP :: "TenantSSOConfig \<Rightarrow> SSORegistry \<Rightarrow> sso_error option \<times> SSORegistry" where
  "RegisterTenantIdP cfg r =
     (if tc_TenantID cfg = '''' \<or> tc_Domain cfg = '''' then (Some TenantAndDomainRequired, r)
      else (None, r\<lparr>sso_configs := (sso_configs r)(ToLower (tc_Domain cfg) \<mapsto> cfg)\<rparr>))"

definition ResolveIdPByEmail :: "SSORegistry \<Rightarrow> string \<Rightarrow> sso_error + TenantSSOConfig" where
  "ResolveIdPByEmail r email =
     (case Split CHR ''@'' email of
        [_, d] \<Rightarrow>
          let domain = ToLower d
          in (case sso_configs r domain of None \<Rightarrow> Inl (NoIdPForDomain domain) | Some cfg \<Rightarrow> Inr cfg)
      | _ \<Rightarrow> Inl InvalidEmail)"

definition GenerateAuthRedirectURL :: "TenantSSOConfig \<Rightarrow> string \<Rightarrow> string" where
  "GenerateAuthRedirectURL cfg state =
     (if tc_ProviderType cfg = ProviderOIDC then
        tc_IssuerURL cfg @ ''/v1/authorize?client_id='' @ tc_ClientID cfg @
        ''&response_type=code&scope=openid+profile+email&state='' @ state
      else tc_IssuerURL cfg @ ''/sso/saml/login?tenant='' @ tc_TenantID cfg @ ''&state='' @ state)"

section \<open>Provisioned users\<close>

record SCIMName =
  sn_Formatted :: string
  sn_FamilyName :: string
  sn_GivenName :: string

record SCIMEmail =
  sm_Value :: string
  sm_Primary :: bool

record SCIMMeta =
  mt_ResourceType :: string
  mt_Created :: string
  mt_LastModified :: string
  mt_Location :: string

record SCIMUser =
  sc_Schemas :: "string list"
  sc_ID :: string
  sc_UserName :: string
  sc_Name :: SCIMName
  sc_Emails :: "SCIMEmail list"
  sc_Active :: bool
  sc_TenantID :: string
  sc_Meta :: SCIMMeta

record SCIMServer =
  scim_users :: "string \<Rightarrow> SCIMUser option"

datatype scim_reply =
    ScimError nat string
  | ScimCreated SCIMUser
  | ScimList "string list" nat nat nat "SCIMUser list"

definition NewSCIMServer :: SCIMServer where
  "NewSCIMServer = \<lparr>scim_users = Map.empty\<rparr>"

definition user_schema :: string where
  "user_schema = ''urn:ietf:params:scim:schemas:core:2.0:User''"

text \<open>\<open>body\<close> is the decoded request, \<^const>\<open>None\<close> when decoding fails.\<close>

definition createUser :: "SCIMUser option \<Rightarrow> string \<Rightarrow> string \<Rightarrow> SCIMServer \<Rightarrow> scim_reply \<times> SCIMServer" where
  "createUser body uuid now s =
     (case body of
        None \<Rightarrow> (ScimError 400 ''Invalid SCIM User Payload'', s)
      | Some u \<Rightarrow>
          let user = u\<lparr>sc_ID := uuid, sc_Schemas := [user_schema], sc_Active := True,
                       sc_Meta := \<lparr>mt_ResourceType = ''User'', mt_Created = now, mt_LastModified = now,
                                   mt_Location = ''/scim/v2/Users/'' @ uuid\<rparr>\<rparr>
          in (ScimCreated user, s\<lparr>scim_users := (scim_users s)(sc_ID user \<mapsto> user)\<rparr>))"

text \<open>\<open>order\<close> is the order in which the map is iterated.\<close>

definition listUsers :: "string list \<Rightarrow> SCIMServer \<Rightarrow> scim_reply" where
  "listUsers order s =
     (let list = List.map_filter (scim_users s) order
      in ScimList [''urn:ietf:params:scim:api:messages:2.0:ListResponse''] (length list) 1 (length list) list)"

definition HandleUsers :: "string \<Rightarrow> SCIMUser option \<Rightarrow> string \<Rightarrow> string \<Rightarrow> string list \<Rightarrow> SCIMServer \<Rightarrow> scim_reply \<times> SCIMServer" where
  "HandleUsers meth body uuid now order s =
     (if meth = ''GET'' then (listUsers order s, s)
      else if meth = ''POST'' then createUser body uuid now s
      else (ScimError 405 ''Method Not Allowed'', s))"

definition DeprovisionUser :: "string \<Rightarrow> string \<Rightarrow> SCIMServer \<Rightarrow> string option \<times> SCIMServer" where
  "DeprovisionUser userID now s =
     (case scim_users s userID of
        None \<Rightarrow> (Some (''user '' @ userID @ '' not found''), s)
      | Some user \<Rightarrow>
          (None, s\<lparr>scim_users := (scim_users s)(userID \<mapsto>
             user\<lparr>sc_Active := False, sc_Meta := (sc_Meta user)\<lparr>mt_LastModified := now\<rparr>\<rparr>)\<rparr>))"

section \<open>Resolution\<close>

lemma ResolveIdPByEmail_address:
  "CHR ''@'' \<notin> set u \<Longrightarrow> CHR ''@'' \<notin> set d \<Longrightarrow> ResolveIdPByEmail r (u @ CHR ''@'' # d) =
     (case sso_configs r (ToLower d) of None \<Rightarrow> Inl (NoIdPForDomain (ToLower d)) | Some cfg \<Rightarrow> Inr cfg)"
  by (simp add: ResolveIdPByEmail_def Split_append Let_def)

text \<open>An address resolves only if it has exactly one at sign.\<close>

lemma ResolveIdPByEmail_Inr:
  "ResolveIdPByEmail r email = Inr cfg \<longleftrightarrow>
     (\<exists>u d. email = u @ CHR ''@'' # d \<and> CHR ''@'' \<notin> set u \<and> CHR ''@'' \<notin> set d \<and> sso_configs r (ToLower d) = Some cfg)"
proof -
  have "ResolveIdPByEmail r email = Inr cfg \<longleftrightarrow>
      (\<exists>u d. Split CHR ''@'' email = [u, d] \<and> sso_configs r (ToLower d) = Some cfg)"
    by (auto simp: ResolveIdPByEmail_def Let_def split: list.splits option.splits)
  then show ?thesis
    by (auto simp: Split_two)
qed

text \<open>The specification: the configuration that was registered last for a domain, in any spelling of its letters.\<close>

fun last_registered :: "string \<Rightarrow> TenantSSOConfig list \<Rightarrow> TenantSSOConfig option \<Rightarrow> TenantSSOConfig option" where
  "last_registered d [] c = c"
| "last_registered d (cfg # cfgs) c =
     last_registered d cfgs
       (if tc_TenantID cfg \<noteq> '''' \<and> tc_Domain cfg \<noteq> '''' \<and> ToLower (tc_Domain cfg) = ToLower d then Some cfg else c)"

definition register_all :: "TenantSSOConfig list \<Rightarrow> SSORegistry \<Rightarrow> SSORegistry" where
  "register_all cfgs r = fold (\<lambda>cfg r. snd (RegisterTenantIdP cfg r)) cfgs r"

lemma register_all_configs: "sso_configs (register_all cfgs r) (ToLower d) = last_registered d cfgs (sso_configs r (ToLower d))"
proof (induction cfgs arbitrary: r)
  case (Cons cfg cfgs)
  have "sso_configs (snd (RegisterTenantIdP cfg r)) (ToLower d) =
      (if tc_TenantID cfg \<noteq> '''' \<and> tc_Domain cfg \<noteq> '''' \<and> ToLower (tc_Domain cfg) = ToLower d then Some cfg else sso_configs r (ToLower d))"
    by (simp add: RegisterTenantIdP_def)
  with Cons show ?case
    by (simp add: register_all_def)
qed (simp add: register_all_def)

text \<open>After any sequence of registrations an address resolves to the configuration registered last for its domain, whatever the
  case of the letters on either side, and to an error when there is none; registrations without tenant or domain have no effect.\<close>

theorem sso_resolves_last_registration:
  assumes "CHR ''@'' \<notin> set u" and "CHR ''@'' \<notin> set d"
  shows "ResolveIdPByEmail (register_all cfgs NewSSORegistry) (u @ CHR ''@'' # d) =
    (case last_registered d cfgs None of None \<Rightarrow> Inl (NoIdPForDomain (ToLower d)) | Some cfg \<Rightarrow> Inr cfg)"
  using assms by (simp add: ResolveIdPByEmail_address register_all_configs) (simp add: NewSSORegistry_def)

definition acme :: "string \<Rightarrow> TenantSSOConfig" where
  "acme t = \<lparr>tc_TenantID = t, tc_Domain = ''Acme.com'', tc_ProviderType = ProviderOIDC, tc_IssuerURL = ''https://idp'', tc_ClientID = ''c'',
     tc_ClientSecret = '''', tc_SAMLMetadata = ''''\<rparr>"

theorem sso_resolves_last_registration_witness:
  "ResolveIdPByEmail (register_all [acme ''t1'', acme ''t2''] NewSSORegistry) ''bob@ACME.com'' = Inr (acme ''t2'')"
proof -
  have "ResolveIdPByEmail (register_all [acme ''t1'', acme ''t2''] NewSSORegistry) (''bob'' @ CHR ''@'' # ''ACME.com'') =
      (case last_registered ''ACME.com'' [acme ''t1'', acme ''t2''] None of
         None \<Rightarrow> Inl (NoIdPForDomain (ToLower ''ACME.com'')) | Some cfg \<Rightarrow> Inr cfg)"
    by (rule sso_resolves_last_registration) simp_all
  moreover have "ToLower ''Acme.com'' = ToLower ''ACME.com''"
    by code_simp
  ultimately show ?thesis
    by (simp add: acme_def)
qed

section \<open>Provisioning\<close>

text \<open>The requests the server handles, with the UUID a creation draws.\<close>

datatype scim_request =
    ScimHandle string "SCIMUser option" string string "string list"
  | ScimDeprovision string string

fun scim_step :: "scim_request \<Rightarrow> SCIMServer \<Rightarrow> SCIMServer" where
  "scim_step (ScimHandle meth body uuid now order) s = snd (HandleUsers meth body uuid now order s)"
| "scim_step (ScimDeprovision userID now) s = snd (DeprovisionUser userID now s)"

text \<open>The UUIDs drawn are fresh: none is the identifier of a user that exists when it is drawn.\<close>

fun scim_fresh :: "scim_request list \<Rightarrow> SCIMServer \<Rightarrow> bool" where
  "scim_fresh [] s \<longleftrightarrow> True"
| "scim_fresh (x # xs) s \<longleftrightarrow>
     (case x of ScimHandle meth body uuid now order \<Rightarrow> scim_users s uuid = None | ScimDeprovision userID now \<Rightarrow> True) \<and>
     scim_fresh xs (scim_step x s)"

definition scim_wf :: "SCIMServer \<Rightarrow> bool" where
  "scim_wf s \<longleftrightarrow> (\<forall>i u. scim_users s i = Some u \<longrightarrow> sc_ID u = i \<and> sc_Schemas u = [user_schema] \<and>
     mt_ResourceType (sc_Meta u) = ''User'' \<and> mt_Location (sc_Meta u) = ''/scim/v2/Users/'' @ i)"

lemma scim_wf_step: "scim_wf s \<Longrightarrow> scim_wf (scim_step x s)"
  by (cases x) (auto simp: scim_wf_def HandleUsers_def createUser_def DeprovisionUser_def Let_def split: option.splits)

lemma scim_wf_run: "scim_wf s \<Longrightarrow> scim_wf (fold scim_step xs s)"
  by (induction xs arbitrary: s) (auto intro: scim_wf_step)

definition offboarded :: "string \<Rightarrow> SCIMServer \<Rightarrow> bool" where
  "offboarded i s \<longleftrightarrow> (\<exists>u. scim_users s i = Some u \<and> \<not> sc_Active u)"

lemma offboarded_step: "offboarded i s \<Longrightarrow> scim_fresh (x # xs) s \<Longrightarrow> offboarded i (scim_step x s)"
  by (cases x) (auto simp: offboarded_def HandleUsers_def createUser_def DeprovisionUser_def Let_def split: option.splits)

lemma offboarded_run: "offboarded i s \<Longrightarrow> scim_fresh xs s \<Longrightarrow> offboarded i (fold scim_step xs s)"
proof (induction xs arbitrary: s)
  case (Cons x xs)
  then show ?case
    using offboarded_step [of i s x xs] by simp
qed simp

text \<open>C39. A deprovisioned user stays in the directory and stays inactive through any later requests, as long as no fresh UUID repeats
  an identifier in use, and every user in the directory carries its own identifier, schema and location.\<close>

theorem deprovisioned_stays_inactive:
  assumes "DeprovisionUser i now (fold scim_step before NewSCIMServer) = (None, s)" and "scim_fresh later s"
  shows "\<exists>u. scim_users (fold scim_step later s) i = Some u \<and> \<not> sc_Active u \<and> sc_ID u = i \<and> scim_wf (fold scim_step later s)"
proof -
  have "offboarded i s"
    using assms(1) by (auto simp: DeprovisionUser_def offboarded_def split: option.splits)
  then have "offboarded i (fold scim_step later s)"
    using assms(2) by (rule offboarded_run)
  moreover have "scim_wf NewSCIMServer"
    by (simp add: scim_wf_def NewSCIMServer_def)
  then have "scim_wf (scim_step (ScimDeprovision i now) (fold scim_step before NewSCIMServer))"
    by (intro scim_wf_step scim_wf_run)
  then have "scim_wf (fold scim_step later s)"
    using assms(1) by (simp add: scim_wf_run)
  ultimately show ?thesis
    by (auto simp: offboarded_def scim_wf_def)
qed

definition new_user :: SCIMUser where
  "new_user = \<lparr>sc_Schemas = [], sc_ID = '''', sc_UserName = ''bob'', sc_Name = \<lparr>sn_Formatted = '''', sn_FamilyName = '''', sn_GivenName = ''''\<rparr>,
     sc_Emails = [], sc_Active = False, sc_TenantID = ''t1'', sc_Meta = \<lparr>mt_ResourceType = '''', mt_Created = '''', mt_LastModified = '''', mt_Location = ''''\<rparr>\<rparr>"

lemma deprovision_after_create:
  "DeprovisionUser ''u1'' ''t'' (fold scim_step [ScimHandle ''POST'' (Some new_user) ''u1'' ''n'' []] NewSCIMServer) =
     (None, \<lparr>scim_users = [''u1'' \<mapsto> new_user\<lparr>sc_ID := ''u1'', sc_Schemas := [user_schema], sc_Active := False,
        sc_Meta := \<lparr>mt_ResourceType = ''User'', mt_Created = ''n'', mt_LastModified = ''t'', mt_Location = ''/scim/v2/Users/u1''\<rparr>\<rparr>]\<rparr>)"
  by (simp add: HandleUsers_def createUser_def Let_def DeprovisionUser_def NewSCIMServer_def new_user_def)

theorem deprovisioned_stays_inactive_witness:
  "\<exists>s u. DeprovisionUser ''u1'' ''t'' (fold scim_step [ScimHandle ''POST'' (Some new_user) ''u1'' ''n'' []] NewSCIMServer) = (None, s) \<and>
     scim_users (fold scim_step [ScimHandle ''POST'' (Some new_user) ''u2'' ''n'' [], ScimDeprovision ''u2'' ''t''] s) ''u1'' = Some u \<and> \<not> sc_Active u"
proof -
  obtain s where s: "DeprovisionUser ''u1'' ''t'' (fold scim_step [ScimHandle ''POST'' (Some new_user) ''u1'' ''n'' []] NewSCIMServer) = (None, s)"
    by (metis (no_types, lifting) deprovision_after_create)
  then have "scim_fresh [ScimHandle ''POST'' (Some new_user) ''u2'' ''n'' [], ScimDeprovision ''u2'' ''t''] s"
    unfolding deprovision_after_create by (auto simp: HandleUsers_def)
  from deprovisioned_stays_inactive [OF s this] obtain u where
    "scim_users (fold scim_step [ScimHandle ''POST'' (Some new_user) ''u2'' ''n'' [], ScimDeprovision ''u2'' ''t''] s) ''u1'' = Some u"
    "\<not> sc_Active u"
    by metis
  with s show ?thesis
    by (intro exI conjI)
qed

text \<open>The listing shows every user, of every tenant.\<close>

lemma listUsers_complete:
  assumes "distinct order" and "set order = dom (scim_users s)"
  shows "\<exists>list. listUsers order s = ScimList [''urn:ietf:params:scim:api:messages:2.0:ListResponse''] (card (dom (scim_users s))) 1
      (card (dom (scim_users s))) list \<and> set list = ran (scim_users s)"
proof -
  have len: "length (List.map_filter (scim_users s) xs) = length xs" if "set xs \<subseteq> dom (scim_users s)" for xs
    using that by (induction xs) (auto simp: map_filter_simps)
  have "set (List.map_filter f xs) = {y. \<exists>x \<in> set xs. f x = Some y}" for f :: "string \<Rightarrow> SCIMUser option" and xs
    by (induction xs) (auto simp: map_filter_simps split: option.splits)
  then have "set (List.map_filter (scim_users s) order) = {y. \<exists>x \<in> dom (scim_users s). scim_users s x = Some y}"
    unfolding assms(2) [symmetric] .
  then have mem: "set (List.map_filter (scim_users s) order) = ran (scim_users s)"
    by (auto simp: ran_def)
  show ?thesis
    using assms(2) len [of order] mem distinct_card [OF assms(1)] by (simp add: listUsers_def Let_def)
qed

end
