(* ===== verification/System.thy ===== *)
theory System
  imports Background "HOL-Library.Sublist"
begin

text \<open>
  The service as a whole, seen from its tables. Every transaction and every single statement that the Go code sends is one
  atomic event (\<open>sys_event\<close>): the calls of \<^verbatim>\<open>PgStore\<close> (internal/ingress/store.go), of the registry
  (internal/cas/registry.go) and of the collection adapter (cmd/ingest/gc_adapter.go). A run is any sequence of events, so it
  covers every interleaving of handlers, reaper, sweep worker and collector, with faults anywhere; the lemmas at the end
  show that the handlers and jobs of the other theories are such runs.

  The specification is a store of immutable version histories: a commit appends the next version to the history of one node,
  nothing else is ever observable. \<open>abs_files\<close> reads the histories out of the tables, and the runs refine the specification.
\<close>

section \<open>The specification\<close>

text \<open>A version as a reader gets it: number, size, content hash, and the ordered blocks with index, hash, offset and size.\<close>

record file_version =
  ver_number :: int
  ver_size :: int
  ver_sha :: bytes
  ver_blocks :: "(int \<times> bytes \<times> int \<times> int) list"

type_synonym history = "uuid \<Rightarrow> file_version list"

inductive publish :: "history \<Rightarrow> uuid \<times> file_version \<Rightarrow> history \<Rightarrow> bool" where
  publish: "ver_number v = int (length (H n)) + 1 \<Longrightarrow> publish H (n, v) (H(n := H n @ [v]))"

inductive spec_run :: "('a \<Rightarrow> 'l \<Rightarrow> 'a \<Rightarrow> bool) \<Rightarrow> 'a \<Rightarrow> 'l list \<Rightarrow> 'a \<Rightarrow> bool" for astep where
  nil: "spec_run astep a [] a"
| cons: "astep a l b \<Longrightarrow> spec_run astep b ls c \<Longrightarrow> spec_run astep a (l # ls) c"

inductive_cases publishE: "publish H l H'"

section \<open>Events on the tables\<close>

datatype sys_stmt =
    CreateFileNode uuid "uuid option" string
  | CreateUploadSession uuid uuid int int string string
  | CommitFile uuid uuid bytes "BlockMeta list"
  | MarkBlockVerified bytes
  | ExpireStaleSessions
  | EnsureBlock' "sql_error option" bytes uuid int
  | DeleteBlocks' "sql_error option" "bytes list"
  | UpdateTier' "sql_error option" bytes
  | MarkSessionExpired' uuid

type_synonym sys_event = "pg_env \<times> sys_stmt"

text \<open>What a caller is told when its commit went through, with what it had asked for.\<close>

record ack =
  ak_sha :: bytes
  ak_blocks :: "BlockMeta list"
  ak_version :: string
  ak_number :: int

fun sys_exec :: "uuid_pkg \<Rightarrow> sys_event \<Rightarrow> db \<Rightarrow> ack option \<times> db" where
  "sys_exec U (E, CreateFileNode t p name) d = (None, snd (Pg_CreateFileNode E t p name d))"
| "sys_exec U (E, CreateUploadSession t n sz chunks ip ua) d = (None, snd (Pg_CreateUploadSession E t n sz chunks ip ua d))"
| "sys_exec U (E, CommitFile t sid sha blocks) d =
     (case Pg_CommitFile U E t sid sha blocks d of
        (Inl e, d') \<Rightarrow> (None, d')
      | (Inr (vid, n), d') \<Rightarrow> (Some \<lparr>ak_sha = sha, ak_blocks = blocks, ak_version = vid, ak_number = n\<rparr>, d'))"
| "sys_exec U (E, MarkBlockVerified h) d = (None, snd (Pg_MarkBlockVerified E h d))"
| "sys_exec U (E, ExpireStaleSessions) d = (None, snd (Pg_ExpireStaleSessions E d))"
| "sys_exec U (E, EnsureBlock' flt h t sz) d = (None, snd (EnsureBlock flt (pe_now E) h t sz d))"
| "sys_exec U (E, DeleteBlocks' flt hs) d = (None, snd (DeleteBlocks flt hs d))"
| "sys_exec U (E, UpdateTier' flt h) d = (None, snd (UpdateTier flt (pe_now E) h d))"
| "sys_exec U (E, MarkSessionExpired' sid) d =
     (None, d\<lparr>session_rows := update_where (\<lambda>s. us_id s = sid) (\<lambda>s. s\<lparr>us_status := ''EXPIRED''\<rparr>) (session_rows d)\<rparr>)"

text \<open>The acknowledgements of a run, in order, and the tables it leaves.\<close>

fun run_events :: "('e \<Rightarrow> 's \<Rightarrow> 'o option \<times> 's) \<Rightarrow> 'e list \<Rightarrow> 's \<Rightarrow> 'o list \<times> 's" where
  "run_events step [] s = ([], s)"
| "run_events step (e # es) s =
     (case step e s of (out, s') \<Rightarrow>
        (case run_events step es s' of (outs, s'') \<Rightarrow> (case out of None \<Rightarrow> outs | Some x \<Rightarrow> x # outs, s'')))"

abbreviation sys_run :: "uuid_pkg \<Rightarrow> sys_event list \<Rightarrow> db \<Rightarrow> ack list \<times> db" where
  "sys_run U \<equiv> run_events (sys_exec U)"

section \<open>Reading the histories out of the tables\<close>

definition version_blocks :: "db \<Rightarrow> uuid \<Rightarrow> (int \<times> bytes \<times> int \<times> int) list" where
  "version_blocks d v = map (\<lambda>m. (mf_index m, mf_hash m, mf_offset m, mf_size m)) (filter (\<lambda>m. mf_version m = v) (manifest_rows d))"

definition abs_version :: "db \<Rightarrow> version_row \<Rightarrow> file_version" where
  "abs_version d v = \<lparr>ver_number = fv_number v, ver_size = fv_size v, ver_sha = fv_sha v, ver_blocks = version_blocks d (fv_id v)\<rparr>"

definition abs_files :: "db \<Rightarrow> history" where
  "abs_files d n = map (abs_version d) (filter (\<lambda>v. fv_node v = n) (version_rows d))"

text \<open>The reference counts cover the manifests: a count is never below the number of manifest rows that name the block.
  This is weaker than \<open>refs_ok\<close>, since \<^verbatim>\<open>EnsureBlock\<close> counts a reference that no manifest row holds.\<close>

definition refs_cover :: "db \<Rightarrow> bool" where
  "refs_cover d \<longleftrightarrow>
     distinct (map cb_hash (cas_rows d)) \<and>
     (\<forall>b \<in> set (cas_rows d). int (ref_of d (cb_hash b)) \<le> cb_refs b) \<and>
     (\<forall>m \<in> set (manifest_rows d). mf_hash m \<in> cb_hash ` set (cas_rows d))"

definition sys_ok :: "db \<Rightarrow> bool" where
  "sys_ok d \<longleftrightarrow> refs_cover d \<and> versions_ok d \<and> mf_version ` set (manifest_rows d) \<subseteq> fv_id ` set (version_rows d)"

text \<open>An acknowledgement tells the truth about a published version.\<close>

definition acknowledges :: "ack \<Rightarrow> uuid \<times> file_version \<Rightarrow> bool" where
  "acknowledges a l \<longleftrightarrow> ver_number (snd l) = ak_number a \<and> ver_sha (snd l) = ak_sha a \<and>
     map (\<lambda>(i, h, off, sz). (i, Some h, off, sz)) (ver_blocks (snd l)) =
     map (\<lambda>b. (bm_ChunkIndex b, DecodeString (bm_BlockHash b), bm_Offset b, bm_SizeBytes b)) (ak_blocks a)"

section \<open>Refinement of runs\<close>

text \<open>The contract: every event keeps the invariant and either is invisible or is one step of the specification, about which
  its output is right.\<close>

locale refinement =
  fixes step :: "'e \<Rightarrow> 's \<Rightarrow> 'o option \<times> 's" and inv :: "'s \<Rightarrow> bool" and absn :: "'s \<Rightarrow> 'a"
    and astep :: "'a \<Rightarrow> 'l \<Rightarrow> 'a \<Rightarrow> bool" and says :: "'o \<Rightarrow> 'l \<Rightarrow> bool"
  assumes step_inv: "inv s \<Longrightarrow> inv (snd (step e s))"
    and step_skip: "inv s \<Longrightarrow> fst (step e s) = None \<Longrightarrow> absn (snd (step e s)) = absn s"
    and step_visible: "inv s \<Longrightarrow> fst (step e s) = Some x \<Longrightarrow> \<exists>l. astep (absn s) l (absn (snd (step e s))) \<and> says x l"
begin

lemma run_inv: "inv s \<Longrightarrow> inv (snd (run_events step es s))"
  by (induction es arbitrary: s) (auto simp: split_beta step_inv)

lemma run_refines:
  "inv s \<Longrightarrow> \<exists>ls. spec_run astep (absn s) ls (absn (snd (run_events step es s))) \<and> list_all2 says (fst (run_events step es s)) ls"
proof (induction es arbitrary: s)
  case Nil
  show ?case by (auto intro: spec_run.nil)
next
  case (Cons e es)
  obtain out s' where step: "step e s = (out, s')" by fastforce
  with Cons.prems step_inv [of s e] have "inv s'" by simp
  from Cons.IH [OF this] obtain ls where
    ls: "spec_run astep (absn s') ls (absn (snd (run_events step es s')))" "list_all2 says (fst (run_events step es s')) ls"
    by blast
  show ?case
  proof (cases out)
    case None
    with step_skip [OF Cons.prems, of e] step ls show ?thesis
      by (auto simp: split_beta)
  next
    case (Some x)
    with step_visible [OF Cons.prems, of e x] step obtain l where "astep (absn s) l (absn s')" "says x l"
      by auto
    with ls step Some show ?thesis
      by (intro exI [of _ "l # ls"]) (auto simp: split_beta intro: spec_run.cons)
  qed
qed

end

lemma spec_histories_grow: "spec_run publish H ls H' \<Longrightarrow> prefix (H n) (H' n)"
proof (induction rule: spec_run.induct)
  case (cons a l b ls c)
  from cons.hyps(1) have "prefix (a n) (b n)"
    by (auto elim!: publishE)
  then show ?case
    using cons.IH by (rule prefix_order.trans)
qed simp


section \<open>The events refine the specification\<close>

lemma refs_ok_cover: "refs_ok d \<Longrightarrow> refs_cover d"
  by (auto simp: refs_ok_def refs_cover_def)

lemma refs_coverD:
  assumes "refs_cover d"
  shows "distinct (map cb_hash (cas_rows d))"
    and "b \<in> set (cas_rows d) \<Longrightarrow> int (ref_of d (cb_hash b)) \<le> cb_refs b"
    and "m \<in> set (manifest_rows d) \<Longrightarrow> mf_hash m \<in> cb_hash ` set (cas_rows d)"
  using assms by (auto simp: refs_cover_def)

lemma refs_cover_frame:
  "cas_rows d' = cas_rows d \<Longrightarrow> manifest_rows d' = manifest_rows d \<Longrightarrow> refs_cover d' \<longleftrightarrow> refs_cover d"
  by (simp add: refs_cover_def ref_of_def)

lemma refs_cover_update_block:
  assumes "refs_cover d" and "\<And>b. cb_hash (f b) = cb_hash b" and "\<And>b. cb_refs (f b) = cb_refs b"
  shows "refs_cover (d\<lparr>cas_rows := update_where P f (cas_rows d)\<rparr>)"
proof -
  have "cb_hash ` set (update_where P f (cas_rows d)) = cb_hash ` set (cas_rows d)"
    using assms(2) by (rule image_update_where)
  then show ?thesis
    using assms by (auto simp: refs_cover_def set_update_where ref_of_def)
qed

lemma ref_of_uncovered:
  assumes "refs_cover d" and "h \<notin> cb_hash ` set (cas_rows d)"
  shows "ref_of d h = 0"
  using assms by (force simp: ref_of_def refs_cover_def filter_empty_conv)

lemma refs_cover_insert_block:
  assumes "refs_cover d" and "0 \<le> r" and "insert_block_on_conflict_nothing now t r hs d = Inr d'"
  shows "refs_cover d'"
proof (cases "fst hs \<in> set (map cb_hash (cas_rows d))")
  case True
  with assms show ?thesis
    by (auto simp: insert_block_on_conflict_nothing_def Let_def split: if_splits)
next
  case False
  then have "ref_of d (fst hs) = 0"
    using ref_of_uncovered assms(1) by simp
  with False assms show ?thesis
    by (auto simp: insert_block_on_conflict_nothing_def Let_def refs_cover_def ref_of_def split: if_splits)
qed

lemma refs_cover_insert_manifest:
  assumes "refs_cover d" and "insert_manifest_block now m d = Inr d'"
  shows "refs_cover d'"
proof -
  let ?f = "\<lambda>b. b\<lparr>cb_refs := cb_refs b + 1, cb_tier := (if cb_refs b + 1 > 100 then ''HOT'' else cb_tier b),
                  cb_updated := now\<rparr>"
  have in_cas: "mf_hash m \<in> cb_hash ` set (cas_rows d)"
    and d': "d' = d\<lparr>manifest_rows := manifest_rows d @ [m],
                    cas_rows := update_where (\<lambda>b. cb_hash b = mf_hash m) ?f (cas_rows d)\<rparr>"
    using assms(2) by (auto simp: insert_manifest_block_def manifest_block_added_def split: if_splits)
  have hashes: "cb_hash ` set (cas_rows d') = cb_hash ` set (cas_rows d)"
    unfolding d' by (simp add: image_update_where)
  have "int (ref_of d' (cb_hash b)) \<le> cb_refs b" if "b \<in> set (cas_rows d')" for b
  proof -
    from that obtain b0 where b0: "b0 \<in> set (cas_rows d)" and b: "b = (if cb_hash b0 = mf_hash m then ?f b0 else b0)"
      by (auto simp: d' set_update_where)
    have same: "cb_hash b = cb_hash b0"
      by (simp add: b)
    have "ref_of d' (cb_hash b0) = ref_of d (cb_hash b0) + (if mf_hash m = cb_hash b0 then 1 else 0)"
      by (simp add: ref_of_def d')
    with refs_coverD(2) [OF assms(1) b0] show ?thesis
      unfolding same by (cases "cb_hash b0 = mf_hash m") (simp_all add: b)
  qed
  moreover have "distinct (map cb_hash (cas_rows d'))"
    using refs_coverD(1) [OF assms(1)] by (simp add: d')
  moreover have "mf_hash r \<in> cb_hash ` set (cas_rows d')" if "r \<in> set (manifest_rows d')" for r
    using that refs_coverD(3) [OF assms(1)] in_cas unfolding hashes by (auto simp: d')
  ultimately show ?thesis
    unfolding refs_cover_def by blast
qed

lemma referenced_not_deleted:
  assumes "refs_cover d" and "m \<in> set (manifest_rows d)"
  shows "mf_hash m \<in> cb_hash ` set (cas_rows (snd (delete_unreferenced hashes d)))"
proof -
  from refs_coverD(3) [OF assms] obtain b where b: "b \<in> set (cas_rows d)" "cb_hash b = mf_hash m"
    by auto
  have "filter (\<lambda>r. mf_hash r = mf_hash m) (manifest_rows d) \<noteq> []"
    using assms(2) by (auto simp: filter_empty_conv)
  then have "0 < ref_of d (cb_hash b)"
    by (simp add: ref_of_def b(2))
  with refs_coverD(2) [OF assms(1) b(1)] have "cb_refs b \<noteq> 0"
    by simp
  with b show ?thesis
    by (force simp: delete_unreferenced_cas)
qed

lemma refs_cover_delete:
  assumes "refs_cover d"
  shows "refs_cover (snd (delete_unreferenced hashes d))"
proof -
  let ?d = "snd (delete_unreferenced hashes d)"
  have "ref_of ?d h = ref_of d h" for h
    by (simp add: ref_of_def delete_unreferenced_frame)
  moreover have "distinct (map cb_hash (cas_rows ?d))"
    using refs_coverD(1) [OF assms] by (simp add: delete_unreferenced_def Let_def distinct_map_filter)
  ultimately show ?thesis
    using refs_coverD(2) [OF assms] referenced_not_deleted [OF assms]
    unfolding refs_cover_def by (simp add: delete_unreferenced_cas delete_unreferenced_frame)
qed

lemma write_blocks_cover:
  assumes "write_blocks E t v blocks d = Inr d'" and "refs_cover d"
  shows "refs_cover d'"
proof (cases "blocks = []")
  case True
  with assms show ?thesis
    by (simp add: write_blocks_def)
next
  case False
  from assms(1) False obtain hashes d1 where
    d1: "insert_each (insert_block_on_conflict_nothing (pe_now E) t 0) (zip hashes (map bm_SizeBytes blocks)) d = Inr d1"
    and d': "insert_each (insert_manifest_block (pe_now E)) (manifest_of v (zip hashes blocks)) d1 = Inr d'"
    by (auto simp: write_blocks_def bindE_Inr exec_Inr manifest_of_def split: option.splits)
  have "refs_cover d1"
    using d1 assms(2) by (rule insert_each_induct) (rule refs_cover_insert_block [OF _ order.refl])
  with d' show ?thesis
    by (rule insert_each_induct) (erule refs_cover_insert_manifest)
qed

text \<open>The histories and the invariant only look at three tables.\<close>

lemma abs_files_frame:
  assumes "version_rows d' = version_rows d" and "manifest_rows d' = manifest_rows d"
  shows "abs_files d' = abs_files d"
proof -
  have "abs_version d' = abs_version d"
    unfolding abs_version_def version_blocks_def assms(2) ..
  then show ?thesis
    unfolding abs_files_def assms(1) by simp
qed

lemma sys_ok_frame:
  assumes "version_rows d' = version_rows d" and "manifest_rows d' = manifest_rows d" and "refs_cover d'" and "sys_ok d"
  shows "sys_ok d'"
  using assms(3,4) versions_ok_frame [OF assms(1)] unfolding sys_ok_def assms(1,2) by blast

definition quiet :: "db \<Rightarrow> db \<Rightarrow> bool" where
  "quiet d d' \<longleftrightarrow> version_rows d' = version_rows d \<and> manifest_rows d' = manifest_rows d \<and> (refs_cover d \<longrightarrow> refs_cover d')"

lemma quietI: "version_rows d' = version_rows d \<Longrightarrow> manifest_rows d' = manifest_rows d \<Longrightarrow> cas_rows d' = cas_rows d \<Longrightarrow> quiet d d'"
  using refs_cover_frame [of d' d] by (simp add: quiet_def)

lemma quiet_refl [simp]: "quiet d d"
  by (simp add: quiet_def)

lemma quiet_same_content: "same_content d d' \<Longrightarrow> quiet d d'"
  by (rule quietI) (simp_all add: same_content_def)

lemma quietD: "quiet d d' \<Longrightarrow> sys_ok d \<Longrightarrow> sys_ok d' \<and> abs_files d' = abs_files d"
  using sys_ok_frame [of d' d] abs_files_frame [of d' d] unfolding quiet_def by (simp add: sys_ok_def)


section \<open>A commit publishes\<close>

lemma commit_keeps_cover:
  assumes "Pg_CommitFile U E t sid sha blocks d = (Inr (vid, n), d')" and "refs_cover d" and "versions_ok d"
  shows "refs_cover d' \<and> versions_ok d'"
proof -
  have "commit_body U E t sid sha blocks d = Inr ((vid, n), d')"
    using assms(1) by (simp add: Pg_CommitFile_def in_tx_Inr)
  then obtain rec node d1 d2 where
    "commit_preconditions U E t sid blocks d = Inr (rec, node)"
    and n: "n = next_version_number d node"
    and d1: "insert_version \<lparr>fv_id = pe_id E StInsertVersion, fv_node = node, fv_number = n,
           fv_size = sr_TotalSize rec, fv_sha = sha, fv_created_by = t\<rparr> d = Inr d1"
    and d2: "write_blocks E t (pe_id E StInsertVersion) blocks d1 = Inr d2"
    and d': "d' = complete_session sid (int (length blocks)) d2"
    by (rule commit_body_Inr)
  have "versions_ok d1"
    using insert_version_ok [OF assms(3) _ d1] n by simp
  moreover have "version_rows d2 = version_rows d1"
    using d2 by (rule write_blocks_Inr)
  moreover have "refs_cover d1"
    using insert_version_frame [OF d1] assms(2) refs_cover_frame [of d1 d] by simp
  then have "refs_cover d2"
    using write_blocks_cover [OF d2] by simp
  ultimately show ?thesis
    using versions_ok_frame [of d' d1] refs_cover_frame [of d' d2] by (simp add: d')
qed

lemma version_blocks_append:
  assumes "manifest_rows d' = manifest_rows d @ ms" and "\<forall>m \<in> set ms. mf_version m = v"
  shows "version_blocks d' w = (if w = v then version_blocks d w @ map (\<lambda>m. (mf_index m, mf_hash m, mf_offset m, mf_size m)) ms
    else version_blocks d w)"
proof -
  have "filter (\<lambda>m. mf_version m = w) ms = (if w = v then ms else [])"
    using assms(2) by (auto simp: filter_empty_conv intro: filter_True)
  then show ?thesis
    by (simp add: version_blocks_def assms(1))
qed

lemma abs_files_append:
  assumes "version_rows d' = version_rows d @ [row]" and "manifest_rows d' = manifest_rows d @ ms"
    and "\<forall>m \<in> set ms. mf_version m = fv_id row" and "fv_id row \<notin> fv_id ` set (version_rows d)"
  shows "abs_files d' = (abs_files d)(fv_node row := abs_files d (fv_node row) @ [abs_version d' row])"
proof
  fix n
  have "abs_version d' v = abs_version d v" if "v \<in> set (version_rows d)" for v
  proof -
    from that assms(4) have "fv_id v \<noteq> fv_id row"
      by (metis imageI)
    then show ?thesis
      by (simp add: abs_version_def version_blocks_append [OF assms(2,3)])
  qed
  then have "map (abs_version d') (filter (\<lambda>v. fv_node v = n) (version_rows d)) = abs_files d n"
    by (simp add: abs_files_def)
  then show "abs_files d' n = ((abs_files d)(fv_node row := abs_files d (fv_node row) @ [abs_version d' row])) n"
    by (simp add: abs_files_def [of d'] assms(1))
qed

lemma length_abs_files: "length (abs_files d n) = length (node_versions d n)"
  by (simp add: abs_files_def node_versions_def)

lemma commit_publishes:
  assumes commit: "Pg_CommitFile U E t sid (ak_sha a) (ak_blocks a) d = (Inr (ak_version a, ak_number a), d')" and ok: "sys_ok d"
  shows "sys_ok d' \<and> (\<exists>l. publish (abs_files d) l (abs_files d') \<and> acknowledges a l)"
proof -
  from ok have cover: "refs_cover d" "versions_ok d" and owned: "mf_version ` set (manifest_rows d) \<subseteq> fv_id ` set (version_rows d)"
    by (simp_all add: sys_ok_def)
  note kept = commit_keeps_cover [OF commit cover]
  from CommitFile_effect [OF commit] obtain row hashes where
    n: "ak_number a = next_version_number d (fv_node row)" "fv_number row = ak_number a" "fv_sha row = ak_sha a"
    and vers: "version_rows d' = version_rows d @ [row]"
    and hashes: "map (\<lambda>b. MustDecodeHash (bm_BlockHash b)) (ak_blocks a) = map Some hashes"
    and mans: "manifest_rows d' = manifest_rows d @ manifest_of (fv_id row) (zip hashes (ak_blocks a))" (is "_ = _ @ ?ms")
    by (metis version_row.select_convs(1,2,3,5))
  have ms: "\<forall>m \<in> set ?ms. mf_version m = fv_id row"
    by (auto simp: manifest_of_def)
  have fresh: "fv_id row \<notin> fv_id ` set (version_rows d)"
    using kept by (simp add: versions_ok_def vers del: upt_Suc)
  then have "mf_version m \<noteq> fv_id row" if "m \<in> set (manifest_rows d)" for m
    using owned that by (metis imageI subsetD)
  then have "version_blocks d (fv_id row) = []"
    by (simp add: version_blocks_def filter_empty_conv)
  then have blocks: "version_blocks d' (fv_id row) = map (\<lambda>m. (mf_index m, mf_hash m, mf_offset m, mf_size m)) ?ms"
    using version_blocks_append [OF mans ms, of "fv_id row"] by simp
  have "length hashes = length (ak_blocks a)"
    using hashes by (metis length_map)
  from manifest_of_view [OF this hashes, of "fv_id row"]
  have said: "acknowledges a (fv_node row, abs_version d' row)"
    by (simp add: acknowledges_def abs_version_def n(2,3) blocks comp_def)
  have "ver_number (abs_version d' row) = int (length (abs_files d (fv_node row))) + 1"
    unfolding abs_version_def by (simp add: n(2)) (simp add: n(1) length_abs_files next_version_dense [OF cover(2)])
  then have "publish (abs_files d) (fv_node row, abs_version d' row) (abs_files d')"
    unfolding abs_files_append [OF vers mans ms fresh] by (rule publish.publish)
  moreover have "mf_version ` set (manifest_rows d') \<subseteq> fv_id ` set (version_rows d')"
    using owned ms by (auto simp: mans vers)
  ultimately show ?thesis
    using kept said by (auto simp: sys_ok_def)
qed

text \<open>Everything else is invisible.\<close>

lemma Pg_CreateUploadSession_Inl: "Pg_CreateUploadSession E t n sz chunks ip ua d = (Inl e, d') \<Longrightarrow> d' = d"
  unfolding Pg_CreateUploadSession_def by (rule in_tx_Inl)

lemma Pg_CommitFile_Inl: "Pg_CommitFile U E t sid sha blocks d = (Inl e, d') \<Longrightarrow> d' = d"
  unfolding Pg_CommitFile_def by (rule in_tx_Inl)

lemma Pg_CreateUploadSession_quiet: "quiet d (snd (Pg_CreateUploadSession E t n sz chunks ip ua d))"
proof (cases "Pg_CreateUploadSession E t n sz chunks ip ua d")
  case (Pair r d')
  then show ?thesis
    using Pg_CreateUploadSession_Inr [of E t n sz chunks ip ua d _ _ d'] Pg_CreateUploadSession_Inl [of E t n sz chunks ip ua d _ d']
    by (cases r) (auto intro: quiet_same_content)
qed

lemma quiet_update_block:
  "(\<And>b. cb_hash (f b) = cb_hash b) \<Longrightarrow> (\<And>b. cb_refs (f b) = cb_refs b) \<Longrightarrow> quiet d (d\<lparr>cas_rows := update_where P f (cas_rows d)\<rparr>)"
  using refs_cover_update_block by (simp add: quiet_def)

lemma insert_block_quiet: "0 \<le> r \<Longrightarrow> insert_block_on_conflict_nothing now t r hs d = Inr d' \<Longrightarrow> quiet d d'"
  unfolding quiet_def using insert_block_frame(1,2) refs_cover_insert_block by blast

lemma EnsureBlock_quiet: "quiet d (snd (EnsureBlock flt now h t sz d))"
proof (cases flt)
  case None
  then show ?thesis
    using insert_block_quiet [of 1 now t "(h, sz)" d]
    by (cases "insert_block_on_conflict_nothing now t 1 (h, sz) d") (simp_all add: EnsureBlock_def)
qed (simp add: EnsureBlock_def)

lemma DeleteBlocks_quiet: "quiet d (snd (DeleteBlocks flt hs d))"
  using delete_unreferenced_frame [of hs d] refs_cover_delete [of d hs]
  by (auto simp: DeleteBlocks_def quiet_def split_beta split: option.splits)

lemma UpdateTier_quiet: "quiet d (snd (UpdateTier flt now h d))"
  by (auto simp: UpdateTier_def intro!: quiet_update_block split: option.splits)

lemma Pg_MarkBlockVerified_quiet: "quiet d (snd (Pg_MarkBlockVerified E h d))"
  by (auto simp: Pg_MarkBlockVerified_def intro!: quiet_update_block split: option.splits)

lemma Pg_ExpireStaleSessions_quiet: "quiet d (snd (Pg_ExpireStaleSessions E d))"
  by (auto simp: Pg_ExpireStaleSessions_def expire_stale_upload_sessions_def intro!: quietI split: option.splits)

lemma Pg_CreateFileNode_quiet: "quiet d (snd (Pg_CreateFileNode E t p name d))"
  using Pg_CreateFileNode_frame [of E t p name d "fst (Pg_CreateFileNode E t p name d)" "snd (Pg_CreateFileNode E t p name d)"]
  by (simp add: quiet_same_content)

lemma Pg_CommitFile_quiet: "fst (sys_exec U (E, CommitFile t sid sha blocks) d) = None \<Longrightarrow> quiet d (snd (Pg_CommitFile U E t sid sha blocks d))"
  using Pg_CommitFile_Inl [of U E t sid sha blocks d] by (auto split: prod.splits sum.splits)

lemmas events_quiet = UpdateTier_quiet Pg_MarkBlockVerified_quiet Pg_ExpireStaleSessions_quiet Pg_CreateFileNode_quiet
  Pg_CreateUploadSession_quiet EnsureBlock_quiet DeleteBlocks_quiet

lemma sys_exec_quiet:
  assumes "fst (sys_exec U (E, st) d) = None"
  shows "quiet d (snd (sys_exec U (E, st) d))"
proof (cases st)
  case (CommitFile t sid sha blocks)
  with assms Pg_CommitFile_quiet [of U E t sid sha blocks d] show ?thesis
    by (simp split: prod.splits sum.splits)
next
  case (MarkSessionExpired' sid)
  then show ?thesis
    by (simp add: quietI)
qed (simp_all add: events_quiet)

lemma sys_exec_ack:
  assumes "fst (sys_exec U (E, st) d) = Some a"
  obtains t sid where "Pg_CommitFile U E t sid (ak_sha a) (ak_blocks a) d = (Inr (ak_version a, ak_number a), snd (sys_exec U (E, st) d))"
  using assms by (cases st) (auto split: prod.splits sum.splits)

interpretation sys: refinement "sys_exec U" sys_ok abs_files publish acknowledges
proof
  fix d and e :: sys_event
  obtain E st where e: "e = (E, st)" by fastforce
  show "sys_ok (snd (sys_exec U e d))" if "sys_ok d"
  proof (cases "fst (sys_exec U e d)")
    case None
    then show ?thesis
      using quietD [OF sys_exec_quiet that] e by simp
  next
    case (Some a)
    then show ?thesis
      unfolding e by (rule sys_exec_ack) (use commit_publishes [OF _ that] in blast)
  qed
  show "abs_files (snd (sys_exec U e d)) = abs_files d" if "sys_ok d" "fst (sys_exec U e d) = None"
    using quietD [OF sys_exec_quiet that(1)] that(2) e by simp
  show "\<exists>l. publish (abs_files d) l (abs_files (snd (sys_exec U e d))) \<and> acknowledges a l"
    if ok: "sys_ok d" and ack: "fst (sys_exec U e d) = Some a" for a
    using ack unfolding e by (rule sys_exec_ack) (use commit_publishes [OF _ ok] in fastforce)
qed


section \<open>The handlers and jobs are runs\<close>

definition reach :: "uuid_pkg \<Rightarrow> db \<Rightarrow> db \<Rightarrow> bool" where
  "reach U d d' \<longleftrightarrow> (\<exists>es. snd (sys_run U es d) = d')"

lemma run_events_append:
  "run_events step (es @ fs) s =
     (case run_events step es s of (xs, s') \<Rightarrow> (case run_events step fs s' of (ys, s'') \<Rightarrow> (xs @ ys, s'')))"
  by (induction es arbitrary: s) (auto split: prod.splits option.splits)

lemma reach_refl [simp]: "reach U d d"
  unfolding reach_def by (rule exI [of _ "[]"]) simp

lemma reach_trans: "reach U d d1 \<Longrightarrow> reach U d1 d2 \<Longrightarrow> reach U d d2"
  unfolding reach_def by (metis (no_types, lifting) run_events_append snd_conv split_beta)

lemma reach_event: "reach U d (snd (sys_exec U e d))"
  unfolding reach_def by (rule exI [of _ "[e]"]) (simp add: split_beta)

lemma reach_ok: "reach U d d' \<Longrightarrow> sys_ok d \<Longrightarrow> sys_ok d'"
  using sys.run_inv by (auto simp: reach_def)

text \<open>Events without an acknowledgement.\<close>

definition silent_run :: "uuid_pkg \<Rightarrow> db \<Rightarrow> db \<Rightarrow> bool" where
  "silent_run U d d' \<longleftrightarrow> (\<exists>es. sys_run U es d = ([], d'))"

lemma silent_refl [simp]: "silent_run U d d"
  unfolding silent_run_def by (rule exI [of _ "[]"]) simp

lemma silent_trans: "silent_run U d d1 \<Longrightarrow> silent_run U d1 d2 \<Longrightarrow> silent_run U d d2"
  unfolding silent_run_def by (metis (no_types, lifting) append_Nil case_prod_conv run_events_append)

lemma silent_event: "sys_exec U e d = (None, d') \<Longrightarrow> silent_run U d d'"
  unfolding silent_run_def by (rule exI [of _ "[e]"]) simp

lemma silent_events [simp]:
  "silent_run U d (snd (Pg_CreateFileNode E t p name d))"
  "silent_run U d (snd (Pg_CreateUploadSession E t n sz chunks ip ua d))"
  "silent_run U d (snd (Pg_MarkBlockVerified E h d))"
  "silent_run U d (snd (Pg_ExpireStaleSessions E d))"
  "silent_run U d (snd (DeleteBlocks flt hs d))"
  "silent_run U d (snd (delete_unreferenced hs d))"
proof -
  show "silent_run U d (snd (DeleteBlocks flt hs d))" for flt
    by (rule silent_event [where e = "(undefined, DeleteBlocks' flt hs)"]) simp
  from this [of None] show "silent_run U d (snd (delete_unreferenced hs d))"
    by (cases hs) (auto simp: DeleteBlocks_def delete_unreferenced_def split_beta)
qed (rule silent_event [where e = "(E, CreateFileNode t p name)"] silent_event [where e = "(E, CreateUploadSession t n sz chunks ip ua)"]
    silent_event [where e = "(E, MarkBlockVerified h)"] silent_event [where e = "(E, ExpireStaleSessions)"], simp)+

lemma silent_reach: "silent_run U d d' \<Longrightarrow> reach U d d'"
  unfolding silent_run_def reach_def by (metis snd_conv)

lemma silent_CreateFileNode: "Pg_CreateFileNode E t p name d = (r, d') \<Longrightarrow> silent_run U d d'"
  using silent_events(1) [of U d E t p name] by simp

lemma silent_CreateUploadSession: "Pg_CreateUploadSession E t n sz chunks ip ua d = (r, d') \<Longrightarrow> silent_run U d d'"
  using silent_events(2) [of U d E t n sz chunks ip ua] by simp

lemma resolve_node_run: "resolve_node U (PgStore U E) t req d = (r, d') \<Longrightarrow> silent_run U d d'"
  by (auto simp: resolve_node_def PgStore_def split: option.splits dest: silent_CreateFileNode)

lemma handleInitiate_run:
  assumes "handleInitiate U s body ff ra ua d = (r, d')" and "srv_store s = PgStore U E"
  shows "silent_run U d d'"
proof -
  have st: "s_CreateUploadSession (srv_store s) = Pg_CreateUploadSession E"
    by (simp add: assms(2) PgStore_def)
  show ?thesis
    using assms(1) unfolding handleInitiate_def Let_def st
    by (auto simp: assms(2) split: option.splits sum.splits if_splits prod.splits
        dest!: resolve_node_run silent_CreateUploadSession intro: silent_trans)
qed

lemma verify_loop_run: "silent_run U d (verify_loop b (PgStore U E) bs d)"
proof (induction bs arbitrary: d)
  case (Cons x xs)
  have "silent_run U d (verify_loop b (PgStore U E) xs (snd (Pg_MarkBlockVerified E h d)))" for h
    using silent_events(3) Cons.IH by (rule silent_trans)
  moreover have "s_MarkBlockVerified (PgStore U E) = Pg_MarkBlockVerified E"
    by (simp add: PgStore_def)
  ultimately show ?case
    using Cons.IH by (simp split: option.splits)
qed simp

text \<open>A commit's acknowledgement is the response of the handler.\<close>

lemma handleCommit_run:
  assumes "handleCommit U s now ev (Some req) d = ((Inr resp, events), d')" and "srv_store s = PgStore U E"
  obtains a :: ack and d1 t sid where "Pg_CommitFile U E t sid (ak_sha a) (ak_blocks a) d = (Inr (ak_version a, ak_number a), d1)"
    and "ak_version a = cp_VersionID resp" and "ak_number a = cp_VersionNumber resp" and "ak_blocks a = cr_Blocks req"
    and "DecodeString (cr_ContentSHA256 req) = Some (ak_sha a)" and "silent_run U d1 d'"
proof -
  obtain sid sha tenant vid n d1 where
    sha: "DecodeString (cr_ContentSHA256 req) = Some sha"
    and commit: "s_CommitFile (srv_store s) tenant sid sha (cr_Blocks req) d = (Inr (vid, n), d1)"
    and resp: "resp = \<lparr>cp_VersionID = vid, cp_VersionNumber = n\<rparr>"
    and d': "d' = (case srv_blob s of None \<Rightarrow> snd (s_BumpCacheGeneration (srv_store s) tenant d1)
               | Some b \<Rightarrow> verify_loop b (srv_store s) (cr_Blocks req) (snd (s_BumpCacheGeneration (srv_store s) tenant d1)))"
    using assms(1) by (rule handleCommit_Inr) (simp only: option.inject)
  have bump: "snd (s_BumpCacheGeneration (PgStore U E) tenant d1) = d1"
    by (simp add: PgStore_def)
  have "silent_run U d1 d'"
    unfolding d' assms(2) bump using verify_loop_run by (simp split: option.splits)
  moreover have "Pg_CommitFile U E tenant sid sha (cr_Blocks req) d = (Inr (vid, n), d1)"
    using commit by (simp add: assms(2) PgStore_def)
  ultimately show ?thesis
    using sha resp by (intro that [of tenant sid "\<lparr>ak_sha = sha, ak_blocks = cr_Blocks req, ak_version = vid, ak_number = n\<rparr>" d1]) simp_all
qed

lemma worker_sweep_run:
  assumes "\<And>d. reach U d (mid d)"
  shows "reach U d (fst (worker_sweep (\<lambda>n d. FindOrphans flt now n d) (DeleteBlocks flt') bd n mid d blobs))"
proof -
  have "reach U d (snd (DeleteBlocks flt' hs (mid d)))" for hs
    using assms silent_reach [OF silent_events(5)] by (rule reach_trans)
  then show ?thesis
    by (auto simp: worker_sweep_def Let_def split: sum.splits)
qed

text \<open>The collector: its partners leave the tables alone, and between its calls the others run.\<close>

definition run_world :: "uuid_pkg \<Rightarrow> 'x gc_world \<Rightarrow> bool" where
  "run_world U w \<longleftrightarrow> (\<forall>t \<in> set (gw_script w). \<forall>d. reach U d (tu_others t d))"

definition world_runs :: "uuid_pkg \<Rightarrow> 'x gc_world \<Rightarrow> 'x gc_world \<Rightarrow> bool" where
  "world_runs U w w' \<longleftrightarrow> (run_world U w \<longrightarrow> run_world U w' \<and> reach U (gw_tables w) (gw_tables w'))"

lemma world_runs_turn: "world_runs U w (take_turn w)"
  by (auto simp: world_runs_def run_world_def take_turn_def split: list.splits)

lemma world_runs_trans: "world_runs U u v \<Longrightarrow> world_runs U v w \<Longrightarrow> world_runs U u w"
  unfolding world_runs_def using reach_trans by blast

lemma world_runs_update [simp]:
  "world_runs U w (w'\<lparr>gw_client := c\<rparr>) = world_runs U w w'" "world_runs U w (w'\<lparr>gw_deleted := n\<rparr>) = world_runs U w w'"
  "world_runs U w (w'\<lparr>gw_ext := e\<rparr>) = world_runs U w w'"
  by (simp_all add: world_runs_def run_world_def)

lemma world_runs_refl [simp]: "world_runs U w w"
  by (simp add: world_runs_def)

lemma gc_query_runs: "world_runs U w (snd (gc_query cls q w))"
  using gc_query_world [of cls q w] world_runs_turn by (metis world_runs_update(1))

lemma gc_exec_runs:
  assumes "\<And>d. silent_run U d (snd (x d))"
  shows "world_runs U w (snd (gc_exec cls x w))"
proof (cases rule: gc_exec_cases [of cls x w])
  case (failed e c)
  then show ?thesis
    by (simp add: world_runs_turn)
next
  case (ran c)
  have "world_runs U (take_turn w) ((take_turn w)\<lparr>gw_tables := snd (x (gw_tables (take_turn w)))\<rparr>)"
    using silent_reach [OF assms] by (simp add: world_runs_def run_world_def)
  from world_runs_trans [OF world_runs_turn this] show ?thesis
    using ran by (simp add: world_runs_def run_world_def)
qed


lemma Ad_HardDelete_runs: "world_runs U w (snd (Ad_HardDeleteBlocks cls P hs w))"
proof (cases "bind_hashes P hs")
  case (Some bs)
  have "world_runs U w (snd (gc_exec cls (delete_unreferenced bs) w))"
    by (rule gc_exec_runs) simp
  then show ?thesis
    using Some by (auto simp: Ad_HardDeleteBlocks_def split: prod.splits sum.splits)
qed (simp add: Ad_HardDeleteBlocks_def)

lemma Ad_MarkSessionExpired_runs: "world_runs U w (snd (Ad_MarkSessionExpired cls P i w))"
proof (cases "px_bind_uuid P i")
  case (Some sid)
  have "silent_run U d (d\<lparr>session_rows := update_where (\<lambda>s. us_id s = sid) (\<lambda>s. s\<lparr>us_status := ''EXPIRED''\<rparr>) (session_rows d)\<rparr>)" for d
    by (rule silent_event [where e = "(undefined, MarkSessionExpired' sid)"]) simp
  then have "world_runs U w (snd (gc_exec cls (\<lambda>d. (length (filter (\<lambda>s. us_id s = sid) (session_rows d)),
       d\<lparr>session_rows := update_where (\<lambda>s. us_id s = sid) (\<lambda>s. s\<lparr>us_status := ''EXPIRED''\<rparr>) (session_rows d)\<rparr>)) w))"
    by (intro gc_exec_runs) simp
  then show ?thesis
    using Some by (simp add: Ad_MarkSessionExpired_def split_beta)
qed (simp add: Ad_MarkSessionExpired_def)

definition sys_world :: "uuid_pkg \<Rightarrow> 'x gc_world \<Rightarrow> bool" where
  "sys_world U w \<longleftrightarrow> run_world U w \<and> sys_ok (gw_tables w)"

lemma sys_world_runs: "world_runs U w w' \<Longrightarrow> sys_world U w \<Longrightarrow> sys_world U w'"
  unfolding sys_world_def world_runs_def using reach_ok by blast

interpretation collector: gc_backend "adapter_store cls P" "world_runs U" "sys_world U" gw_deleted
proof unfold_locales
  fix u v w :: "'x gc_world"
  show "world_runs U u v \<Longrightarrow> world_runs U v w \<Longrightarrow> world_runs U u w" by (rule world_runs_trans)
  show "world_runs U u v \<Longrightarrow> sys_world U u \<Longrightarrow> sys_world U v" by (rule sys_world_runs)
  show "world_runs U w (snd (MarkSessionExpired (adapter_store cls P) i w))" for i
    by (simp add: adapter_store_def Ad_MarkSessionExpired_runs)
next
  fix w h e w'
  assume "HardDeleteBlocks (adapter_store cls P) [h] w = (Inl e, w')"
  then show "gw_deleted w' = gw_deleted w"
    using Ad_HardDelete_gone [of cls P h w "Inl e" w'] by (simp add: adapter_store_def)
next
  fix w h n w'
  assume w: "sys_world U w" and "HardDeleteBlocks (adapter_store cls P) [h] w = (Inr n, w')"
  moreover have "distinct (map cb_hash (cas_rows (gw_tables (take_turn w))))"
    using sys_world_runs [OF world_runs_turn w] by (simp add: sys_world_def sys_ok_def refs_cover_def)
  ultimately show "gw_deleted w' = gw_deleted w + n \<and> 0 \<le> n \<and> n \<le> 1"
    using Ad_HardDelete_gone [of cls P h w "Inr n" w'] by (simp add: adapter_store_def)
qed (auto simp: adapter_store_def Ad_FindOrphanedBlocks_def Ad_DoubleCheckBlock_def Ad_GetExpiredSessions_def
    Ad_HardDelete_runs gc_query_runs split: option.splits)

lemma partner_runs [simp]:
  "collector.partner U (ext_call f)" "collector.partner U (gcPublisherAdapter bus topic e)" "collector.partner U (blobDeleterAdapter del h)"
  by (auto simp: collector.partner_def gcPublisherAdapter_def blobDeleterAdapter_def ext_call_def split: prod.splits)

lemma collector_built:
  assumes "gc_store gc = adapter_store cls P" and "gc_publisher gc = gcPublisherAdapter bus"
    and "gc_blob gc = map_option blobDeleterAdapter del"
  shows "collector.built cls P U gc"
  using assms by (auto simp: collector.built_def)

lemma collector_runs:
  assumes "run_world U w" and "gc_store gc = adapter_store cls P" and "gc_publisher gc = gcPublisherAdapter bus"
    and "gc_blob gc = map_option blobDeleterAdapter del"
  shows "reach U (gw_tables w) (gw_tables (snd (cleanupExpiredSessions gc w)))"
    and "reach U (gw_tables w) (gw_tables (snd (sweepOrphanedBlocks gc w)))"
proof -
  have built: "collector.built cls P U gc"
    using assms(2-4) by (rule collector_built)
  show "reach U (gw_tables w) (gw_tables (snd (cleanupExpiredSessions gc w)))"
    using collector.cleanup_Q [OF built, of w] assms(1) by (simp add: world_runs_def)
  have "collector.counted U (reset_rate gc w) w (fst (sweepOrphanedBlocks gc w)) (snd (sweepOrphanedBlocks gc w))"
    by (rule collector.sweep_counted [OF built]) simp
  then show "reach U (gw_tables w) (gw_tables (snd (sweepOrphanedBlocks gc w)))"
    using assms(1) by (simp add: collector.counted_def world_runs_def)
qed


section \<open>Properties\<close>

lemma histories_stored:
  assumes "sys_ok d" and "v \<in> set (abs_files d n)" and "(i, h, off, sz) \<in> set (ver_blocks v)"
  shows "h \<in> cb_hash ` set (cas_rows d)"
proof -
  from assms(2) obtain row where v: "v = abs_version d row"
    by (auto simp: abs_files_def)
  from assms(3) have "\<exists>m \<in> set (manifest_rows d). mf_hash m = h"
    by (auto simp: v abs_version_def version_blocks_def)
  then show ?thesis
    using assms(1) by (auto simp: sys_ok_def refs_cover_def)
qed

text \<open>C3. The service is a store of immutable, ever-growing version histories. Whatever sequence of transactions and
  statements its handlers, reaper, registry, sweep worker and collector send, with whatever faults, the tables behave as
  the specification: each acknowledged commit publishes one version, the next of its node, with the hash and the blocks of the
  request, in the order of the acknowledgements; nothing else is observable. Histories only grow at the end, and every
  block of every version ever published keeps its row.\<close>

theorem system_refines_history:
  assumes "sys_run U es d = (acks, d')" and "sys_ok d"
  shows "(\<exists>ls. spec_run publish (abs_files d) ls (abs_files d') \<and> list_all2 acknowledges acks ls) \<and> sys_ok d' \<and>
    (\<forall>n. prefix (abs_files d n) (abs_files d' n)) \<and>
    (\<forall>n v i h off sz. v \<in> set (abs_files d' n) \<and> (i, h, off, sz) \<in> set (ver_blocks v) \<longrightarrow> h \<in> cb_hash ` set (cas_rows d'))"
proof -
  have d': "d' = snd (sys_run U es d)" and acks: "acks = fst (sys_run U es d)"
    using assms(1) by simp_all
  from sys.run_refines [OF assms(2), of U es] obtain ls where
    ls: "spec_run publish (abs_files d) ls (abs_files d')" "list_all2 acknowledges acks ls"
    unfolding d' acks by blast
  have "sys_ok d'"
    unfolding d' by (rule sys.run_inv) (rule assms(2))
  then show ?thesis
    using ls spec_histories_grow [OF ls(1)] histories_stored by blast
qed

lemma ack_nth:
  assumes "publish H l H'" and "prefix (H' (fst l)) (H'' (fst l))" and "acknowledges a l"
  shows "nat (ak_number a) - 1 < length (H'' (fst l)) \<and> H'' (fst l) ! (nat (ak_number a) - 1) = snd l \<and> 1 \<le> ak_number a"
proof -
  from assms(1) obtain n v where l: "l = (n, v)" and H': "H' = H(n := H n @ [v])" and num: "ver_number v = int (length (H n)) + 1"
    by (auto elim: publishE)
  obtain rest where "H'' n = H n @ v # rest"
    using assms(2) by (auto simp: l H' prefix_def)
  then show ?thesis
    using assms(3) num by (auto simp: l acknowledges_def nth_append)
qed

text \<open>C4. An acknowledged upload is durable: after the commit handler has answered with a version, and whatever the system
  does from then on, the history of some node has under exactly that number a version with the content hash and the
  blocks of the request, and each of these blocks still has its row.\<close>

theorem acknowledged_commit_durable:
  assumes "handleCommit U s now ev (Some req) d = ((Inr resp, events), d1)" and "srv_store s = PgStore U E" and "sys_ok d"
    and "sys_run U es d1 = (acks, d')"
  shows "\<exists>node v. nat (cp_VersionNumber resp) - 1 < length (abs_files d' node) \<and> 1 \<le> cp_VersionNumber resp \<and>
    abs_files d' node ! (nat (cp_VersionNumber resp) - 1) = v \<and> ver_number v = cp_VersionNumber resp \<and>
    DecodeString (cr_ContentSHA256 req) = Some (ver_sha v) \<and>
    map (\<lambda>(i, h, off, sz). (i, Some h, off, sz)) (ver_blocks v) =
      map (\<lambda>b. (bm_ChunkIndex b, DecodeString (bm_BlockHash b), bm_Offset b, bm_SizeBytes b)) (cr_Blocks req) \<and>
    (\<forall>(i, h, off, sz) \<in> set (ver_blocks v). h \<in> cb_hash ` set (cas_rows d'))"
proof (rule handleCommit_run [OF assms(1,2)])
  fix a :: ack and d0 t sid
  assume commit: "Pg_CommitFile U E t sid (ak_sha a) (ak_blocks a) d = (Inr (ak_version a, ak_number a), d0)"
    and ids: "ak_version a = cp_VersionID resp" "ak_number a = cp_VersionNumber resp" "ak_blocks a = cr_Blocks req"
    and sha: "DecodeString (cr_ContentSHA256 req) = Some (ak_sha a)" and rest: "silent_run U d0 d1"
  from commit_publishes [OF commit assms(3)] obtain l where
    ok: "sys_ok d0" and l: "publish (abs_files d) l (abs_files d0)" "acknowledges a l"
    by blast
  have "reach U d0 d'"
    using silent_reach [OF rest] assms(4) by (metis reach_def reach_trans snd_conv)
  then obtain fs where fs: "snd (sys_run U fs d0) = d'"
    by (auto simp: reach_def)
  from sys.run_refines [OF ok, of U fs] have "prefix (abs_files d0 (fst l)) (abs_files d' (fst l))"
    unfolding fs using spec_histories_grow by blast
  from ack_nth [where H'' = "abs_files d'", OF l(1) this l(2)] have
    nth: "nat (cp_VersionNumber resp) - 1 < length (abs_files d' (fst l))" "1 \<le> cp_VersionNumber resp"
      "abs_files d' (fst l) ! (nat (cp_VersionNumber resp) - 1) = snd l"
    by (simp_all add: ids)
  have "sys_ok d'"
    using sys.run_inv [OF ok, of U fs] fs by simp
  moreover have "snd l \<in> set (abs_files d' (fst l))"
    using nth by (metis nth_mem)
  ultimately have "\<forall>(i, h, off, sz) \<in> set (ver_blocks (snd l)). h \<in> cb_hash ` set (cas_rows d')"
    using histories_stored by fast
  then show ?thesis
    using nth l(2) sha ids by (intro exI [of _ "fst l"] exI [of _ "snd l"]) (simp add: acknowledges_def)
qed



section \<open>Witnesses\<close>

lemma demo_sys_ok: "sys_ok demo_tables"
  using demo_tables_ok refs_ok_cover by (simp add: sys_ok_def demo_tables_def)

lemma demo_delete_refused: "DeleteBlocks None [replicate 32 5] demo_after = (Inr 0, demo_after)"
  by (simp add: DeleteBlocks_def delete_unreferenced_def demo_after_def)

definition demo_ack :: ack where
  "demo_ack = \<lparr>ak_sha = replicate 32 6, ak_blocks = [demo_block], ak_version = EncodeToString [77], ak_number = 1\<rparr>"

lemma demo_sys_run:
  "sys_run demo_U [(demo_env, CommitFile [1] [3] (replicate 32 6) [demo_block]), (demo_env, DeleteBlocks' None [replicate 32 5])]
     demo_tables = ([demo_ack], demo_after)"
  by (simp add: demo_commit_result demo_delete_refused demo_ack_def del: EncodeToString.simps)

theorem system_refines_history_witness:
  "\<exists>ls. spec_run publish (abs_files demo_tables) ls (abs_files demo_after) \<and> list_all2 acknowledges [demo_ack] ls"
  using system_refines_history [OF demo_sys_run demo_sys_ok] by blast

theorem acknowledged_commit_durable_witness:
  "\<exists>node. 0 < length (abs_files demo_after node) \<and> ver_number (abs_files demo_after node ! 0) = 1"
proof -
  obtain ev where pg: "handleCommit demo_U (demo_server (PgStore demo_U demo_env)) 0 ''e'' (Some demo_request) demo_tables =
     ((Inr \<lparr>cp_VersionID = EncodeToString [77], cp_VersionNumber = 1\<rparr>, [ev]), demo_after)"
    using demo_handleCommit by blast
  have "sys_run demo_U [(demo_env, DeleteBlocks' None [replicate 32 5])] demo_after = ([], demo_after)"
    by (simp add: demo_delete_refused)
  from acknowledged_commit_durable [OF pg demo_server_simps(1) demo_sys_ok this] show ?thesis
    by auto
qed


end
