(* ===== verification/Telemetry.thy ===== *)
theory Telemetry
  imports System Server "HOL-Library.Log_Nat"
begin

text \<open>
  Metrics, tracing and logging: the collectors that the process registers (internal/database/metrics.go, internal/ingress/metrics.go,
  internal/cas/metrics.go, internal/telemetry/metrics.go), the refresh of the storage gauges (internal/cas/metrics.go and its ticker in
  cmd/ingest/main.go), the counters of the collection pipeline, the operation log of the database client, and the tracing
  middleware and log handler (internal/telemetry). Prometheus and OpenTelemetry are arguments; \<open>registers\<close> is what the
  documentation of a registry promises: a call of \<^verbatim>\<open>MustRegister\<close> panics (\<open>None\<close>) exactly when a fully qualified name
  is already taken or given twice.
\<close>

section \<open>Collectors\<close>

text \<open>What decides about a registration is the name; help texts and the buckets of histograms are left out.\<close>

record Opts =
  op_Namespace :: string
  op_Subsystem :: string
  op_Name :: string

abbreviation named :: "string \<Rightarrow> string \<Rightarrow> string \<Rightarrow> Opts" where
  "named ns sub name \<equiv> \<lparr>op_Namespace = ns, op_Subsystem = sub, op_Name = name\<rparr>"

definition db_collectors :: "Opts list" where
  "db_collectors = map (named ''aegis'' ''db'')
     [''query_duration_seconds'', ''acquire_wait_seconds'', ''connections_acquired_total'', ''connections_released_total'',
      ''query_errors_total'', ''slow_queries_total'']"

definition ingest_collectors :: "Opts list" where
  "ingest_collectors = map (named '''' '''')
     [''aegis_ingest_initiate_total'', ''aegis_ingest_commit_total'', ''aegis_ingest_initiate_duration_seconds'',
      ''aegis_ingest_commit_duration_seconds'', ''aegis_ingest_cas_hits_total'', ''aegis_ingest_uploads_total'',
      ''aegis_ingest_quota_exceeded_total'']"

definition cas_collectors :: "Opts list" where
  "cas_collectors = map (named ''aegis'' ''cas'')
     [''total_blocks'', ''total_bytes'', ''orphan_blocks'', ''orphan_bytes'', ''hot_blocks'', ''warm_blocks'', ''cold_blocks'',
      ''unverified_blocks'', ''avg_ref_count'', ''max_ref_count'', ''dedup_ratio'', ''ref_count_distribution'', ''gc_sweeps_total'',
      ''gc_blocks_deleted_total'', ''gc_sweep_duration_seconds'', ''gc_sessions_expired_total'', ''gc_blocks_tombstoned_total'',
      ''gc_deletion_failed_total'', ''gc_rate_limit_hit_total'', ''gc_double_check_saved_total'']"

definition deep_collectors :: "Opts list" where
  "deep_collectors = map (named '''' '''')
     [''aegis_dedup_bytes_saved_total'', ''aegis_s3_io_latency_seconds'', ''aegis_kafka_consumer_lag'', ''aegis_db_pool_wait_duration_seconds'']"

text \<open>The factory of \<^verbatim>\<open>promauto\<close> registers each collector as it is built, and none without a registry.\<close>

fun promauto :: "(Opts list \<Rightarrow> 'r \<Rightarrow> 'r option) \<Rightarrow> Opts list \<Rightarrow> 'r option \<Rightarrow> 'r option option" where
  "promauto MustRegister cs None = Some None"
| "promauto MustRegister [] (Some r) = Some (Some r)"
| "promauto MustRegister (c # cs) (Some r) =
     (case MustRegister [c] r of None \<Rightarrow> None | Some r' \<Rightarrow> promauto MustRegister cs (Some r'))"

definition NewIngestMetrics :: "(Opts list \<Rightarrow> 'r \<Rightarrow> 'r option) \<Rightarrow> 'r option \<Rightarrow> 'r option option" where
  "NewIngestMetrics MustRegister reg = promauto MustRegister ingest_collectors reg"

definition NewDeepMetrics :: "(Opts list \<Rightarrow> 'r \<Rightarrow> 'r option) \<Rightarrow> 'r option \<Rightarrow> 'r option option" where
  "NewDeepMetrics MustRegister reg = promauto MustRegister deep_collectors reg"

definition newMetrics :: "(Opts list \<Rightarrow> 'r \<Rightarrow> 'r option) \<Rightarrow> 'r option \<Rightarrow> 'r option option" where
  "newMetrics MustRegister reg =
     (case reg of None \<Rightarrow> Some None | Some r \<Rightarrow> map_option Some (MustRegister db_collectors r))"

text \<open>Calling a method of a nil registry panics.\<close>

definition NewCASMetrics :: "(Opts list \<Rightarrow> 'r \<Rightarrow> 'r option) \<Rightarrow> 'r option \<Rightarrow> 'r option option" where
  "NewCASMetrics MustRegister reg =
     (case reg of None \<Rightarrow> None | Some r \<Rightarrow> map_option Some (MustRegister cas_collectors r))"

text \<open>The process-wide collectors of the database clients: whether they were built, and the default registry.\<close>

definition defaultMetrics :: "(Opts list \<Rightarrow> 'r \<Rightarrow> 'r option) \<Rightarrow> bool \<times> 'r \<Rightarrow> (bool \<times> 'r) option" where
  "defaultMetrics MustRegister s =
     (if fst s then Some s
      else case newMetrics MustRegister (Some (snd s)) of Some (Some r) \<Rightarrow> Some (True, r) | _ \<Rightarrow> None)"

text \<open>The registrations of the ingestion server, in the order of \<^verbatim>\<open>main\<close>.\<close>

definition main_metrics :: "(Opts list \<Rightarrow> 'r \<Rightarrow> 'r option) \<Rightarrow> bool \<times> 'r \<Rightarrow> (bool \<times> 'r) option" where
  "main_metrics MustRegister s =
     (case defaultMetrics MustRegister s of
        None \<Rightarrow> None
      | Some (once, r) \<Rightarrow>
          (case NewIngestMetrics MustRegister (Some r) of
             Some (Some r1) \<Rightarrow> (case NewCASMetrics MustRegister (Some r1) of Some (Some r2) \<Rightarrow> Some (once, r2) | _ \<Rightarrow> None)
           | _ \<Rightarrow> None))"

section \<open>Gauges and counters of the storage\<close>

text \<open>\<^verbatim>\<open>float64\<close> of an integer: the nearest number with a significand of 53 bits, ties to the even one.\<close>

definition float64 :: "int \<Rightarrow> int" where
  "float64 x =
     (if \<bar>x\<bar> < 2 ^ 53 then x
      else
        let u = 2 ^ (nat (bitlen \<bar>x\<bar>) - 53);
            q = x div u;
            r = x mod u
        in u * (if 2 * r < u \<or> 2 * r = u \<and> even q then q else q + 1))"

text \<open>Collectors start at zero. A histogram keeps what it observed.\<close>

record CASMetrics =
  cm_TotalBlocks :: rat
  cm_TotalBytes :: rat
  cm_OrphanBlocks :: rat
  cm_OrphanBytes :: rat
  cm_HotBlocks :: rat
  cm_WarmBlocks :: rat
  cm_ColdBlocks :: rat
  cm_UnverifiedBlocks :: rat
  cm_AvgRefCount :: rat
  cm_MaxRefCount :: rat
  cm_DeduplicationRatio :: rat
  cm_RefCountDistribution :: "rat list"
  cm_GCSweepsTotal :: nat
  cm_GCLastSweepDuration :: "rat list"
  cm_GCSessionsExpired :: nat
  cm_GCBlocksTombstoned :: nat
  cm_GCBlocksDeleted :: nat
  cm_GCDeletionFailed :: nat
  cm_GCRateLimitHit :: nat
  cm_GCDoubleCheckSaved :: nat

definition zero_CASMetrics :: CASMetrics where
  "zero_CASMetrics =
     \<lparr>cm_TotalBlocks = 0, cm_TotalBytes = 0, cm_OrphanBlocks = 0, cm_OrphanBytes = 0, cm_HotBlocks = 0, cm_WarmBlocks = 0, cm_ColdBlocks = 0,
      cm_UnverifiedBlocks = 0, cm_AvgRefCount = 0, cm_MaxRefCount = 0, cm_DeduplicationRatio = 0, cm_RefCountDistribution = [],
      cm_GCSweepsTotal = 0, cm_GCLastSweepDuration = [], cm_GCSessionsExpired = 0, cm_GCBlocksTombstoned = 0, cm_GCBlocksDeleted = 0, cm_GCDeletionFailed = 0, cm_GCRateLimitHit = 0,
      cm_GCDoubleCheckSaved = 0\<rparr>"

text \<open>\<open>fdiv\<close> is the division of floating-point numbers.\<close>

definition RefreshFromStats :: "(rat \<Rightarrow> rat \<Rightarrow> rat) \<Rightarrow> StorageStats option \<Rightarrow> int \<Rightarrow> CASMetrics option \<Rightarrow> CASMetrics option" where
  "RefreshFromStats fdiv stats totalContentBytes m =
     (case (stats, m) of
        (Some st, Some m) \<Rightarrow>
          let f = (\<lambda>x. of_int (float64 x));
              m1 = m\<lparr>cm_TotalBlocks := f (TotalBlocks st), cm_TotalBytes := f (TotalBytes st), cm_OrphanBlocks := f (OrphanBlocks st),
                     cm_OrphanBytes := f (OrphanBytes st), cm_HotBlocks := f (HotBlocks st), cm_WarmBlocks := f (WarmBlocks st),
                     cm_ColdBlocks := f (ColdBlocks st), cm_UnverifiedBlocks := f (UnverifiedBlocks st), cm_AvgRefCount := AvgRefCount st,
                     cm_MaxRefCount := f (MaxRefCount st)\<rparr>
          in Some (if TotalBytes st > 0 \<and> totalContentBytes > 0
                   then m1\<lparr>cm_DeduplicationRatio := fdiv (f totalContentBytes) (f (TotalBytes st))\<rparr> else m1)
      | _ \<Rightarrow> m)"

definition ObserveRefCounts :: "int list \<Rightarrow> CASMetrics \<Rightarrow> CASMetrics" where
  "ObserveRefCounts refCounts m =
     fold (\<lambda>rc m. m\<lparr>cm_RefCountDistribution := cm_RefCountDistribution m @ [of_int (float64 rc)]\<rparr>) refCounts m"

definition IncSessionsExpired :: "CASMetrics \<Rightarrow> CASMetrics" where
  "IncSessionsExpired m = m\<lparr>cm_GCSessionsExpired := cm_GCSessionsExpired m + 1\<rparr>"

definition IncBlocksTombstoned :: "CASMetrics \<Rightarrow> CASMetrics" where
  "IncBlocksTombstoned m = m\<lparr>cm_GCBlocksTombstoned := cm_GCBlocksTombstoned m + 1\<rparr>"

definition IncBlocksDeleted :: "CASMetrics \<Rightarrow> CASMetrics" where
  "IncBlocksDeleted m = m\<lparr>cm_GCBlocksDeleted := cm_GCBlocksDeleted m + 1\<rparr>"

definition IncDeletionFailed :: "CASMetrics \<Rightarrow> CASMetrics" where
  "IncDeletionFailed m = m\<lparr>cm_GCDeletionFailed := cm_GCDeletionFailed m + 1\<rparr>"

definition IncRateLimitHit :: "CASMetrics \<Rightarrow> CASMetrics" where
  "IncRateLimitHit m = m\<lparr>cm_GCRateLimitHit := cm_GCRateLimitHit m + 1\<rparr>"

definition IncDoubleCheckSaved :: "CASMetrics \<Rightarrow> CASMetrics" where
  "IncDoubleCheckSaved m = m\<lparr>cm_GCDoubleCheckSaved := cm_GCDoubleCheckSaved m + 1\<rparr>"

text \<open>The callbacks of the collection pipeline.\<close>

record 'm GC_Metrics =
  gm_SessionsExpired :: "'m \<Rightarrow> 'm"
  gm_BlocksTombstoned :: "'m \<Rightarrow> 'm"
  gm_BlocksDeleted :: "'m \<Rightarrow> 'm"
  gm_DeletionFailed :: "'m \<Rightarrow> 'm"
  gm_RateLimitHit :: "'m \<Rightarrow> 'm"
  gm_DoubleCheckSaved :: "'m \<Rightarrow> 'm"

definition nopMetrics :: "'m GC_Metrics" where
  "nopMetrics = \<lparr>gm_SessionsExpired = id, gm_BlocksTombstoned = id, gm_BlocksDeleted = id, gm_DeletionFailed = id, gm_RateLimitHit = id,
     gm_DoubleCheckSaved = id\<rparr>"

definition main_gcMetrics :: "CASMetrics GC_Metrics" where
  "main_gcMetrics = \<lparr>gm_SessionsExpired = IncSessionsExpired, gm_BlocksTombstoned = IncBlocksTombstoned, gm_BlocksDeleted = IncBlocksDeleted,
     gm_DeletionFailed = IncDeletionFailed, gm_RateLimitHit = IncRateLimitHit, gm_DoubleCheckSaved = IncDoubleCheckSaved\<rparr>"

definition NewTombstoneConsumer ::
  "(string \<Rightarrow> 'w \<Rightarrow> gc_error option \<times> 'w) \<Rightarrow> (string \<Rightarrow> 'w \<Rightarrow> string option \<times> 'w) \<Rightarrow> 'w GC_Store \<Rightarrow> 'm GC_Metrics option \<Rightarrow> bool \<Rightarrow>
   'w TombstoneConsumer \<times> 'm GC_Metrics" where
  "NewTombstoneConsumer commitMessage blob store metrics dryRun =
     (\<lparr>tc_commit = commitMessage, tc_blob = blob, tc_store = store, tc_dryRun = dryRun\<rparr>,
      case metrics of None \<Rightarrow> nopMetrics | Some m \<Rightarrow> m)"

text \<open>What a pass of the sweep worker adds after it has deleted rows, given the seconds it took.\<close>

definition observe_sweep :: "nat \<Rightarrow> rat \<Rightarrow> CASMetrics option \<Rightarrow> CASMetrics option" where
  "observe_sweep deleted seconds m =
     map_option (\<lambda>m. m\<lparr>cm_GCSweepsTotal := cm_GCSweepsTotal m + 1, cm_GCBlocksDeleted := cm_GCBlocksDeleted m + deleted,
       cm_GCLastSweepDuration := cm_GCLastSweepDuration m @ [seconds]\<rparr>) m"

text \<open>One tick of the refresh in \<^verbatim>\<open>main\<close>: a failed query leaves the gauges as they are.\<close>

definition refresh_tick :: "(rat \<Rightarrow> rat \<Rightarrow> rat) \<Rightarrow> sql_error option \<times> db \<Rightarrow> CASMetrics \<Rightarrow> CASMetrics" where
  "refresh_tick fdiv tick m =
     (case GetStorageStats (fst tick) (snd tick) of
        Inl e \<Rightarrow> m
      | Inr stats \<Rightarrow> (case RefreshFromStats fdiv (Some stats) 0 (Some m) of None \<Rightarrow> m | Some m' \<Rightarrow> m'))"

section \<open>Logs and traces\<close>

text \<open>The operation record of the database client: level, message and attributes; \<open>errText\<close> prints the error.\<close>

definition logOperation ::
  "(db_error option \<Rightarrow> string) \<Rightarrow> string \<Rightarrow> string \<Rightarrow> string \<Rightarrow> duration \<Rightarrow> db_error option \<Rightarrow> log_level \<times> string \<times> (string \<times> attr_value) list" where
  "logOperation errText op operation tenantID since err =
     (if err \<noteq> None then LevelError else LevelInfo,
      if err \<noteq> None then ''db.operation.failed'' else ''db.operation'',
      [(''operation'', AStr operation), (''tenant_id'', AStr tenantID), (''duration_ms'', AInt (Milliseconds since)), (''pool'', AStr op),
       (''err'', AStr (errText err))])"

text \<open>The span context of a request, as OpenTelemetry reports it.\<close>

record span_context =
  sc_IsValid :: bool
  sc_TraceID :: string
  sc_SpanID :: string

definition GetTraceAndSpanIDs :: "span_context \<Rightarrow> string \<times> string" where
  "GetTraceAndSpanIDs sc = (if \<not> sc_IsValid sc then ('''', '''') else (sc_TraceID sc, sc_SpanID sc))"

text \<open>The interface \<^verbatim>\<open>slog.Handler\<close> of the handlers underneath.\<close>

record ('h, 'o) slog_pkg =
  sl_Handle :: "'h \<Rightarrow> span_context \<Rightarrow> (string \<times> attr_value) list \<Rightarrow> 'o"
  sl_WithAttrs :: "'h \<Rightarrow> (string \<times> attr_value) list \<Rightarrow> 'h"
  sl_WithGroup :: "'h \<Rightarrow> string \<Rightarrow> 'h"

datatype 'h slog_handler = Plain 'h | TraceLoggingHandler "'h slog_handler"

definition NewTraceLoggingHandler :: "'h slog_handler \<Rightarrow> 'h slog_handler" where
  "NewTraceLoggingHandler h = TraceLoggingHandler h"

fun Handle :: "('h, 'o) slog_pkg \<Rightarrow> 'h slog_handler \<Rightarrow> span_context \<Rightarrow> (string \<times> attr_value) list \<Rightarrow> 'o" where
  "Handle L (Plain h) ctx r = sl_Handle L h ctx r"
| "Handle L (TraceLoggingHandler h) ctx r =
     (case GetTraceAndSpanIDs ctx of (traceID, spanID) \<Rightarrow>
        Handle L h ctx (if traceID \<noteq> '''' then r @ [(''trace_id'', AStr traceID), (''span_id'', AStr spanID)] else r))"

text \<open>The wrapper embeds the interface and defines only \<^verbatim>\<open>Handle\<close>: the other methods are those of the handler inside.\<close>

fun WithAttrs :: "('h, 'o) slog_pkg \<Rightarrow> 'h slog_handler \<Rightarrow> (string \<times> attr_value) list \<Rightarrow> 'h slog_handler" where
  "WithAttrs L (Plain h) as = Plain (sl_WithAttrs L h as)"
| "WithAttrs L (TraceLoggingHandler h) as = WithAttrs L h as"

fun WithGroup :: "('h, 'o) slog_pkg \<Rightarrow> 'h slog_handler \<Rightarrow> string \<Rightarrow> 'h slog_handler" where
  "WithGroup L (Plain h) g = Plain (sl_WithGroup L h g)"
| "WithGroup L (TraceLoggingHandler h) g = WithGroup L h g"

text \<open>The global state of OpenTelemetry.\<close>

datatype propagator = TraceContext | Baggage

record 'p otel_global =
  og_provider :: "'p option"
  og_propagator :: "propagator list"

definition SetupTracing :: "'p \<Rightarrow> string \<Rightarrow> 'p otel_global \<Rightarrow> 'p otel_global" where
  "SetupTracing tp serviceName g = g\<lparr>og_provider := Some tp, og_propagator := [TraceContext, Baggage]\<rparr>"

text \<open>\<open>extract\<close> and \<open>start\<close> are the propagator and the tracer: the context of the headers, and a new span under it. The result is the
  response header and what the handler is called with.\<close>

definition HTTPTracingMiddleware ::
  "((string \<Rightarrow> string) \<Rightarrow> 'c \<Rightarrow> 'c) \<Rightarrow> ('c \<Rightarrow> string \<Rightarrow> 'c \<times> span_context) \<Rightarrow> ('c \<Rightarrow> request \<Rightarrow> 'o) \<Rightarrow> 'c \<Rightarrow> request \<Rightarrow>
   (string \<rightharpoonup> string) \<Rightarrow> (string \<rightharpoonup> string) \<times> 'o" where
  "HTTPTracingMiddleware extract start next ctx r hdr =
     (case start (extract (rq_Header r) ctx) (''HTTP '' @ rq_Method r @ '' '' @ rq_Path r) of (ctx', sp) \<Rightarrow>
        (hdr(''X-Trace-ID'' \<mapsto> sc_TraceID sp), next ctx' r))"

definition InjectTraceContext :: "('c \<Rightarrow> (string \<rightharpoonup> string) \<Rightarrow> (string \<rightharpoonup> string)) \<Rightarrow> 'c \<Rightarrow> (string \<rightharpoonup> string) \<Rightarrow> (string \<rightharpoonup> string)" where
  "InjectTraceContext inject ctx header = inject ctx header"

section \<open>Registration\<close>

text \<open>The documented registry: \<open>names\<close> are the names taken, \<open>fq\<close> the fully qualified name of a collector, its components joined by
  underscores, empty ones ignored.\<close>

definition joins :: "(Opts \<Rightarrow> string) \<Rightarrow> bool" where
  "joins fq \<longleftrightarrow> (\<forall>n. fq (named '''' '''' n) = n) \<and>
     (\<forall>ns sub n. ns \<noteq> '''' \<and> sub \<noteq> '''' \<longrightarrow> fq (named ns sub n) = ns @ ''_'' @ sub @ ''_'' @ n)"

definition registers :: "(Opts list \<Rightarrow> 'r \<Rightarrow> 'r option) \<Rightarrow> ('r \<Rightarrow> string set) \<Rightarrow> (Opts \<Rightarrow> string) \<Rightarrow> bool" where
  "registers MustRegister names fq \<longleftrightarrow>
     (\<forall>cs r. if distinct (map fq cs) \<and> names r \<inter> fq ` set cs = {}
             then \<exists>r'. MustRegister cs r = Some r' \<and> names r' = names r \<union> fq ` set cs
             else MustRegister cs r = None)"

lemma registersD:
  assumes "registers MR names fq" and "distinct (map fq cs)" and "names r \<inter> fq ` set cs = {}"
  obtains r' where "MR cs r = Some r'" and "names r' = names r \<union> fq ` set cs"
  using assms unfolding registers_def by metis

lemma registers_panics: "registers MR names fq \<Longrightarrow> names r \<inter> fq ` set cs \<noteq> {} \<Longrightarrow> MR cs r = None"
  unfolding registers_def by metis

lemma registers_again: "registers MR names fq \<Longrightarrow> cs \<noteq> [] \<Longrightarrow> fq ` set cs \<subseteq> names r \<Longrightarrow> MR cs r = None"
  using registers_panics [of MR names fq r cs] by (cases cs) auto

lemma promauto_registers:
  assumes "registers MR names fq" and "distinct (map fq cs)" and "names r \<inter> fq ` set cs = {}"
  shows "\<exists>r'. promauto MR cs (Some r) = Some (Some r') \<and> names r' = names r \<union> fq ` set cs"
  using assms(2,3)
proof (induction cs arbitrary: r)
  case (Cons c cs)
  obtain r1 where r1: "MR [c] r = Some r1" "names r1 = insert (fq c) (names r)"
    using registersD [OF assms(1), of "[c]" r] Cons.prems(2) by auto
  have "names r1 \<inter> fq ` set cs = {}"
    using Cons.prems by (auto simp: r1(2))
  with Cons.IH [of r1] Cons.prems(1) obtain r' where
    "promauto MR cs (Some r1) = Some (Some r')" "names r' = names r1 \<union> fq ` set cs"
    by auto
  then show ?case
    by (auto simp: r1)
qed simp

lemma promauto_panics: "registers MR names fq \<Longrightarrow> fq c \<in> names r \<Longrightarrow> promauto MR (c # cs) (Some r) = None"
  using registers_panics [of MR names fq r "[c]"] by simp

definition aegis_names :: "(Opts \<Rightarrow> string) \<Rightarrow> string list" where
  "aegis_names fq = map fq (db_collectors @ ingest_collectors @ cas_collectors)"

definition fq_name :: "Opts \<Rightarrow> string" where
  "fq_name c = (if op_Namespace c = '''' then op_Name c else op_Namespace c @ ''_'' @ op_Subsystem c @ ''_'' @ op_Name c)"

lemma joins_fq:
  assumes "joins fq" and "c \<in> set (db_collectors @ ingest_collectors @ cas_collectors @ deep_collectors)"
  shows "fq c = fq_name c"
  using assms by (auto simp: joins_def fq_name_def db_collectors_def ingest_collectors_def cas_collectors_def deep_collectors_def)

lemma collector_names_distinct:
  "distinct (map fq_name (db_collectors @ ingest_collectors @ cas_collectors @ deep_collectors))"
  by code_simp

lemma collector_names_prefixed:
  "list_all (\<lambda>c. take 6 (fq_name c) = ''aegis_'') (db_collectors @ ingest_collectors @ cas_collectors @ deep_collectors)"
  by code_simp


lemma fresh_names:
  assumes "joins fq" and "\<forall>s \<in> N. take 6 s \<noteq> ''aegis_''"
    and "set cs \<subseteq> set (db_collectors @ ingest_collectors @ cas_collectors @ deep_collectors)"
  shows "N \<inter> fq ` set cs = {}"
proof -
  have "take 6 (fq c) = ''aegis_''" if "c \<in> set cs" for c
    using joins_fq [OF assms(1), of c] collector_names_prefixed that assms(3) by (auto simp: list_all_iff)
  with assms(2) show ?thesis
    by fastforce
qed

lemma joins_map:
  assumes "joins fq" and "set cs \<subseteq> set (db_collectors @ ingest_collectors @ cas_collectors @ deep_collectors)"
  shows "map fq cs = map fq_name cs"
  using joins_fq [OF assms(1)] assms(2) by (intro map_cong) auto

text \<open>Starting the process registers each of its collectors exactly once and does not panic; a further database client is harmless, while building any of the
  three groups of collectors again on the same registry panics. The extended collectors, which no program builds, would not clash.\<close>

theorem process_registers_once:
  assumes reg: "registers MR names fq" and j: "joins fq" and clean: "\<forall>s \<in> names r. take 6 s \<noteq> ''aegis_''"
  shows "\<exists>r'. main_metrics MR (False, r) = Some (True, r') \<and> names r' = names r \<union> set (aegis_names fq) \<and>
    distinct (aegis_names fq) \<and> length (aegis_names fq) = 33 \<and> defaultMetrics MR (True, r') = Some (True, r') \<and>
    newMetrics MR (Some r') = None \<and> NewIngestMetrics MR (Some r') = None \<and> NewCASMetrics MR (Some r') = None \<and>
    (\<exists>r''. NewDeepMetrics MR (Some r') = Some (Some r''))"
proof -
  have all: "distinct (map fq (db_collectors @ ingest_collectors @ cas_collectors @ deep_collectors))"
    unfolding joins_map [OF j order.refl] by (rule collector_names_distinct)
  have free: "names r \<inter> fq ` set (db_collectors @ ingest_collectors @ cas_collectors @ deep_collectors) = {}"
    by (rule fresh_names [OF j clean]) simp
  have parts: "distinct (map fq db_collectors)" "distinct (map fq ingest_collectors)" "distinct (map fq cas_collectors)"
    "distinct (map fq deep_collectors)"
    using all by simp_all
  have apart: "fq ` set db_collectors \<inter> fq ` set ingest_collectors = {}" "fq ` set db_collectors \<inter> fq ` set cas_collectors = {}"
    "fq ` set db_collectors \<inter> fq ` set deep_collectors = {}" "fq ` set ingest_collectors \<inter> fq ` set cas_collectors = {}"
    "fq ` set ingest_collectors \<inter> fq ` set deep_collectors = {}" "fq ` set cas_collectors \<inter> fq ` set deep_collectors = {}"
    using all by (simp_all add: Int_Un_distrib)
  have new: "names r \<inter> fq ` set db_collectors = {}" "names r \<inter> fq ` set ingest_collectors = {}"
    "names r \<inter> fq ` set cas_collectors = {}" "names r \<inter> fq ` set deep_collectors = {}"
    using free by (simp_all add: image_Un Int_Un_distrib)
  obtain r1 where r1: "MR db_collectors r = Some r1" "names r1 = names r \<union> fq ` set db_collectors"
    using registersD [OF reg parts(1) new(1)] .
  have "names r1 \<inter> fq ` set ingest_collectors = {}"
    by (simp add: r1(2) Int_Un_distrib2 new apart)
  from promauto_registers [OF reg parts(2) this] obtain r2 where
    r2: "promauto MR ingest_collectors (Some r1) = Some (Some r2)" "names r2 = names r1 \<union> fq ` set ingest_collectors"
    by blast
  have "names r2 \<inter> fq ` set cas_collectors = {}"
    by (simp add: r1(2) r2(2) Int_Un_distrib2 new apart)
  from registersD [OF reg parts(3) this] obtain r3 where
    r3: "MR cas_collectors r2 = Some r3" "names r3 = names r2 \<union> fq ` set cas_collectors" .
  have "names r3 \<inter> fq ` set deep_collectors = {}"
    by (simp add: r1(2) r2(2) r3(2) Int_Un_distrib2 new apart)
  from promauto_registers [OF reg parts(4) this] obtain r4 where r4: "promauto MR deep_collectors (Some r3) = Some (Some r4)"
    by blast
  have names: "names r3 = names r \<union> set (aegis_names fq)"
    by (simp add: aegis_names_def r1(2) r2(2) r3(2) image_Un Un_assoc)
  have nonempty: "db_collectors \<noteq> []" "cas_collectors \<noteq> []" "ingest_collectors \<noteq> []"
    by (simp_all add: db_collectors_def cas_collectors_def ingest_collectors_def)
  have again: "MR db_collectors r3 = None" "MR cas_collectors r3 = None"
    by (rule registers_again [OF reg nonempty(1)], simp add: r1(2) r2(2) r3(2) le_supI1)
      (rule registers_again [OF reg nonempty(2)], simp add: r3(2))
  have "fq (hd ingest_collectors) \<in> names r3"
    using nonempty(3) by (simp add: r2(2) r3(2))
  from promauto_panics [OF reg this, of "tl ingest_collectors"] nonempty(3)
  have "promauto MR ingest_collectors (Some r3) = None"
    by simp
  moreover have "main_metrics MR (False, r) = Some (True, r3)"
    by (simp add: main_metrics_def defaultMetrics_def newMetrics_def NewIngestMetrics_def NewCASMetrics_def r1(1) r2(1) r3(1))
  moreover have "distinct (aegis_names fq)"
    by (simp add: aegis_names_def parts apart Int_Un_distrib)
  moreover have "length (aegis_names fq) = 33"
    by (simp add: aegis_names_def db_collectors_def ingest_collectors_def cas_collectors_def)
  ultimately show ?thesis
    using names again r4 by (intro exI [of _ r3])
      (simp add: defaultMetrics_def newMetrics_def NewIngestMetrics_def NewCASMetrics_def NewDeepMetrics_def)
qed

section \<open>Gauges\<close>

lemma float64_exact: "\<bar>x\<bar> < 2 ^ 53 \<Longrightarrow> float64 x = x"
  by (simp add: float64_def)

lemma float64_error: "\<bar>float64 x - x\<bar> * 2 ^ 53 \<le> \<bar>x\<bar>"
proof (cases "\<bar>x\<bar> < 2 ^ 53")
  case False
  define u :: int where "u = 2 ^ (nat (bitlen \<bar>x\<bar>) - 53)"
  define q r where "q = x div u" and "r = x mod u"
  have u: "0 < u" and x: "x = u * q + r" and r: "0 \<le> r" "r < u"
    by (simp_all add: u_def q_def r_def)
  from False have pos: "0 < \<bar>x\<bar>" by simp
  have "(2::int) ^ nat (bitlen \<bar>x\<bar> - 1) \<le> \<bar>x\<bar>"
    using bitlen_bounds [OF pos] by simp
  moreover have "nat (bitlen \<bar>x\<bar> - 1) = (nat (bitlen \<bar>x\<bar>) - 53) + 52"
  proof -
    have "\<not> \<bar>x\<bar> < 2 ^ 53" using False .
    moreover have "\<bar>x\<bar> < 2 ^ nat (bitlen \<bar>x\<bar>)"
      using bitlen_bounds [OF pos] by simp
    ultimately have "(2::int) ^ 53 < 2 ^ nat (bitlen \<bar>x\<bar>)" by linarith
    then have "53 < nat (bitlen \<bar>x\<bar>)"
      by (rule power_less_imp_less_exp [rotated]) simp
    then show ?thesis by linarith
  qed
  ultimately have "(2::int) ^ ((nat (bitlen \<bar>x\<bar>) - 53) + 52) \<le> \<bar>x\<bar>"
    by metis
  then have "u * 2 ^ 52 \<le> \<bar>x\<bar>"
    unfolding u_def power_add .
  moreover have "float64 x = u * (if 2 * r < u \<or> 2 * r = u \<and> even q then q else q + 1)"
    using False by (simp add: float64_def Let_def u_def q_def r_def)
  then have "2 * \<bar>float64 x - x\<bar> \<le> u"
    using x r by (auto simp: distrib_left)
  ultimately show ?thesis
    by simp
qed (simp add: float64_def)

definition tiers_ok :: "db \<Rightarrow> bool" where
  "tiers_ok d \<longleftrightarrow> (\<forall>b \<in> set (cas_rows d). cb_tier b \<in> {''HOT'', ''WARM'', ''COLD''})"

lemma count_where_split: "count_where P d + count_where (\<lambda>b. \<not> P b) d = count_where (\<lambda>_. True) d"
  unfolding count_where_def by (simp flip: of_nat_add add: sum_length_filter_compl)

text \<open>After a refresh the gauges show the storage: counts are exact below 2 to the 53rd, the three tiers add up to the total, byte totals are off by at
  most one part in 2 to the 53rd, and the deduplication ratio keeps its value.\<close>

theorem refresh_reports_storage:
  assumes "length (cas_rows d) < 2 ^ 53" and "tiers_ok d"
  shows "let m' = refresh_tick fdiv (None, d) m in
    cm_TotalBlocks m' = of_nat (length (cas_rows d)) \<and> cm_HotBlocks m' + cm_WarmBlocks m' + cm_ColdBlocks m' = cm_TotalBlocks m' \<and>
    cm_OrphanBlocks m' = of_int (count_where (\<lambda>b. cb_refs b = 0) d) \<and>
    \<bar>cm_TotalBytes m' - of_int (bytes_where (\<lambda>_. True) d)\<bar> * 2 ^ 53 \<le> of_int \<bar>bytes_where (\<lambda>_. True) d\<bar> \<and>
    cm_DeduplicationRatio m' = cm_DeduplicationRatio m"
proof -
  have small: "float64 (count_where P d) = count_where P d" for P
  proof -
    have "length (filter P (cas_rows d)) < 2 ^ 53"
      using length_filter_le [of P "cas_rows d"] assms(1) by (rule le_less_trans)
    then have "int (length (filter P (cas_rows d))) < int (2 ^ 53)"
      by (simp only: of_nat_less_iff)
    then show ?thesis
      by (intro float64_exact) (simp add: count_where_def)
  qed
  have tiers: "count_where (\<lambda>b. cb_tier b = ''HOT'') d + count_where (\<lambda>b. cb_tier b = ''WARM'') d + count_where (\<lambda>b. cb_tier b = ''COLD'') d =
      count_where (\<lambda>_. True) d"
  proof -
    have "int (length (filter (\<lambda>b. cb_tier b = ''HOT'') bs)) + int (length (filter (\<lambda>b. cb_tier b = ''WARM'') bs)) +
        int (length (filter (\<lambda>b. cb_tier b = ''COLD'') bs)) = int (length bs)"
      if "\<forall>b \<in> set bs. cb_tier b \<in> {''HOT'', ''WARM'', ''COLD''}" for bs
      using that by (induction bs) auto
    from this [OF assms(2) [unfolded tiers_ok_def]] show ?thesis
      by (simp add: count_where_def)
  qed
  have bytes: "\<bar>(of_int (float64 x) :: rat) - of_int x\<bar> * 2 ^ 53 \<le> of_int \<bar>x\<bar>" for x
  proof -
    have "(of_int (\<bar>float64 x - x\<bar> * 2 ^ 53) :: rat) \<le> of_int \<bar>x\<bar>"
      using float64_error by (simp only: of_int_le_iff)
    then show ?thesis by simp
  qed
  show ?thesis
    unfolding Let_def refresh_tick_def RefreshFromStats_def GetStorageStats_def
    using tiers bytes by (simp add: small flip: of_int_add) (simp add: count_where_def)
qed


section \<open>Tiers\<close>

text \<open>\<^verbatim>\<open>UpdateTier\<close> is the only statement that gives a block another tier than HOT, and no program calls it.\<close>

definition all_hot :: "db \<Rightarrow> bool" where
  "all_hot d \<longleftrightarrow> (\<forall>b \<in> set (cas_rows d). cb_tier b = ''HOT'')"

fun retiers :: "sys_event \<Rightarrow> bool" where
  "retiers (E, UpdateTier' flt h) \<longleftrightarrow> True"
| "retiers (E, st) \<longleftrightarrow> False"

lemma all_hot_frame: "cas_rows d' = cas_rows d \<Longrightarrow> all_hot d' = all_hot d"
  by (simp add: all_hot_def)

lemma all_hot_insert: "all_hot d \<Longrightarrow> insert_block_on_conflict_nothing now t r hs d = Inr d' \<Longrightarrow> all_hot d'"
  by (auto simp: insert_block_on_conflict_nothing_def Let_def all_hot_def split: if_splits)

lemma all_hot_manifest: "all_hot d \<Longrightarrow> insert_manifest_block now m d = Inr d' \<Longrightarrow> all_hot d'"
  by (auto simp: insert_manifest_block_def manifest_block_added_def all_hot_def set_update_where split: if_splits)

lemma all_hot_write_blocks:
  assumes "write_blocks E t v blocks d = Inr d'" and "all_hot d"
  shows "all_hot d'"
proof (cases "blocks = []")
  case False
  from assms(1) False obtain hashes d1 where
    d1: "insert_each (insert_block_on_conflict_nothing (pe_now E) t 0) (zip hashes (map bm_SizeBytes blocks)) d = Inr d1"
    and d': "insert_each (insert_manifest_block (pe_now E)) (manifest_of v (zip hashes blocks)) d1 = Inr d'"
    by (auto simp: write_blocks_def bindE_Inr exec_Inr manifest_of_def split: option.splits)
  have "all_hot d1"
    using d1 assms(2) by (rule insert_each_induct) (rule all_hot_insert)
  with d' show ?thesis
    by (rule insert_each_induct) (rule all_hot_manifest)
qed (use assms in \<open>simp add: write_blocks_def\<close>)

lemma all_hot_commit:
  assumes "Pg_CommitFile U E t sid sha blocks d = (r, d')" and "all_hot d"
  shows "all_hot d'"
proof (cases r)
  case (Inl e)
  with Pg_CommitFile_Inl assms show ?thesis by blast
next
  case (Inr p)
  obtain vid n where p: "p = (vid, n)" by fastforce
  have "commit_body U E t sid sha blocks d = Inr ((vid, n), d')"
    using assms(1) Inr p by (simp add: Pg_CommitFile_def in_tx_Inr)
  then obtain rec node d1 d2 where
    "commit_preconditions U E t sid blocks d = Inr (rec, node)"
    and "n = next_version_number d node"
    and d1: "insert_version \<lparr>fv_id = pe_id E StInsertVersion, fv_node = node, fv_number = n,
           fv_size = sr_TotalSize rec, fv_sha = sha, fv_created_by = t\<rparr> d = Inr d1"
    and d2: "write_blocks E t (pe_id E StInsertVersion) blocks d1 = Inr d2"
    and d': "d' = complete_session sid (int (length blocks)) d2"
    by (rule commit_body_Inr)
  have "all_hot d1"
    using insert_version_frame [OF d1] assms(2) by (simp add: all_hot_def)
  from all_hot_write_blocks [OF d2 this] show ?thesis
    by (simp add: d' all_hot_def)
qed

lemma all_hot_content: "same_content d d' \<Longrightarrow> all_hot d \<Longrightarrow> all_hot d'"
  by (simp add: same_content_def all_hot_def)

lemma all_hot_exec:
  assumes "all_hot d" and "\<not> retiers (E, st)"
  shows "all_hot (snd (sys_exec U (E, st) d))"
proof (cases st)
  case (CreateFileNode t p name)
  then show ?thesis
    using all_hot_content [of d "snd (Pg_CreateFileNode E t p name d)"] assms(1)
      Pg_CreateFileNode_frame [of E t p name d "fst (Pg_CreateFileNode E t p name d)" "snd (Pg_CreateFileNode E t p name d)"]
    by simp
next
  case (CreateUploadSession t n sz chunks ip ua)
  obtain r d' where run: "Pg_CreateUploadSession E t n sz chunks ip ua d = (r, d')" by fastforce
  then have "same_content d d'"
    using Pg_CreateUploadSession_Inr [of E t n sz chunks ip ua d _ _ d'] Pg_CreateUploadSession_Inl [of E t n sz chunks ip ua d _ d']
    by (cases r) auto
  then show ?thesis
    using all_hot_content assms(1) CreateUploadSession run by simp
next
  case (CommitFile t sid sha blocks)
  then show ?thesis
    using all_hot_commit [of U E t sid sha blocks d] assms(1) by (auto split: prod.splits sum.splits)
next
  case (EnsureBlock' flt h t sz)
  then show ?thesis
    using all_hot_insert [OF assms(1), of "pe_now E" t 1 "(h, sz)"] assms(1)
    by (auto simp: EnsureBlock_def split: option.splits sum.splits)
next
  case (DeleteBlocks' flt hs)
  then show ?thesis
    using assms(1) by (auto simp: DeleteBlocks_def delete_unreferenced_def all_hot_def Let_def split: option.splits)
qed (use assms in \<open>auto simp: all_hot_def Pg_MarkBlockVerified_def Pg_ExpireStaleSessions_def expire_stale_upload_sessions_def
    set_update_where split: option.splits\<close>)

lemma all_hot_run: "all_hot d \<Longrightarrow> \<forall>e \<in> set es. \<not> retiers e \<Longrightarrow> all_hot (snd (sys_run U es d))"
proof (induction es arbitrary: d)
  case (Cons e es)
  obtain E st where e: "e = (E, st)" by fastforce
  have "all_hot (snd (sys_exec U e d))"
    using all_hot_exec [OF Cons.prems(1), of E st U] Cons.prems(2) by (simp add: e)
  from Cons.IH [OF this] Cons.prems(2) show ?case
    by (simp add: split_beta)
qed simp

text \<open>The tier gauges never move: starting from an empty registry, every block is in the tier HOT however rarely it is referenced, so that the gauge of the
  hot blocks, documented as those with more than a hundred references, always shows all blocks and the other two
  always show zero; the deduplication ratio stays at zero.\<close>

theorem tier_gauges_stuck:
  assumes "cas_rows d = []" and "\<forall>e \<in> set es. \<not> retiers e"
  shows "let m = refresh_tick fdiv (None, snd (sys_run U es d)) zero_CASMetrics in
    cm_WarmBlocks m = 0 \<and> cm_ColdBlocks m = 0 \<and> cm_HotBlocks m = cm_TotalBlocks m \<and> cm_DeduplicationRatio m = 0"
proof -
  let ?d = "snd (sys_run U es d)"
  have "all_hot ?d"
    using assms by (intro all_hot_run) (simp_all add: all_hot_def)
  then have "filter (\<lambda>b. cb_tier b = ''HOT'') (cas_rows ?d) = cas_rows ?d" "filter (\<lambda>b. cb_tier b = ''WARM'') (cas_rows ?d) = []"
      "filter (\<lambda>b. cb_tier b = ''COLD'') (cas_rows ?d) = []"
    by (auto simp: all_hot_def filter_id_conv filter_empty_conv)
  then show ?thesis
    by (simp add: refresh_tick_def RefreshFromStats_def GetStorageStats_def count_where_def zero_CASMetrics_def float64_def)
qed

section \<open>Logs\<close>

text \<open>The wrapped handler adds the two identifiers exactly when the request has a valid span with an identifier.\<close>

lemma trace_ids_added:
  "Handle L (NewTraceLoggingHandler h) ctx r = Handle L h ctx
     (if sc_IsValid ctx \<and> sc_TraceID ctx \<noteq> '''' then r @ [(''trace_id'', AStr (sc_TraceID ctx)), (''span_id'', AStr (sc_SpanID ctx))] else r)"
  by (simp add: NewTraceLoggingHandler_def GetTraceAndSpanIDs_def)

text \<open>A logger derived with attributes or a group no longer adds them: the derived handler is that of the handler inside.\<close>

lemma derived_logger_loses_trace:
  "WithAttrs L (NewTraceLoggingHandler h) as = WithAttrs L h as" "WithGroup L (NewTraceLoggingHandler h) g = WithGroup L h g"
  by (simp_all add: NewTraceLoggingHandler_def)

text \<open>The service name given to the tracing setup has no effect.\<close>

lemma SetupTracing_ignores_name: "SetupTracing tp name g = SetupTracing tp name' g"
  by (simp add: SetupTracing_def)

text \<open>The operation log: an error raises the level and changes the message, the duration is in milliseconds.\<close>

lemma logOperation_levels:
  "fst (logOperation errText op operation tenantID since err) = LevelError \<longleftrightarrow> err \<noteq> None"
  "(''duration_ms'', AInt (since div Millisecond)) \<in> set (snd (snd (logOperation errText op operation tenantID since err)))"
  by (simp_all add: logOperation_def Milliseconds_def)

end
