(* ===== verification/Shutdown.thy ===== *)
theory Shutdown
  imports Server
begin

text \<open>
  The life of the ingestion server's process after its setup (cmd/ingest/main.go): the HTTP listener, the goroutine that waits for the
  signal and calls \<^verbatim>\<open>Shutdown\<close>, the return of \<^verbatim>\<open>ListenAndServe\<close>, and the deferred calls of \<^verbatim>\<open>main\<close>. The standard library
  is modelled by its documentation: \<^verbatim>\<open>Shutdown\<close> closes the listener, whereupon \<^verbatim>\<open>ListenAndServe\<close> returns \<^verbatim>\<open>ErrServerClosed\<close> at
  once, while \<^verbatim>\<open>Shutdown\<close> itself waits for the requests in progress or its deadline; the process ends with \<^verbatim>\<open>main\<close>;
  \<^verbatim>\<open>os.Exit\<close> runs no deferred call. A request in progress still has a number of uses of the database before it is answered; closing
  the pools waits for a use that is under way, so that a use is one step, and refuses later ones.
\<close>

section \<open>The process\<close>

datatype defer_call = CancelContext | CloseDatabase | CloseRedis | StopSessionReaper | StopGC | StopDerivationBridge

text \<open>In the order of the \<^verbatim>\<open>defer\<close> statements.\<close>

definition main_defers :: "bool \<Rightarrow> defer_call list" where
  "main_defers derivation =
     [CancelContext, CloseDatabase, CloseRedis, StopSessionReaper, StopGC] @ (if derivation then [StopDerivationBridge] else [])"

datatype main_pc = Serving | Deferring "defer_call list" | Exit nat

datatype shutdown_pc = AwaitingSignal | ShuttingDown | ShutDown

datatype req = InProgress nat | Answered | Failed500

record process =
  pr_main :: main_pc
  pr_shutdown :: shutdown_pc
  pr_cancelled :: bool
  pr_listening :: bool
  pr_dbOpen :: bool
  pr_ran :: "defer_call list"
  pr_reqs :: "req list"

definition start_process :: process where
  "start_process = \<lparr>pr_main = Serving, pr_shutdown = AwaitingSignal, pr_cancelled = False, pr_listening = True, pr_dbOpen = True,
     pr_ran = [], pr_reqs = []\<rparr>"

definition run_defer :: "defer_call \<Rightarrow> process \<Rightarrow> process" where
  "run_defer c p =
     p\<lparr>pr_ran := pr_ran p @ [c],
       pr_dbOpen := (pr_dbOpen p \<and> c \<noteq> CloseDatabase),
       pr_cancelled := (pr_cancelled p \<or> c = CancelContext)\<rparr>"

definition request_at :: "process \<Rightarrow> nat \<Rightarrow> req \<Rightarrow> bool" where
  "request_at p i r \<longleftrightarrow> i < length (pr_reqs p) \<and> pr_reqs p ! i = r"

datatype proc_event = Accepted nat | UsedDB nat | RefusedDB nat | Responded nat | Signalled | ShutdownBegins | ShutdownReturns
  | ServeReturns | ServeFails | RunsDefer | MainReturns

inductive proc_step :: "bool \<Rightarrow> process \<Rightarrow> proc_event \<Rightarrow> process \<Rightarrow> bool" for derivation where
  accept: "(\<forall>c. pr_main p \<noteq> Exit c) \<Longrightarrow> pr_listening p \<Longrightarrow>
    proc_step derivation p (Accepted k) (p\<lparr>pr_reqs := pr_reqs p @ [InProgress k]\<rparr>)"
| use: "(\<forall>c. pr_main p \<noteq> Exit c) \<Longrightarrow> request_at p i (InProgress (Suc k)) \<Longrightarrow> pr_dbOpen p \<Longrightarrow>
    proc_step derivation p (UsedDB i) (p\<lparr>pr_reqs := (pr_reqs p)[i := InProgress k]\<rparr>)"
| refuse: "(\<forall>c. pr_main p \<noteq> Exit c) \<Longrightarrow> request_at p i (InProgress (Suc k)) \<Longrightarrow> \<not> pr_dbOpen p \<Longrightarrow>
    proc_step derivation p (RefusedDB i) (p\<lparr>pr_reqs := (pr_reqs p)[i := Failed500]\<rparr>)"
| respond: "(\<forall>c. pr_main p \<noteq> Exit c) \<Longrightarrow> request_at p i (InProgress 0) \<Longrightarrow>
    proc_step derivation p (Responded i) (p\<lparr>pr_reqs := (pr_reqs p)[i := Answered]\<rparr>)"
| signal: "(\<forall>c. pr_main p \<noteq> Exit c) \<Longrightarrow> proc_step derivation p Signalled (p\<lparr>pr_cancelled := True\<rparr>)"
| shutdown_begins: "(\<forall>c. pr_main p \<noteq> Exit c) \<Longrightarrow> pr_shutdown p = AwaitingSignal \<Longrightarrow> pr_cancelled p \<Longrightarrow>
    proc_step derivation p ShutdownBegins (p\<lparr>pr_shutdown := ShuttingDown, pr_listening := False\<rparr>)"
| shutdown_returns: "(\<forall>c. pr_main p \<noteq> Exit c) \<Longrightarrow> pr_shutdown p = ShuttingDown \<Longrightarrow>
    proc_step derivation p ShutdownReturns (p\<lparr>pr_shutdown := ShutDown\<rparr>)"
| serve_returns: "pr_main p = Serving \<Longrightarrow> \<not> pr_listening p \<Longrightarrow>
    proc_step derivation p ServeReturns (p\<lparr>pr_main := Deferring (rev (main_defers derivation))\<rparr>)"
| serve_fails: "pr_main p = Serving \<Longrightarrow> pr_listening p \<Longrightarrow>
    proc_step derivation p ServeFails (p\<lparr>pr_main := Exit 1\<rparr>)"
| defers: "pr_main p = Deferring (c # cs) \<Longrightarrow>
    proc_step derivation p RunsDefer (run_defer c (p\<lparr>pr_main := Deferring cs\<rparr>))"
| main_returns: "pr_main p = Deferring [] \<Longrightarrow> proc_step derivation p MainReturns (p\<lparr>pr_main := Exit 0\<rparr>)"

inductive proc_run :: "bool \<Rightarrow> process \<Rightarrow> proc_event list \<Rightarrow> process \<Rightarrow> bool" for derivation where
  nil: "proc_run derivation p [] p"
| snoc: "proc_run derivation p es q \<Longrightarrow> proc_step derivation q e r \<Longrightarrow> proc_run derivation p (es @ [e]) r"

inductive_cases proc_stepE: "proc_step derivation p e q"

section \<open>The order of a shutdown\<close>

text \<open>What has run of the deferred calls is a prefix of their reversed order, and the rest is still to come.\<close>

definition defers_ok :: "bool \<Rightarrow> process \<Rightarrow> bool" where
  "defers_ok derivation p \<longleftrightarrow>
     (case pr_main p of
        Serving \<Rightarrow> pr_ran p = []
      | Deferring cs \<Rightarrow> pr_ran p @ cs = rev (main_defers derivation)
      | Exit c \<Rightarrow> pr_ran p = (if c = 0 then rev (main_defers derivation) else []) \<and> c \<le> 1)"

definition flags_ok :: "process \<Rightarrow> bool" where
  "flags_ok p \<longleftrightarrow> (pr_dbOpen p \<longleftrightarrow> CloseDatabase \<notin> set (pr_ran p)) \<and> (pr_ran p \<noteq> [] \<longrightarrow> \<not> pr_listening p) \<and>
     (\<not> pr_listening p \<longleftrightarrow> pr_shutdown p \<noteq> AwaitingSignal) \<and> (\<not> pr_listening p \<longrightarrow> pr_cancelled p) \<and>
     ((\<exists>cs. pr_main p = Deferring cs) \<longrightarrow> \<not> pr_listening p) \<and> (Failed500 \<in> set (pr_reqs p) \<longrightarrow> \<not> pr_dbOpen p)"

lemma set_update_new: "x \<in> set (xs[i := y]) \<Longrightarrow> x \<noteq> y \<Longrightarrow> x \<in> set xs"
  using set_update_subset_insert by fastforce

lemma step_ok:
  assumes "proc_step derivation p e q" and "defers_ok derivation p" and "flags_ok p"
  shows "defers_ok derivation q \<and> flags_ok q"
  using assms
  by (induction rule: proc_step.induct)
    (auto simp: defers_ok_def flags_ok_def run_defer_def dest: set_update_new split: main_pc.splits if_splits)

lemma run_ok:
  assumes "proc_run derivation p es q" and "defers_ok derivation p" and "flags_ok p"
  shows "defers_ok derivation q \<and> flags_ok q"
  using assms by (induction rule: proc_run.induct) (auto dest: step_ok)

lemma start_ok: "defers_ok derivation start_process" "flags_ok start_process"
  by (simp_all add: defers_ok_def flags_ok_def start_process_def)


lemma closed_after:
  assumes "xs @ cs = rev (main_defers derivation)" and "CloseDatabase \<in> set xs"
  shows "StopSessionReaper \<in> set xs \<and> StopGC \<in> set xs \<and> CloseRedis \<in> set xs \<and> (derivation \<longrightarrow> StopDerivationBridge \<in> set xs)"
  using assms by (cases derivation) (auto simp: main_defers_def append_eq_Cons_conv)

text \<open>C18. A shutdown is orderly as far as \<^verbatim>\<open>main\<close> goes: in every reachable state, the database is closed only after the signal, with the listener closed, and after the
  reaper, the collector and the derivation bridge were told to stop; no request fails for a closed database before that; the
  process ends either with status 0 after all deferred calls, in the reverse of their order, or with status 1 and none of them.\<close>

theorem shutdown_order:
  assumes "proc_run derivation start_process es p"
  shows "(\<not> pr_dbOpen p \<longrightarrow> pr_cancelled p \<and> \<not> pr_listening p \<and> StopSessionReaper \<in> set (pr_ran p) \<and> StopGC \<in> set (pr_ran p) \<and>
      (derivation \<longrightarrow> StopDerivationBridge \<in> set (pr_ran p))) \<and>
    (Failed500 \<in> set (pr_reqs p) \<longrightarrow> \<not> pr_dbOpen p) \<and>
    (\<forall>c. pr_main p = Exit c \<longrightarrow> c = 0 \<and> pr_ran p = rev (main_defers derivation) \<or> c = 1 \<and> pr_ran p = [] \<and> pr_dbOpen p)"
proof -
  from run_ok [OF assms start_ok] have d: "defers_ok derivation p" and f: "flags_ok p"
    by simp_all
  have ran: "\<exists>cs. pr_ran p @ cs = rev (main_defers derivation)" if "pr_ran p \<noteq> []"
    using d that by (auto simp: defers_ok_def split: main_pc.splits if_splits)
  have "StopSessionReaper \<in> set (pr_ran p) \<and> StopGC \<in> set (pr_ran p) \<and> (derivation \<longrightarrow> StopDerivationBridge \<in> set (pr_ran p))"
    if "\<not> pr_dbOpen p"
  proof -
    from f that have "CloseDatabase \<in> set (pr_ran p)" and "pr_ran p \<noteq> []"
      by (auto simp: flags_ok_def)
    with ran closed_after show ?thesis by blast
  qed
  moreover have "pr_main p = Exit c \<Longrightarrow> c = 0 \<and> pr_ran p = rev (main_defers derivation) \<or> c = 1 \<and> pr_ran p = [] \<and> pr_dbOpen p" for c
    using d f by (auto simp: defers_ok_def flags_ok_def split: if_splits)
  moreover have "\<not> pr_dbOpen p \<longrightarrow> pr_cancelled p \<and> \<not> pr_listening p" "Failed500 \<in> set (pr_reqs p) \<longrightarrow> \<not> pr_dbOpen p"
    using f by (auto simp: flags_ok_def)
  ultimately show ?thesis
    by blast
qed

section \<open>A shutdown ends\<close>

text \<open>How many steps of its own \<^verbatim>\<open>main\<close> is away from the end of the process, at most.\<close>

definition main_left :: "bool \<Rightarrow> process \<Rightarrow> nat" where
  "main_left derivation p =
     (case pr_main p of
        Serving \<Rightarrow> length (main_defers derivation) + 2 + (if pr_listening p then 1 else 0)
      | Deferring cs \<Rightarrow> length cs + 1
      | Exit _ \<Rightarrow> 0)"

fun own_step :: "proc_event \<Rightarrow> bool" where
  "own_step ShutdownBegins \<longleftrightarrow> True"
| "own_step ServeReturns \<longleftrightarrow> True"
| "own_step ServeFails \<longleftrightarrow> True"
| "own_step RunsDefer \<longleftrightarrow> True"
| "own_step MainReturns \<longleftrightarrow> True"
| "own_step _ \<longleftrightarrow> False"

lemma step_progress:
  assumes "proc_step derivation p e q" and "flags_ok p"
  shows "main_left derivation q \<le> main_left derivation p \<and> (own_step e \<longrightarrow> main_left derivation q < main_left derivation p)"
  using assms by (induction rule: proc_step.induct)
    (auto simp: main_left_def flags_ok_def run_defer_def split: main_pc.splits)

lemma own_step_enabled:
  assumes "flags_ok p" and "pr_cancelled p" and "\<forall>c. pr_main p \<noteq> Exit c"
  shows "\<exists>e q. own_step e \<and> proc_step derivation p e q"
proof (cases "pr_main p")
  case Serving
  show ?thesis
  proof (cases "pr_listening p")
    case True
    then have "proc_step derivation p ShutdownBegins (p\<lparr>pr_shutdown := ShuttingDown, pr_listening := False\<rparr>)"
      using assms by (intro shutdown_begins) (auto simp: flags_ok_def)
    then show ?thesis using own_step.simps(1) by blast
  next
    case False
    then show ?thesis using serve_returns [OF Serving] own_step.simps(2) by blast
  qed
next
  case (Deferring cs)
  then show ?thesis
    using defers [of p] main_returns [of p] own_step.simps(4,5) by (cases cs) blast+
next
  case (Exit c)
  then show ?thesis using assms(3) by blast
qed


section \<open>Requests in progress\<close>

text \<open>\<^verbatim>\<open>main\<close> does not wait for \<^verbatim>\<open>Shutdown\<close>: whatever the grace period, a request in progress can find the database closed under it, and the process can end with status 0
  while a request is unanswered and \<^verbatim>\<open>Shutdown\<close> still waits for it.\<close>

definition closing :: "nat \<Rightarrow> bool \<Rightarrow> process" where
  "closing k derivation = start_process\<lparr>pr_reqs := [InProgress k], pr_cancelled := True, pr_shutdown := ShuttingDown, pr_listening := False,
     pr_main := Deferring (rev (main_defers derivation))\<rparr>"

lemma closing_reachable: "\<exists>es. proc_run derivation start_process es (closing k derivation)"
proof -
  define p1 where "p1 = start_process\<lparr>pr_reqs := [InProgress k]\<rparr>"
  define p2 where "p2 = p1\<lparr>pr_cancelled := True\<rparr>"
  define p3 where "p3 = p2\<lparr>pr_shutdown := ShuttingDown, pr_listening := False\<rparr>"
  have "proc_step derivation start_process (Accepted k) p1"
    using accept [of start_process derivation k] by (simp add: p1_def start_process_def)
  then have r1: "proc_run derivation start_process ([] @ [Accepted k]) p1"
    by (rule proc_run.snoc [OF proc_run.nil])
  have "proc_step derivation p1 Signalled p2"
    unfolding p2_def by (rule signal) (simp add: p1_def start_process_def)
  note r2 = proc_run.snoc [OF r1 this]
  have "proc_step derivation p2 ShutdownBegins p3"
    unfolding p3_def by (rule shutdown_begins) (simp_all add: p2_def p1_def start_process_def)
  note r3 = proc_run.snoc [OF r2 this]
  have "proc_step derivation p3 ServeReturns (p3\<lparr>pr_main := Deferring (rev (main_defers derivation))\<rparr>)"
    by (rule serve_returns) (simp_all add: p3_def p2_def p1_def start_process_def)
  note r4 = proc_run.snoc [OF r3 this]
  have "p3\<lparr>pr_main := Deferring (rev (main_defers derivation))\<rparr> = closing k derivation"
    by (simp add: p3_def p2_def p1_def closing_def)
  with r4 show ?thesis by auto
qed

lemma defers_reachable:
  assumes "proc_run derivation s es p" and "pr_main p = Deferring (cs @ ds)"
  shows "\<exists>es. proc_run derivation s es (fold run_defer cs (p\<lparr>pr_main := Deferring ds\<rparr>))"
  using assms
proof (induction cs arbitrary: p es)
  case Nil
  then have same: "p\<lparr>pr_main := Deferring ds\<rparr> = p" by simp
  show ?case
    using Nil.prems(1) by (simp only: fold.simps id_apply same) blast
next
  case (Cons c cs)
  have step: "proc_step derivation p RunsDefer (run_defer c (p\<lparr>pr_main := Deferring (cs @ ds)\<rparr>))" (is "proc_step _ _ _ ?q")
    using Cons.prems(2) by (intro defers) simp
  have "pr_main ?q = Deferring (cs @ ds)"
    by (simp add: run_defer_def)
  moreover have "?q\<lparr>pr_main := Deferring ds\<rparr> = run_defer c (p\<lparr>pr_main := Deferring ds\<rparr>)"
    by (rule process.equality) (simp_all add: run_defer_def)
  ultimately show ?case
    using Cons.IH [OF proc_run.snoc [OF Cons.prems(1) step]] by simp
qed


theorem shutdown_drops_requests:
  "(\<exists>es p. proc_run derivation start_process es p \<and> pr_reqs p = [Failed500]) \<and>
   (\<exists>es p. proc_run derivation start_process es p \<and> pr_main p = Exit 0 \<and> pr_reqs p = [InProgress k] \<and> pr_shutdown p = ShuttingDown)"
proof -
  let ?all = "rev (main_defers derivation)"
  have main: "pr_main (closing n derivation) = Deferring (?all @ [])" for n
    by (simp add: closing_def)
  have kept: "pr_reqs (fold run_defer cs p) = pr_reqs p \<and> pr_main (fold run_defer cs p) = pr_main p \<and>
      pr_shutdown (fold run_defer cs p) = pr_shutdown p \<and>
      (CloseDatabase \<in> set cs \<longrightarrow> \<not> pr_dbOpen (fold run_defer cs p)) \<and> (\<not> pr_dbOpen p \<longrightarrow> \<not> pr_dbOpen (fold run_defer cs p))" for cs p
    by (induction cs arbitrary: p) (auto simp: run_defer_def)
  define end_of where "end_of n = fold run_defer ?all ((closing n derivation)\<lparr>pr_main := Deferring []\<rparr>)" for n
  have run: "\<exists>es. proc_run derivation start_process es (end_of n)" for n
    unfolding end_of_def using closing_reachable [of derivation n] defers_reachable [OF _ main] by blast
  have parts: "pr_reqs (end_of n) = [InProgress n]" "pr_main (end_of n) = Deferring []" "pr_shutdown (end_of n) = ShuttingDown"
      "\<not> pr_dbOpen (end_of n)" for n
    unfolding end_of_def using kept [of ?all "(closing n derivation)\<lparr>pr_main := Deferring []\<rparr>"]
    by (simp_all add: closing_def main_defers_def)
  have "proc_step derivation (end_of 1) (RefusedDB 0) ((end_of 1)\<lparr>pr_reqs := [Failed500]\<rparr>)"
    using refuse [of "end_of 1" 0 0 derivation] parts [of 1] by (simp add: request_at_def)
  with run [of 1] have "\<exists>es. proc_run derivation start_process es ((end_of 1)\<lparr>pr_reqs := [Failed500]\<rparr>)"
    by (blast intro: proc_run.snoc)
  moreover have "proc_step derivation (end_of k) MainReturns ((end_of k)\<lparr>pr_main := Exit 0\<rparr>)"
    using parts by (intro main_returns)
  with run [of k] have "\<exists>es. proc_run derivation start_process es ((end_of k)\<lparr>pr_main := Exit 0\<rparr>)"
    by (blast intro: proc_run.snoc)
  ultimately show ?thesis
    using parts by (metis process.select_convs(1,2,7) process.update_convs(1,7) process.surjective)
qed

section \<open>Witnesses\<close>

theorem shutdown_order_witness:
  "\<exists>es p. proc_run True start_process es p \<and> \<not> pr_dbOpen p \<and> StopGC \<in> set (pr_ran p)"
proof -
  obtain es where "proc_run True start_process es (closing 1 True)"
    using closing_reachable by blast
  moreover have "pr_main (closing 1 True) = Deferring (rev (main_defers True) @ [])"
    by (simp add: closing_def)
  ultimately obtain fs where run: "proc_run True start_process fs (fold run_defer (rev (main_defers True)) ((closing 1 True)\<lparr>pr_main := Deferring []\<rparr>))"
    (is "proc_run _ _ _ ?p")
    using defers_reachable by blast
  have "\<not> pr_dbOpen ?p"
    by (simp add: main_defers_def run_defer_def)
  with shutdown_order [OF run] show ?thesis
    using run by (intro exI [of _ fs] exI [of _ ?p]) blast
qed


end
