(* ===== verification/Procedures.thy ===== *)
theory Procedures
  imports System Namespace
begin

text \<open>
  The stored procedures that the Go code does not call itself (\<^verbatim>\<open>db/stored-procedures.sql\<close>): the trigger that runs when manifest rows are removed, with the cascade
  from a deleted version, the procedures for garbage collection, which are compared with the statements that the Go code sends instead, the
  audit partitions and the status wrapper of \<^verbatim>\<open>move_directory\<close>.
\<close>

section \<open>Removing manifest rows\<close>

datatype proc_error = CAS_ROW_MISSING_ON_DELETE | RefCountNegative

definition manifest_block_removed :: "instant \<Rightarrow> bytes \<Rightarrow> db \<Rightarrow> proc_error + db" where
  "manifest_block_removed now h d =
     (if h \<notin> set (map cb_hash (cas_rows d)) then Inl CAS_ROW_MISSING_ON_DELETE
      else
        let rows = update_where (\<lambda>b. cb_hash b = h) (\<lambda>b. b\<lparr>cb_refs := cb_refs b - 1, cb_updated := now\<rparr>) (cas_rows d)
        in if list_ex (\<lambda>b. cb_hash b = h \<and> cb_refs b < 0) rows then Inl RefCountNegative else Inr (d\<lparr>cas_rows := rows\<rparr>))"

fun rows_removed :: "instant \<Rightarrow> manifest_row list \<Rightarrow> db \<Rightarrow> proc_error + db" where
  "rows_removed now [] d = Inr d"
| "rows_removed now (m # ms) d =
     (case manifest_block_removed now (mf_hash m) d of Inl e \<Rightarrow> Inl e | Inr d' \<Rightarrow> rows_removed now ms d')"

text \<open>\<^verbatim>\<open>DELETE FROM file_versions WHERE version_id = \<dots>\<close>: the manifest rows go by the cascade, the trigger runs for each of them.\<close>

definition delete_version :: "instant \<Rightarrow> uuid \<Rightarrow> db \<Rightarrow> proc_error + db" where
  "delete_version now v d =
     rows_removed now (filter (\<lambda>m. mf_version m = v) (manifest_rows d))
       (d\<lparr>version_rows := filter (\<lambda>r. fv_id r \<noteq> v) (version_rows d), manifest_rows := filter (\<lambda>m. mf_version m \<noteq> v) (manifest_rows d)\<rparr>)"

section \<open>Garbage collection in the database\<close>

definition gc_find_unreferenced :: "instant \<Rightarrow> duration \<Rightarrow> int \<Rightarrow> db \<Rightarrow> (bytes \<times> uuid \<times> int) list" where
  "gc_find_unreferenced now older_than limit d =
     map (\<lambda>b. (cb_hash b, cb_tenant b, cb_size b)) (take (nat (min (max limit 1) 10000)) (sort_key cb_created
       (filter (\<lambda>b. cb_refs b = 0 \<and> cb_created b < now - older_than) (cas_rows d))))"

text \<open>The number deleted, the number of the notice when one is raised, and the tables.\<close>

definition gc_delete_unreferenced :: "bytes list \<Rightarrow> db \<Rightarrow> int \<times> int option \<times> db" where
  "gc_delete_unreferenced batch d =
     (let gone = filter (\<lambda>b. cb_hash b \<in> set batch \<and> cb_refs b = 0) (cas_rows d);
          deleted = int (length gone)
      in (deleted, if deleted \<noteq> int (length batch) then Some (int (length batch) - deleted) else None,
          d\<lparr>cas_rows := filter (\<lambda>b. \<not> (cb_hash b \<in> set batch \<and> cb_refs b = 0)) (cas_rows d)\<rparr>))"

section \<open>Audit partitions\<close>

text \<open>A partition covers one month; \<^verbatim>\<open>to_char\<close> prints the month with two digits and the year with at least four.\<close>

definition two_digits :: "nat \<Rightarrow> string" where
  "two_digits n = (if n < 10 then ''0'' else '''') @ format_nat n"

definition four_digits :: "nat \<Rightarrow> string" where
  "four_digits n = replicate (4 - length (format_nat n)) (CHR ''0'') @ format_nat n"

definition partition_name :: "nat \<times> nat \<Rightarrow> string" where
  "partition_name ym = ''audit_logs_'' @ four_digits (fst ym) @ ''_'' @ two_digits (snd ym)"

definition next_month :: "nat \<times> nat \<Rightarrow> nat \<times> nat" where
  "next_month ym = (if snd ym = 12 then (fst ym + 1, 1) else (fst ym, snd ym + 1))"

text \<open>The partitions as name, first month and the month after: a relation of the name, partition or not, counts as existing.\<close>

type_synonym partitions = "(string \<times> (nat \<times> nat) \<times> (nat \<times> nat)) list"

definition ensure_audit_partition :: "nat \<times> nat \<times> nat \<Rightarrow> partitions \<Rightarrow> string \<times> partitions" where
  "ensure_audit_partition date ps =
     (let start = (fst date, fst (snd date));
          name = partition_name start
      in if name \<in> fst ` set ps then (''exists:'' @ name, ps)
         else (''created:'' @ name, ps @ [(name, start, next_month start)]))"

definition move_directory_status :: "uuid \<Rightarrow> uuid \<Rightarrow> uuid \<Rightarrow> ns_row list \<Rightarrow> ns_error + string \<times> ns_row list" where
  "move_directory_status t n p rows =
     (case move_directory t n p rows of Inl e \<Rightarrow> Inl e | Inr rows' \<Rightarrow> Inr (''MOVED'', rows'))"

section \<open>The counts after a removal\<close>

text \<open>While the triggers run, the counts still include the rows that wait for theirs.\<close>

definition refs_pending :: "manifest_row list \<Rightarrow> db \<Rightarrow> bool" where
  "refs_pending ms d \<longleftrightarrow>
     distinct (map cb_hash (cas_rows d)) \<and>
     (\<forall>b \<in> set (cas_rows d). cb_refs b = int (ref_of d (cb_hash b)) + int (length (filter (\<lambda>m. mf_hash m = cb_hash b) ms))) \<and>
     (\<forall>m \<in> set (manifest_rows d) \<union> set ms. mf_hash m \<in> cb_hash ` set (cas_rows d))"

lemma refs_pending_Nil: "refs_pending [] d \<longleftrightarrow> refs_ok d"
  by (simp add: refs_pending_def refs_ok_def)

lemma manifest_block_removed_pending:
  assumes "refs_pending (m # ms) d"
  shows "\<exists>d'. manifest_block_removed now (mf_hash m) d = Inr d' \<and> refs_pending ms d' \<and>
    manifest_rows d' = manifest_rows d \<and> version_rows d' = version_rows d"
proof -
  let ?f = "\<lambda>b. b\<lparr>cb_refs := cb_refs b - 1, cb_updated := now\<rparr>"
  let ?rows = "update_where (\<lambda>b. cb_hash b = mf_hash m) ?f (cas_rows d)"
  let ?d = "d\<lparr>cas_rows := ?rows\<rparr>"
  have counts: "cb_refs b = int (ref_of d (cb_hash b)) + int (length (filter (\<lambda>m. mf_hash m = cb_hash b) (m # ms)))"
    if "b \<in> set (cas_rows d)" for b
    using assms that unfolding refs_pending_def by blast
  have after: "cb_refs b = int (ref_of d (cb_hash b)) + int (length (filter (\<lambda>m. mf_hash m = cb_hash b) ms))"
    if "b \<in> set ?rows" for b
  proof -
    from that obtain b0 where b0: "b0 \<in> set (cas_rows d)" and b: "b = (if cb_hash b0 = mf_hash m then ?f b0 else b0)"
      by (auto simp: set_update_where)
    show ?thesis
      using counts [OF b0] by (cases "cb_hash b0 = mf_hash m") (simp_all add: b)
  qed
  have hashes: "cb_hash ` set ?rows = cb_hash ` set (cas_rows d)"
    by (simp add: image_update_where)
  have known: "mf_hash x \<in> cb_hash ` set (cas_rows d)" if "x \<in> set (manifest_rows d) \<union> set (m # ms)" for x
    using assms that unfolding refs_pending_def by blast
  have "\<not> list_ex (\<lambda>b. cb_hash b = mf_hash m \<and> cb_refs b < 0) ?rows"
    using after by (fastforce simp: list_ex_iff)
  then have "manifest_block_removed now (mf_hash m) d = Inr ?d"
    using known [of m] by (simp add: manifest_block_removed_def)
  moreover have "refs_pending ms ?d"
    unfolding refs_pending_def using assms after known hashes
    by (simp add: ref_of_def) (simp add: refs_pending_def)
  ultimately show ?thesis
    by (intro exI [of _ ?d]) simp
qed

lemma rows_removed_ok:
  "refs_pending ms d \<Longrightarrow> \<exists>d'. rows_removed now ms d = Inr d' \<and> refs_ok d' \<and> manifest_rows d' = manifest_rows d \<and> version_rows d' = version_rows d"
proof (induction ms arbitrary: d)
  case Nil
  then show ?case by (simp add: refs_pending_Nil)
next
  case (Cons m ms)
  from manifest_block_removed_pending [OF Cons.prems, of now] obtain d1 where
    d1: "manifest_block_removed now (mf_hash m) d = Inr d1" "refs_pending ms d1" "manifest_rows d1 = manifest_rows d" "version_rows d1 = version_rows d"
    by blast
  from Cons.IH [OF d1(2)] show ?case
    by (simp add: d1)
qed

lemma length_filter_split: "length (filter P xs) = length (filter P (filter Q xs)) + length (filter P (filter (\<lambda>x. \<not> Q x) xs))"
  by (induction xs) auto

text \<open>The two triggers together keep the protocol: from tables that keep it, a version can always be deleted, its manifest rows go with it, and
  every count is again the number of the manifest rows left.\<close>

theorem delete_version_keeps_references:
  assumes "refs_ok d"
  shows "\<exists>d'. delete_version now v d = Inr d' \<and> refs_ok d' \<and> manifest_rows d' = filter (\<lambda>m. mf_version m \<noteq> v) (manifest_rows d) \<and>
    version_rows d' = filter (\<lambda>r. fv_id r \<noteq> v) (version_rows d)"
proof -
  let ?gone = "filter (\<lambda>m. mf_version m = v) (manifest_rows d)"
  let ?d = "d\<lparr>version_rows := filter (\<lambda>r. fv_id r \<noteq> v) (version_rows d), manifest_rows := filter (\<lambda>m. mf_version m \<noteq> v) (manifest_rows d)\<rparr>"
  have "ref_of d h = length (filter (\<lambda>m. mf_hash m = h) ?gone) + ref_of ?d h" for h
    using length_filter_split [of "\<lambda>m. mf_hash m = h" "manifest_rows d" "\<lambda>m. mf_version m = v"] by (simp add: ref_of_def)
  then have "refs_pending ?gone ?d"
    using assms by (auto simp: refs_pending_def refs_ok_def)
  from rows_removed_ok [OF this, of now] show ?thesis
    by (simp add: delete_version_def)
qed

text \<open>Committing a version and deleting it again leaves every count as it was, and the blocks that only it named unreferenced.\<close>

theorem commit_then_delete:
  assumes "Pg_CommitFile U E t sid sha blocks d = (Inr (vid, n), d1)" and "refs_ok d" and "sys_ok d"
  shows "\<exists>v d2. vid = u_str U v \<and> delete_version now v d1 = Inr d2 \<and> manifest_rows d2 = manifest_rows d \<and> version_rows d2 = version_rows d \<and>
    (\<forall>b \<in> set (cas_rows d2). cb_refs b = int (ref_of d (cb_hash b)))"
proof -
  from assms(3) have ok: "refs_cover d" "versions_ok d" and owned: "mf_version ` set (manifest_rows d) \<subseteq> fv_id ` set (version_rows d)"
    by (simp_all add: sys_ok_def)
  from CommitFile_effect [OF assms(1)] obtain row hashes where
    vid: "vid = u_str U (fv_id row)" and vers: "version_rows d1 = version_rows d @ [row]"
    and mans: "manifest_rows d1 = manifest_rows d @ manifest_of (fv_id row) (zip hashes blocks)"
    by (metis version_row.select_convs(1))
  have "versions_ok d1"
    using commit_keeps_cover [OF assms(1) ok] by simp
  then have fresh: "fv_id row \<notin> fv_id ` set (version_rows d)"
    by (simp add: versions_ok_def vers del: upt_Suc)
  have "commit_body U E t sid sha blocks d = Inr ((vid, n), d1)"
    using assms(1) by (simp add: Pg_CommitFile_def in_tx_Inr)
  with commit_body_invariants assms(2) ok(2) have "refs_ok d1" by blast
  from delete_version_keeps_references [OF this, of now "fv_id row"] obtain d2 where
    d2: "delete_version now (fv_id row) d1 = Inr d2" "refs_ok d2"
    "manifest_rows d2 = filter (\<lambda>m. mf_version m \<noteq> fv_id row) (manifest_rows d1)"
    "version_rows d2 = filter (\<lambda>r. fv_id r \<noteq> fv_id row) (version_rows d1)"
    by blast
  have "mf_version m \<noteq> fv_id row" if "m \<in> set (manifest_rows d)" for m
    using owned that fresh by (metis imageI subsetD)
  then have "manifest_rows d2 = manifest_rows d"
    by (simp add: d2(3) mans manifest_of_def filter_empty_conv split_beta)
  moreover have "version_rows d2 = version_rows d"
    using fresh by (simp add: d2(4) vers image_iff filter_id_conv) metis
  ultimately show ?thesis
    using vid d2(1,2) by (intro exI [of _ "fv_id row"] exI [of _ d2]) (simp add: refs_ok_def ref_of_def)
qed

section \<open>Procedures and statements agree\<close>

text \<open>The Go statements do what the procedures do: for a positive limit the registry finds exactly the procedure's blocks, for no limit it takes a thousand where the
  procedure takes one; both delete the same rows, and the notice of the procedure counts those that were kept.\<close>

theorem procedures_match_registry:
  "(0 < n \<longrightarrow> (\<exists>bs. FindOrphans None now n d = Inr (map block_info bs) \<and>
      gc_find_unreferenced now GCSafetyWindow n d = map (\<lambda>b. (cb_hash b, cb_tenant b, cb_size b)) bs)) \<and>
   snd (DeleteBlocks None hs d) = snd (snd (gc_delete_unreferenced hs d)) \<and>
   fst (DeleteBlocks None hs d) = Inr (fst (gc_delete_unreferenced hs d)) \<and>
   (\<forall>k. fst (snd (gc_delete_unreferenced hs d)) = Some k \<longrightarrow> fst (gc_delete_unreferenced hs d) + k = int (length hs))"
proof -
  have "min (max n 1) 10000 = (if 10000 < n then 10000 else n)" if "0 < n"
    using that by simp
  then have "0 < n \<longrightarrow> (\<exists>bs. FindOrphans None now n d = Inr (map block_info bs) \<and>
      gc_find_unreferenced now GCSafetyWindow n d = map (\<lambda>b. (cb_hash b, cb_tenant b, cb_size b)) bs)"
    by (auto simp: FindOrphans_def gc_find_unreferenced_def Let_def)
  then show ?thesis
    by (auto simp: DeleteBlocks_def delete_unreferenced_def gc_delete_unreferenced_def Let_def)
qed

lemma ensure_audit_partition_idempotent:
  assumes "ensure_audit_partition date ps = (r, ps')"
  shows "ensure_audit_partition date ps' = (''exists:'' @ partition_name (fst date, fst (snd date)), ps') \<and>
    partition_name (fst date, fst (snd date)) \<in> fst ` set ps'"
  using assms by (auto simp: ensure_audit_partition_def Let_def split: if_splits)

end
