(* ===== verification/Parallel.thy ===== *)
theory Parallel
  imports Client Complex_Main
begin

text \<open>
  The goroutines of \<^verbatim>\<open>uploadChunksParallel\<close> (aegis/upload.go), one per chunk to upload, with their atomic steps interleaved in every way: the semaphore of ten, the
  upload, the locked section of \<^verbatim>\<open>chunkComplete\<close> and its callback outside of the lock, the atomic addition, the buffered error channel, the deferred release, the
  goroutine that closes the channel, and the caller that collects until the first error. Whether an upload succeeds is open.
\<close>

section \<open>Goroutines\<close>

definition defaultMaxParallel :: nat where
  "defaultMaxParallel = 10"

text \<open>Where a goroutine stands: before the semaphore; holding it; after its upload; after the locked section, with the count it read; after the callbacks; about to send, and then
  done sending, with whether it failed; and returned.\<close>

datatype phase = PWaiting | PHolding | PUploaded | PCounted int | PReported | PSending bool | PSent bool | PDone bool

datatype caller = Collecting | Returned int bool

text \<open>\<open>pu_chan\<close> is the error channel: whether each message is an error. \<open>pu_got\<close> are the messages received, \<open>pu_progress\<close> the counts reported to the progress callback.\<close>

record upload_run =
  pu_phase :: "nat \<Rightarrow> phase"
  pu_sem :: nat
  pu_uploadedBytes :: int
  pu_totalUploaded :: int
  pu_chan :: "bool list"
  pu_closed :: bool
  pu_got :: "bool list"
  pu_caller :: caller
  pu_progress :: "int list"

definition start_upload :: upload_run where
  "start_upload = \<lparr>pu_phase = (\<lambda>_. PWaiting), pu_sem = 0, pu_uploadedBytes = 0, pu_totalUploaded = 0, pu_chan = [], pu_closed = False, pu_got = [],
     pu_caller = Collecting, pu_progress = []\<rparr>"

text \<open>What \<^verbatim>\<open>chunkComplete\<close> passes to the callback for the count it read. The floating-point operations are arguments: \<open>f\<close> converts an integer, \<open>dv\<close> and \<open>ml\<close> divide and multiply, \<open>trunc\<close> converts to
  an integer; \<open>elapsed\<close> are the seconds since the start.\<close>

record UploadProgress =
  up_BytesUploaded :: int
  up_TotalBytes :: int
  up_PercentComplete :: rat
  up_EstimatedTimeRemaining :: duration
  up_CurrentBitrate :: rat

definition chunkComplete_report ::
  "(int \<Rightarrow> rat) \<Rightarrow> (rat \<Rightarrow> rat \<Rightarrow> rat) \<Rightarrow> (rat \<Rightarrow> rat \<Rightarrow> rat) \<Rightarrow> (rat \<Rightarrow> int) \<Rightarrow> int \<Rightarrow> rat \<Rightarrow> int \<Rightarrow> UploadProgress option" where
  "chunkComplete_report f dv ml trunc totalBytes elapsed uploaded =
     (if totalBytes = 0 then None
      else
        let bitrate = (if elapsed > 0 then dv (f uploaded) elapsed else 0);
            eta = (if elapsed > 0 then trunc (ml (dv (f (totalBytes - uploaded)) bitrate) (f Second)) else 0)
        in Some \<lparr>up_BytesUploaded = uploaded, up_TotalBytes = totalBytes, up_PercentComplete = ml (dv (f uploaded) (f totalBytes)) 100,
                 up_EstimatedTimeRemaining = eta, up_CurrentBitrate = bitrate\<rparr>)"

text \<open>\<open>sizes\<close> are the sizes of the chunks to upload. There is a callback and the file is not empty; otherwise a goroutine reports nothing.\<close>

inductive upload_step :: "int list \<Rightarrow> upload_run \<Rightarrow> upload_run \<Rightarrow> bool" for sizes where
  acquire: "i < length sizes \<Longrightarrow> pu_phase r i = PWaiting \<Longrightarrow> pu_sem r < defaultMaxParallel \<Longrightarrow>
    upload_step sizes r (r\<lparr>pu_phase := (pu_phase r)(i := PHolding), pu_sem := pu_sem r + 1\<rparr>)"
| fails: "i < length sizes \<Longrightarrow> pu_phase r i = PHolding \<Longrightarrow> upload_step sizes r (r\<lparr>pu_phase := (pu_phase r)(i := PSending True)\<rparr>)"
| uploads: "i < length sizes \<Longrightarrow> pu_phase r i = PHolding \<Longrightarrow> upload_step sizes r (r\<lparr>pu_phase := (pu_phase r)(i := PUploaded)\<rparr>)"
| counts: "i < length sizes \<Longrightarrow> pu_phase r i = PUploaded \<Longrightarrow>
    upload_step sizes r (r\<lparr>pu_phase := (pu_phase r)(i := PCounted (pu_uploadedBytes r + sizes ! i)), pu_uploadedBytes := pu_uploadedBytes r + sizes ! i\<rparr>)"
| reports: "i < length sizes \<Longrightarrow> pu_phase r i = PCounted u \<Longrightarrow>
    upload_step sizes r (r\<lparr>pu_phase := (pu_phase r)(i := PReported), pu_progress := pu_progress r @ [u]\<rparr>)"
| adds: "i < length sizes \<Longrightarrow> pu_phase r i = PReported \<Longrightarrow>
    upload_step sizes r (r\<lparr>pu_phase := (pu_phase r)(i := PSending False), pu_totalUploaded := pu_totalUploaded r + sizes ! i\<rparr>)"
| sends: "i < length sizes \<Longrightarrow> pu_phase r i = PSending e \<Longrightarrow>
    upload_step sizes r (r\<lparr>pu_phase := (pu_phase r)(i := PSent e), pu_chan := pu_chan r @ [e]\<rparr>)"
| returns: "i < length sizes \<Longrightarrow> pu_phase r i = PSent e \<Longrightarrow>
    upload_step sizes r (r\<lparr>pu_phase := (pu_phase r)(i := PDone e), pu_sem := pu_sem r - 1\<rparr>)"
| closes: "\<forall>i < length sizes. \<exists>e. pu_phase r i = PDone e \<Longrightarrow> \<not> pu_closed r \<Longrightarrow> upload_step sizes r (r\<lparr>pu_closed := True\<rparr>)"
| takes_nil: "pu_caller r = Collecting \<Longrightarrow> pu_chan r = False # c \<Longrightarrow> upload_step sizes r (r\<lparr>pu_chan := c, pu_got := pu_got r @ [False]\<rparr>)"
| takes_error: "pu_caller r = Collecting \<Longrightarrow> pu_chan r = True # c \<Longrightarrow>
    upload_step sizes r (r\<lparr>pu_chan := c, pu_got := pu_got r @ [True], pu_caller := Returned (pu_totalUploaded r) True\<rparr>)"
| finishes: "pu_caller r = Collecting \<Longrightarrow> pu_chan r = [] \<Longrightarrow> pu_closed r \<Longrightarrow>
    upload_step sizes r (r\<lparr>pu_caller := Returned (pu_totalUploaded r) False\<rparr>)"

definition uploads_to :: "int list \<Rightarrow> upload_run \<Rightarrow> upload_run \<Rightarrow> bool" where
  "uploads_to sizes = (upload_step sizes)\<^sup>*\<^sup>*"

section \<open>The invariant\<close>

definition over :: "int list \<Rightarrow> (phase \<Rightarrow> int \<Rightarrow> int) \<Rightarrow> (nat \<Rightarrow> phase) \<Rightarrow> int" where
  "over sizes f ph = (\<Sum>i < length sizes. f (ph i) (sizes ! i))"

fun holds_sem :: "phase \<Rightarrow> int \<Rightarrow> int" where
  "holds_sem PWaiting s = 0"
| "holds_sem (PDone e) s = 0"
| "holds_sem _ s = 1"

fun counted_bytes :: "phase \<Rightarrow> int \<Rightarrow> int" where
  "counted_bytes (PCounted u) s = s"
| "counted_bytes PReported s = s"
| "counted_bytes (PSending e) s = (if e then 0 else s)"
| "counted_bytes (PSent e) s = (if e then 0 else s)"
| "counted_bytes (PDone e) s = (if e then 0 else s)"
| "counted_bytes _ s = 0"

fun added_bytes :: "phase \<Rightarrow> int \<Rightarrow> int" where
  "added_bytes (PSending e) s = (if e then 0 else s)"
| "added_bytes (PSent e) s = (if e then 0 else s)"
| "added_bytes (PDone e) s = (if e then 0 else s)"
| "added_bytes _ s = 0"

fun sent_error :: "phase \<Rightarrow> int \<Rightarrow> int" where
  "sent_error (PSent e) s = (if e then 1 else 0)"
| "sent_error (PDone e) s = (if e then 1 else 0)"
| "sent_error _ s = 0"

fun sent_any :: "phase \<Rightarrow> int \<Rightarrow> int" where
  "sent_any (PSent e) s = 1"
| "sent_any (PDone e) s = 1"
| "sent_any _ s = 0"

definition errors :: "bool list \<Rightarrow> int" where
  "errors xs = int (length (filter id xs))"

definition sums_ok :: "int list \<Rightarrow> upload_run \<Rightarrow> bool" where
  "sums_ok sizes r \<longleftrightarrow>
     int (pu_sem r) = over sizes holds_sem (pu_phase r) \<and> pu_sem r \<le> defaultMaxParallel \<and>
     pu_uploadedBytes r = over sizes counted_bytes (pu_phase r) \<and> pu_totalUploaded r = over sizes added_bytes (pu_phase r) \<and>
     errors (pu_got r @ pu_chan r) = over sizes sent_error (pu_phase r) \<and> int (length (pu_got r @ pu_chan r)) = over sizes sent_any (pu_phase r)"

definition all_done :: "int list \<Rightarrow> upload_run \<Rightarrow> bool" where
  "all_done sizes r \<longleftrightarrow> (\<forall>i < length sizes. \<exists>e. pu_phase r i = PDone e)"

definition caller_ok :: "int list \<Rightarrow> upload_run \<Rightarrow> bool" where
  "caller_ok sizes r \<longleftrightarrow> (pu_closed r \<longrightarrow> all_done sizes r) \<and>
     (case pu_caller r of
        Collecting \<Rightarrow> errors (pu_got r) = 0
      | Returned n e \<Rightarrow> if e then 0 < errors (pu_got r) else pu_closed r \<and> errors (pu_got r @ pu_chan r) = 0 \<and> n = over sizes added_bytes (pu_phase r))"

definition upload_ok :: "int list \<Rightarrow> upload_run \<Rightarrow> bool" where
  "upload_ok sizes r \<longleftrightarrow> sums_ok sizes r \<and> caller_ok sizes r"

lemma over_upd: "i < length sizes \<Longrightarrow> over sizes f (ph(i := x)) = over sizes f ph - f (ph i) (sizes ! i) + f x (sizes ! i)"
proof -
  assume i: "i < length sizes"
  have split: "over sizes f g = (\<Sum>j \<in> {..<length sizes} - {i}. f (g j) (sizes ! j)) + f (g i) (sizes ! i)" for g
    unfolding over_def using i by (subst sum.remove [of _ i]) auto
  show ?thesis
    unfolding split [of "ph(i := x)"] split [of ph] by simp
qed

lemma errors_simps [simp]: "errors [] = 0" "errors (x # xs) = (if x then 1 else 0) + errors xs" "errors (xs @ ys) = errors xs + errors ys"
  by (simp_all add: errors_def)

lemma errors_nonneg [simp]: "0 \<le> errors xs"
  by (simp add: errors_def)


lemma over_nonneg: "(\<And>p s. s \<in> set sizes \<Longrightarrow> 0 \<le> f p s) \<Longrightarrow> 0 \<le> over sizes f ph"
  unfolding over_def by (intro sum_nonneg) simp

lemma over_pos:
  assumes "i < length sizes" and "\<And>p s. 0 \<le> f p s" and "0 < f (ph i) (sizes ! i)"
  shows "0 < over sizes f ph"
  unfolding over_def using assms by (intro sum_pos2 [of _ i]) auto

lemma holds_sem_nonneg [simp]: "0 \<le> holds_sem p s"
  by (cases "(p, s)" rule: holds_sem.cases) auto

lemma sent_error_nonneg [simp]: "0 \<le> sent_error p s"
  by (cases "(p, s)" rule: sent_error.cases) auto

lemma start_upload_ok: "upload_ok sizes start_upload"
  by (simp add: upload_ok_def sums_ok_def caller_ok_def start_upload_def over_def)

text \<open>A step of a goroutine that has not returned: the sums change by the goroutine's own shares, and neither the channel is closed nor did the caller return without an error.\<close>

lemma goroutine_step_ok:
  assumes ok: "upload_ok sizes r" and i: "i < length sizes" and live: "\<forall>e. pu_phase r i \<noteq> PDone e"
    and r': "pu_phase r' = (pu_phase r)(i := q)" "pu_closed r' = pu_closed r" "pu_got r' = pu_got r" "pu_caller r' = pu_caller r"
    and sem: "int (pu_sem r') = int (pu_sem r) - holds_sem (pu_phase r i) (sizes ! i) + holds_sem q (sizes ! i)" "pu_sem r' \<le> defaultMaxParallel"
    and bytes: "pu_uploadedBytes r' = pu_uploadedBytes r - counted_bytes (pu_phase r i) (sizes ! i) + counted_bytes q (sizes ! i)"
      "pu_totalUploaded r' = pu_totalUploaded r - added_bytes (pu_phase r i) (sizes ! i) + added_bytes q (sizes ! i)"
    and sent: "errors (pu_chan r') = errors (pu_chan r) - sent_error (pu_phase r i) (sizes ! i) + sent_error q (sizes ! i)"
      "int (length (pu_chan r')) = int (length (pu_chan r)) - sent_any (pu_phase r i) (sizes ! i) + sent_any q (sizes ! i)"
  shows "upload_ok sizes r'"
proof -
  from ok have sums: "sums_ok sizes r" and caller: "caller_ok sizes r"
    by (simp_all add: upload_ok_def)
  have "sums_ok sizes r'"
    unfolding sums_ok_def r'(1) over_upd [OF i] using sums sem bytes sent r'(3) by (simp add: sums_ok_def)
  moreover have "\<not> all_done sizes r"
    using i live by (auto simp: all_done_def)
  then have "\<not> pu_closed r"
    using caller by (auto simp: caller_ok_def)
  then have "caller_ok sizes r'"
    using caller unfolding caller_ok_def r'(2-4) by (auto split: caller.splits if_splits)
  ultimately show ?thesis
    by (simp add: upload_ok_def)
qed

lemma upload_ok_sem: "upload_ok sizes r \<Longrightarrow> pu_sem r \<le> defaultMaxParallel"
  by (simp add: upload_ok_def sums_ok_def)

lemma upload_step_ok: "upload_step sizes r r' \<Longrightarrow> upload_ok sizes r \<Longrightarrow> upload_ok sizes r'"
proof (induction rule: upload_step.induct)
  case (acquire i r)
  then show ?case by - (rule goroutine_step_ok [of sizes r i _ "PHolding"], simp_all)
next
  case (fails i r)
  then show ?case using upload_ok_sem [OF fails.prems] by - (rule goroutine_step_ok [of sizes r i _ "PSending True"], simp_all)
next
  case (uploads i r)
  then show ?case using upload_ok_sem [OF uploads.prems] by - (rule goroutine_step_ok [of sizes r i _ "PUploaded"], simp_all)
next
  case (counts i r)
  then show ?case using upload_ok_sem [OF counts.prems] by - (rule goroutine_step_ok [of sizes r i _ "PCounted (pu_uploadedBytes r + sizes ! i)"], simp_all)
next
  case (reports i r u)
  then show ?case using upload_ok_sem [OF reports.prems] by - (rule goroutine_step_ok [of sizes r i _ "PReported"], simp_all)
next
  case (adds i r)
  then show ?case using upload_ok_sem [OF adds.prems] by - (rule goroutine_step_ok [of sizes r i _ "PSending False"], simp_all)
next
  case (sends i r e)
  then show ?case using upload_ok_sem [OF sends.prems] by - (rule goroutine_step_ok [of sizes r i _ "PSent e"], simp_all)
next
  case (returns i r e)
  have "0 < over sizes holds_sem (pu_phase r)"
    using returns.hyps by (intro over_pos [of i]) simp_all
  then have "0 < pu_sem r"
    using returns.prems by (simp add: upload_ok_def sums_ok_def)
  then show ?case
    using returns upload_ok_sem [OF returns.prems] by - (rule goroutine_step_ok [of sizes r i _ "PDone e"], simp_all add: of_nat_diff)
next
  case (closes r)
  then show ?case
    by (simp add: upload_ok_def sums_ok_def caller_ok_def all_done_def split: caller.splits if_splits)
next
  case (takes_nil r c)
  then show ?case by (simp add: upload_ok_def sums_ok_def caller_ok_def all_done_def)
next
  case (takes_error r c)
  then show ?case by (simp add: upload_ok_def sums_ok_def caller_ok_def all_done_def)
next
  case (finishes r)
  then show ?case by (simp add: upload_ok_def sums_ok_def caller_ok_def all_done_def)
qed

lemma uploads_to_ok: "uploads_to sizes r r' \<Longrightarrow> upload_ok sizes r \<Longrightarrow> upload_ok sizes r'"
  unfolding uploads_to_def by (induction rule: rtranclp_induct) (auto intro: upload_step_ok)

section \<open>Progress\<close>

fun phase_left :: "phase \<Rightarrow> nat" where
  "phase_left PWaiting = 8"
| "phase_left PHolding = 7"
| "phase_left PUploaded = 6"
| "phase_left (PCounted u) = 5"
| "phase_left PReported = 4"
| "phase_left (PSending e) = 3"
| "phase_left (PSent e) = 1"
| "phase_left (PDone e) = 0"

definition upload_measure :: "int list \<Rightarrow> upload_run \<Rightarrow> nat" where
  "upload_measure sizes r = (\<Sum>i < length sizes. phase_left (pu_phase r i)) + length (pu_chan r) + (if pu_closed r then 0 else 1) +
     (case pu_caller r of Collecting \<Rightarrow> 1 | Returned n e \<Rightarrow> 0)"

lemma sum_upd_less:
  assumes "i < length sizes" and "phase_left x + k < phase_left (ph i)"
  shows "(\<Sum>j < length sizes. phase_left ((ph(i := x)) j)) + k < (\<Sum>j < length sizes. phase_left (ph j))"
proof -
  have split: "(\<Sum>j < length sizes. phase_left (g j)) = phase_left (g i) + (\<Sum>j \<in> {..<length sizes} - {i}. phase_left (g j))" for g
    using assms(1) by (subst sum.remove [of _ i]) auto
  show ?thesis
    unfolding split [of "ph(i := x)"] split [of ph] using assms(2) by simp
qed

lemma goroutine_measure:
  assumes "i < length sizes" and "phase_left q + k < phase_left (pu_phase r i)"
    and "pu_phase r' = (pu_phase r)(i := q)" "length (pu_chan r') = length (pu_chan r) + k" "pu_closed r' = pu_closed r" "pu_caller r' = pu_caller r"
  shows "upload_measure sizes r' < upload_measure sizes r"
  using sum_upd_less [of i sizes q k "pu_phase r", OF assms(1,2)] assms(3-6) by (simp add: upload_measure_def)

lemma upload_step_measure: "upload_step sizes r r' \<Longrightarrow> upload_measure sizes r' < upload_measure sizes r"
proof (induction rule: upload_step.induct)
  case (sends i r e)
  then show ?case by (intro goroutine_measure [of i sizes "PSent e" 1]) simp_all
next
  case (closes r)
  then show ?case by (simp add: upload_measure_def)
next
  case (takes_nil r c)
  then show ?case by (simp add: upload_measure_def)
next
  case (takes_error r c)
  then show ?case by (simp add: upload_measure_def)
next
  case (finishes r)
  then show ?case by (simp add: upload_measure_def)
qed (rule goroutine_measure [where k = 0], simp_all)+


lemma over_sum: "(\<And>i. i < length sizes \<Longrightarrow> f (ph i) (sizes ! i) = sizes ! i) \<Longrightarrow> over sizes f ph = sum_list sizes"
  unfolding over_def by (simp add: sum_list_sum_nth atLeast0LessThan)

lemma sent_any_le: "over sizes sent_any ph \<le> int (length sizes)"
proof -
  have "sent_any p s \<le> 1" for p s
    by (cases "(p, s)" rule: sent_any.cases) auto
  then have "over sizes sent_any ph \<le> (\<Sum>i < length sizes. 1)"
    unfolding over_def by (intro sum_mono) simp
  then show ?thesis by simp
qed

definition in_flight :: "int list \<Rightarrow> upload_run \<Rightarrow> nat set" where
  "in_flight sizes r = {i. i < length sizes \<and> pu_phase r i \<noteq> PWaiting \<and> (\<forall>e. pu_phase r i \<noteq> PDone e)}"

lemma over_holds: "over sizes holds_sem (pu_phase r) = int (card (in_flight sizes r))"
proof -
  have "holds_sem p s = (if p \<noteq> PWaiting \<and> (\<forall>e. p \<noteq> PDone e) then 1 else 0)" for p s
    by (cases "(p, s)" rule: holds_sem.cases) auto
  then have "over sizes holds_sem (pu_phase r) =
      (\<Sum>i \<in> {..<length sizes}. if pu_phase r i \<noteq> PWaiting \<and> (\<forall>e. pu_phase r i \<noteq> PDone e) then 1 else 0)"
    by (simp add: over_def)
  also have "\<dots> = int (card {i \<in> {..<length sizes}. pu_phase r i \<noteq> PWaiting \<and> (\<forall>e. pu_phase r i \<noteq> PDone e)})"
    by (simp add: sum.inter_filter [symmetric])
  finally show ?thesis
    by (simp add: in_flight_def lessThan_def)
qed

lemma no_errors_sent:
  assumes "over sizes sent_error (pu_phase r) = 0" and "all_done sizes r" and "i < length sizes"
  shows "pu_phase r i = PDone False"
proof (rule ccontr)
  assume "pu_phase r i \<noteq> PDone False"
  with assms(2,3) have "pu_phase r i = PDone True"
    by (auto simp: all_done_def)
  then have "0 < over sizes sent_error (pu_phase r)"
    using assms(3) by (intro over_pos [of i]) simp_all
  with assms(1) show False by simp
qed

text \<open>C16. However the goroutines of a parallel upload interleave: at most ten of them are between the semaphore and its release, the error channel never fills up, so that no goroutine blocks
  on it, and when the caller returns without an error, every chunk was uploaded and the number of bytes it returns, like the one shown as progress, is the sum of the
  sizes of the work; when it returns an error, some chunk failed.\<close>

theorem parallel_upload_exact:
  assumes "uploads_to sizes start_upload r"
  shows "card (in_flight sizes r) \<le> defaultMaxParallel \<and> pu_sem r = card (in_flight sizes r) \<and> length (pu_got r) + length (pu_chan r) \<le> length sizes \<and>
    (\<forall>n. pu_caller r = Returned n False \<longrightarrow> n = sum_list sizes \<and> pu_uploadedBytes r = n \<and> (\<forall>i < length sizes. pu_phase r i = PDone False)) \<and>
    (\<forall>n. pu_caller r = Returned n True \<longrightarrow> (\<exists>i < length sizes. pu_phase r i \<in> {PSent True, PDone True}))"
proof -
  from uploads_to_ok [OF assms start_upload_ok] have sums: "sums_ok sizes r" and caller: "caller_ok sizes r"
    by (simp_all add: upload_ok_def)
  from sums have sem: "pu_sem r = card (in_flight sizes r)" "pu_sem r \<le> defaultMaxParallel"
    by (simp_all add: sums_ok_def over_holds)
  have chan: "length (pu_got r) + length (pu_chan r) \<le> length sizes"
    using sums sent_any_le [of sizes "pu_phase r"] by (simp add: sums_ok_def)
  have success: "n = sum_list sizes \<and> pu_uploadedBytes r = n \<and> (\<forall>i < length sizes. pu_phase r i = PDone False)" if "pu_caller r = Returned n False" for n
  proof -
    from caller that have closed: "all_done sizes r" and none: "errors (pu_got r @ pu_chan r) = 0" and n: "n = over sizes added_bytes (pu_phase r)"
      by (simp_all add: caller_ok_def)
    then have all: "pu_phase r i = PDone False" if "i < length sizes" for i
      using no_errors_sent [OF _ closed that] sums by (simp add: sums_ok_def)
    have "n = sum_list sizes"
      unfolding n by (rule over_sum) (simp add: all)
    moreover have "pu_uploadedBytes r = sum_list sizes"
      using sums over_sum [of sizes counted_bytes "pu_phase r"] all by (simp add: sums_ok_def)
    ultimately show ?thesis using all by simp
  qed
  have failure: "\<exists>i < length sizes. pu_phase r i \<in> {PSent True, PDone True}" if "pu_caller r = Returned n True" for n
  proof (rule ccontr)
    assume none: "\<not> ?thesis"
    have "sent_error p s = 0" if "p \<noteq> PSent True" "p \<noteq> PDone True" for p s
      using that by (cases "(p, s)" rule: sent_error.cases) auto
    with none have "over sizes sent_error (pu_phase r) = 0"
      unfolding over_def by (intro sum.neutral) auto
    moreover have "0 < errors (pu_got r)"
      using caller that by (simp add: caller_ok_def)
    ultimately show False
      using sums errors_nonneg [of "pu_chan r"] by (simp add: sums_ok_def)
  qed
  show ?thesis
    using sem chan success failure by auto
qed

lemma upload_step_enabled:
  assumes "upload_ok sizes r" and "pu_caller r = Collecting"
  shows "\<exists>r'. upload_step sizes r r'"
proof (cases "all_done sizes r")
  case True
  show ?thesis
  proof (cases "pu_closed r")
    case False
    with True show ?thesis
      using closes [of sizes r] by (auto simp: all_done_def)
  next
    case closed: True
    show ?thesis
    proof (cases "pu_chan r")
      case Nil
      with closed assms(2) finishes [of r sizes] show ?thesis by blast
    next
      case (Cons e c)
      then show ?thesis
        using takes_nil [OF assms(2), of c sizes] takes_error [OF assms(2), of c sizes] by (cases e) auto
    qed
  qed
next
  case False
  show ?thesis
  proof (cases "in_flight sizes r = {}")
    case True
    from False obtain i where i: "i < length sizes" "\<forall>e. pu_phase r i \<noteq> PDone e"
      by (auto simp: all_done_def)
    with True have "pu_phase r i = PWaiting"
      by (auto simp: in_flight_def)
    moreover have "pu_sem r = 0"
      using assms(1) True by (simp add: upload_ok_def sums_ok_def over_holds)
    ultimately show ?thesis
      using acquire [of i sizes r] i by (auto simp: defaultMaxParallel_def)
  next
    case False
    then obtain i where i: "i < length sizes" "pu_phase r i \<noteq> PWaiting" "\<forall>e. pu_phase r i \<noteq> PDone e"
      by (auto simp: in_flight_def)
    then show ?thesis
      using uploads [of i sizes r] counts [of i sizes r] reports [of i sizes r] adds [of i sizes r] sends [of i sizes r] returns [of i sizes r]
      by (cases "pu_phase r i") blast+
  qed
qed

text \<open>C25. A parallel upload does not hang: while the caller has not returned, some goroutine, the closing one or the caller itself can take a step, and every step uses up one of at most
  nine for each chunk and two more.\<close>

theorem parallel_upload_returns:
  assumes "uploads_to sizes start_upload r" and "pu_caller r = Collecting"
  shows "(\<exists>r'. upload_step sizes r r') \<and> (\<forall>r'. upload_step sizes r r' \<longrightarrow> upload_measure sizes r' < upload_measure sizes r) \<and>
    upload_measure sizes start_upload \<le> 9 * length sizes + 2"
  using upload_step_enabled [OF uploads_to_ok [OF assms(1) start_upload_ok] assms(2)] upload_step_measure
  by (auto simp: upload_measure_def start_upload_def)


section \<open>Progress reports\<close>

lemma uploads_to_step: "uploads_to sizes a b \<Longrightarrow> upload_step sizes b c \<Longrightarrow> uploads_to sizes a c"
  unfolding uploads_to_def by (rule rtranclp.rtrancl_into_rtrancl)

lemma uploads_to_refl: "uploads_to sizes a a"
  by (simp add: uploads_to_def)

text \<open>The callback runs outside of the lock: a caller can be told of thirty bytes first and of ten afterwards.\<close>

lemma progress_goes_back: "\<exists>r. uploads_to [10, 20] start_upload r \<and> pu_progress r = [30, 10]"
proof -
  let ?s = "[10, 20] :: int list"
  note go = uploads_to_step
  note steps = go [OF go [OF go [OF go [OF go [OF go [OF go [OF go [OF uploads_to_refl
    acquire [of 0 ?s]] acquire [of 1 ?s]] uploads [of 0 ?s]] uploads [of 1 ?s]] counts [of 0 ?s]] counts [of 1 ?s]]
    reports [of 1 ?s _ 30]] reports [of 0 ?s _ 10]]
  show ?thesis
    by (intro exI conjI) (rule steps [of start_upload], simp_all add: start_upload_def defaultMaxParallel_def)
qed

text \<open>The percentage is taken of the whole file while only uploaded chunks count: when the server had some chunks already, the last report of a complete upload stays below a hundred.\<close>

lemma deduplicated_never_complete:
  assumes "sum_list sizes < totalBytes" and "0 < totalBytes" and "uploads_to sizes start_upload r" and "pu_caller r = Returned n False"
  shows "\<exists>rep. chunkComplete_report of_int (/) (*) floor totalBytes elapsed (pu_uploadedBytes r) = Some rep \<and> up_PercentComplete rep < 100"
proof -
  have "sums_ok sizes r" "caller_ok sizes r"
    using uploads_to_ok [OF assms(3) start_upload_ok] by (simp_all add: upload_ok_def)
  then have "pu_uploadedBytes r = over sizes counted_bytes (pu_phase r)" and finished: "all_done sizes r" and none: "over sizes sent_error (pu_phase r) = 0"
    using assms(4) by (simp_all add: sums_ok_def caller_ok_def)
  moreover have "over sizes counted_bytes (pu_phase r) = sum_list sizes"
    by (rule over_sum) (simp add: no_errors_sent [OF none finished])
  ultimately have "pu_uploadedBytes r < totalBytes"
    using assms(1) by simp
  then have "of_int (pu_uploadedBytes r) / of_int totalBytes * 100 < (100 :: rat)"
    using assms(2) by (simp add: divide_less_eq)
  then show ?thesis
    using assms(2) by (simp add: chunkComplete_report_def Let_def)
qed

section \<open>Witnesses\<close>

lemma one_chunk_run:
  "\<exists>r. uploads_to [10] start_upload r \<and> pu_caller r = Returned 10 False"
proof -
  let ?s = "[10] :: int list"
  note go = uploads_to_step
  note steps = go [OF go [OF go [OF go [OF go [OF go [OF go [OF go [OF go [OF go [OF uploads_to_refl
    acquire [of 0 ?s]] uploads [of 0 ?s]] counts [of 0 ?s]] reports [of 0 ?s _ 10]] adds [of 0 ?s]] sends [of 0 ?s _ False]] returns [of 0 ?s _ False]]
    closes [of ?s]] takes_nil [of _ "[]"]] finishes]
  show ?thesis
    by (intro exI conjI) (rule steps [of start_upload], auto simp: start_upload_def defaultMaxParallel_def)
qed

theorem parallel_upload_exact_witness:
  "\<exists>r. uploads_to [10] start_upload r \<and> pu_caller r = Returned 10 False \<and> pu_uploadedBytes r = 10 \<and> pu_phase r 0 = PDone False"
proof -
  obtain r where r: "uploads_to [10] start_upload r" "pu_caller r = Returned 10 False"
    using one_chunk_run by blast
  from parallel_upload_exact [OF r(1)] r show ?thesis
    by (intro exI [of _ r]) simp
qed

theorem parallel_upload_returns_witness: "\<exists>r. upload_step [10] start_upload r"
  using parallel_upload_returns [OF uploads_to_refl, of "[10]"] by (simp add: start_upload_def)

end
