(* ===== verification/Bridge.thy ===== *)
theory Bridge
  imports Derivation
begin

text \<open>
  The derivation bridge at run time (cmd/ingest/derivation_bridge.go): requests publish into the channel of 256 events while the consumer goroutine, started once, takes them out, until it sees the
  cancelled context or the closed stop channel, drains what it finds and returns. Publishing, taking and the decisions of the \<^verbatim>\<open>select\<close> are atomic; processing an event
  by the pool takes a step of its own, during which others publish.
\<close>

section \<open>Publishers and the consumer\<close>

datatype consumer_pc = Receiving | Busy Event | Draining | DrainBusy Event | Gone

text \<open>\<open>dr_accepted\<close> and \<open>dr_dropped\<close> are the events that publishers offered, by what became of the offer; \<open>dr_processed\<close> is what the pool has handled.\<close>

record bridge_run =
  dr_bridge :: derivationBridge
  dr_pc :: consumer_pc
  dr_cancelled :: bool
  dr_stopped :: bool
  dr_panicked :: bool
  dr_accepted :: "Event list"
  dr_dropped :: "Event list"
  dr_processed :: "Event list"
  dr_pool :: WorkerPool

definition newDerivationBridge :: derivationBridge where
  "newDerivationBridge = \<lparr>db_events = []\<rparr>"

definition start_bridge :: "WorkerPool \<Rightarrow> bridge_run" where
  "start_bridge p = \<lparr>dr_bridge = newDerivationBridge, dr_pc = Receiving, dr_cancelled = False, dr_stopped = False, dr_panicked = False, dr_accepted = [],
     dr_dropped = [], dr_processed = [], dr_pool = p\<rparr>"

definition publish_event :: "FileCommittedEvent \<Rightarrow> bridge_run \<Rightarrow> bridge_run" where
  "publish_event e r =
     (let full = \<not> length (db_events (dr_bridge r)) < 256
      in r\<lparr>dr_bridge := PublishFileCommitted e (dr_bridge r),
           dr_accepted := (if full then dr_accepted r else dr_accepted r @ [to_event e]),
           dr_dropped := (if full then dr_dropped r @ [to_event e] else dr_dropped r)\<rparr>)"

definition handle_event :: "(Event \<Rightarrow> ('w Worker \<times> 'w) list) \<Rightarrow> (Event \<Rightarrow> nat \<Rightarrow> ambient) \<Rightarrow> Event \<Rightarrow> bridge_run \<Rightarrow> bridge_run" where
  "handle_event ws ams e r = r\<lparr>dr_processed := dr_processed r @ [e], dr_pool := snd (ProcessEvent (ws e) (ams e) e (dr_pool r))\<rparr>"

text \<open>Closing the stop channel a second time panics.\<close>

inductive bridge_step :: "(Event \<Rightarrow> ('w Worker \<times> 'w) list) \<Rightarrow> (Event \<Rightarrow> nat \<Rightarrow> ambient) \<Rightarrow> bridge_run \<Rightarrow> bridge_run \<Rightarrow> bool" for ws ams where
  publish: "bridge_step ws ams r (publish_event e r)"
| takes: "dr_pc r = Receiving \<Longrightarrow> db_events (dr_bridge r) = e # es \<Longrightarrow>
    bridge_step ws ams r (r\<lparr>dr_bridge := (dr_bridge r)\<lparr>db_events := es\<rparr>, dr_pc := Busy e\<rparr>)"
| handled: "dr_pc r = Busy e \<Longrightarrow> bridge_step ws ams r ((handle_event ws ams e r)\<lparr>dr_pc := Receiving\<rparr>)"
| sees_end: "dr_pc r = Receiving \<Longrightarrow> dr_cancelled r \<or> dr_stopped r \<Longrightarrow> bridge_step ws ams r (r\<lparr>dr_pc := Draining\<rparr>)"
| drains: "dr_pc r = Draining \<Longrightarrow> db_events (dr_bridge r) = e # es \<Longrightarrow>
    bridge_step ws ams r (r\<lparr>dr_bridge := (dr_bridge r)\<lparr>db_events := es\<rparr>, dr_pc := DrainBusy e\<rparr>)"
| drained_one: "dr_pc r = DrainBusy e \<Longrightarrow> bridge_step ws ams r ((handle_event ws ams e r)\<lparr>dr_pc := Draining\<rparr>)"
| leaves: "dr_pc r = Draining \<Longrightarrow> db_events (dr_bridge r) = [] \<Longrightarrow> bridge_step ws ams r (r\<lparr>dr_pc := Gone\<rparr>)"
| cancels: "bridge_step ws ams r (r\<lparr>dr_cancelled := True\<rparr>)"
| stops: "\<not> dr_stopped r \<Longrightarrow> bridge_step ws ams r (r\<lparr>dr_stopped := True\<rparr>)"
| stops_again: "dr_stopped r \<Longrightarrow> bridge_step ws ams r (r\<lparr>dr_panicked := True\<rparr>)"

definition bridge_runs :: "(Event \<Rightarrow> ('w Worker \<times> 'w) list) \<Rightarrow> (Event \<Rightarrow> nat \<Rightarrow> ambient) \<Rightarrow> bridge_run \<Rightarrow> bridge_run \<Rightarrow> bool" where
  "bridge_runs ws ams = (bridge_step ws ams)\<^sup>*\<^sup>*"

section \<open>What becomes of an event\<close>

fun in_hand :: "consumer_pc \<Rightarrow> Event list" where
  "in_hand (Busy e) = [e]"
| "in_hand (DrainBusy e) = [e]"
| "in_hand _ = []"

definition bridge_ok :: "(Event \<Rightarrow> ('w Worker \<times> 'w) list) \<Rightarrow> (Event \<Rightarrow> nat \<Rightarrow> ambient) \<Rightarrow> WorkerPool \<Rightarrow> bridge_run \<Rightarrow> bool" where
  "bridge_ok ws ams p r \<longleftrightarrow>
     dr_accepted r = dr_processed r @ in_hand (dr_pc r) @ db_events (dr_bridge r) \<and> length (db_events (dr_bridge r)) \<le> 256 \<and>
     dr_pool r = drain_events ws ams (dr_processed r) p \<and>
     (dr_pc r \<in> {Receiving} \<union> range Busy \<or> dr_cancelled r \<or> dr_stopped r)"

lemma drain_events_snoc: "drain_events ws ams (es @ [e]) p = snd (ProcessEvent (ws e) (ams e) e (drain_events ws ams es p))"
  by (induction es arbitrary: p) auto

lemma bridge_step_ok: "bridge_step ws ams r r' \<Longrightarrow> bridge_ok ws ams p r \<Longrightarrow> bridge_ok ws ams p r'"
proof (induction rule: bridge_step.induct)
  case (publish r e)
  then show ?case
    by (auto simp: bridge_ok_def publish_event_def PublishFileCommitted_def Let_def)
qed (auto simp: bridge_ok_def handle_event_def drain_events_snoc)

lemma bridge_runs_ok: "bridge_runs ws ams r r' \<Longrightarrow> bridge_ok ws ams p r \<Longrightarrow> bridge_ok ws ams p r'"
  unfolding bridge_runs_def by (induction rule: rtranclp_induct) (auto intro: bridge_step_ok)

lemma start_bridge_ok: "bridge_ok ws ams p (start_bridge p)"
  by (simp add: bridge_ok_def start_bridge_def newDerivationBridge_def)

text \<open>C17. No event is lost inside the bridge, doubled or overtaken: at every moment the accepted events are, in their order, those the pool has processed, the one it is processing and those still in
  the channel, of which there are at most 256; the pool's state is that of processing exactly these; and the consumer drains only after the context was cancelled or the bridge stopped.\<close>

theorem bridge_accounts_for_events:
  assumes "bridge_runs ws ams (start_bridge p) r"
  shows "dr_accepted r = dr_processed r @ in_hand (dr_pc r) @ db_events (dr_bridge r) \<and> length (db_events (dr_bridge r)) \<le> 256 \<and>
    dr_pool r = drain_events ws ams (dr_processed r) p \<and>
    wp_eventsProcessed (dr_pool r) = wp_eventsProcessed p + length (dr_processed r) \<and>
    (dr_pc r \<in> {Draining, Gone} \<longrightarrow> dr_cancelled r \<or> dr_stopped r)"
proof -
  have ok: "bridge_ok ws ams p r"
    using assms start_bridge_ok by (rule bridge_runs_ok)
  then have "dr_pc r \<in> {Draining, Gone} \<longrightarrow> dr_cancelled r \<or> dr_stopped r"
    by (auto simp: bridge_ok_def)
  with ok show ?thesis
    by (simp add: bridge_ok_def drain_events_processed)
qed

text \<open>An offer fails only on a full channel.\<close>

lemma publish_drops_only_when_full:
  "length (db_events (dr_bridge r)) < 256 \<Longrightarrow> dr_dropped (publish_event e r) = dr_dropped r \<and> dr_accepted (publish_event e r) = dr_accepted r @ [to_event e]"
  by (simp add: publish_event_def)

text \<open>The drain is not the end: a request that publishes after the consumer has left succeeds, and its event stays in the channel for ever.\<close>

lemma gone_stays: "bridge_runs ws ams r r' \<Longrightarrow> dr_pc r = Gone \<Longrightarrow> dr_pc r' = Gone \<and> dr_processed r' = dr_processed r"
  unfolding bridge_runs_def
proof (induction rule: rtranclp_induct)
  case (step y z)
  from step.hyps(2) step.IH [OF step.prems] step.prems show ?case
    by (induction rule: bridge_step.induct) (auto simp: publish_event_def Let_def)
qed simp

theorem event_after_drain_stranded:
  "\<exists>r. bridge_runs ws ams (start_bridge p) r \<and> to_event e \<in> set (dr_accepted r) \<and>
     (\<forall>r'. bridge_runs ws ams r r' \<longrightarrow> to_event e \<notin> set (dr_processed r'))"
proof -
  define r1 where "r1 = (start_bridge p)\<lparr>dr_stopped := True\<rparr>"
  define r2 where "r2 = r1\<lparr>dr_pc := Draining\<rparr>"
  define r3 where "r3 = r2\<lparr>dr_pc := Gone\<rparr>"
  have s1: "bridge_step ws ams (start_bridge p) r1"
    unfolding r1_def by (rule stops) (simp add: start_bridge_def)
  have s2: "bridge_step ws ams r1 r2"
    unfolding r2_def by (rule sees_end) (simp_all add: r1_def start_bridge_def)
  have s3: "bridge_step ws ams r2 r3"
    unfolding r3_def by (rule leaves) (simp_all add: r2_def r1_def start_bridge_def newDerivationBridge_def)
  have "bridge_runs ws ams (start_bridge p) (publish_event e r3)"
    unfolding bridge_runs_def using s1 s2 s3 bridge_step.publish [of ws ams r3 e]
    by (meson rtranclp.rtrancl_into_rtrancl rtranclp.rtrancl_refl)
  moreover have "dr_pc (publish_event e r3) = Gone" "dr_processed (publish_event e r3) = []"
    "dr_accepted (publish_event e r3) = [to_event e]"
    by (simp_all add: publish_event_def r3_def r2_def r1_def start_bridge_def newDerivationBridge_def Let_def)
  ultimately show ?thesis
    using gone_stays [of ws ams "publish_event e r3"] by (intro exI [of _ "publish_event e r3"]) auto
qed

section \<open>Witness\<close>

definition demo_committed :: FileCommittedEvent where
  "demo_committed = \<lparr>fe_EventID = ''e'', fe_EventType = ''VERSION_COMMITTED'', fe_TenantID = ''t'', fe_NodeID = ''n'', fe_VersionID = ''v'', fe_VersionNumber = 1,
     fe_TotalSize = 10, fe_MimeType = ''text/plain'', fe_ContentSHA256 = '''', fe_CreatedAt = 0, fe_Chunks = [], fe_BlockHashes = []\<rparr>"

definition demo_busy :: bridge_run where
  "demo_busy = (start_bridge demo_pool)\<lparr>dr_accepted := [to_event demo_committed], dr_pc := Busy (to_event demo_committed)\<rparr>"

theorem bridge_accounts_for_events_witness:
  "wp_eventsProcessed (dr_pool ((handle_event (\<lambda>_. demo_workers) (\<lambda>_ _. demo_ambient) (to_event demo_committed) demo_busy)\<lparr>dr_pc := Receiving\<rparr>)) =
     wp_eventsProcessed demo_pool + 1"
proof -
  let ?ws = "\<lambda>_ :: Event. demo_workers" and ?ams = "\<lambda>(_ :: Event) (_ :: nat). demo_ambient"
  let ?r1 = "publish_event demo_committed (start_bridge demo_pool)"
  let ?r3 = "(handle_event ?ws ?ams (to_event demo_committed) demo_busy)\<lparr>dr_pc := Receiving\<rparr>"
  have s1: "bridge_step ?ws ?ams (start_bridge demo_pool) ?r1"
    by (rule publish)
  have "db_events (dr_bridge ?r1) = to_event demo_committed # []" "dr_pc ?r1 = Receiving"
    by (simp_all add: publish_event_def start_bridge_def newDerivationBridge_def PublishFileCommitted_def Let_def)
  note takes [OF this(2,1), of ?ws ?ams]
  moreover have "?r1\<lparr>dr_bridge := (dr_bridge ?r1)\<lparr>db_events := []\<rparr>, dr_pc := Busy (to_event demo_committed)\<rparr> = demo_busy"
    by (simp add: demo_busy_def publish_event_def start_bridge_def newDerivationBridge_def PublishFileCommitted_def Let_def)
  ultimately have s2: "bridge_step ?ws ?ams ?r1 demo_busy"
    by simp
  have s3: "bridge_step ?ws ?ams demo_busy ?r3"
    by (rule handled) (simp add: demo_busy_def)
  have "bridge_runs ?ws ?ams (start_bridge demo_pool) ?r3"
    unfolding bridge_runs_def using s1 s2 s3 by (meson rtranclp.rtrancl_into_rtrancl rtranclp.rtrancl_refl)
  from bridge_accounts_for_events [OF this] show ?thesis
    by (simp add: handle_event_def demo_busy_def start_bridge_def)
qed

end
