(* ===== verification/Routes.thy ===== *)
theory Routes
  imports Ingress Throttle
begin

text \<open>
  The routes of the ingestion server (\<^verbatim>\<open>SetupRoutes\<close> in internal/ingress/server.go, and the metrics endpoint that cmd/ingest/main.go adds): which handler a
  request reaches, through the optional rate limiter and the authentication. The multiplexer of the standard library is modelled for patterns that
  are a method and a fixed path: \<^verbatim>\<open>GET\<close> also serves \<^verbatim>\<open>HEAD\<close>, an unknown path gives 404, a known path with another method 405. Paths are
  clean; others are redirected to their clean form. The JSON codecs and what the handlers read of the connection are arguments.
\<close>

section \<open>Handlers\<close>

text \<open>The arguments of one request: the two clock readings of the limiter, the clock and the event identifier of a commit, and the address of the peer.\<close>

record request_env =
  re_made :: instant
  re_now :: instant
  re_commit :: instant
  re_eventID :: string
  re_remote :: string

record codecs =
  cd_status :: "string \<Rightarrow> string"
  cd_error :: "string \<Rightarrow> string"
  cd_msg :: "ing_error \<Rightarrow> string"
  cd_initiate :: "InitiateResponse \<Rightarrow> string"
  cd_commit :: "CommitResponse \<Rightarrow> string"

text \<open>A request at the multiplexer: its path, its headers with the method, and what its body decodes to.\<close>

record http_request =
  hr_path :: string
  hr_request :: request
  hr_initiate :: "InitiateRequest option"
  hr_commit :: "CommitRequest option"

text \<open>The limiter, when there is one, beside the store and the events published.\<close>

type_synonym 'st world = "'st \<times> FileCommittedEvent list"
type_synonym 'st served = "RateLimiter option \<times> 'st world"

definition json_reply :: "nat \<Rightarrow> string \<Rightarrow> response" where
  "json_reply status body = \<lparr>rs_Status = status, rs_Header = [(''Content-Type'', ''application/json'')], rs_Body = body\<rparr>"

definition wrapped :: "Ingress.Config \<Rightarrow> codecs \<Rightarrow> nat \<Rightarrow> ('v \<Rightarrow> string) \<Rightarrow> ('w \<Rightarrow> (ing_error + 'v) \<times> 'w) \<Rightarrow> 'w handler" where
  "wrapped conf C ok enc fn r w =
     (case authenticate conf (header (rq_Header r) ''Authorization'') of
        Some e \<Rightarrow> (json_reply 401 (cd_error C ''unauthorized''), w)
      | None \<Rightarrow>
          (case fn w of
             (Inl e, w') \<Rightarrow> (json_reply (HTTPStatus (Some e)) (cd_error C (cd_msg C e)), w')
           | (Inr v, w') \<Rightarrow> (json_reply ok (enc v), w')))"

definition initiate_on :: "uuid_pkg \<Rightarrow> 'st IngressServer \<Rightarrow> request_env \<Rightarrow> http_request \<Rightarrow> 'st world \<Rightarrow> (ing_error + InitiateResponse) \<times> 'st world" where
  "initiate_on U s E q w =
     (case handleInitiate U s (hr_initiate q) (header (rq_Header (hr_request q)) ''X-Forwarded-For'') (re_remote E)
             (header (rq_Header (hr_request q)) ''User-Agent'') (fst w) of
        (r, st) \<Rightarrow> (r, st, snd w))"

definition commit_on :: "uuid_pkg \<Rightarrow> 'st IngressServer \<Rightarrow> request_env \<Rightarrow> http_request \<Rightarrow> 'st world \<Rightarrow> (ing_error + CommitResponse) \<times> 'st world" where
  "commit_on U s E q w =
     (case handleCommit U s (re_commit E) (re_eventID E) (hr_commit q) (fst w) of ((r, evs), st) \<Rightarrow> (r, st, snd w @ evs))"

definition healthz_reply :: "codecs \<Rightarrow> response" where
  "healthz_reply C = \<lparr>rs_Status = 200, rs_Header = [], rs_Body = cd_status C ''ok''\<rparr>"

definition readyz_reply :: "'st IngressServer \<Rightarrow> codecs \<Rightarrow> 'st world \<Rightarrow> response" where
  "readyz_reply s C w =
     (let status = handleReadyz s (fst w)
      in \<lparr>rs_Status = status, rs_Header = [],
          rs_Body = (if status = 200 then cd_status C ''ready'' else cd_error C ''database unreachable'')\<rparr>)"

section \<open>Routes\<close>

text \<open>\<^verbatim>\<open>AllowHTTP\<close> around a handler when a limiter is configured.\<close>

definition limited :: "(rat \<Rightarrow> rat) \<Rightarrow> request_env \<Rightarrow> 'st world handler \<Rightarrow> request \<Rightarrow> 'st served \<Rightarrow> response \<times> 'st served" where
  "limited fl E h r s =
     (case fst s of
        None \<Rightarrow> (case h r (snd s) of (resp, w) \<Rightarrow> (resp, None, w))
      | Some rl \<Rightarrow> (case AllowHTTP fl (re_made E) (re_now E) h r rl (snd s) of (resp, rl', w) \<Rightarrow> (resp, Some rl', w)))"

type_synonym 'st route = "string \<times> string \<times> (http_request \<Rightarrow> 'st served \<Rightarrow> response \<times> 'st served)"

definition SetupRoutes :: "uuid_pkg \<Rightarrow> 'st IngressServer \<Rightarrow> codecs \<Rightarrow> (rat \<Rightarrow> rat) \<Rightarrow> request_env \<Rightarrow> 'st route list" where
  "SetupRoutes U s C fl E =
     [(''GET'', ''/healthz'', \<lambda>q x. (healthz_reply C, x)),
      (''GET'', ''/readyz'', \<lambda>q x. (readyz_reply s C (snd x), x)),
      (''POST'', ''/api/v1/ingest/initiate'',
         \<lambda>q. limited fl E (wrapped (srv_cfg s) C 200 (cd_initiate C) (initiate_on U s E q)) (hr_request q)),
      (''POST'', ''/api/v1/ingest/commit'',
         \<lambda>q. limited fl E (wrapped (srv_cfg s) C 201 (cd_commit C) (commit_on U s E q)) (hr_request q))]"

definition main_mux :: "response \<Rightarrow> 'st route list \<Rightarrow> 'st route list" where
  "main_mux metrics routes = routes @ [(''GET'', ''/metrics'', \<lambda>q x. (metrics, x))]"

definition method_ok :: "string \<Rightarrow> string \<Rightarrow> bool" where
  "method_ok pat m \<longleftrightarrow> pat = m \<or> pat = ''GET'' \<and> m = ''HEAD''"

definition mux_serve :: "'st route list \<Rightarrow> http_request \<Rightarrow> 'st served \<Rightarrow> response \<times> 'st served" where
  "mux_serve routes q x =
     (let here = filter (\<lambda>t. fst (snd t) = hr_path q) routes
      in case List.find (\<lambda>t. method_ok (fst t) (rq_Method (hr_request q))) here of
           Some t \<Rightarrow> snd (snd t) q x
         | None \<Rightarrow>
             (if here = [] then http_Error [] ''404 page not found'' 404
              else http_Error [(''Allow'', if list_ex (\<lambda>t. fst t = ''GET'') here then ''GET, HEAD'' else ''POST'')] ''Method Not Allowed'' 405, x))"

section \<open>What a route lets through\<close>

lemma limited_refuses:
  "RateLimiter_Allow fl (re_made E) (re_now E) (tenant_or ''default'' r) rl = (False, rl') \<Longrightarrow>
   limited fl E h r (Some rl, w) = (\<lparr>rs_Status = 429, rs_Header = [(''Retry-After'', ''1''), (''Content-Type'', ''application/json'')],
     rs_Body = ''{\"error\":\"rate limit exceeded\"}''\<rparr>, Some rl', w)"
  by (simp add: limited_def AllowHTTP_def)

lemma wrapped_refuses:
  assumes "APIToken conf \<noteq> ''''" and "header (rq_Header r) ''Authorization'' \<noteq> ''Bearer '' @ APIToken conf"
  shows "wrapped conf C ok enc fn r w = (json_reply 401 (cd_error C ''unauthorized''), w)"
proof -
  have "authenticate conf (header (rq_Header r) ''Authorization'') \<noteq> None"
    using assms by (simp add: authenticate_None bearer_def)
  then show ?thesis
    by (auto simp: wrapped_def)
qed

lemma limited_wrapped_refuses:
  assumes "APIToken conf \<noteq> ''''" and "header (rq_Header r) ''Authorization'' \<noteq> ''Bearer '' @ APIToken conf"
  shows "snd (snd (limited fl E (wrapped conf C ok enc fn) r x)) = snd x \<and>
    rs_Status (fst (limited fl E (wrapped conf C ok enc fn) r x)) \<in> {401, 429}"
proof (cases "fst x")
  case None
  then show ?thesis
    by (simp add: limited_def wrapped_refuses [OF assms] json_reply_def)
next
  case (Some rl)
  then show ?thesis
    by (simp add: limited_def AllowHTTP_def wrapped_refuses [OF assms] json_reply_def split: prod.split bool.split)
qed

lemmas mux_cases = mux_serve_def main_mux_def SetupRoutes_def method_ok_def Let_def

lemma mux_api:
  assumes "rq_Method (hr_request q) = ''POST''"
  shows "hr_path q = ''/api/v1/ingest/initiate'' \<Longrightarrow> mux_serve (main_mux m (SetupRoutes U s C fl E)) q x =
      limited fl E (wrapped (srv_cfg s) C 200 (cd_initiate C) (initiate_on U s E q)) (hr_request q) x"
    and "hr_path q = ''/api/v1/ingest/commit'' \<Longrightarrow> mux_serve (main_mux m (SetupRoutes U s C fl E)) q x =
      limited fl E (wrapped (srv_cfg s) C 201 (cd_commit C) (commit_on U s E q)) (hr_request q) x"
  using assms by (simp_all add: mux_cases)

text \<open>Every other request leaves everything as it is.\<close>

lemma mux_other:
  assumes "\<not> (rq_Method (hr_request q) = ''POST'' \<and> hr_path q \<in> {''/api/v1/ingest/initiate'', ''/api/v1/ingest/commit''})"
  shows "snd (mux_serve (main_mux m (SetupRoutes U s C fl E)) q x) = x"
  using assms by (simp add: mux_cases) (auto split: option.splits)

text \<open>With a token configured, no request without it changes the store or publishes an event, whatever its path and method; on the two routes of the interface it is answered 401 or 429.\<close>

theorem routes_need_token:
  assumes "APIToken (srv_cfg s) \<noteq> ''''" and "header (rq_Header (hr_request q)) ''Authorization'' \<noteq> ''Bearer '' @ APIToken (srv_cfg s)"
  shows "snd (snd (mux_serve (main_mux m (SetupRoutes U s C fl E)) q x)) = snd x"
    and "hr_path q \<in> {''/api/v1/ingest/initiate'', ''/api/v1/ingest/commit''} \<Longrightarrow> rq_Method (hr_request q) = ''POST'' \<Longrightarrow>
      rs_Status (fst (mux_serve (main_mux m (SetupRoutes U s C fl E)) q x)) \<in> {401, 429}"
proof -
  let ?S = "mux_serve (main_mux m (SetupRoutes U s C fl E)) q x"
  have api: "snd (snd ?S) = snd x \<and> rs_Status (fst ?S) \<in> {401, 429}"
    if "hr_path q \<in> {''/api/v1/ingest/initiate'', ''/api/v1/ingest/commit''}" and "rq_Method (hr_request q) = ''POST''"
    using that(1) by (elim insertE emptyE) (simp_all only: mux_api [OF that(2)] limited_wrapped_refuses [OF assms])
  then show "snd (snd ?S) = snd x"
    using mux_other [of q m U s C fl E x] by (metis (no_types))
  show "rs_Status (fst ?S) \<in> {401, 429}"
    if "hr_path q \<in> {''/api/v1/ingest/initiate'', ''/api/v1/ingest/commit''}" and "rq_Method (hr_request q) = ''POST''"
    using api [OF that] by simp
qed

text \<open>A request to the interface that the limiter refuses is answered 429 and reaches no handler.\<close>

theorem routes_limited:
  assumes "hr_path q \<in> {''/api/v1/ingest/initiate'', ''/api/v1/ingest/commit''}" and "rq_Method (hr_request q) = ''POST''"
    and "RateLimiter_Allow fl (re_made E) (re_now E) (tenant_or ''default'' (hr_request q)) rl = (False, rl')"
  shows "\<exists>resp. mux_serve (main_mux m (SetupRoutes U s C fl E)) q (Some rl, w) = (resp, Some rl', w) \<and> rs_Status resp = 429"
  using assms(1) by (elim insertE emptyE) (simp_all only: mux_api [OF assms(2)] limited_refuses [OF assms(3)], simp_all)

text \<open>A method that the path does not have is refused before limiter and handlers.\<close>

lemma wrong_method_refused:
  assumes "hr_path q = ''/api/v1/ingest/commit''" and "rq_Method (hr_request q) \<noteq> ''POST''"
  shows "mux_serve (main_mux m (SetupRoutes U s C fl E)) q x = (http_Error [(''Allow'', ''POST'')] ''Method Not Allowed'' 405, x)"
  using assms by (auto simp: mux_cases)

text \<open>The limiter comes before the authentication and takes the tenant from a header, so a request without a token uses up the budget of the tenant it names.\<close>

definition demo_post :: "headers \<Rightarrow> http_request" where
  "demo_post hs = \<lparr>hr_path = ''/api/v1/ingest/commit'', hr_request = \<lparr>rq_Method = ''POST'', rq_Header = hs\<rparr>, hr_initiate = None, hr_commit = None\<rparr>"

lemma limiter_spent_without_token:
  fixes s :: "'st IngressServer" and U C E m t w
  assumes "APIToken (srv_cfg s) = ''k''" and "t \<noteq> ''''"
  defines "serve \<equiv> mux_serve (main_mux m (SetupRoutes U s C id E))"
    and "first \<equiv> demo_post [(''X-Tenant-ID'', t)]"
    and "second \<equiv> demo_post [(''X-Tenant-ID'', t), (''Authorization'', ''Bearer k'')]"
  assumes "re_made E = re_now E"
  shows "rs_Status (fst (serve first (Some (NewRateLimiter 1 1), w))) = 401"
    and "rs_Status (fst (serve second (snd (serve first (Some (NewRateLimiter 1 1), w))))) = 429"
  using assms(1,2,6)
  by (simp_all add: serve_def first_def second_def demo_post_def mux_cases limited_def AllowHTTP_def RateLimiter_Allow_def NewRateLimiter_def
      getBucket_def bucket_allow_def Seconds_def tenant_or_def header_def wrapped_def authenticate_def bearer_def json_reply_def)

end
