(* ===== verification/Spec2Isabelle.thy ===== *)
theory Spec2Isabelle
  imports FastCDC Tokens Rbac Ingress Registry Namespace Server GC Throttle Lock Workers Client Billing Identity EventFlow ObjectStorage
    System Telemetry Shutdown Procedures Parallel Bridge Routes
begin

text \<open>
  This library verifies the core of the Aegis file system, a multi-tenant, content-addressed file store
  written in Go. A client cuts a file into content-defined chunks, asks the ingestion server for a session and
  pre-signed URLs for the chunks the store does not hold, uploads them to an edge that checks the
  tokens, and commits a version whose manifest lists the blocks. PostgreSQL holds the namespace,
  versions, manifests, sessions and the block table with its reference counts; Redis holds nonces, locks, rate
  windows, idempotency records and the namespace cache. Garbage collectors remove blocks that nothing
  references, and derivation workers scan and index committed versions. The text of every property carries
  the identifier C\<open>n\<close> of its claim.

  \<^bold>\<open>Common ground.\<close> \<open>Prelude\<close> has the types (strings and byte slices, instants and durations in
  nanoseconds, 64-bit wrap-around, errors as the left side of a sum) and the shared lemmas; \<open>Hex\<close>, \<open>Strconv\<close>, \<open>GoStrings\<close> (splitting,
  joining, trimming, URL-safe Base64) and \<open>Sha256\<close> are the standard-library functions the code computes with, executable, with their round trips. \<open>Hex\<close> also holds
  the hex decoder of \<^verbatim>\<open>internal/cas/gc.go\<close> and proves it equal to the standard one.

  \<^bold>\<open>Chunking.\<close> \<open>FastCDC\<close> is \<^verbatim>\<open>internal/fastcdc/fastcdc.go\<close>: Gear table, two-phase boundary search, buffered reading, \<open>NextChunk\<close>,
  \<open>ChunkAll\<close>. The locale \<open>io_reader\<close> states what a reader promises and is interpreted on the slice reader of the source.
  Loops that read are \<open>partial_function\<close>; that they return is part of the main theorem: chunks tile the input with the right
  offsets, sizes and hashes.

  \<^bold>\<open>Client library.\<close> \<open>Client\<close> is \<^verbatim>\<open>aegis/\<close>: requests, chunk uploads with retries and their goroutines in any order of completion, \<^verbatim>\<open>UploadFile\<close>,
  saved sessions and \<^verbatim>\<open>ResumeUpload\<close>, over a wire, a file system and a codec that are arguments. It is composed with the handlers and
  the store of the server: an upload that reports success has stored exactly the file. \<open>Parallel\<close> has the same goroutines as atomic steps on semaphore, counters
  and error channel: at most ten uploads at once, exact totals, and no interleaving that blocks or runs on.

  \<^bold>\<open>Authentication.\<close> \<open>Keys\<close> (\<^verbatim>\<open>internal/auth/keys.go\<close>), \<open>Replay\<close> (\<^verbatim>\<open>replay.go\<close>), \<open>Tokens\<close> (\<^verbatim>\<open>hmac.go\<close>) and \<open>Rbac\<close> (\<^verbatim>\<open>rbac.go\<close>). The locales
  \<open>kms_client\<close>, \<open>nonce_store\<close> and \<open>token_perimeter\<close> are the interfaces the validator rests on; they are interpreted on the static
  key service and the in-memory nonce store. Shown: acceptance characterised exactly, minted tokens accepted, a
  nonce accepted once, the nonce spent only after the signature, unambiguous messages, the overlap window of keys.

  \<^bold>\<open>Metadata, blocks and ingestion.\<close> \<open>Metadata\<close> is the schema with the checks and triggers the statements rely on (\<^verbatim>\<open>db/schema.sql\<close>).
  \<open>Registry\<close> is \<^verbatim>\<open>internal/cas\<close>: registry, sweep worker and Bloom filter, with the locale \<open>cas_registry\<close>. \<open>Models\<close>, \<open>Store\<close> and \<open>Ingress\<close> are
  \<^verbatim>\<open>internal/ingress\<close>: wire types and errors, both stores behind the locale \<open>ingest_store\<close>, and the handlers. Shown: a commit is
  atomic, writes exactly the request, keeps the reference protocol, succeeds when it is ready and happens at most once; its
  event describes it; an initiate opens a session for exactly the missing chunks; the sweep never removes a referenced row. \<open>Routes\<close> is which handler
  a request reaches, through limiter and authentication: without the token nothing changes.

  \<^bold>\<open>The whole system.\<close> \<open>System\<close> puts the components that write the tables together. The abstract store is a history of immutable versions for
  every node, to which a commit appends. The concrete system runs the statements of requests, collectors and reaper in any order with any
  faults. The locale \<open>refinement\<close> is the simulation argument, interpreted on this system: every run refines the abstract
  store, an acknowledged commit is durable, and its blocks stay stored. That handlers, sweep worker and pipeline act only through
  these statements is proved of their definitions; for the pipeline it is a second interpretation of \<open>gc_backend\<close>.

  \<^bold>\<open>Namespace.\<close> \<open>Namespace\<close> is the table of nodes with its lineage paths: the trigger and the procedures of \<^verbatim>\<open>db/stored-procedures.sql\<close> and the
  client operations that call them. A path is the list of identifiers its labels spell. Shown for every sequence of inserts, moves
  and soft deletes: the table stays a forest and paths spell the ancestors; a move changes exactly the subtree; the cached read
  after a move sees it. That two moves at once can leave a stale path is shown on a concrete schedule. \<open>Procedures\<close> has the procedures that
  the Go code does not call: the trigger on removed manifest rows, which keeps the counts when a version is deleted, and the collection
  procedures, which agree with the statements of the registry.

  \<^bold>\<open>Middlewares.\<close> \<open>Throttle\<close> is \<^verbatim>\<open>ratelimit.go\<close>, \<^verbatim>\<open>redis_ratelimit.go\<close>, \<^verbatim>\<open>idempotency.go\<close> and \<^verbatim>\<open>cors.go\<close>: bounds on what the bucket and the
  window admit, and at most one execution for an idempotency key in every interleaving.

  \<^bold>\<open>Database client.\<close> \<open>Database\<close> (\<^verbatim>\<open>internal/database/config.go\<close>, \<^verbatim>\<open>failover.go\<close>, \<^verbatim>\<open>client.go\<close>) has the breaker as whole calls and as a step relation on
  its atomic accesses, routing and the release of connections; \<open>NsCache\<close> (\<^verbatim>\<open>cache.go\<close>) the generational cache and a step relation in which
  reads, commits and bumps interleave, with the invariant that a read after the bump is never stale.

  \<open>Pools\<close> has the start, shutdown, statistics and metrics of the client (\<^verbatim>\<open>client.go\<close>, \<^verbatim>\<open>metrics.go\<close>): which pools a start opens, that closing
  gives back exactly these, and that the reported wait is the nearest-rank percentile of the recent ones.

  \<^bold>\<open>Collection and coordination.\<close> \<open>GC\<close> is \<^verbatim>\<open>internal/gc\<close> with the adapters of \<^verbatim>\<open>cmd/ingest/gc_adapter.go\<close>, over the locales \<open>gc_reads\<close> and \<open>gc_backend\<close>:
  the reference protocol under interference and faults, the rate limit, dry runs. \<open>Lock\<close> is \<^verbatim>\<open>internal/lock\<close>: the Redis lock with its
  scripts, the advisory lock and leader election as a step relation of a cluster with lost messages; at most one node leads within its lease.
  \<open>Background\<close> is the goroutines that run these jobs, as a step relation with ticks, stop signals, cancellation and restarts; the locale
  \<open>background_jobs\<close> is interpreted on the pipeline, the sweep worker and the session reaper.

  \<^bold>\<open>Derivation.\<close> \<open>Derivation\<close> is \<^verbatim>\<open>internal/derivation\<close> and \<^verbatim>\<open>cmd/ingest/derivation_bridge.go\<close>: retries, dead letters and the worker pool, whose
  interleaved goroutines refine the sequential execution and always end. \<open>Bridge\<close> interleaves publishers with the consumer of the bridge, its stop and
  its drain: every accepted event is accounted for. \<open>Workers\<close> is \<^verbatim>\<open>internal/workers\<close> and the server's wiring, with
  the locale \<open>derivation_worker\<close> interpreted on the four workers. \<open>Fakes\<close> (\<^verbatim>\<open>internal/workers/fakes.go\<close>) are the in-memory tools of the worker
  service.

  \<^bold>\<open>Events and storage.\<close> \<open>EventFlow\<close> is \<^verbatim>\<open>internal/events\<close> and \<^verbatim>\<open>internal/cdc\<close>: the bus, the consumer and the change router over a broker that is an
  argument; every message the consumer commits is accounted for. \<open>ObjectStorage\<close> is \<^verbatim>\<open>internal/objectstorage\<close>: the S3 and MinIO drivers call by
  call, and that they agree.

  \<^bold>\<open>Billing and identity.\<close> \<open>Billing\<close> is \<^verbatim>\<open>internal/billing\<close>: API keys, signed licences, meters and the Stripe webhook. \<open>Identity\<close> is \<^verbatim>\<open>internal/auth/sso.go\<close>
  and \<^verbatim>\<open>scim.go\<close>: the registry of identity providers and the provisioned users.

  \<^bold>\<open>Processes.\<close> \<open>Server\<close> is the HTTP plumbing of \<^verbatim>\<open>internal/ingress/server.go\<close> and \<^verbatim>\<open>audit.go\<close> (the status that is logged is the one sent), the
  configuration that \<^verbatim>\<open>cmd/ingest\<close>, \<^verbatim>\<open>cmd/cdc-router\<close> and \<^verbatim>\<open>cmd/worker\<close> build from flags and environment, and the migration command. \<open>Shutdown\<close> is the
  life of the ingestion process after its setup: listener, signal, \<^verbatim>\<open>Shutdown\<close> and deferred calls, their order and that the process ends.
  \<open>Telemetry\<close> is \<^verbatim>\<open>internal/telemetry\<close>, the collectors of the other packages, the storage gauges and the operation log.

  \<^bold>\<open>What is an argument.\<close> Code outside the repository is a parameter with named laws: the UUID package, the SQL driver's
  faults, the Redis client (\<open>redis_laws\<close>, \<open>idem_laws\<close>), Prometheus registries (\<open>registers\<close>), JSON codecs, URL parsing, block stores and publishers, scanners and
  extractors; so are clock readings, entropy, lost messages and the rounding of \<^verbatim>\<open>float64\<close> (\<open>fl_ok\<close>). Where a law is
  assumed, a witness instantiates the parameter with a concrete function.

  \<^bold>\<open>Recursion.\<close> No model uses fuel: loops are structural or have a termination measure, except the reading loops of
  \<open>FastCDC\<close>, for which returning is proved. Retry attempts are bounded by the configuration, goroutines of an event by five shared steps each.

  \<^bold>\<open>Not modelled.\<close> The wait for a signal and the closing of the readers in \<^verbatim>\<open>cmd/cdc-router\<close> and \<^verbatim>\<open>cmd/worker\<close> are left out, and so are materialized
  views, indexes and grants of the database, help texts and buckets of collectors, and most log lines: they do not act on the
  modelled state. JSON texts are arguments: handlers take decoded requests, and errors of the ingestion server are the sentinels they wrap.
\<close>

end
